(* ===== verification/Prelude.thy ===== *)
theory Prelude
  imports Main "HOL-Library.Word" "HOL-Library.Multiset"
begin

text \<open>
  Shared vocabulary of the development: the machine types of the Go sources, outcomes of
  functions that may panic, the parts of the Go standard library the components use
  (\<open>strings\<close>, \<open>strconv\<close>, \<open>encoding/hex\<close>) and attribute maps, with the lemma collections
  the component theories share.  A Go \<open>string\<close> is a sequence of bytes, and so is a HOL
  \<open>string\<close> (a list of 8-bit characters).
\<close>

unbundle bit_operations_syntax

named_theorems go_str_simps \<open>evaluation of the string operations\<close>
named_theorems put_simps \<open>lookups after a sequence of attribute writes\<close>

section \<open>Machine types and outcomes\<close>

type_synonym byte = "8 word"
type_synonym u16 = "16 word"
type_synonym i32 = "32 word"
type_synonym u32 = "32 word"
type_synonym i64 = "64 word"
type_synonym u64 = "64 word"
type_synonym float64 = "64 word" \<comment> \<open>the IEEE bit pattern\<close>
type_synonym timestamp = "64 word"
type_synonym go_error = string \<comment> \<open>an error value, by its message\<close>

text \<open>A call that may panic either returns or panics; an error value is part of what it returns.\<close>

datatype 'a outcome = Ret 'a | Panic

fun bind_outcome :: "'a outcome \<Rightarrow> ('a \<Rightarrow> 'b outcome) \<Rightarrow> 'b outcome" where
  "bind_outcome (Ret x) f = f x"
| "bind_outcome Panic f = Panic"

lemma bind_outcome_Ret_iff:
  "bind_outcome m f = Ret y \<longleftrightarrow> (\<exists>x. m = Ret x \<and> f x = Ret y)"
  by (cases m) auto

section \<open>The package strings\<close>

definition has_prefix :: "string \<Rightarrow> string \<Rightarrow> bool" where
  "has_prefix s p \<longleftrightarrow> take (length p) s = p"

fun index_byte :: "char \<Rightarrow> string \<Rightarrow> nat option" where
  "index_byte b [] = None"
| "index_byte b (c # cs) = (if c = b then Some 0 else map_option Suc (index_byte b cs))"

fun last_index_byte :: "char \<Rightarrow> string \<Rightarrow> nat option" where
  "last_index_byte b [] = None"
| "last_index_byte b (c # cs) =
     (case last_index_byte b cs of
        Some i \<Rightarrow> Some (Suc i)
      | None \<Rightarrow> if c = b then Some 0 else None)"

fun index_str :: "string \<Rightarrow> string \<Rightarrow> nat option" where
  "index_str sep [] = (if sep = [] then Some 0 else None)"
| "index_str sep (c # cs) =
     (if has_prefix (c # cs) sep then Some 0 else map_option Suc (index_str sep cs))"

definition contains_str :: "string \<Rightarrow> string \<Rightarrow> bool" where
  "contains_str s sub \<longleftrightarrow> index_str sub s \<noteq> None"

lemma index_str_bound: "index_str sep s = Some i \<Longrightarrow> i + length sep \<le> length s"
  by (induction sep s arbitrary: i rule: index_str.induct)
    (auto simp: has_prefix_def split: if_splits dest: arg_cong [of _ _ length])

text \<open>\<open>strings.Split\<close> for a non-empty separator: cut at the leftmost occurrence, again and again.\<close>

function split_str :: "string \<Rightarrow> string \<Rightarrow> string list" where
  "split_str sep s =
     (if sep = [] then [s]
      else case index_str sep s of
             None \<Rightarrow> [s]
           | Some i \<Rightarrow> take i s # split_str sep (drop (i + length sep) s))"
  by pat_completeness auto
termination
proof (relation "measure (\<lambda>(sep, s). length s)")
  fix sep s i
  assume "sep \<noteq> []" and "index_str sep s = Some i"
  then have "0 < length sep" and "i + length sep \<le> length s"
    by (auto dest: index_str_bound)
  then have "length (drop (i + length sep) s) < length s"
    unfolding length_drop by arith
  then show "((sep, drop (i + length sep) s), sep, s) \<in> measure (\<lambda>(sep, s). length s)"
    by simp
qed simp

declare split_str.simps [simp del, go_str_simps]

lemma index_str_app: "index_str sep s = Some i \<Longrightarrow> take i s @ sep @ drop (i + length sep) s = s"
proof (induction sep s arbitrary: i rule: index_str.induct)
  case (1 sep)
  then show ?case by (auto split: if_splits)
next
  case (2 sep c cs)
  show ?case
  proof (cases "has_prefix (c # cs) sep")
    case True
    with "2.prems" have "i = 0" by simp
    moreover from True have "sep @ drop (length sep) (c # cs) = c # cs"
      unfolding has_prefix_def by (metis append_take_drop_id)
    ultimately show ?thesis by simp
  next
    case False
    with 2 show ?thesis by auto
  qed
qed

lemma split_str_nonempty: "split_str sep s \<noteq> []"
  by (subst split_str.simps) (simp split: option.split)

lemma split_str_absent: "\<not> contains_str s sep \<Longrightarrow> split_str sep s = [s]"
  by (subst split_str.simps) (simp add: contains_str_def)

lemma split_str_length:
  "sep \<noteq> [] \<Longrightarrow> contains_str s sep \<Longrightarrow> 2 \<le> length (split_str sep s)"
  by (subst split_str.simps)
    (auto simp: contains_str_def Suc_le_eq split_str_nonempty split: option.split)

lemma index_byte_bound: "index_byte b s = Some i \<Longrightarrow> i < length s \<and> s ! i = b"
  by (induction b s arbitrary: i rule: index_byte.induct) (auto split: if_splits)

lemma index_byte_append:
  "b \<notin> set xs \<Longrightarrow> index_byte b (xs @ b # ys) = Some (length xs)"
  by (induction xs) auto

lemma index_byte_None: "index_byte b s = None \<longleftrightarrow> b \<notin> set s"
  by (induction b s rule: index_byte.induct) auto

lemma last_index_byte_None: "last_index_byte b s = None \<longleftrightarrow> b \<notin> set s"
  by (induction b s rule: last_index_byte.induct) (auto split: option.splits)

lemma last_index_byte_append:
  "b \<notin> set ys \<Longrightarrow> last_index_byte b (xs @ b # ys) = Some (length xs)"
  by (induction xs) (auto simp: last_index_byte_None [THEN iffD2])


section \<open>The package strconv\<close>

datatype num_error = ErrSyntax | ErrRange

definition digit_val :: "char \<Rightarrow> nat" where
  "digit_val c = (of_char c :: nat) - 48"

definition is_digit :: "char \<Rightarrow> bool" where
  "is_digit c \<longleftrightarrow> 48 \<le> (of_char c :: nat) \<and> (of_char c :: nat) \<le> 57"

text \<open>
  The digit loop of \<open>ParseUint(s, 10, w)\<close>: a non-digit is a syntax error, and passing the
  largest value is a range error at that digit, whatever follows it.
\<close>

fun parse_digits :: "nat \<Rightarrow> nat \<Rightarrow> string \<Rightarrow> num_error + nat" where
  "parse_digits M n [] = Inr n"
| "parse_digits M n (c # cs) =
     (if \<not> is_digit c then Inl ErrSyntax
      else let n1 = n * 10 + digit_val c
           in if n1 > M then Inl ErrRange else parse_digits M n1 cs)"

text \<open>\<open>ParseInt(s, 10, w)\<close>: value and error; the value is clamped on a range error.\<close>

definition parse_int :: "nat \<Rightarrow> string \<Rightarrow> int \<times> num_error option" where
  "parse_int w s =
     (let neg = (case s of c # _ \<Rightarrow> c = CHR ''-'' | [] \<Rightarrow> False);
          body = (case s of c # cs \<Rightarrow> if c = CHR ''-'' \<or> c = CHR ''+'' then cs else s | [] \<Rightarrow> s);
          cutoff = (2::int) ^ (w - 1)
      in if body = [] then (0, Some ErrSyntax)
         else case parse_digits (2 ^ w - 1) 0 body of
                Inl ErrSyntax \<Rightarrow> (0, Some ErrSyntax)
              | Inl ErrRange \<Rightarrow> (if neg then - cutoff else cutoff - 1, Some ErrRange)
              | Inr un \<Rightarrow>
                  if \<not> neg \<and> cutoff \<le> int un then (cutoff - 1, Some ErrRange)
                  else if neg \<and> cutoff < int un then (- cutoff, Some ErrRange)
                  else (if neg then - int un else int un, None))"

definition atoi :: "string \<Rightarrow> int \<times> num_error option" where
  "atoi s = parse_int 64 s"

lemma parse_digits_bound: "n \<le> M \<Longrightarrow> parse_digits M n s = Inr k \<Longrightarrow> k \<le> M"
  by (induction M n s rule: parse_digits.induct) (auto simp: Let_def split: if_splits)

lemma neg_int_less_power: "- int x < 2 ^ k"
  by (rule le_less_trans [of _ 0]) simp_all

lemma neg_power_le_int: "- (2 ^ k) \<le> int x"
  by (rule order_trans [of _ 0]) simp_all

lemma parse_int_range:
  assumes "0 < w" and "parse_int w s = (v, e)"
  shows "- (2 ^ (w - 1)) \<le> v \<and> v < (2::int) ^ (w - 1)"
  using assms unfolding parse_int_def Let_def
  by (auto simp: neg_int_less_power neg_power_le_int split: if_splits sum.splits num_error.splits)

text \<open>Decimal output (\<open>strconv.Itoa\<close>, \<open>strconv.FormatUint(n, 10)\<close>) and its inverse law.\<close>

fun show_nat :: "nat \<Rightarrow> string" where
  "show_nat n = (if n < 10 then [char_of (48 + n)] else show_nat (n div 10) @ [char_of (48 + n mod 10)])"

declare show_nat.simps [simp del]

definition itoa :: "int \<Rightarrow> string" where
  "itoa i = (if i < 0 then CHR ''-'' # show_nat (nat (- i)) else show_nat (nat i))"

lemma digit_char: "n < 10 \<Longrightarrow> is_digit (char_of (48 + n)) \<and> digit_val (char_of (48 + n)) = n"
  by (simp add: is_digit_def digit_val_def)

lemma parse_digits_append:
  "parse_digits M n (s @ [c]) =
     (case parse_digits M n s of
        Inl e \<Rightarrow> Inl e
      | Inr k \<Rightarrow> parse_digits M k [c])"
  by (induction M n s rule: parse_digits.induct) (auto simp: Let_def)

lemma show_nat_nonempty [simp]: "show_nat n \<noteq> []"
  by (subst show_nat.simps) simp

lemma show_nat_digits: "\<forall>c \<in> set (show_nat n). is_digit c"
proof (induction n rule: show_nat.induct)
  case (1 n)
  then show ?case
    by (subst show_nat.simps) (use digit_char [of "n mod 10"] digit_char [of n] in auto)
qed

lemma parse_digits_show_nat: "n \<le> M \<Longrightarrow> parse_digits M 0 (show_nat n) = Inr n"
proof (induction n rule: show_nat.induct)
  case (1 n)
  show ?case
  proof (cases "n < 10")
    case True
    with digit_char [OF True] 1 show ?thesis
      by (subst show_nat.simps) (simp add: Let_def)
  next
    case False
    then have "parse_digits M 0 (show_nat (n div 10)) = Inr (n div 10)"
      using 1 by simp
    with False digit_char [of "n mod 10"] 1 show ?thesis
      by (subst show_nat.simps) (simp add: parse_digits_append Let_def)
  qed
qed

lemma show_nat_hd: "hd (show_nat n) \<noteq> CHR ''-'' \<and> hd (show_nat n) \<noteq> CHR ''+''"
proof -
  have "is_digit (hd (show_nat n))"
    using show_nat_digits [of n] by simp
  then show ?thesis by (auto simp: is_digit_def)
qed

lemma parse_int_show_nat:
  assumes "0 < w" and "int n < 2 ^ (w - 1)"
  shows "parse_int w (show_nat n) = (int n, None)"
proof -
  from assms(2) have "n < 2 ^ (w - 1)" by simp
  then have "n < 2 ^ w"
    by (rule less_le_trans) (simp add: power_increasing)
  then have "n \<le> 2 ^ w - 1" by simp
  then have "parse_digits (2 ^ w - 1) 0 (show_nat n) = Inr n"
    by (rule parse_digits_show_nat)
  moreover obtain c cs where "show_nat n = c # cs"
    by (meson neq_Nil_conv show_nat_nonempty)
  moreover have "c \<noteq> CHR ''-'' \<and> c \<noteq> CHR ''+''"
    using show_nat_hd [of n] calculation(2) by simp
  ultimately show ?thesis
    using assms(2) by (simp add: parse_int_def Let_def)
qed


section \<open>The package encoding/hex\<close>

definition from_hex_char :: "char \<Rightarrow> nat option" where
  "from_hex_char c =
     (let n = (of_char c :: nat)
      in if 48 \<le> n \<and> n \<le> 57 then Some (n - 48)
         else if 97 \<le> n \<and> n \<le> 102 then Some (n - 97 + 10)
         else if 65 \<le> n \<and> n \<le> 70 then Some (n - 65 + 10)
         else None)"

text \<open>
  The loop of \<open>hex.Decode\<close>: the bytes of the pairs before the first bad one, and whether the
  whole source was well formed (an odd length is an error).
\<close>

fun hex_pairs :: "string \<Rightarrow> byte list \<times> bool" where
  "hex_pairs [] = ([], True)"
| "hex_pairs [c] = ([], False)"
| "hex_pairs (a # b # cs) =
     (case from_hex_char a of
        None \<Rightarrow> ([], False)
      | Some x \<Rightarrow>
          (case from_hex_char b of
             None \<Rightarrow> ([], False)
           | Some y \<Rightarrow> (case hex_pairs cs of (bs, ok) \<Rightarrow> (word_of_nat (x * 16 + y) # bs, ok))))"

text \<open>
  \<open>hex.Decode\<close> into a zeroed buffer of \<open>n\<close> bytes (the code sizes the buffers so that the
  decoded bytes fit): what was not written stays zero, and the flag is \<open>err == nil\<close>.
\<close>

definition hex_decode :: "nat \<Rightarrow> string \<Rightarrow> byte list \<times> bool" where
  "hex_decode n s = (case hex_pairs s of (bs, ok) \<Rightarrow> (bs @ replicate (n - length bs) 0, ok))"

definition hex_digit :: "nat \<Rightarrow> char" where
  "hex_digit n = (if n < 10 then char_of (48 + n) else char_of (87 + n))"

definition hex_encode :: "byte list \<Rightarrow> string" where
  "hex_encode bs = concat (map (\<lambda>b. [hex_digit (unat b div 16), hex_digit (unat b mod 16)]) bs)"

lemma from_hex_char_bound: "from_hex_char c = Some n \<Longrightarrow> n < 16"
  by (auto simp: from_hex_char_def Let_def split: if_splits)

lemma hex_digit_inverse: "n < 16 \<Longrightarrow> from_hex_char (hex_digit n) = Some n"
  by (simp add: from_hex_char_def hex_digit_def Let_def)

lemma hex_pairs_length: "hex_pairs s = (bs, ok) \<Longrightarrow> length bs \<le> length s div 2"
  by (induction s arbitrary: bs ok rule: hex_pairs.induct)
    (auto split: option.splits prod.splits)

lemma hex_pairs_ok: "hex_pairs s = (bs, True) \<Longrightarrow> length s = 2 * length bs"
  by (induction s arbitrary: bs rule: hex_pairs.induct)
    (auto split: option.splits prod.splits)

lemma hex_pairs_encode: "hex_pairs (hex_encode bs) = (bs, True)"
proof (induction bs)
  case Nil
  then show ?case by (simp add: hex_encode_def)
next
  case (Cons b bs)
  have "unat b < 256" using unsigned_less [of b] by simp
  then have "unat b div 16 < 16" and "unat b mod 16 < 16" by auto
  with Cons show ?case
    by (simp add: hex_encode_def hex_digit_inverse div_mult_mod_eq)
qed

lemma length_hex_encode: "length (hex_encode bs) = 2 * length bs"
  by (induction bs) (auto simp: hex_encode_def)

lemma hex_decode_encode: "hex_decode (length bs) (hex_encode bs) = (bs, True)"
  by (simp add: hex_decode_def hex_pairs_encode)

lemma hex_decode_length:
  "length s div 2 \<le> n \<Longrightarrow> length (fst (hex_decode n s)) = n"
  by (auto simp: hex_decode_def split: prod.splits dest!: hex_pairs_length)

section \<open>Attribute maps\<close>

text \<open>
  The attribute maps of telemetry data (\<open>pcommon.Map\<close>) are maps from keys to values;
  \<open>PutStr\<close>, \<open>PutInt\<close> and \<open>PutDouble\<close> insert the key or replace its value.
\<close>

datatype attr_val = AStr string | AInt i64 | ADouble float64 | ABool bool

type_synonym attrs = "string \<rightharpoonup> attr_val"

definition put_str :: "string \<Rightarrow> string \<Rightarrow> attrs \<Rightarrow> attrs" where
  "put_str k v m = m(k \<mapsto> AStr v)"

definition put_int :: "string \<Rightarrow> i64 \<Rightarrow> attrs \<Rightarrow> attrs" where
  "put_int k v m = m(k \<mapsto> AInt v)"

definition put_double :: "string \<Rightarrow> float64 \<Rightarrow> attrs \<Rightarrow> attrs" where
  "put_double k v m = m(k \<mapsto> ADouble v)"

text \<open>
  Ranging over a Go map visits its entries once each, in an order the language does not fix:
  the model takes the entries as an association list in the order of the visit.
\<close>

fun put_strs :: "(string \<times> string) list \<Rightarrow> attrs \<Rightarrow> attrs" where
  "put_strs [] m = m"
| "put_strs ((k, v) # kvs) m = put_strs kvs (put_str k v m)"

lemma put_lookup [simp, put_simps]:
  "put_str k v m x = (if x = k then Some (AStr v) else m x)"
  "put_int k i m x = (if x = k then Some (AInt i) else m x)"
  "put_double k d m x = (if x = k then Some (ADouble d) else m x)"
  by (simp_all add: put_str_def put_int_def put_double_def)

lemma put_strs_lookup [put_simps]:
  "put_strs kvs m x =
     (case map_of (rev kvs) x of Some v \<Rightarrow> Some (AStr v) | None \<Rightarrow> m x)"
  by (induction kvs arbitrary: m) (auto simp: map_add_def split: option.splits)

lemma put_strs_append: "put_strs (xs @ ys) m = put_strs ys (put_strs xs m)"
  by (induction xs arbitrary: m) auto

lemma put_strs_other: "x \<notin> fst ` set kvs \<Longrightarrow> put_strs kvs m x = m x"
  by (induction kvs arbitrary: m) auto

text \<open>The visit order does not matter when the keys written are distinct.\<close>

lemma map_of_visit_order:
  assumes "distinct (map fst xs)" and "mset xs = mset ys"
  shows "map_of xs = map_of ys"
proof
  fix k
  from assms(2) have "mset (map fst xs) = mset (map fst ys)" by simp
  with assms(1) have "distinct (map fst ys)"
    by (metis mset_eq_imp_distinct_iff)
  moreover from assms(2) have "set xs = set ys" by (rule mset_eq_setD)
  ultimately show "map_of xs k = map_of ys k"
    using assms(1) by (metis map_of_eq_Some_iff not_Some_eq)
qed

lemma put_strs_visit_order:
  assumes "distinct (map fst xs)" and "mset xs = mset ys"
  shows "put_strs xs m = put_strs ys m"
proof
  fix k
  have "map_of (rev xs) = map_of (rev ys)"
    by (rule map_of_visit_order) (use assms in \<open>simp_all add: rev_map [symmetric]\<close>)
  then show "put_strs xs m k = put_strs ys m k"
    by (simp add: put_strs_lookup)
qed


section \<open>Go maps from strings to strings\<close>

text \<open>
  A \<open>map[string]string\<close> is an association list with distinct keys, in the order in which a
  range loop visits it.  A missing key reads as the empty string.
\<close>

type_synonym gomap = "(string \<times> string) list"

definition gm_get :: "gomap \<Rightarrow> string \<Rightarrow> string" where
  "gm_get m k = (case map_of m k of None \<Rightarrow> [] | Some v \<Rightarrow> v)"

definition gm_delete :: "string \<Rightarrow> gomap \<Rightarrow> gomap" where
  "gm_delete k m = [(k', v) \<leftarrow> m. k' \<noteq> k]"

definition gm_put :: "string \<Rightarrow> string \<Rightarrow> gomap \<Rightarrow> gomap" where
  "gm_put k v m = gm_delete k m @ [(k, v)]"

lemma gm_delete_lookup: "map_of (gm_delete k m) = (map_of m)(k := None)"
  by (induction m) (auto simp: gm_delete_def)

lemma gm_put_lookup: "map_of (gm_put k v m) = (map_of m)(k \<mapsto> v)"
  by (auto simp: gm_put_def gm_delete_lookup map_add_def fun_eq_iff split: option.split)

lemma gm_delete_notin [simp]: "(k, v) \<notin> set (gm_delete k m)"
  by (simp add: gm_delete_def)

lemma gm_delete_keys: "fst ` set (gm_delete k m) = fst ` set m - {k}"
  by (auto simp: gm_delete_def)

lemma gm_delete_distinct: "distinct (map fst m) \<Longrightarrow> distinct (map fst (gm_delete k m))"
  by (induction m) (auto simp: gm_delete_def)

lemma gm_put_distinct: "distinct (map fst m) \<Longrightarrow> distinct (map fst (gm_put k v m))"
  using gm_delete_keys [of k m] by (auto simp: gm_put_def gm_delete_distinct)

end
