(* ===== verification/Pdata.thy ===== *)
theory Pdata
  imports Prelude
begin

text \<open>
  The telemetry containers the receivers fill (the \<open>ptrace\<close>, \<open>pmetric\<close> and \<open>plog\<close> packages of
  the collector), as far as the sources set their fields, and the results of the consumers the
  receivers hand them to.
\<close>

section \<open>Traces\<close>

text \<open>Kinds and status codes are 32-bit numbers; those that have no name keep their number.\<close>

datatype span_kind =
    KindUnspecified | KindInternal | KindServer | KindClient | KindProducer | KindConsumer | KindOther "32 word"

datatype status_code = StatusUnset | StatusOk | StatusError | StatusOther "32 word"

record ot_link =
  link_trace_id :: "byte list"
  link_span_id :: "byte list"
  link_trace_state :: string
  link_attrs :: attrs

record ot_event =
  event_name :: string
  event_time :: timestamp
  event_attrs :: attrs

record ot_span =
  os_trace_id :: "byte list"
  os_span_id :: "byte list"
  os_parent_id :: "byte list"
  os_trace_state :: string
  os_name :: string
  os_start :: timestamp
  os_end :: timestamp
  os_attrs :: attrs
  os_kind :: span_kind
  os_status :: status_code
  os_message :: string
  os_events :: "ot_event list"
  os_links :: "ot_link list"

record 'a scoped =
  scope_name :: string
  scope_version :: string
  scope_items :: "'a list"

record 'a ot_resource =
  res_attrs :: attrs
  res_scopes :: "'a scoped list"

type_synonym 'a telemetry = "'a ot_resource list"
type_synonym traces = "ot_span telemetry"

text \<open>What \<open>AppendEmpty\<close> appends.\<close>

definition empty_link :: ot_link where
  "empty_link = \<lparr>link_trace_id = replicate 16 0, link_span_id = replicate 8 0,
                 link_trace_state = [], link_attrs = Map.empty\<rparr>"

definition empty_event :: ot_event where
  "empty_event = \<lparr>event_name = [], event_time = 0, event_attrs = Map.empty\<rparr>"

definition empty_span :: ot_span where
  "empty_span =
     \<lparr>os_trace_id = replicate 16 0, os_span_id = replicate 8 0, os_parent_id = replicate 8 0, os_trace_state = [],
      os_name = [], os_start = 0, os_end = 0, os_attrs = Map.empty, os_kind = KindUnspecified,
      os_status = StatusUnset, os_message = [], os_events = [], os_links = []\<rparr>"

definition empty_scope :: "'a scoped" where
  "empty_scope = \<lparr>scope_name = [], scope_version = [], scope_items = []\<rparr>"

definition empty_resource :: "'a ot_resource" where
  "empty_resource = \<lparr>res_attrs = Map.empty, res_scopes = []\<rparr>"

text \<open>\<open>SpanCount\<close>, \<open>LogRecordCount\<close>, \<open>MetricCount\<close>: the items of all scopes of all resources.\<close>

definition items :: "'a telemetry \<Rightarrow> 'a list" where
  "items t = concat (map (\<lambda>r. concat (map scope_items (res_scopes r))) t)"

definition item_count :: "'a telemetry \<Rightarrow> nat" where
  "item_count t = sum_list (map (\<lambda>r. sum_list (map (length \<circ> scope_items) (res_scopes r))) t)"

lemma item_count_items: "item_count t = length (items t)"
  by (simp add: item_count_def items_def length_concat comp_def)

lemma items_append [simp]: "items (xs @ ys) = items xs @ items ys"
  by (simp add: items_def)

lemma item_count_append [simp]: "item_count (xs @ ys) = item_count xs + item_count ys"
  by (simp add: item_count_def)

lemma empty_sizes [simp]:
  "scope_items empty_scope = []" "res_scopes empty_resource = []" "items [] = []" "item_count [] = 0"
  by (simp_all add: empty_scope_def empty_resource_def items_def item_count_def)

section \<open>Metrics\<close>

datatype metric_type =
    MetricTypeEmpty | MetricTypeGauge | MetricTypeSum | MetricTypeHistogram
  | MetricTypeExponentialHistogram | MetricTypeSummary

record number_point =
  np_value :: attr_val \<comment> \<open>an integer or a double\<close>
  np_time :: timestamp
  np_attrs :: attrs

record ot_metric =
  metric_name :: string
  metric_unit :: string
  metric_kind :: metric_type
  metric_points :: "number_point list"

definition empty_metric :: ot_metric where
  "empty_metric = \<lparr>metric_name = [], metric_unit = [], metric_kind = MetricTypeEmpty, metric_points = []\<rparr>"

definition empty_point :: number_point where
  "empty_point = \<lparr>np_value = AInt 0, np_time = 0, np_attrs = Map.empty\<rparr>"

text \<open>Visiting groups in another order keeps their elements.\<close>

lemma mset_concat_visit:
  assumes "mset xs = mset ys"
  shows "mset (concat (map f xs)) = mset (concat (map f ys))"
proof -
  have "mset (concat (map f zs)) = sum_mset (image_mset (\<lambda>z. mset (f z)) (mset zs))" for zs
    by (induction zs) auto
  with assms show ?thesis by simp
qed

section \<open>Grouping by a key\<close>

text \<open>
  A map from keys to slices that grow by \<open>append\<close>, as an association list in the order of the
  first use of each key; ranging over the map may visit the groups in any other order.
\<close>

fun assoc_append :: "'k \<Rightarrow> 'v \<Rightarrow> ('k \<times> 'v list) list \<Rightarrow> ('k \<times> 'v list) list" where
  "assoc_append k v [] = [(k, [v])]"
| "assoc_append k v ((k', vs) # gs) =
     (if k' = k then (k', vs @ [v]) # gs else (k', vs) # assoc_append k v gs)"

lemma assoc_append_keys: "fst ` set (assoc_append k v gs) = insert k (fst ` set gs)"
  by (induction k v gs rule: assoc_append.induct) auto

lemma assoc_append_distinct: "distinct (map fst gs) \<Longrightarrow> distinct (map fst (assoc_append k v gs))"
proof (induction k v gs rule: assoc_append.induct)
  case (2 k v k' vs gs)
  then show ?case using assoc_append_keys [of k v gs] by auto
qed simp

lemma assoc_append_lookup:
  "map_of (assoc_append k v gs) = (map_of gs)(k \<mapsto> (case map_of gs k of None \<Rightarrow> [] | Some vs \<Rightarrow> vs) @ [v])"
  by (induction k v gs rule: assoc_append.induct) (auto simp: fun_eq_iff)

lemma assoc_append_mset:
  "mset (concat (map snd (assoc_append k v gs))) = add_mset v (mset (concat (map snd gs)))"
  by (induction k v gs rule: assoc_append.induct) auto

definition group_by :: "('a \<Rightarrow> 'k) \<Rightarrow> ('a \<Rightarrow> 'v) \<Rightarrow> 'a list \<Rightarrow> ('k \<times> 'v list) list \<Rightarrow> ('k \<times> 'v list) list" where
  "group_by key val xs gs = fold (\<lambda>x. assoc_append (key x) (val x)) xs gs"

lemma group_by_simps [simp]:
  "group_by key val [] gs = gs"
  "group_by key val (x # xs) gs = group_by key val xs (assoc_append (key x) (val x) gs)"
  by (simp_all add: group_by_def)

lemma group_by_append: "group_by key val (xs @ ys) gs = group_by key val ys (group_by key val xs gs)"
  by (simp add: group_by_def)

lemma group_by_distinct: "distinct (map fst gs) \<Longrightarrow> distinct (map fst (group_by key val xs gs))"
  by (induction xs arbitrary: gs) (simp_all add: assoc_append_distinct)

lemma group_by_mset:
  "mset (concat (map snd (group_by key val xs gs))) = mset (concat (map snd gs)) + mset (map val xs)"
  by (induction xs arbitrary: gs) (simp_all add: assoc_append_mset)

lemma group_by_lookup:
  "map_of (group_by key val xs gs) k =
     (let new = map val [x \<leftarrow> xs. key x = k] in
      case map_of gs k of Some vs \<Rightarrow> Some (vs @ new) | None \<Rightarrow> if new = [] then None else Some new)"
  by (induction xs arbitrary: gs) (auto simp: assoc_append_lookup Let_def split: option.splits)

text \<open>From no groups: each group holds exactly the elements of its key, in order.\<close>

lemma group_by_member:
  "(k, vs) \<in> set (group_by key val xs []) \<longleftrightarrow> vs = map val [x \<leftarrow> xs. key x = k] \<and> vs \<noteq> []"
proof -
  have "distinct (map fst (group_by key val xs []))" by (rule group_by_distinct) simp
  then have "(k, vs) \<in> set (group_by key val xs []) \<longleftrightarrow> map_of (group_by key val xs []) k = Some vs"
    by simp
  then show ?thesis by (auto simp: group_by_lookup Let_def)
qed

section \<open>Loops that may panic\<close>

text \<open>A loop over a slice that appends one result for each element.\<close>

fun map_outcome :: "('a \<Rightarrow> 'b outcome) \<Rightarrow> 'a list \<Rightarrow> 'b list outcome" where
  "map_outcome f [] = Ret []"
| "map_outcome f (x # xs) =
     bind_outcome (f x) (\<lambda>y. bind_outcome (map_outcome f xs) (\<lambda>ys. Ret (y # ys)))"

lemma map_outcome_Ret_iff: "map_outcome f xs = Ret ys \<longleftrightarrow> list_all2 (\<lambda>x y. f x = Ret y) xs ys"
proof (induction xs arbitrary: ys)
  case (Cons x xs)
  then show ?case by (cases ys) (auto simp: bind_outcome_Ret_iff)
qed auto

lemma map_outcome_length: "map_outcome f xs = Ret ys \<Longrightarrow> length ys = length xs"
  by (simp add: map_outcome_Ret_iff list_all2_lengthD)

lemma map_outcome_total: "(\<And>x. x \<in> set xs \<Longrightarrow> f x \<noteq> Panic) \<Longrightarrow> map_outcome f xs \<noteq> Panic"
proof (induction xs)
  case (Cons x xs)
  then have "f x \<noteq> Panic" and "map_outcome f xs \<noteq> Panic" by auto
  then show ?case by (cases "f x"; cases "map_outcome f xs") auto
qed simp

end
