(* ===== verification/SkywalkingIds.thy ===== *)
theory SkywalkingIds
  imports Prelude
begin

text \<open>
  The identifier translation of \<open>skywalkingproto_to_traces.go\<close>: trace ids, and segment ids with
  span numbers, to the 16- and 8-byte ids of OpenTelemetry.  \<open>uuid.Parse\<close> (a third-party
  package) and \<open>sha256.Sum256\<close> are arguments.
\<close>

section \<open>Slices and byte loops\<close>

text \<open>\<open>s[lo:hi]\<close> on a string; bounds out of order or out of range panic.\<close>

definition slice_str :: "string \<Rightarrow> nat \<Rightarrow> nat \<Rightarrow> string outcome" where
  "slice_str s lo hi =
     (if lo \<le> hi \<and> hi \<le> length s then Ret (take (hi - lo) (drop lo s)) else Panic)"

text \<open>\<open>for i := i; i < hi; i++ { uid[i] ^= byte(x); x >>= 8 }\<close> for an unsigned and a signed \<open>x\<close>.\<close>

function xor_range_u32 :: "nat \<Rightarrow> nat \<Rightarrow> u32 \<Rightarrow> byte list \<Rightarrow> byte list \<times> u32" where
  "xor_range_u32 i hi x uid =
     (if i < hi then xor_range_u32 (Suc i) hi (drop_bit 8 x) (uid[i := uid ! i XOR ucast x])
      else (uid, x))"
  by pat_completeness auto
termination
  by (relation "measure (\<lambda>(i, hi, x, uid). hi - i)") auto

function xor_range_int :: "nat \<Rightarrow> nat \<Rightarrow> i64 \<Rightarrow> byte list \<Rightarrow> byte list" where
  "xor_range_int i hi x uid =
     (if i < hi then xor_range_int (Suc i) hi (signed_drop_bit 8 x) (uid[i := uid ! i XOR ucast x])
      else uid)"
  by pat_completeness auto
termination
  by (relation "measure (\<lambda>(i, hi, x, uid). hi - i)") auto

declare xor_range_u32.simps [simp del] xor_range_int.simps [simp del]

section \<open>The translation\<close>

definition zero_id :: "byte list" where "zero_id = replicate 16 0"

definition sw_string_to_uuid :: "string \<Rightarrow> u32 \<Rightarrow> byte list outcome" where
  "sw_string_to_uuid s extra =
     (if length s < 32 then Ret zero_id
      else
        let (uid, ok) = hex_decode 16 (take 32 s)
        in if \<not> ok then Ret uid
           else
             let (uid1, extra1) = xor_range_u32 0 4 extra uid
             in if length s = 32 then Ret uid1
                else
                  case (index_byte (CHR ''.'') s, last_index_byte (CHR ''.'') s) of
                    (Some i1, Some i2) \<Rightarrow>
                      if i1 \<noteq> 32 then Ret zero_id
                      else bind_outcome (slice_str s (i1 + 1) i2) (\<lambda>mid_str.
                        let (mid, err) = atoi mid_str;
                            mid1 = (word_of_int mid :: i64) + ucast extra1
                        in if err \<noteq> None then Ret zero_id
                           else
                             let (lst, err2) = atoi (drop (i2 + 1) s)
                             in if err2 \<noteq> None then Ret zero_id
                                else Ret (xor_range_int 8 16 (word_of_int lst)
                                           (xor_range_int 4 8 mid1 uid1)))
                  | _ \<Rightarrow> Ret zero_id)"

definition sw_trace_id_to_trace_id ::
    "(string \<Rightarrow> byte list option) \<Rightarrow> string \<Rightarrow> byte list outcome" where
  "sw_trace_id_to_trace_id uuid_parse trace_id =
     (if length trace_id = 32 then Ret (fst (hex_decode 16 trace_id))
      else if length trace_id \<le> 36
      then (case uuid_parse trace_id of None \<Rightarrow> Ret zero_id | Some uid \<Rightarrow> Ret uid)
      else sw_string_to_uuid trace_id 0)"

definition uuid_to_8_bytes :: "(byte list \<Rightarrow> byte list) \<Rightarrow> byte list \<Rightarrow> byte list" where
  "uuid_to_8_bytes sha256 uid = take 8 (sha256 uid)"

definition empty_span_id :: "byte list" where "empty_span_id = replicate 8 0"

definition segment_id_to_span_id ::
    "(byte list \<Rightarrow> byte list) \<Rightarrow> string \<Rightarrow> u32 \<Rightarrow> byte list outcome" where
  "segment_id_to_span_id sha256 segment_id span_id =
     (if length segment_id < 32 then Ret empty_span_id
      else bind_outcome (sw_string_to_uuid segment_id span_id)
             (\<lambda>uid. Ret (uuid_to_8_bytes sha256 uid)))"

text \<open>
  Epoch milliseconds to nanoseconds: \<open>time.UnixMilli(ms).UnixNano()\<close> as a 64-bit count, which
  wraps around outside the representable years.
\<close>

definition microseconds_to_timestamp :: "i64 \<Rightarrow> timestamp" where
  "microseconds_to_timestamp ms = ms * 1000000"

section \<open>The loops in closed form\<close>

text \<open>The little-endian bytes of a machine integer.\<close>

definition le_bytes :: "nat \<Rightarrow> 'a::len word \<Rightarrow> byte list" where
  "le_bytes n x = map (\<lambda>i. ucast (drop_bit (8 * i) x)) [0..<n]"

lemma length_le_bytes [simp]: "length (le_bytes n x) = n"
  by (simp add: le_bytes_def)

lemma nth_le_bytes [simp]: "i < n \<Longrightarrow> le_bytes n x ! i = ucast (drop_bit (8 * i) x)"
  by (simp add: le_bytes_def)

lemma ucast_signed_drop_i64:
  "i < 8 \<Longrightarrow> (ucast (signed_drop_bit (8 * i) (x::i64)) :: byte) = ucast (drop_bit (8 * i) x)"
  by (rule bit_word_eqI) (auto simp: bit_simps)

lemma signed_drop_bit_add:
  "signed_drop_bit m (signed_drop_bit n (x::i64)) = signed_drop_bit (n + m) x"
  by (rule bit_word_eqI) (auto simp: bit_simps ac_simps)

lemma xor_range_u32_nth:
  "hi \<le> length uid \<Longrightarrow>
     length (fst (xor_range_u32 i hi x uid)) = length uid \<and>
     snd (xor_range_u32 i hi x uid) = drop_bit (8 * (hi - i)) x \<and>
     (\<forall>k < length uid. fst (xor_range_u32 i hi x uid) ! k =
        (if i \<le> k \<and> k < hi then uid ! k XOR ucast (drop_bit (8 * (k - i)) x) else uid ! k))"
proof (induction i hi x uid rule: xor_range_u32.induct)
  case (1 i hi x uid)
  show ?case
  proof (cases "i < hi")
    case True
    then have s: "8 * (hi - i) = 8 + 8 * (hi - Suc i)"
      and k: "\<And>k. i < k \<Longrightarrow> 8 * (k - i) = 8 + 8 * (k - Suc i)" by simp_all
    from True "1.IH" "1.prems" show ?thesis
      by (subst (1 2 3) xor_range_u32.simps)
        (auto simp: s k drop_bit_drop_bit nth_list_update add.commute not_less_eq_eq dest: le_antisym)
  next
    case False
    then show ?thesis by (subst (1 2 3) xor_range_u32.simps) auto
  qed
qed

lemma xor_range_int_nth:
  "hi \<le> length uid \<Longrightarrow>
     length (xor_range_int i hi x uid) = length uid \<and>
     (\<forall>k < length uid. xor_range_int i hi x uid ! k =
        (if i \<le> k \<and> k < hi then uid ! k XOR ucast (signed_drop_bit (8 * (k - i)) x) else uid ! k))"
proof (induction i hi x uid rule: xor_range_int.induct)
  case (1 i hi x uid)
  show ?case
  proof (cases "i < hi")
    case True
    then have k: "\<And>k. i < k \<Longrightarrow> 8 * (k - i) = 8 + 8 * (k - Suc i)" by simp
    from True "1.IH" "1.prems" show ?thesis
      by (subst (1 2) xor_range_int.simps)
        (auto simp: k signed_drop_bit_add nth_list_update not_less_eq_eq add.commute dest: le_antisym)
  next
    case False
    then show ?thesis by (subst (1 2) xor_range_int.simps) auto
  qed
qed

lemma extra_used_up: "length uid = 16 \<Longrightarrow> snd (xor_range_u32 0 4 extra uid) = 0"
proof -
  assume "length uid = 16"
  moreover have "drop_bit 32 extra = 0"
    by (rule bit_word_eqI) (simp add: bit_simps)
  ultimately show ?thesis using xor_range_u32_nth [of 4 uid 0 extra] by simp
qed

definition xor_uid :: "byte list \<Rightarrow> byte list \<Rightarrow> byte list" where
  "xor_uid uid ms = map2 (\<lambda>b m. b XOR m) uid ms"

lemma xor_extra_closed:
  assumes "length uid = 16"
  shows "xor_range_u32 0 4 extra uid = (xor_uid uid (le_bytes 4 extra @ replicate 12 0), 0)"
proof (rule prod_eqI)
  note n = xor_range_u32_nth [of 4 uid 0 extra]
  show "fst (xor_range_u32 0 4 extra uid) = fst (xor_uid uid (le_bytes 4 extra @ replicate 12 0), 0)"
    by (rule nth_equalityI) (use n assms in \<open>auto simp: xor_uid_def nth_append\<close>)
  show "snd (xor_range_u32 0 4 extra uid) = snd (xor_uid uid (le_bytes 4 extra @ replicate 12 0), 0)"
    using extra_used_up [OF assms] by simp
qed

lemma xor_all_closed:
  assumes "length uid = 16"
  shows "xor_range_int 8 16 lst (xor_range_int 4 8 mid (xor_uid uid (le_bytes 4 extra @ replicate 12 0))) =
         xor_uid uid (le_bytes 4 extra @ le_bytes 4 mid @ le_bytes 8 lst)" (is "?l = ?r")
proof (rule nth_equalityI)
  let ?u = "xor_uid uid (le_bytes 4 extra @ replicate 12 0)"
  have u: "length ?u = 16" using assms by (simp add: xor_uid_def)
  note m = xor_range_int_nth [of 8 ?u 4 mid]
  note l = xor_range_int_nth [of 16 "xor_range_int 4 8 mid ?u" 8 lst]
  show "length ?l = length ?r" using m l u assms by (simp add: xor_uid_def)
  fix k
  assume "k < length ?l"
  then have k: "k < 16" using m l u by simp
  then show "?l ! k = ?r ! k"
    using m l u assms ucast_signed_drop_i64 [of "k - 4" mid] ucast_signed_drop_i64 [of "k - 8" lst]
    by (auto simp: xor_uid_def nth_append)
qed

lemma xor_uid_inj:
  "length uid = n \<Longrightarrow> length a = n \<Longrightarrow> length b = n \<Longrightarrow> xor_uid uid a = xor_uid uid b \<Longrightarrow> a = b"
proof (induction uid arbitrary: a b n)
  case (Cons u us)
  then obtain x xs y ys where ab: "a = x # xs" "b = y # ys"
    by (metis length_Suc_conv length_Cons)
  from Cons.prems have e: "u XOR x = u XOR y" and r: "xor_uid us xs = xor_uid us ys"
    by (simp_all add: xor_uid_def ab)
  from e have "u XOR (u XOR x) = u XOR (u XOR y)" by simp
  then have "x = y" by (simp add: xor.assoc [symmetric])
  moreover have "xs = ys"
    using Cons.IH [of "length us" xs ys] Cons.prems r by (simp add: ab)
  ultimately show ?case by (simp add: ab)
qed simp

lemma le_bytes_4_inj:
  assumes "le_bytes 4 (x::u32) = le_bytes 4 y"
  shows "x = y"
proof (rule bit_word_eqI)
  fix n
  assume "n < LENGTH(32)"
  then have n: "n div 8 < 4" "n mod 8 < 8" "8 * (n div 8) + n mod 8 = n" by simp_all
  from arg_cong [OF assms, of "\<lambda>bs. bs ! (n div 8)"] n(1)
  have "(ucast (drop_bit (8 * (n div 8)) x) :: byte) = ucast (drop_bit (8 * (n div 8)) y)" by simp
  then have "bit (ucast (drop_bit (8 * (n div 8)) x) :: byte) (n mod 8) =
      bit (ucast (drop_bit (8 * (n div 8)) y) :: byte) (n mod 8)" by simp
  with n show "bit x n = bit y n" by (simp add: bit_simps)
qed


section \<open>The two documented segment id formats\<close>

text \<open>
  The comment in \<open>swStringToUUID\<close> lists them: 32 hexadecimal digits, alone or followed by two
  decimal numbers, each after a dot.
\<close>

definition java_segment_id :: "byte list \<Rightarrow> nat \<Rightarrow> nat \<Rightarrow> string" where
  "java_segment_id uid mid lst = hex_encode uid @ ''.'' @ show_nat mid @ ''.'' @ show_nat lst"

lemma hex_digit_not_dot: "n < 16 \<Longrightarrow> CHR ''.'' \<noteq> hex_digit n"
proof
  assume "n < 16" and "CHR ''.'' = hex_digit n"
  then have "of_char (hex_digit n) = (46::nat)" by (simp add: eq_commute [of "CHR ''.''"])
  with \<open>n < 16\<close> show False by (auto simp: hex_digit_def split: if_splits)
qed

lemma hex_encode_no_dot: "CHR ''.'' \<notin> set (hex_encode uid)"
proof (induction uid)
  case (Cons b bs)
  have "unat b < 256" using unsigned_less [of b] by simp
  then have "unat b div 16 < 16" and "unat b mod 16 < 16" by auto
  with Cons hex_digit_not_dot [of "unat b div 16"] hex_digit_not_dot [of "unat b mod 16"]
  show ?case by (auto simp: hex_encode_def)
qed (simp add: hex_encode_def)

lemma show_nat_no_dot: "CHR ''.'' \<notin> set (show_nat n)"
  using show_nat_digits [of n] by (auto simp: is_digit_def)

lemma java_segment_id_dots:
  assumes "length uid = 16"
  shows "index_byte (CHR ''.'') (java_segment_id uid mid lst) = Some 32"
    and "last_index_byte (CHR ''.'') (java_segment_id uid mid lst) = Some (33 + length (show_nat mid))"
proof -
  show "index_byte (CHR ''.'') (java_segment_id uid mid lst) = Some 32"
    using index_byte_append [OF hex_encode_no_dot, of uid "show_nat mid @ ''.'' @ show_nat lst"] assms
    by (simp add: java_segment_id_def length_hex_encode)
  show "last_index_byte (CHR ''.'') (java_segment_id uid mid lst) = Some (33 + length (show_nat mid))"
    using last_index_byte_append [OF show_nat_no_dot [of lst], of "hex_encode uid @ ''.'' @ show_nat mid"] assms
    by (simp add: java_segment_id_def length_hex_encode)
qed

lemma hex_prefix_decodes:
  assumes "length uid = 16"
  shows "hex_decode 16 (take 32 (hex_encode uid @ rest)) = (uid, True)"
  using hex_decode_encode [of uid] assms by (simp add: length_hex_encode)

section \<open>Properties\<close>

text \<open>
  On a Java agent's segment id (32 hexadecimal digits and two decimal numbers) the loops
  compute the start bytes XOR the little-endian bytes of the span number (4), of the first number
  (4) and of the second (8).  The first number enters as written: the code adds what is left of
  the span number to it, and nothing is left.
\<close>

lemma sw_uuid_java_format:
  assumes "length uid = 16" and "mid < 2 ^ 63" and "lst < 2 ^ 63"
  shows "sw_string_to_uuid (java_segment_id uid mid lst) extra =
           Ret (xor_uid uid (le_bytes 4 extra @ le_bytes 4 (word_of_nat mid :: i64) @
                             le_bytes 8 (word_of_nat lst :: i64)))"
proof -
  let ?s = "java_segment_id uid mid lst" and ?n = "length (show_nat mid)"
  have len: "length ?s = 34 + ?n + length (show_nat lst)"
    using assms(1) by (simp add: java_segment_id_def length_hex_encode)
  have slice: "slice_str ?s 33 (33 + ?n) = Ret (show_nat mid)"
    using assms(1) len by (simp add: slice_str_def java_segment_id_def length_hex_encode)
  have tail: "drop (34 + ?n) ?s = show_nat lst"
    using assms(1) by (simp add: java_segment_id_def length_hex_encode)
  have m: "atoi (show_nat mid) = (int mid, None)" and l: "atoi (show_nat lst) = (int lst, None)"
    using assms(2,3) by (simp_all add: atoi_def parse_int_show_nat)
  have h: "hex_decode 16 (take 32 ?s) = (uid, True)"
    unfolding java_segment_id_def by (rule hex_prefix_decodes [OF assms(1)])
  show ?thesis
    using len slice tail m l h java_segment_id_dots [OF assms(1)] assms(1)
    by (simp add: sw_string_to_uuid_def xor_extra_closed xor_all_closed)
qed

lemma sw_uuid_java_format_witness:
  "length (replicate 16 (0x1f :: byte)) = 16 \<and>
   sw_string_to_uuid (java_segment_id (replicate 16 0x1f) 12 16563474296430001) 3 =
     Ret (xor_uid (replicate 16 0x1f) (le_bytes 4 (3::u32) @ le_bytes 4 (word_of_nat 12 :: i64) @
            le_bytes 8 (word_of_nat 16563474296430001 :: i64)))"
proof -
  have h: "length (replicate 16 (0x1f :: byte)) = 16" by simp
  have "(12::nat) < 2 ^ 63" "(16563474296430001::nat) < 2 ^ 63" by simp_all
  from sw_uuid_java_format [OF h this, of 3] h show ?thesis by blast
qed

text \<open>
  Within one segment (either documented format) different span numbers get different ids,
  before hashing; this is what makes segment id and span number identify a span.
\<close>

lemma sw_span_ids_distinct:
  assumes "length uid = 16" and "mid < 2 ^ 63" and "lst < 2 ^ 63"
    and "s = hex_encode uid \<or> s = java_segment_id uid mid lst"
    and "sw_string_to_uuid s n = sw_string_to_uuid s m"
  shows "n = m"
proof -
  obtain rest where r: "length rest = 12"
    and f: "\<And>e. sw_string_to_uuid s e = Ret (xor_uid uid (le_bytes 4 e @ rest))"
  proof (cases "s = hex_encode uid")
    case True
    have "sw_string_to_uuid s e = Ret (xor_uid uid (le_bytes 4 e @ replicate 12 0))" for e
      using assms(1) hex_prefix_decodes [OF assms(1), of "[]"]
      by (simp add: True sw_string_to_uuid_def length_hex_encode xor_extra_closed)
    then show thesis using that [of "replicate 12 0"] by simp
  next
    case False
    with assms(4) have "s = java_segment_id uid mid lst" by simp
    with sw_uuid_java_format [OF assms(1-3)] that
      [of "le_bytes 4 (word_of_nat mid :: i64) @ le_bytes 8 (word_of_nat lst :: i64)"]
    show thesis by simp
  qed
  from assms(5) have "xor_uid uid (le_bytes 4 n @ rest) = xor_uid uid (le_bytes 4 m @ rest)"
    by (simp add: f)
  then have "le_bytes 4 n @ rest = le_bytes 4 m @ rest"
    by (rule xor_uid_inj [rotated 3]) (use assms(1) r in auto)
  then show ?thesis by (auto intro: le_bytes_4_inj)
qed


lemma sw_span_ids_distinct_witness:
  "sw_string_to_uuid (hex_encode (replicate 16 7)) 1 \<noteq> sw_string_to_uuid (hex_encode (replicate 16 7)) 2"
proof
  assume "sw_string_to_uuid (hex_encode (replicate 16 7)) 1 = sw_string_to_uuid (hex_encode (replicate 16 7)) 2"
  with sw_span_ids_distinct [of "replicate 16 7" 0 0 "hex_encode (replicate 16 7)" 1 2]
  have "(1::u32) = 2" by simp
  then show False by simp
qed

text \<open>
  A segment id of 32 hexadecimal digits followed by exactly one dot makes the translation
  panic (the slice between the first and the last dot has its bounds the wrong way round),
  whatever the span number: span ids for every such id, and trace ids of more than 36 bytes.
\<close>

lemma one_dot_id_panics:
  assumes "length uid = 16" and "CHR ''.'' \<notin> set rest"
  shows "segment_id_to_span_id sha256 (hex_encode uid @ ''.'' @ rest) n = Panic \<and>
         (3 < length rest \<longrightarrow> sw_trace_id_to_trace_id uuid_parse (hex_encode uid @ ''.'' @ rest) = Panic)"
proof -
  let ?s = "hex_encode uid @ ''.'' @ rest"
  have i: "index_byte (CHR ''.'') ?s = Some 32"
    using index_byte_append [OF hex_encode_no_dot, of uid rest] assms(1) by (simp add: length_hex_encode)
  have j: "last_index_byte (CHR ''.'') ?s = Some 32"
    using last_index_byte_append [OF assms(2), of "hex_encode uid"] assms(1) by (simp add: length_hex_encode)
  have len: "length ?s = 33 + length rest" using assms(1) by (simp add: length_hex_encode)
  have "sw_string_to_uuid ?s e = Panic" for e
    using len i j hex_prefix_decodes [OF assms(1)] assms(1)
    by (simp add: sw_string_to_uuid_def xor_extra_closed slice_str_def)
  with len show ?thesis
    by (auto simp: segment_id_to_span_id_def sw_trace_id_to_trace_id_def)
qed

lemma one_dot_id_panics_witness:
  "segment_id_to_span_id (\<lambda>b. b @ b) (hex_encode (replicate 16 0x5a) @ ''.'' @ ''1234'') 0 = Panic \<and>
   sw_trace_id_to_trace_id (\<lambda>_. None) (hex_encode (replicate 16 0x5a) @ ''.'' @ ''1234'') = Panic"
  using one_dot_id_panics [of "replicate 16 0x5a" "''1234''" "\<lambda>b. b @ b" 0 "\<lambda>_. None"]
  by simp

section \<open>Lengths\<close>

lemma length_xor_uid [simp]: "length (xor_uid uid ms) = min (length uid) (length ms)"
  by (simp add: xor_uid_def)

lemma sw_string_to_uuid_length: "sw_string_to_uuid s extra = Ret uid \<Longrightarrow> length uid = 16"
proof -
  assume r: "sw_string_to_uuid s extra = Ret uid"
  obtain u ok where h: "hex_decode 16 (take 32 s) = (u, ok)" by fastforce
  then have u: "length u = 16" using hex_decode_length [of "take 32 s" 16] by simp
  have "length (xor_range_int 8 16 l (xor_range_int 4 8 m (xor_uid u (le_bytes 4 extra @ replicate 12 0)))) = 16"
    for l m using u by (simp add: xor_all_closed)
  with r h u show ?thesis
    by (auto simp: sw_string_to_uuid_def zero_id_def xor_extra_closed bind_outcome_Ret_iff Let_def
        case_prod_beta split: if_splits option.splits)
qed

lemma sw_trace_id_length:
  assumes "\<And>s uid. uuid_parse s = Some uid \<Longrightarrow> length uid = 16"
    and "sw_trace_id_to_trace_id uuid_parse s = Ret uid"
  shows "length uid = 16"
  using assms hex_decode_length [of s 16]
  by (auto simp: sw_trace_id_to_trace_id_def zero_id_def split: if_splits option.splits
      dest: sw_string_to_uuid_length)

text \<open>A span id is never longer than eight bytes, and the id of a short segment id is empty.\<close>

lemma segment_id_short: "length s < 32 \<Longrightarrow> segment_id_to_span_id sha256 s n = Ret empty_span_id"
  by (simp add: segment_id_to_span_id_def)

lemma segment_id_to_span_id_plain:
  assumes "length uid = 16"
  shows "segment_id_to_span_id sha256 (hex_encode uid) n =
           Ret (take 8 (sha256 (xor_uid uid (le_bytes 4 n @ replicate 12 0))))"
  using hex_prefix_decodes [OF assms, of "[]"] assms
  by (simp add: segment_id_to_span_id_def sw_string_to_uuid_def length_hex_encode xor_extra_closed
      uuid_to_8_bytes_def)

end
