(* ===== verification/SkywalkingComponents.thy ===== *)
theory SkywalkingComponents
  imports Prelude
begin

text \<open>
  \<open>component.go\<close> of the SkyWalking receiver: the tables built at start-up from
  \<open>config/component-libraries.yml\<close> and the two lookups.  The file as \<open>yaml.Unmarshal\<close> returns it
  is an argument: sections with their string entries, each list in the order a range loop visits.
\<close>

section \<open>Tables\<close>

record component_tables =
  name_to_id :: "string \<rightharpoonup> i32"
  id_to_name :: "i32 \<rightharpoonup> string"
  id_to_server_id :: "i32 \<rightharpoonup> i32"

definition empty_tables :: component_tables where
  "empty_tables = \<lparr>name_to_id = Map.empty, id_to_name = Map.empty, id_to_server_id = Map.empty\<rparr>"

definition mapping_section :: string where "mapping_section = ''Component-Server-Mappings''"
definition none_component :: string where "none_component = ''N/A''"

text \<open>\<open>int32(strconv.ParseInt(value["id"], 10, 32))\<close>, with the error dropped.\<close>

definition component_id :: "gomap \<Rightarrow> i32" where
  "component_id value = word_of_int (fst (parse_int 32 (gm_get value ''id'')))"

definition load_section ::
    "string \<times> gomap \<Rightarrow> component_tables \<times> (string \<rightharpoonup> string) \<Rightarrow> component_tables \<times> (string \<rightharpoonup> string)" where
  "load_section sec acc =
     (case (sec, acc) of
        ((name, value), (t, mapping)) \<Rightarrow>
          if mapping_section = name
          then (t, fold (\<lambda>(n, server) m. m(n \<mapsto> server)) value mapping)
          else (t\<lparr>name_to_id := (name_to_id t)(name \<mapsto> component_id value),
                  id_to_name := (id_to_name t)(component_id value \<mapsto> name)\<rparr>, mapping))"

text \<open>A name without a definition is only logged: its id reads as 0.\<close>

definition id_of_name :: "component_tables \<Rightarrow> string \<Rightarrow> i32" where
  "id_of_name t name = (case name_to_id t name of None \<Rightarrow> 0 | Some i \<Rightarrow> i)"

definition load_mapping :: "string \<times> string \<Rightarrow> component_tables \<Rightarrow> component_tables" where
  "load_mapping entry t =
     (case entry of (name, server) \<Rightarrow>
        t\<lparr>id_to_server_id := (id_to_server_id t)(id_of_name t name \<mapsto> id_of_name t server)\<rparr>)"

text \<open>
  \<open>init\<close>: \<open>visit\<close> orders the entries of the second range loop; a file that cannot be read leaves
  the tables empty.
\<close>

definition init_components ::
    "((string \<times> gomap) list) option \<Rightarrow> ((string \<rightharpoonup> string) \<Rightarrow> (string \<times> string) list) \<Rightarrow> component_tables" where
  "init_components file visit =
     (case file of
        None \<Rightarrow> empty_tables
      | Some data \<Rightarrow>
          (case fold load_section data (empty_tables, Map.empty) of
             (t, mapping) \<Rightarrow> fold load_mapping (visit mapping) t))"

definition get_component_name :: "component_tables \<Rightarrow> i32 \<Rightarrow> string" where
  "get_component_name t i = (case id_to_name t i of None \<Rightarrow> none_component | Some n \<Rightarrow> n)"

definition get_server_name_based_on_component :: "component_tables \<Rightarrow> i32 \<Rightarrow> string" where
  "get_server_name_based_on_component t i =
     (case id_to_server_id t i of
        None \<Rightarrow> get_component_name t i
      | Some s \<Rightarrow> get_component_name t s)"

section \<open>The tables in closed form\<close>

definition component_sections :: "(string \<times> gomap) list \<Rightarrow> (string \<times> gomap) list" where
  "component_sections data = [(n, v) \<leftarrow> data. n \<noteq> mapping_section]"

definition server_mapping :: "(string \<times> gomap) list \<Rightarrow> string \<rightharpoonup> string" where
  "server_mapping data = (case map_of data mapping_section of None \<Rightarrow> Map.empty | Some m \<Rightarrow> map_of m)"

text \<open>
  A library file the receiver is written for: component ids parse and are distinct, names are
  distinct (they are keys), and the mapping speaks of defined components only.
\<close>

definition library_ok :: "(string \<times> gomap) list \<Rightarrow> bool" where
  "library_ok data \<longleftrightarrow>
     distinct (map fst data) \<and> distinct (map (component_id \<circ> snd) (component_sections data)) \<and>
     (\<forall>m. map_of data mapping_section = Some m \<longrightarrow> distinct (map fst m) \<and>
          (\<forall>(n, server) \<in> set m. n \<in> fst ` set (component_sections data) \<and>
                                  server \<in> fst ` set (component_sections data)))"

lemma fold_upd: "fold (\<lambda>(k, v) m. m(k \<mapsto> v)) xs m = m ++ map_of (rev xs)"
  by (induction xs arbitrary: m) (auto simp: map_add_def fun_eq_iff split: option.splits)

lemma map_of_rev_distinct: "distinct (map fst xs) \<Longrightarrow> map_of (rev xs) = map_of xs"
  by (rule map_of_visit_order) (simp_all add: rev_map [symmetric])

lemma fold_load_section:
  "distinct (map fst data) \<Longrightarrow> mapping_section \<notin> fst ` set data \<or> mp = Map.empty \<Longrightarrow>
   fold load_section data (t, mp) =
     (t\<lparr>name_to_id := name_to_id t ++ map_of (rev (map (\<lambda>(n, v). (n, component_id v)) (component_sections data))),
        id_to_name := id_to_name t ++ map_of (rev (map (\<lambda>(n, v). (component_id v, n)) (component_sections data)))\<rparr>,
      case map_of data mapping_section of None \<Rightarrow> mp | Some m \<Rightarrow> mp ++ map_of (rev m))"
proof (induction data arbitrary: t mp)
  case Nil
  then show ?case by (simp add: component_sections_def)
next
  case (Cons sec data)
  obtain n v where sec: "sec = (n, v)" by fastforce
  show ?case
  proof (cases "n = mapping_section")
    case True
    with Cons.prems sec have "mapping_section \<notin> fst ` set data" by auto
    moreover from this have "map_of data mapping_section = None"
      by (simp add: map_of_eq_None_iff)
    ultimately show ?thesis
      using Cons sec True by (simp add: load_section_def fold_upd component_sections_def)
  next
    case False
    have m: "mapping_section \<notin> fst ` set data \<or> mp = Map.empty"
      using Cons.prems sec by auto
    from False Cons.IH [OF _ m] Cons.prems sec show ?thesis
      by (simp add: load_section_def component_sections_def)
  qed
qed


lemma load_mapping_frame [simp]:
  "name_to_id (fold load_mapping es t) = name_to_id t"
  "id_to_name (fold load_mapping es t) = id_to_name t"
  by (induction es arbitrary: t) (simp_all add: load_mapping_def case_prod_beta)

lemma id_of_name_frame [simp]: "id_of_name (load_mapping e t) = id_of_name t"
  by (simp add: id_of_name_def load_mapping_def fun_eq_iff case_prod_beta)

lemma fold_load_mapping:
  "id_to_server_id (fold load_mapping es t) =
     id_to_server_id t ++ map_of (rev (map (\<lambda>(n, s). (id_of_name t n, id_of_name t s)) es))"
proof -
  have "id_to_server_id (fold load_mapping es t) =
      fold (\<lambda>(k, v) m. m(k \<mapsto> v)) (map (\<lambda>(n, s). (id_of_name t n, id_of_name t s)) es) (id_to_server_id t)"
  proof (induction es arbitrary: t)
    case (Cons e es)
    obtain n s where e: "e = (n, s)" by fastforce
    have step: "id_to_server_id (load_mapping (n, s) t) = (id_to_server_id t)(id_of_name t n \<mapsto> id_of_name t s)"
      by (simp add: load_mapping_def)
    show ?case
      unfolding e by (simp only: fold_simps list.map prod.case Cons.IH id_of_name_frame step)
  qed simp
  then show ?thesis by (simp only: fold_upd)
qed

lemma map_of_inj_keys:
  assumes "inj_on f (insert x (fst ` set es))"
  shows "map_of (map (\<lambda>(n, s). (f n, g s)) es) (f x) = map_option g (map_of es x)"
  using assms by (induction es) (auto simp: inj_on_def)

lemma init_tables:
  fixes data visit
  assumes "library_ok data"
  defines "t \<equiv> init_components (Some data) visit" and "cs \<equiv> component_sections data"
  shows "name_to_id t = map_of (map (\<lambda>(n, v). (n, component_id v)) cs)"
    and "id_to_name t = map_of (map (\<lambda>(n, v). (component_id v, n)) cs)"
    and "id_to_server_id t =
      map_of (rev (map (\<lambda>(n, s). (id_of_name t n, id_of_name t s)) (visit (server_mapping data))))"
proof -
  have d: "distinct (map fst data)" and i: "distinct (map (component_id \<circ> snd) cs)"
    using assms by (simp_all add: library_ok_def)
  from d have n: "distinct (map fst cs)"
    unfolding cs_def component_sections_def by (induction data) auto
  have r1: "map_of (rev (map (\<lambda>(n, v). (n, component_id v)) cs)) = map_of (map (\<lambda>(n, v). (n, component_id v)) cs)"
    by (rule map_of_rev_distinct) (use n in \<open>simp add: case_prod_beta comp_def\<close>)
  have r2: "map_of (rev (map (\<lambda>(n, v). (component_id v, n)) cs)) = map_of (map (\<lambda>(n, v). (component_id v, n)) cs)"
    by (rule map_of_rev_distinct) (use i in \<open>simp add: case_prod_beta comp_def\<close>)
  have m: "(case map_of data mapping_section of None \<Rightarrow> Map.empty | Some m \<Rightarrow> Map.empty ++ map_of (rev m)) =
      server_mapping data"
    using assms by (auto simp: server_mapping_def library_ok_def map_of_rev_distinct split: option.split)
  define t0 where "t0 = \<lparr>name_to_id = map_of (map (\<lambda>(n, v). (n, component_id v)) cs),
      id_to_name = map_of (map (\<lambda>(n, v). (component_id v, n)) cs), id_to_server_id = Map.empty\<rparr>"
  have t: "t = fold load_mapping (visit (server_mapping data)) t0"
    using fold_load_section [OF d, of Map.empty empty_tables] m r1 r2
    by (simp add: t_def init_components_def empty_tables_def t0_def cs_def)
  then show "name_to_id t = map_of (map (\<lambda>(n, v). (n, component_id v)) cs)"
    and "id_to_name t = map_of (map (\<lambda>(n, v). (component_id v, n)) cs)"
    by (simp_all add: t0_def)
  have "id_of_name t = id_of_name t0" by (simp add: t id_of_name_def fun_eq_iff)
  then show "id_to_server_id t =
      map_of (rev (map (\<lambda>(n, s). (id_of_name t n, id_of_name t s)) (visit (server_mapping data))))"
    by (simp add: t fold_load_mapping t0_def)
qed

lemma id_of_known:
  assumes "library_ok data" and "(n, v) \<in> set (component_sections data)"
  shows "id_of_name (init_components (Some data) visit) n = component_id v"
    and "get_component_name (init_components (Some data) visit) (component_id v) = n"
proof -
  let ?cs = "component_sections data"
  have "distinct (map fst data)" and i: "distinct (map (component_id \<circ> snd) ?cs)"
    using assms by (simp_all add: library_ok_def)
  then have d: "distinct (map fst ?cs)"
    unfolding component_sections_def by (induction data) auto
  have "(n, component_id v) \<in> set (map (\<lambda>(n, v). (n, component_id v)) ?cs)"
    and "(component_id v, n) \<in> set (map (\<lambda>(n, v). (component_id v, n)) ?cs)"
    using assms(2) by force+
  moreover have "distinct (map fst (map (\<lambda>(n, v). (n, component_id v)) ?cs))"
    and "distinct (map fst (map (\<lambda>(n, v). (component_id v, n)) ?cs))"
    using d i by (simp_all add: case_prod_beta comp_def)
  ultimately show "id_of_name (init_components (Some data) visit) n = component_id v"
    and "get_component_name (init_components (Some data) visit) (component_id v) = n"
    by (simp_all add: id_of_name_def get_component_name_def init_tables [OF assms(1)])
qed

lemma component_id_inj:
  assumes "library_ok data" and "(n, v) \<in> set (component_sections data)"
    and "(n', v') \<in> set (component_sections data)" and "component_id v = component_id v'"
  shows "n = n'"
  using id_of_known(2) [OF assms(1,2)] id_of_known(2) [OF assms(1,3)] assms(4) by metis

section \<open>Properties\<close>

text \<open>
  For a well-formed library file, the name reported for a defined component is that of its
  server in the mapping section if it has one there, and its own name otherwise, in whatever
  order the loops visit the file and the collected mapping; an id no component has is reported
  as N/A.
\<close>

lemma component_server_name:
  assumes ok: "library_ok data"
    and visit: "distinct (map fst (visit (server_mapping data)))"
      "map_of (visit (server_mapping data)) = server_mapping data"
    and comp: "(name, v) \<in> set (component_sections data)"
    and unknown: "j \<notin> (component_id \<circ> snd) ` set (component_sections data)"
  shows "get_server_name_based_on_component (init_components (Some data) visit) (component_id v) =
           (case server_mapping data name of Some server \<Rightarrow> server | None \<Rightarrow> name) \<and>
         get_server_name_based_on_component (init_components (Some data) visit) j = none_component"
proof -
  let ?t = "init_components (Some data) visit" and ?es = "visit (server_mapping data)"
  let ?cs = "component_sections data"
  have known: "n \<in> fst ` set ?cs \<and> s \<in> fst ` set ?cs" if "server_mapping data n = Some s" for n s
    using that ok by (force simp: server_mapping_def library_ok_def split: option.splits dest: map_of_SomeD)
  have keys: "fst ` set ?es \<subseteq> fst ` set ?cs"
    using known visit by (metis domD dom_map_of_conv_image_fst subsetI)
  have inj: "inj_on (id_of_name ?t) (fst ` set ?cs)"
    using id_of_known(1) [OF ok] component_id_inj [OF ok] by (auto simp: inj_on_def)
  have dist: "distinct (map fst (map (\<lambda>(n, s). (id_of_name ?t n, id_of_name ?t s)) ?es))"
    using visit(1) comp_inj_on [of fst "set ?es", OF _ inj_on_subset [OF inj keys]]
    by (simp add: case_prod_beta comp_def distinct_map)
  have servers: "id_to_server_id ?t = map_of (map (\<lambda>(n, s). (id_of_name ?t n, id_of_name ?t s)) ?es)"
    using init_tables(3) [OF ok, of visit] map_of_rev_distinct [OF dist] by simp
  have "id_to_server_id ?t (id_of_name ?t name) = map_option (id_of_name ?t) (server_mapping data name)"
  proof -
    have "inj_on (id_of_name ?t) (insert name (fst ` set ?es))"
      by (rule inj_on_subset [OF inj]) (use keys comp in force)
    then show ?thesis using servers visit(2) by (simp add: map_of_inj_keys)
  qed
  moreover have "id_of_name ?t name = component_id v"
    using ok comp by (rule id_of_known)
  moreover have "get_component_name ?t (id_of_name ?t server) = server" if "server_mapping data name = Some server" for server
    using known [OF that] id_of_known [OF ok, of server] by force
  ultimately have first: "get_server_name_based_on_component ?t (component_id v) =
      (case server_mapping data name of Some server \<Rightarrow> server | None \<Rightarrow> name)"
    using id_of_known(2) [OF ok comp]
    by (auto simp: get_server_name_based_on_component_def split: option.splits)
  have "j \<notin> (\<lambda>n. id_of_name ?t n) ` fst ` set ?es"
    using keys unknown id_of_known(1) [OF ok] by (force simp: image_iff)
  then have "id_to_server_id ?t j = None"
    using servers by (force simp: map_of_eq_None_iff)
  moreover have "id_to_name ?t j = None"
    using unknown by (force simp: init_tables [OF ok] map_of_eq_None_iff)
  ultimately show ?thesis
    using first by (simp add: get_server_name_based_on_component_def get_component_name_def)
qed

definition sample_library :: "(string \<times> gomap) list" where
  "sample_library =
     [(''tomcat'', [(''id'', ''1''), (''languages'', ''Java'')]), (''Redis'', [(''id'', ''7'')]),
      (mapping_section, [(''Jedis'', ''Redis'')]), (''Jedis'', [(''id'', ''30'')])]"

lemma sample_ids: "component_id [(''id'', ''1''), (''languages'', ''Java'')] = 1"
  "component_id [(''id'', ''7'')] = 7" "component_id [(''id'', ''30'')] = 30"
  by (simp_all add: component_id_def gm_get_def parse_int_def is_digit_def digit_val_def)

lemma sample_library_ok: "library_ok sample_library"
  by (auto simp: library_ok_def sample_library_def component_sections_def mapping_section_def sample_ids)

lemma component_server_name_witness:
  "get_server_name_based_on_component (init_components (Some sample_library) (\<lambda>_. [(''Jedis'', ''Redis'')])) 30 = ''Redis'' \<and>
   get_server_name_based_on_component (init_components (Some sample_library) (\<lambda>_. [(''Jedis'', ''Redis'')])) 99 = ''N/A''"
  using component_server_name [of sample_library "\<lambda>_. [(''Jedis'', ''Redis'')]" "''Jedis''" "[(''id'', ''30'')]" 99,
      OF sample_library_ok]
  by (simp add: sample_ids server_mapping_def component_sections_def sample_library_def mapping_section_def
      none_component_def)

end
