(* ===== verification/Aes.thy ===== *)
theory Aes
  imports Prelude
begin

text \<open>
  \<open>AesDecrypt\<close> of \<open>extension/httpforwarderauthextension/aesutil.go\<close> and
  \<open>extension/holoinsightlogsextension/aesutil.go\<close> (the two files differ in their package name
  only).  The block cipher is an argument: \<open>dec key block\<close> is \<open>block.Decrypt\<close> for the cipher
  that \<open>aes.NewCipher(key)\<close> returns (never an error for the 16-byte key the code builds).
\<close>

section \<open>The decryption routine\<close>

abbreviation block_size :: nat where "block_size \<equiv> 16"

definition bytes_of :: "string \<Rightarrow> byte list" where
  "bytes_of s = map of_char s"

definition string_of :: "byte list \<Rightarrow> string" where
  "string_of bs = map (\<lambda>b. char_of (unat b)) bs"

text \<open>\<open>copy(make([]byte, 16), s)\<close>: the first 16 bytes, padded with zeros.\<close>

definition fixed_bytes :: "string \<Rightarrow> byte list" where
  "fixed_bytes s =
     take block_size (bytes_of s) @ replicate (block_size - length (take block_size s)) 0"

text \<open>The loop for an empty IV; slicing 16 bytes off a shorter buffer panics.\<close>

function ecb_decrypt :: "(byte list \<Rightarrow> byte list) \<Rightarrow> byte list \<Rightarrow> byte list outcome" where
  "ecb_decrypt D bs =
     (if bs = [] then Ret []
      else if length bs < block_size then Panic
      else bind_outcome (ecb_decrypt D (drop block_size bs))
             (\<lambda>rest. Ret (D (take block_size bs) @ rest)))"
  by pat_completeness auto
termination
  by (relation "measure (\<lambda>(D, bs). length bs)") auto

definition xor_bytes :: "byte list \<Rightarrow> byte list \<Rightarrow> byte list" where
  "xor_bytes xs ys = map2 (\<lambda>x y. x XOR y) xs ys"

text \<open>\<open>cipher.NewCBCDecrypter(...).CryptBlocks\<close> on whole blocks.\<close>

function cbc_decrypt :: "(byte list \<Rightarrow> byte list) \<Rightarrow> byte list \<Rightarrow> byte list \<Rightarrow> byte list" where
  "cbc_decrypt D prev bs =
     (if bs = [] then []
      else xor_bytes (D (take block_size bs)) prev @
           cbc_decrypt D (take block_size bs) (drop block_size bs))"
  by pat_completeness auto
termination
  by (relation "measure (\<lambda>(D, prev, bs). length bs)") auto

declare ecb_decrypt.simps [simp del] cbc_decrypt.simps [simp del]

text \<open>\<open>result[:len(result) - int(result[len(result)-1])]\<close>, with its two ways to panic.\<close>

definition unpad :: "byte list \<Rightarrow> byte list outcome" where
  "unpad result =
     (if result = [] then Panic
      else let n = unat (last result)
           in if length result < n then Panic else Ret (take (length result - n) result))"

definition aes_decrypt ::
    "(byte list \<Rightarrow> byte list \<Rightarrow> byte list) \<Rightarrow> string \<Rightarrow> string \<Rightarrow> string \<Rightarrow> (string \<times> go_error option) outcome" where
  "aes_decrypt dec value secret_key iv =
     (if value = [] then Ret ([], None)
      else
        let D = dec (fixed_bytes secret_key);
            encrypted = fst (hex_decode (length value div 2) value)
        in if iv = []
           then bind_outcome (ecb_decrypt D encrypted)
                  (\<lambda>result. bind_outcome (unpad result) (\<lambda>r. Ret (string_of r, None)))
           else if length encrypted mod block_size \<noteq> 0
           then Ret (value, Some ''not encrypted apikey'')
           else bind_outcome (unpad (cbc_decrypt D (fixed_bytes iv) encrypted))
                  (\<lambda>r. Ret (string_of r, None)))"

section \<open>The encryption the backend is documented to use\<close>

text \<open>
  The configuration comments say that the backend encrypts and the collector decrypts with the
  same key and IV.  The reference encryption below is the counterpart of the code above: PKCS7
  padding, ECB without an IV and CBC with one, hexadecimal output.
\<close>

definition pkcs7 :: "byte list \<Rightarrow> byte list" where
  "pkcs7 p = (let n = block_size - length p mod block_size in p @ replicate n (word_of_nat n))"

function ecb_encrypt :: "(byte list \<Rightarrow> byte list) \<Rightarrow> byte list \<Rightarrow> byte list" where
  "ecb_encrypt E bs =
     (if bs = [] then [] else E (take block_size bs) @ ecb_encrypt E (drop block_size bs))"
  by pat_completeness auto
termination
  by (relation "measure (\<lambda>(E, bs). length bs)") auto

function cbc_encrypt :: "(byte list \<Rightarrow> byte list) \<Rightarrow> byte list \<Rightarrow> byte list \<Rightarrow> byte list" where
  "cbc_encrypt E prev bs =
     (if bs = [] then []
      else let c = E (xor_bytes (take block_size bs) prev)
           in c @ cbc_encrypt E c (drop block_size bs))"
  by pat_completeness auto
termination
  by (relation "measure (\<lambda>(E, prev, bs). length bs)") auto

declare ecb_encrypt.simps [simp del] cbc_encrypt.simps [simp del]

definition reference_encrypt ::
    "(byte list \<Rightarrow> byte list \<Rightarrow> byte list) \<Rightarrow> string \<Rightarrow> string \<Rightarrow> string \<Rightarrow> string" where
  "reference_encrypt enc plain secret_key iv =
     hex_encode (if iv = [] then ecb_encrypt (enc (fixed_bytes secret_key)) (pkcs7 (bytes_of plain))
                 else cbc_encrypt (enc (fixed_bytes secret_key)) (fixed_bytes iv) (pkcs7 (bytes_of plain)))"

text \<open>What the code relies on: for each key, decryption undoes encryption block by block.\<close>

definition block_cipher ::
    "(byte list \<Rightarrow> byte list \<Rightarrow> byte list) \<Rightarrow> (byte list \<Rightarrow> byte list \<Rightarrow> byte list) \<Rightarrow> bool" where
  "block_cipher enc dec \<longleftrightarrow>
     (\<forall>k b. length b = block_size \<longrightarrow> length (enc k b) = block_size \<and> dec k (enc k b) = b)"

section \<open>Auxiliary facts\<close>

lemma length_fixed_bytes [simp]: "length (fixed_bytes s) = block_size"
  by (simp add: fixed_bytes_def bytes_of_def)

lemma unat_of_char: "unat (of_char c :: byte) = of_char c"
proof -
  have "(of_char c :: byte) = word_of_nat (of_char c)"
    by (simp only: of_nat_of_char)
  moreover have "(of_char c :: nat) < 256" by (rule nat_of_char_less_256)
  ultimately show ?thesis by (simp add: unat_of_nat)
qed

lemma string_bytes_inverse [simp]: "string_of (bytes_of s) = s"
  by (simp add: string_of_def bytes_of_def comp_def unat_of_char)

lemma length_xor_bytes [simp]: "length (xor_bytes xs ys) = min (length xs) (length ys)"
  by (simp add: xor_bytes_def)

lemma xor_bytes_cancel: "length xs = length ys \<Longrightarrow> xor_bytes (xor_bytes xs ys) ys = xs"
  unfolding xor_bytes_def
  by (induction xs ys rule: list_induct2) (simp_all add: xor.assoc)


lemma bytes_of_eq_Nil [simp]: "bytes_of s = [] \<longleftrightarrow> s = []"
  by (simp add: bytes_of_def)

lemma ecb_decrypt_block:
  "length c = block_size \<Longrightarrow>
     ecb_decrypt D (c @ rest) = bind_outcome (ecb_decrypt D rest) (\<lambda>r. Ret (D c @ r))"
  by (subst ecb_decrypt.simps) auto

lemma cbc_decrypt_block:
  "length c = block_size \<Longrightarrow>
     cbc_decrypt D prev (c @ rest) = xor_bytes (D c) prev @ cbc_decrypt D c rest"
  by (subst cbc_decrypt.simps) auto

lemma whole_blocks_cases:
  assumes "length bs mod block_size = 0" and "bs \<noteq> []"
  shows "length (take block_size bs) = block_size \<and>
         length (drop block_size bs) mod block_size = 0 \<and> block_size \<le> length bs"
proof -
  have "block_size \<le> length bs"
    using assms by (metis length_0_conv mod_less not_le)
  with assms(1) show ?thesis by (simp add: mod_eq_0_iff_dvd dvd_minus_self)
qed

lemma ecb_round_trip:
  assumes E: "\<And>b. length b = block_size \<Longrightarrow> length (E b) = block_size \<and> D (E b) = b"
    and "length bs mod block_size = 0"
  shows "ecb_decrypt D (ecb_encrypt E bs) = Ret bs \<and> length (ecb_encrypt E bs) = length bs"
  using assms
proof (induction E bs rule: ecb_encrypt.induct)
  case (1 E bs)
  show ?case
  proof (cases "bs = []")
    case True
    then show ?thesis by (simp add: ecb_encrypt.simps ecb_decrypt.simps)
  next
    case False
    note w = whole_blocks_cases [OF "1.prems"(2) False]
    have IH: "ecb_decrypt D (ecb_encrypt E (drop block_size bs)) = Ret (drop block_size bs) \<and>
        length (ecb_encrypt E (drop block_size bs)) = length (drop block_size bs)"
      by (rule "1.IH" [OF False]) (use "1.prems"(1) w in auto)
    have "length (E (take block_size bs)) = block_size \<and> D (E (take block_size bs)) = take block_size bs"
      using "1.prems"(1) w by blast
    with False IH w show ?thesis
      by (simp add: ecb_encrypt.simps [of E bs] ecb_decrypt_block)
  qed
qed

lemma cbc_round_trip:
  assumes E: "\<And>b. length b = block_size \<Longrightarrow> length (E b) = block_size \<and> D (E b) = b"
    and "length bs mod block_size = 0" and "length prev = block_size"
  shows "cbc_decrypt D prev (cbc_encrypt E prev bs) = bs \<and> length (cbc_encrypt E prev bs) = length bs"
  using assms
proof (induction E prev bs rule: cbc_encrypt.induct)
  case (1 E prev bs)
  show ?case
  proof (cases "bs = []")
    case True
    then show ?thesis by (simp add: cbc_encrypt.simps cbc_decrypt.simps)
  next
    case False
    let ?x = "xor_bytes (take block_size bs) prev"
    note w = whole_blocks_cases [OF "1.prems"(2) False]
    have x: "length ?x = block_size" using w "1.prems"(3) by simp
    then have c: "length (E ?x) = block_size \<and> D (E ?x) = ?x"
      using "1.prems"(1) by blast
    have IH: "cbc_decrypt D (E ?x) (cbc_encrypt E (E ?x) (drop block_size bs)) = drop block_size bs \<and>
        length (cbc_encrypt E (E ?x) (drop block_size bs)) = length (drop block_size bs)"
      by (rule "1.IH" [OF False refl]) (use "1.prems"(1) w c in auto)
    have "xor_bytes ?x prev = take block_size bs"
      by (rule xor_bytes_cancel) (use w "1.prems"(3) in simp)
    with False IH w c show ?thesis
      by (simp add: cbc_encrypt.simps [of E prev bs] cbc_decrypt_block Let_def)
  qed
qed

lemma pkcs7_length: "length (pkcs7 p) mod block_size = 0" "pkcs7 p \<noteq> []"
proof -
  have lt: "length p mod block_size < block_size" by simp
  have "length (pkcs7 p) = (length p div block_size) * block_size + block_size"
    using div_mult_mod_eq [of "length p" block_size] lt unfolding pkcs7_def Let_def
      length_append length_replicate by arith
  then show "length (pkcs7 p) mod block_size = 0" by simp
  show "pkcs7 p \<noteq> []" using lt by (simp add: pkcs7_def Let_def)
qed

lemma unpad_pkcs7: "unpad (pkcs7 p) = Ret p"
proof -
  define n where "n = block_size - length p mod block_size"
  have n: "0 < n" "n \<le> 16" by (simp_all add: n_def)
  then have "unat (word_of_nat n :: byte) = n" by (simp add: unat_of_nat)
  moreover have "pkcs7 p = p @ replicate n (word_of_nat n)"
    by (simp add: pkcs7_def n_def Let_def)
  ultimately show ?thesis using n by (simp add: unpad_def)
qed

section \<open>Properties\<close>

text \<open>
  C38: what the backend encrypts the collector decrypts: for a block cipher whose decryption
  undoes its encryption, AesDecrypt on the hexadecimal ECB or CBC ciphertext of the padded text
  returns the text and no error, for every text, key and IV.
\<close>

theorem aes_decrypt_round_trip:
  assumes "block_cipher enc dec"
  shows "aes_decrypt dec (reference_encrypt enc plain secret_key iv) secret_key iv = Ret (plain, None)"
proof -
  let ?k = "fixed_bytes secret_key" and ?p = "pkcs7 (bytes_of plain)"
  have E: "\<And>b. length b = block_size \<Longrightarrow> length (enc ?k b) = block_size \<and> dec ?k (enc ?k b) = b"
    using assms by (simp add: block_cipher_def)
  define ct where "ct = (if iv = [] then ecb_encrypt (enc ?k) ?p else cbc_encrypt (enc ?k) (fixed_bytes iv) ?p)"
  have len: "length ct = length ?p"
    using ecb_round_trip [OF E pkcs7_length(1)]
      cbc_round_trip [OF E pkcs7_length(1) length_fixed_bytes]
    by (simp add: ct_def)
  have "hex_encode ct \<noteq> []"
    using len pkcs7_length(2) length_hex_encode [of ct] by auto
  moreover have "fst (hex_decode (length (hex_encode ct) div 2) (hex_encode ct)) = ct"
    by (simp add: length_hex_encode hex_decode_encode)
  ultimately show ?thesis
    using ecb_round_trip [OF E pkcs7_length(1)] len pkcs7_length(1)
      cbc_round_trip [OF E pkcs7_length(1) length_fixed_bytes]
    by (auto simp: aes_decrypt_def Let_def reference_encrypt_def ct_def unpad_pkcs7)
qed

theorem aes_decrypt_round_trip_witness:
  "block_cipher (\<lambda>k b. rev b) (\<lambda>k b. rev b) \<and>
   aes_decrypt (\<lambda>k b. rev b) (reference_encrypt (\<lambda>k b. rev b) ''apikey-1'' ''secret'' ''iv'') ''secret'' ''iv''
     = Ret (''apikey-1'', None)"
proof -
  have h: "block_cipher (\<lambda>k b. rev b) (\<lambda>k b. rev b)"
    by (simp add: block_cipher_def)
  from aes_decrypt_round_trip [OF this] h show ?thesis by simp
qed

end
