(* ===== verification/HttpUtils.thy ===== *)
theory HttpUtils
  imports Prelude
begin

text \<open>
  \<open>internal/utils/http_client_utils.go\<close> and the query escaping (\<open>url.QueryEscape\<close> of the
  standard library) the callers put around their arguments.  The network is an argument: what
  the server answers to a request.  Each call also returns its effects, in order: the request
  sent and the close of the response body.
\<close>

section \<open>Requests\<close>

record http_request =
  rq_method :: string
  rq_url :: string
  rq_content_type :: string
  rq_body :: string

text \<open>
  \<open>DoError\<close> stands for both ways to get no response: \<open>http.NewRequest\<close> refuses the URL or the
  exchange fails.  A response has a status code, a status line and a body whose reading may fail.
\<close>

datatype http_reply = DoError go_error | Reply int string "go_error + string"

datatype http_event = EvSend http_request | EvCloseBody

definition status_ok :: int where "status_ok = 200"

definition http_post ::
    "(http_request \<Rightarrow> http_reply) \<Rightarrow> string \<Rightarrow> string \<Rightarrow> (go_error + string) \<times> http_event list" where
  "http_post net url body =
     (let req = \<lparr>rq_method = ''POST'', rq_url = url, rq_content_type = ''application/json'', rq_body = body\<rparr>
      in case net req of
           DoError e \<Rightarrow> (Inl e, [EvSend req])
         | Reply code status rbody \<Rightarrow>
             if code \<noteq> status_ok then (Inl (''Status code: '' @ status), [EvSend req])
             else (rbody, [EvSend req, EvCloseBody]))"

definition http_get ::
    "(http_request \<Rightarrow> http_reply) \<Rightarrow> string \<Rightarrow> (go_error + string) \<times> http_event list" where
  "http_get net url =
     (let req = \<lparr>rq_method = ''GET'', rq_url = url, rq_content_type = [], rq_body = []\<rparr>
      in case net req of
           DoError e \<Rightarrow> (Inl e, [EvSend req])
         | Reply code status rbody \<Rightarrow>
             if code \<noteq> status_ok
             then (Inl (''Status code: '' @ status), [EvSend req, EvCloseBody])
             else (rbody, [EvSend req, EvCloseBody]))"

lemma http_get_result:
  "fst (http_get net url) =
     (case net \<lparr>rq_method = ''GET'', rq_url = url, rq_content_type = [], rq_body = []\<rparr> of
        DoError e \<Rightarrow> Inl e
      | Reply code status rbody \<Rightarrow>
          if code \<noteq> status_ok then Inl (''Status code: '' @ status) else rbody)"
  by (simp add: http_get_def Let_def split: http_reply.split)

section \<open>Query escaping\<close>

definition unreserved :: "char \<Rightarrow> bool" where
  "unreserved c =
     (let n = (of_char c :: nat)
      in 97 \<le> n \<and> n \<le> 122 \<or> 65 \<le> n \<and> n \<le> 90 \<or> 48 \<le> n \<and> n \<le> 57 \<or>
         c = CHR ''-'' \<or> c = CHR ''_'' \<or> c = CHR ''.'' \<or> c = CHR ''~'')"

definition upper_hex :: "nat \<Rightarrow> char" where
  "upper_hex n = (if n < 10 then char_of (48 + n) else char_of (55 + n))"

fun query_escape :: "string \<Rightarrow> string" where
  "query_escape [] = []"
| "query_escape (c # cs) =
     (if unreserved c then c # query_escape cs
      else if c = CHR '' '' then CHR ''+'' # query_escape cs
      else CHR ''%'' # upper_hex (of_char c div 16) # upper_hex (of_char c mod 16) # query_escape cs)"

lemma not_unreserved: "\<not> unreserved (CHR ''%'')" "\<not> unreserved (CHR ''+'')"
  by (simp_all add: unreserved_def Let_def)

lemma upper_hex_inj: "m < 16 \<Longrightarrow> n < 16 \<Longrightarrow> upper_hex m = upper_hex n \<Longrightarrow> m = n"
  by (auto simp: upper_hex_def split: if_splits)

lemma char_div_16: "(of_char c :: nat) div 16 < 16"
  by (rule less_mult_imp_div_less) simp

lemma upper_hex_byte_inj:
  assumes "upper_hex (of_char c div 16) = upper_hex (of_char d div 16)"
    and "upper_hex (of_char c mod 16) = upper_hex (of_char d mod 16)"
  shows "c = d"
proof -
  have "(of_char c :: nat) div 16 = of_char d div 16" "(of_char c :: nat) mod 16 = of_char d mod 16"
    using assms char_div_16 by (auto intro!: upper_hex_inj)
  then have "(of_char c :: nat) = of_char d"
    by (metis div_mult_mod_eq)
  then show ?thesis by simp
qed

lemma query_escape_inj: "query_escape s = query_escape t \<Longrightarrow> s = t"
proof (induction s arbitrary: t)
  case Nil
  then show ?case by (cases t) (auto split: if_splits)
next
  case (Cons c cs)
  then obtain d ds where t: "t = d # ds"
    by (cases t) (auto split: if_splits)
  have "c = d \<and> query_escape cs = query_escape ds"
    using Cons.prems not_unreserved upper_hex_byte_inj [of c d]
    by (auto simp: t split: if_splits)
  with Cons.IH t show ?case by blast
qed

lemma set_query_escape: "x \<in> set (query_escape s) \<Longrightarrow> x \<noteq> CHR ''&'' \<and> x \<noteq> CHR ''=''"
proof (induction s)
  case (Cons c cs)
  have h: "upper_hex n \<noteq> CHR ''&'' \<and> upper_hex n \<noteq> CHR ''=''" if "n < 16" for n
  proof -
    have "of_char (upper_hex n) \<noteq> (38::nat) \<and> of_char (upper_hex n) \<noteq> (61::nat)"
      using that by (auto simp: upper_hex_def)
    then show ?thesis by auto
  qed
  with Cons char_div_16 [of c] h [of "of_char c div 16"] h [of "of_char c mod 16"] show ?case
    by (auto simp: unreserved_def Let_def split: if_splits)
qed simp

section \<open>Properties\<close>

text \<open>
  The GET helper closes the body of every response it receives, whatever the status; the
  POST helper does so exactly for responses with status 200 and leaves the body of every other
  response open.
\<close>

lemma http_bodies_closed:
  assumes "net \<lparr>rq_method = ''GET'', rq_url = url, rq_content_type = [], rq_body = []\<rparr> = Reply c1 s1 b1"
    and "net \<lparr>rq_method = ''POST'', rq_url = url, rq_content_type = ''application/json'', rq_body = body\<rparr>
           = Reply c2 s2 b2"
  shows "EvCloseBody \<in> set (snd (http_get net url)) \<and>
         (EvCloseBody \<in> set (snd (http_post net url body)) \<longleftrightarrow> c2 = 200)"
  using assms by (simp add: http_get_def http_post_def status_ok_def Let_def)

lemma http_bodies_closed_witness:
  "EvCloseBody \<in> set (snd (http_get (\<lambda>_. Reply 500 ''500 x'' (Inr [])) ''u'')) \<and>
   EvCloseBody \<notin> set (snd (http_post (\<lambda>_. Reply 500 ''500 x'' (Inr [])) ''u'' ''b''))"
  using http_bodies_closed
    [of "\<lambda>_. Reply 500 ''500 x'' (Inr [])" "''u''" 500 "''500 x''" "Inr []" "''b''" 500 "''500 x''" "Inr []"]
  by simp

end
