(* ===== verification/AuthExtension.thy ===== *)
theory AuthExtension
  imports Aes HttpUtils
begin

text \<open>
  \<open>extension/httpforwarderauthextension\<close>: the server authenticator.  It reads the credential
  from the headers, decrypts it if so configured, takes custom tags from an extended credential,
  asks the gateway (or the cache) for the tenant of the credential and puts the tenant in the
  context.  Arguments of the model: the block cipher, \<open>json.Unmarshal\<close> into a
  \<open>map[string]string\<close>, the network, and the two operations of the third-party cache.
\<close>

section \<open>Configuration, context, errors\<close>

record decrypt_config =
  dc_enable :: bool
  dc_secret_key :: string
  dc_iv :: string

record auth_config =
  ac_url :: string
  ac_decrypt :: decrypt_config

text \<open>The context values the receivers read: custom tags, tenant, incoming metadata.\<close>

record context_values =
  ctx_tags :: "gomap option"
  ctx_tenant :: "string option"
  ctx_metadata :: "(string \<rightharpoonup> string list) option"

definition background :: context_values where
  "background = \<lparr>ctx_tags = None, ctx_tenant = None, ctx_metadata = None\<rparr>"

datatype auth_error =
    ErrURLNotSet
  | ErrNotAuthenticated
  | ErrCheckAuthentication
  | ErrPermissionDenied
  | ErrTraceNotEnabled
  | ErrUnmarshal go_error

text \<open>The cache, a third-party package: \<open>Get\<close> and \<open>Set\<close> over a state of its own.\<close>

record 'c cache_ops =
  c_get :: "'c \<Rightarrow> string \<Rightarrow> string option \<times> 'c"
  c_set :: "'c \<Rightarrow> string \<Rightarrow> string \<Rightarrow> nat \<Rightarrow> go_error option \<times> 'c"

record 'c auth_state =
  as_cache :: 'c
  as_trace :: "(string \<times> (go_error + string)) list" \<comment> \<open>requests to the gateway, with their results\<close>

type_synonym block_dec = "byte list \<Rightarrow> byte list \<Rightarrow> byte list"
type_synonym json_map = "string \<Rightarrow> go_error + gomap"

definition authentication_key :: string where "authentication_key = ''authentication''"
definition extend_prefix :: string where "extend_prefix = ''extend''"
definition grpc_metadata_tenant :: string where "grpc_metadata_tenant = ''tenant''"
definition grpc_trace_status :: string where "grpc_trace_status = ''traceStatus''"
definition cache_expire :: nat where "cache_expire = 2 * 60"

definition new_auth_extension :: "auth_config \<Rightarrow> 'c \<Rightarrow> auth_error + (auth_config \<times> 'c auth_state)" where
  "new_auth_extension cfg empty_cache =
     (if ac_url cfg = [] then Inl ErrURLNotSet
      else Inr (cfg, \<lparr>as_cache = empty_cache, as_trace = []\<rparr>))"

text \<open>The default configuration names no gateway, so an extension that configures nothing is refused.\<close>

definition auth_default_config :: auth_config where
  "auth_default_config =
     \<lparr>ac_url = [], ac_decrypt = \<lparr>dc_enable = False, dc_secret_key = [], dc_iv = []\<rparr>\<rparr>"

lemma auth_default_refused: "new_auth_extension auth_default_config c = Inl ErrURLNotSet"
  by (simp add: new_auth_extension_def auth_default_config_def)

section \<open>The stages of authenticate\<close>

text \<open>
  The credential: decryption replaces it when enabled; an error of the decryption is only logged,
  and the value returned with it is used.
\<close>

definition credential :: "block_dec \<Rightarrow> auth_config \<Rightarrow> string \<Rightarrow> string outcome" where
  "credential dec cfg header =
     (let d = ac_decrypt cfg
      in if dc_enable d \<and> dc_secret_key d \<noteq> []
         then bind_outcome (aes_decrypt dec header (dc_secret_key d) (dc_iv d)) (\<lambda>(v, err). Ret v)
         else Ret header)"

text \<open>The extended form \<open>extend{...}\<close>: what follows the prefix is parsed, up to the next \<open>extend\<close>.\<close>

definition extend_context ::
    "json_map \<Rightarrow> string \<Rightarrow> context_values \<Rightarrow> (auth_error + context_values) outcome" where
  "extend_context unmarshal apikey ctx =
     (if has_prefix apikey extend_prefix
      then (case split_str extend_prefix apikey of
              _ # body # _ \<Rightarrow>
                (case unmarshal body of
                   Inl e \<Rightarrow> Ret (Inl (ErrUnmarshal e))
                 | Inr m \<Rightarrow> Ret (Inr (ctx\<lparr>ctx_tags := Some (gm_delete authentication_key m)\<rparr>)))
            | _ \<Rightarrow> Panic)
      else Ret (Inr ctx))"

definition gateway_url :: "auth_config \<Rightarrow> string \<Rightarrow> string" where
  "gateway_url cfg apikey = ac_url cfg @ ''?apikey='' @ query_escape apikey"

text \<open>The cache, then the gateway; an answer of the gateway is cached for two minutes.\<close>

definition lookup_credential ::
    "'c cache_ops \<Rightarrow> (http_request \<Rightarrow> http_reply) \<Rightarrow> auth_config \<Rightarrow> string \<Rightarrow> 'c auth_state \<Rightarrow>
     (auth_error + string) \<times> 'c auth_state" where
  "lookup_credential ops net cfg apikey st =
     (case c_get ops (as_cache st) apikey of
        (cached, c1) \<Rightarrow>
          if cached = None \<or> cached = Some []
          then (let url = gateway_url cfg apikey;
                    result = fst (http_get net url);
                    st1 = st\<lparr>as_cache := c1, as_trace := as_trace st @ [(url, result)]\<rparr>
                in case result of
                     Inl e \<Rightarrow> (Inl ErrCheckAuthentication, st1)
                   | Inr response \<Rightarrow>
                       (case c_set ops c1 apikey response cache_expire of
                          (Some e, c2) \<Rightarrow> (Inl ErrCheckAuthentication, st1\<lparr>as_cache := c2\<rparr>)
                        | (None, c2) \<Rightarrow> (Inr response, st1\<lparr>as_cache := c2\<rparr>)))
          else (Inr (the cached), st\<lparr>as_cache := c1\<rparr>))"

text \<open>The checks on the gateway's answer; a nil context is returned with a parse error only.\<close>

definition check_response ::
    "json_map \<Rightarrow> (string \<rightharpoonup> string list) \<Rightarrow> context_values \<Rightarrow> string \<Rightarrow>
     context_values option \<times> auth_error option" where
  "check_response unmarshal headers ctx response =
     (case unmarshal response of
        Inl e \<Rightarrow> (None, Some (ErrUnmarshal e))
      | Inr m \<Rightarrow>
          if m = [] \<or> gm_get m grpc_metadata_tenant = [] then (Some ctx, Some ErrPermissionDenied)
          else if gm_get m grpc_trace_status = ''false'' then (Some ctx, Some ErrTraceNotEnabled)
          else (Some (ctx\<lparr>ctx_tenant := Some (gm_get m grpc_metadata_tenant),
                          ctx_metadata := Some headers\<rparr>), None))"

text \<open>From the extended context on: the gateway's answer decides.\<close>

definition resolve_tenant ::
    "json_map \<Rightarrow> 'c cache_ops \<Rightarrow> (http_request \<Rightarrow> http_reply) \<Rightarrow> auth_config \<Rightarrow> (string \<rightharpoonup> string list) \<Rightarrow>
     string \<Rightarrow> auth_error + context_values \<Rightarrow> 'c auth_state \<Rightarrow>
     (context_values option \<times> auth_error option) \<times> 'c auth_state" where
  "resolve_tenant unmarshal ops net cfg headers apikey ext st =
     (case ext of
        Inl e \<Rightarrow> ((None, Some e), st)
      | Inr ctx1 \<Rightarrow>
          (case lookup_credential ops net cfg apikey st of
             (Inl e, st1) \<Rightarrow> ((Some ctx1, Some e), st1)
           | (Inr response, st1) \<Rightarrow> (check_response unmarshal headers ctx1 response, st1)))"

definition authenticate ::
    "block_dec \<Rightarrow> json_map \<Rightarrow> 'c cache_ops \<Rightarrow> (http_request \<Rightarrow> http_reply) \<Rightarrow> auth_config \<Rightarrow>
     context_values \<Rightarrow> (string \<rightharpoonup> string list) \<Rightarrow> 'c auth_state \<Rightarrow>
     ((context_values option \<times> auth_error option) \<times> 'c auth_state) outcome" where
  "authenticate dec unmarshal ops net cfg ctx headers st =
     (case headers authentication_key of
        Some (header # _) \<Rightarrow>
          if header = [] then Ret ((Some ctx, Some ErrNotAuthenticated), st)
          else
            bind_outcome (credential dec cfg header) (\<lambda>apikey.
            bind_outcome (extend_context unmarshal apikey ctx) (\<lambda>ext.
              Ret (resolve_tenant unmarshal ops net cfg headers apikey ext st)))
      | _ \<Rightarrow> Ret ((Some ctx, Some ErrNotAuthenticated), st))"

section \<open>Facts about the stages\<close>

lemma extend_context_no_panic: "extend_context unmarshal apikey ctx \<noteq> Panic"
proof (cases "has_prefix apikey extend_prefix")
  case True
  then have "index_str extend_prefix apikey = Some 0"
    by (cases apikey) (simp_all add: has_prefix_def extend_prefix_def)
  then have "2 \<le> length (split_str extend_prefix apikey)"
    by (intro split_str_length) (simp_all add: extend_prefix_def contains_str_def)
  then obtain a b rest where "split_str extend_prefix apikey = a # b # rest"
    by (metis Suc_le_length_iff numeral_2_eq_2)
  with True show ?thesis
    by (simp add: extend_context_def split: sum.split)
qed (simp add: extend_context_def)

lemma extend_context_tags:
  assumes "extend_context unmarshal apikey ctx = Ret (Inr ctx1)" and "ctx_tags ctx = None"
  shows "\<forall>tags. ctx_tags ctx1 = Some tags \<longrightarrow> authentication_key \<notin> fst ` set tags"
  using assms
  by (auto simp: extend_context_def gm_delete_keys split: if_splits list.splits sum.splits)

lemma extend_context_other:
  assumes "extend_context unmarshal apikey ctx = Ret (Inr ctx1)"
  shows "ctx_tenant ctx1 = ctx_tenant ctx" and "ctx_metadata ctx1 = ctx_metadata ctx"
  using assms by (auto simp: extend_context_def split: if_splits list.splits sum.splits)

lemma check_response_success:
  "check_response unmarshal headers ctx response = (Some ctx', None) \<longleftrightarrow>
     (\<exists>m. unmarshal response = Inr m \<and> gm_get m grpc_metadata_tenant \<noteq> [] \<and>
          gm_get m grpc_trace_status \<noteq> ''false'' \<and>
          ctx' = ctx\<lparr>ctx_tenant := Some (gm_get m grpc_metadata_tenant), ctx_metadata := Some headers\<rparr>)"
  by (auto simp: check_response_def gm_get_def split: sum.split)

lemma authenticate_success:
  assumes "authenticate dec unmarshal ops net cfg ctx headers st = Ret ((Some ctx', None), st')"
  obtains header rest apikey ctx1 response where
    "headers authentication_key = Some (header # rest)" and "header \<noteq> []"
    and "credential dec cfg header = Ret apikey"
    and "extend_context unmarshal apikey ctx = Ret (Inr ctx1)"
    and "lookup_credential ops net cfg apikey st = (Inr response, st')"
    and "check_response unmarshal headers ctx1 response = (Some ctx', None)"
proof -
  from assms obtain header rest where h: "headers authentication_key = Some (header # rest)" "header \<noteq> []"
    by (auto simp: authenticate_def split: option.splits list.splits if_splits)
  with assms obtain apikey ext where c: "credential dec cfg header = Ret apikey"
    and e: "extend_context unmarshal apikey ctx = Ret ext"
    and r: "resolve_tenant unmarshal ops net cfg headers apikey ext st = ((Some ctx', None), st')"
    by (auto simp: authenticate_def bind_outcome_Ret_iff)
  from r obtain ctx1 where x: "ext = Inr ctx1" by (cases ext) (auto simp: resolve_tenant_def)
  obtain a st1 where l: "lookup_credential ops net cfg apikey st = (a, st1)" by fastforce
  with r x obtain response where "a = Inr response" by (cases a) (auto simp: resolve_tenant_def)
  with that [OF h c e [unfolded x]] l r x show thesis by (auto simp: resolve_tenant_def)
qed

section \<open>The cache never changes who the caller is\<close>

text \<open>
  What the cache package documents: \<open>Get\<close> returns a value that was stored under that key and
  not replaced since; entries may disappear at any time; a failed \<open>Set\<close> stores nothing.
  \<open>view\<close> gives the entries that can be retrieved.
\<close>

definition cache_refines :: "'c cache_ops \<Rightarrow> ('c \<Rightarrow> string \<rightharpoonup> string) \<Rightarrow> bool" where
  "cache_refines ops view \<longleftrightarrow>
     (\<forall>c k. view (snd (c_get ops c k)) \<subseteq>\<^sub>m view c \<and>
            (\<forall>v. fst (c_get ops c k) = Some v \<longrightarrow> view c k = Some v)) \<and>
     (\<forall>c k v n. view (snd (c_set ops c k v n)) \<subseteq>\<^sub>m
            (case fst (c_set ops c k v n) of None \<Rightarrow> (view c)(k \<mapsto> v) | Some e \<Rightarrow> view c))"

text \<open>Any sequence of authentications, each against whatever the gateway then answers.\<close>

inductive auth_reachable ::
    "block_dec \<Rightarrow> json_map \<Rightarrow> 'c cache_ops \<Rightarrow> auth_config \<Rightarrow> 'c \<Rightarrow> 'c auth_state \<Rightarrow> bool"
  for dec unmarshal ops cfg empty_cache where
  auth_start: "auth_reachable dec unmarshal ops cfg empty_cache \<lparr>as_cache = empty_cache, as_trace = []\<rparr>"
| auth_step: "auth_reachable dec unmarshal ops cfg empty_cache st \<Longrightarrow>
     authenticate dec unmarshal ops net cfg ctx headers st = Ret (res, st') \<Longrightarrow>
     auth_reachable dec unmarshal ops cfg empty_cache st'"

text \<open>Every retrievable entry is an answer the gateway gave for that very credential.\<close>

definition cache_from_gateway ::
    "('c \<Rightarrow> string \<rightharpoonup> string) \<Rightarrow> auth_config \<Rightarrow> 'c auth_state \<Rightarrow> bool" where
  "cache_from_gateway view cfg st \<longleftrightarrow>
     (\<forall>k v. view (as_cache st) k = Some v \<longrightarrow> (gateway_url cfg k, Inr v) \<in> set (as_trace st))"

lemma cache_from_gateway_mono:
  assumes "cache_from_gateway view cfg st" and "view c \<subseteq>\<^sub>m view (as_cache st)"
    and "set (as_trace st) \<subseteq> set tr"
  shows "cache_from_gateway view cfg \<lparr>as_cache = c, as_trace = tr\<rparr>"
  using assms unfolding cache_from_gateway_def map_le_def
  by (metis (no_types, lifting) auth_state.select_convs domI subset_iff)

lemma lookup_credential_inv:
  assumes cache: "cache_refines ops view" and inv: "cache_from_gateway view cfg st"
    and look: "lookup_credential ops net cfg apikey st = (res, st')"
  shows "cache_from_gateway view cfg st' \<and>
         (\<forall>response. res = Inr response \<longrightarrow> (gateway_url cfg apikey, Inr response) \<in> set (as_trace st'))"
proof -
  obtain cached c1 where g: "c_get ops (as_cache st) apikey = (cached, c1)"
    by fastforce
  have le1: "view c1 \<subseteq>\<^sub>m view (as_cache st)"
    and hit: "\<And>v. cached = Some v \<Longrightarrow> view (as_cache st) apikey = Some v"
    using cache g unfolding cache_refines_def by (metis fst_conv snd_conv)+
  show ?thesis
  proof (cases "cached = None \<or> cached = Some []")
    case False
    then have st': "st' = st\<lparr>as_cache := c1\<rparr>" and res: "res = Inr (the cached)"
      using look g by (auto simp: lookup_credential_def)
    from False obtain v where v: "cached = Some v" by auto
    have "(gateway_url cfg apikey, Inr (the cached)) \<in> set (as_trace st)"
      using inv hit [OF v] v by (simp add: cache_from_gateway_def)
    with cache_from_gateway_mono [OF inv le1 subset_refl] st' res show ?thesis
      by (cases st) simp
  next
    case True
    define url where "url = gateway_url cfg apikey"
    define result where "result = fst (http_get net url)"
    define st1 where "st1 = st\<lparr>as_cache := c1, as_trace := as_trace st @ [(url, result)]\<rparr>"
    have inv1: "cache_from_gateway view cfg st1"
      using cache_from_gateway_mono [OF inv le1, of "as_trace st @ [(url, result)]"]
      by (cases st) (auto simp: st1_def)
    show ?thesis
    proof (cases result)
      case (Inl e)
      with look g True inv1 show ?thesis
        by (auto simp: lookup_credential_def Let_def st1_def result_def url_def)
    next
      case (Inr response)
      obtain err c2 where s: "c_set ops c1 apikey response cache_expire = (err, c2)"
        by fastforce
      have le2: "view c2 \<subseteq>\<^sub>m (case err of None \<Rightarrow> (view c1)(apikey \<mapsto> response) | Some e \<Rightarrow> view c1)"
        using cache s unfolding cache_refines_def by (metis fst_conv snd_conv)
      have st': "st' = st1\<lparr>as_cache := c2\<rparr>"
        and res: "\<And>r. res = Inr r \<Longrightarrow> r = response"
        using look g True Inr s
        by (auto simp: lookup_credential_def Let_def st1_def result_def url_def split: option.splits)
      have here: "(gateway_url cfg apikey, Inr response) \<in> set (as_trace st1)"
        using Inr by (simp add: st1_def url_def)
      have "cache_from_gateway view cfg st'"
        unfolding cache_from_gateway_def
      proof (intro allI impI)
        fix k v
        assume "view (as_cache st') k = Some v"
        then have "view c2 k = Some v" by (simp add: st')
        then have "(case err of None \<Rightarrow> (view c1)(apikey \<mapsto> response) | Some e \<Rightarrow> view c1) k = Some v"
          using le2 unfolding map_le_def by (metis domI)
        then have "k = apikey \<and> v = response \<or> view c1 k = Some v"
          by (auto split: option.splits if_splits)
        then show "(gateway_url cfg k, Inr v) \<in> set (as_trace st')"
          using here inv1 by (auto simp: st' cache_from_gateway_def st1_def)
      qed
      with res here st' show ?thesis by auto
    qed
  qed
qed


lemma authenticate_inv:
  assumes "cache_refines ops view" and "cache_from_gateway view cfg st"
    and "authenticate dec unmarshal ops net cfg ctx headers st = Ret (res, st')"
  shows "cache_from_gateway view cfg st'"
proof -
  have resolve: "t = st \<or> (\<exists>a. lookup_credential ops net cfg apikey st = (a, t))"
    if "resolve_tenant unmarshal ops net cfg headers apikey ext st = (res, t)" for apikey ext res t
    using that by (auto simp: resolve_tenant_def split: sum.splits prod.splits)
  have "st' = st \<or> (\<exists>apikey ext. resolve_tenant unmarshal ops net cfg headers apikey ext st = (res, st'))"
    using assms(3)
    by (auto simp: authenticate_def bind_outcome_Ret_iff split: option.splits list.splits if_splits)
  with resolve have "st' = st \<or> (\<exists>apikey a. lookup_credential ops net cfg apikey st = (a, st'))"
    by blast
  with assms(1,2) lookup_credential_inv show ?thesis by metis
qed

lemma auth_reachable_inv:
  assumes "auth_reachable dec unmarshal ops cfg empty_cache st"
    and "cache_refines ops view" and "view empty_cache = Map.empty"
  shows "cache_from_gateway view cfg st"
  using assms
  by (induction rule: auth_reachable.induct)
    (auto simp: cache_from_gateway_def [of _ _ "\<lparr>as_cache = _, as_trace = _\<rparr>"]
      intro: authenticate_inv)

lemma gateway_url_inj: "gateway_url cfg k = gateway_url cfg k' \<Longrightarrow> k = k'"
  by (auto simp: gateway_url_def dest: query_escape_inj)

section \<open>Properties\<close>

text \<open>
  C2: over any sequence of authentications, with a cache that may evict at will, a call that
  succeeds puts in the context a non-empty tenant taken from an answer with status 200 that the
  gateway gave to a request made for exactly this caller's credential (no other credential has
  that request URL), whose traceStatus is not false; the custom tags it adds never contain the
  key authentication.
\<close>

theorem authenticated_tenant_from_gateway:
  assumes "auth_reachable dec unmarshal ops cfg empty_cache st"
    and "cache_refines ops view" and "view empty_cache = Map.empty"
    and "authenticate dec unmarshal ops net cfg background headers st = Ret ((Some ctx', None), st')"
  shows "\<exists>header rest apikey response m.
           headers authentication_key = Some (header # rest) \<and>
           credential dec cfg header = Ret apikey \<and>
           (gateway_url cfg apikey, Inr response) \<in> set (as_trace st') \<and>
           (\<forall>k. gateway_url cfg k = gateway_url cfg apikey \<longrightarrow> k = apikey) \<and>
           unmarshal response = Inr m \<and>
           ctx_tenant ctx' = Some (gm_get m grpc_metadata_tenant) \<and>
           gm_get m grpc_metadata_tenant \<noteq> [] \<and> gm_get m grpc_trace_status \<noteq> ''false'' \<and>
           (\<forall>tags. ctx_tags ctx' = Some tags \<longrightarrow> authentication_key \<notin> fst ` set tags)"
  using assms(4)
proof (rule authenticate_success)
  fix header rest apikey ctx1 response
  assume h: "headers authentication_key = Some (header # rest)" "credential dec cfg header = Ret apikey"
    and e: "extend_context unmarshal apikey background = Ret (Inr ctx1)"
    and l: "lookup_credential ops net cfg apikey st = (Inr response, st')"
    and c: "check_response unmarshal headers ctx1 response = (Some ctx', None)"
  have "cache_from_gateway view cfg st"
    using assms(1-3) by (rule auth_reachable_inv)
  from lookup_credential_inv [OF assms(2) this l]
  have "(gateway_url cfg apikey, Inr response) \<in> set (as_trace st')" by simp
  moreover have "\<forall>tags. ctx_tags ctx1 = Some tags \<longrightarrow> authentication_key \<notin> fst ` set tags"
    using extend_context_tags [OF e] by (simp add: background_def)
  ultimately show ?thesis
    using h c gateway_url_inj unfolding check_response_success by fastforce
qed

text \<open>A cache that forgets nothing and a gateway that knows one credential, for the witnesses.\<close>

definition toy_cache :: "(string \<rightharpoonup> string) cache_ops" where
  "toy_cache = \<lparr>c_get = (\<lambda>c k. (c k, c)), c_set = (\<lambda>c k v n. (None, c(k \<mapsto> v)))\<rparr>"

definition toy_unmarshal :: json_map where
  "toy_unmarshal s =
     (if s = ''{t}'' then Inr [(''tenant'', ''acme''), (''traceStatus'', ''true'')]
      else if s = ''{}'' then Inr [] else Inl ''invalid character'')"

definition toy_config :: "bool \<Rightarrow> auth_config" where
  "toy_config enable =
     \<lparr>ac_url = ''gw'', ac_decrypt = \<lparr>dc_enable = enable, dc_secret_key = ''secret'', dc_iv = ''iv''\<rparr>\<rparr>"

definition toy_net :: "http_request \<Rightarrow> http_reply" where
  "toy_net req =
     (if rq_url req = ''gw?apikey=k1'' then Reply 200 ''200 OK'' (Inr ''{t}'')
      else Reply 404 ''404 Not Found'' (Inr []))"

lemma toy_cache_refines: "cache_refines toy_cache (\<lambda>c. c)"
  by (simp add: cache_refines_def toy_cache_def)

lemmas toy_simps =
  toy_cache_def toy_unmarshal_def toy_config_def toy_net_def authenticate_def resolve_tenant_def credential_def
  extend_context_def lookup_credential_def check_response_def http_get_def gateway_url_def
  status_ok_def unreserved_def has_prefix_def extend_prefix_def authentication_key_def
  grpc_metadata_tenant_def grpc_trace_status_def gm_get_def background_def cache_expire_def

lemma toy_run:
  "authenticate (\<lambda>_ b. b) toy_unmarshal toy_cache toy_net (toy_config False) background
     [''authentication'' \<mapsto> [''k1'']] \<lparr>as_cache = Map.empty, as_trace = []\<rparr> =
   Ret ((Some \<lparr>ctx_tags = None, ctx_tenant = Some ''acme'',
               ctx_metadata = Some [''authentication'' \<mapsto> [''k1'']]\<rparr>, None),
        \<lparr>as_cache = [''k1'' \<mapsto> ''{t}''], as_trace = [(''gw?apikey=k1'', Inr ''{t}'')]\<rparr>)"
  by (simp add: toy_simps Let_def)

theorem authenticated_tenant_from_gateway_witness:
  "\<exists>header rest apikey response m.
     [''authentication'' \<mapsto> [''k1'']] authentication_key = Some (header # rest) \<and>
     credential (\<lambda>_ b. b) (toy_config False) header = Ret apikey \<and>
     (gateway_url (toy_config False) apikey, Inr response) \<in> set [(''gw?apikey=k1'', Inr ''{t}'' :: go_error + string)] \<and>
     toy_unmarshal response = Inr m \<and> Some ''acme'' = Some (gm_get m grpc_metadata_tenant)"
proof -
  have "auth_reachable (\<lambda>_ b. b) toy_unmarshal toy_cache (toy_config False) Map.empty
      \<lparr>as_cache = Map.empty, as_trace = []\<rparr>"
    by (rule auth_start)
  from authenticated_tenant_from_gateway [OF this toy_cache_refines refl toy_run]
  show ?thesis by (simp only: auth_state.select_convs context_values.select_convs) blast
qed

text \<open>
  With decryption enabled, a credential header of a single byte makes the authenticator
  panic, whatever the key, the IV, the cipher and the gateway: the decoded ciphertext is empty
  and its last byte is read.
\<close>

lemma one_byte_credential_panics:
  assumes "dc_enable (ac_decrypt cfg)" and "dc_secret_key (ac_decrypt cfg) \<noteq> []"
    and "headers authentication_key = Some ([c] # rest)"
  shows "authenticate dec unmarshal ops net cfg ctx headers st = Panic"
  using assms
  by (simp add: authenticate_def credential_def aes_decrypt_def Let_def hex_decode_def unpad_def
      ecb_decrypt.simps cbc_decrypt.simps)

lemma one_byte_credential_panics_witness:
  "authenticate (\<lambda>_ b. b) toy_unmarshal toy_cache toy_net (toy_config True) background
     [''authentication'' \<mapsto> [''x'']] \<lparr>as_cache = Map.empty, as_trace = []\<rparr> = Panic"
  by (rule one_byte_credential_panics [where rest = "[]" and c = "CHR ''x''"])
    (simp_all add: toy_config_def authentication_key_def)


lemma split_extend_twice:
  assumes "index_str extend_prefix (a @ extend_prefix @ b) = Some (length a)"
  shows "\<exists>rest. split_str extend_prefix (extend_prefix @ a @ extend_prefix @ b) = [] # a # rest"
proof -
  have "index_str extend_prefix (extend_prefix @ a @ extend_prefix @ b) = Some 0"
    by (simp add: extend_prefix_def has_prefix_def)
  then have "split_str extend_prefix (extend_prefix @ a @ extend_prefix @ b) =
      [] # split_str extend_prefix (a @ extend_prefix @ b)"
    by (subst split_str.simps) (simp add: extend_prefix_def)
  with assms show ?thesis
    by (subst (asm) (2) split_str.simps) (auto simp: extend_prefix_def)
qed

text \<open>
  An extended credential is parsed only up to the next occurrence of the word extend: if a
  custom tag's name or value contains it, the JSON text is cut there, and when the cut text does
  not parse the whole call fails with that parse error, without asking the gateway.
\<close>

lemma extended_credential_cut:
  assumes "\<not> dc_enable (ac_decrypt cfg)"
    and "headers authentication_key = Some ((extend_prefix @ a @ extend_prefix @ b) # rest)"
    and "index_str extend_prefix (a @ extend_prefix @ b) = Some (length a)"
    and "unmarshal a = Inl e"
  shows "authenticate dec unmarshal ops net cfg ctx headers st = Ret ((None, Some (ErrUnmarshal e)), st)"
proof -
  obtain tl where "split_str extend_prefix (extend_prefix @ a @ extend_prefix @ b) = [] # a # tl"
    using split_extend_twice [OF assms(3)] by auto
  moreover have "has_prefix (extend_prefix @ a @ extend_prefix @ b) extend_prefix"
    by (simp add: has_prefix_def)
  ultimately have "extend_context unmarshal (extend_prefix @ a @ extend_prefix @ b) ctx =
      Ret (Inl (ErrUnmarshal e))"
    using assms(4) by (simp add: extend_context_def)
  moreover have "extend_prefix \<noteq> []" by (simp add: extend_prefix_def)
  ultimately show ?thesis
    using assms(1,2) by (simp add: authenticate_def credential_def resolve_tenant_def)
qed

lemma extended_credential_cut_witness:
  "authenticate (\<lambda>_ b. b) toy_unmarshal toy_cache toy_net (toy_config False) background
     [''authentication'' \<mapsto> [''extend{custom_extend_tag}'']] \<lparr>as_cache = Map.empty, as_trace = []\<rparr> =
   Ret ((None, Some (ErrUnmarshal ''invalid character'')), \<lparr>as_cache = Map.empty, as_trace = []\<rparr>)"
  by (rule extended_credential_cut [where a = "''{custom_''" and b = "''_tag}''" and rest = "[]"])
    (simp_all add: toy_config_def authentication_key_def extend_prefix_def has_prefix_def toy_unmarshal_def)

end
