(* ===== verification/SkywalkingTraces.thy ===== *)
theory SkywalkingTraces
  imports Pdata SkywalkingIds SkywalkingComponents AuthExtension
begin

text \<open>
  The rest of \<open>skywalkingproto_to_traces.go\<close>: a SkyWalking segment to OpenTelemetry spans.
  The records hold the protocol fields the translation reads; the segments come from the gRPC or
  JSON decoder, which puts no nil into the tag, log and reference lists.  The names of the enum
  values (\<open>SpanLayer.String()\<close>, \<open>RefType.String()\<close>), \<open>uuid.Parse\<close>, SHA-256 and the component
  tables built at start-up form the environment \<open>sw_env\<close>.
\<close>

section \<open>Segments\<close>

datatype span_type = TypeEntry | TypeExit | TypeLocal | TypeOther i32

datatype span_layer = LayerDatabase | LayerMQ | LayerCache | LayerOther i32

record sw_ref =
  ref_trace_id :: string
  ref_parent_segment_id :: string
  ref_parent_span_id :: i32
  ref_parent_service :: string
  ref_parent_service_instance :: string
  ref_parent_endpoint :: string
  ref_network_address :: string
  ref_type :: i32

record sw_log =
  log_time :: i64
  log_data :: "(string \<times> string) list"

record sw_span =
  span_id :: i32
  parent_span_id :: i32
  start_time :: i64
  end_time :: i64
  span_refs :: "sw_ref list"
  operation_name :: string
  span_peer :: string
  sw_span_type :: span_type
  sw_span_layer :: span_layer
  sw_component_id :: i32
  is_error :: bool
  span_tags :: "(string \<times> string) list"
  span_logs :: "sw_log list"

text \<open>The span list of a segment may be nil, and so may its elements.\<close>

record sw_segment =
  seg_trace_id :: string
  seg_segment_id :: string
  seg_spans :: "sw_span option list option"
  seg_service :: string
  seg_service_instance :: string

record sw_env =
  env_uuid_parse :: "string \<Rightarrow> byte list option"
  env_sha256 :: "byte list \<Rightarrow> byte list"
  env_layer_name :: "span_layer \<Rightarrow> string"
  env_ref_type_name :: "i32 \<Rightarrow> string"
  env_tables :: component_tables

section \<open>Attributes\<close>

text \<open>The keys, those of the semantic conventions by their documented values.\<close>

definition tenant_key :: string where "tenant_key = ''tenant''"
definition attr_ref_type :: string where "attr_ref_type = ''refType''"
definition attr_parent_service :: string where "attr_parent_service = ''parent.service''"
definition attr_parent_instance :: string where "attr_parent_instance = ''parent.service.instance.id''"
definition attr_parent_instance_name :: string where
  "attr_parent_instance_name = ''parent.service.instance.name''"
definition attr_instance :: string where "attr_instance = ''service.instance.name''"
definition attr_parent_endpoint :: string where "attr_parent_endpoint = ''parent.endpoint''"
definition attr_sw_span_id :: string where "attr_sw_span_id = ''sw8.span_id''"
definition attr_sw_trace_id :: string where "attr_sw_trace_id = ''sw8.trace_id''"
definition attr_sw_segment_id :: string where "attr_sw_segment_id = ''sw8.segment_id''"
definition attr_sw_parent_span_id :: string where "attr_sw_parent_span_id = ''sw8.parent_span_id''"
definition attr_sw_parent_segment_id :: string where
  "attr_sw_parent_segment_id = ''sw8.parent_segment_id''"
definition attr_sw_component :: string where "attr_sw_component = ''sw8.component''"
definition attr_network_address :: string where "attr_network_address = ''network.AddressUsedAtPeer''"
definition attr_span_layer :: string where "attr_span_layer = ''spanLayer''"
definition conv_net_peer_name :: string where "conv_net_peer_name = ''net.peer.name''"
definition conv_net_host_ip :: string where "conv_net_host_ip = ''net.host.ip''"
definition conv_service_name :: string where "conv_service_name = ''service.name''"
definition conv_service_instance_id :: string where "conv_service_instance_id = ''service.instance.id''"
definition conv_messaging_system :: string where "conv_messaging_system = ''messaging.system''"
definition conv_db_system :: string where "conv_db_system = ''db.system''"

lemmas sw_key_defs =
  tenant_key_def attr_ref_type_def attr_parent_service_def attr_parent_instance_def
  attr_parent_instance_name_def attr_instance_def attr_parent_endpoint_def attr_sw_span_id_def
  attr_sw_trace_id_def attr_sw_segment_id_def attr_sw_parent_span_id_def
  attr_sw_parent_segment_id_def attr_sw_component_def attr_network_address_def attr_span_layer_def
  conv_net_peer_name_def conv_net_host_ip_def conv_service_name_def conv_service_instance_id_def
  conv_messaging_system_def conv_db_system_def

definition ot_span_tags_mapping :: "string \<rightharpoonup> string" where
  "ot_span_tags_mapping =
     [''url'' \<mapsto> ''http.url'', ''status_code'' \<mapsto> ''http.status_code'',
      ''rpc.status_code'' \<mapsto> ''rpc.grpc.status_code'', ''db.instance'' \<mapsto> ''db.name'',
      ''mq.broker'' \<mapsto> ''messaging.url'', ''mq.topic'' \<mapsto> ''messaging.destination'']"

definition ot_key :: "string \<Rightarrow> string" where
  "ot_key k = (case ot_span_tags_mapping k of Some otk \<Rightarrow> otk | None \<Rightarrow> k)"

fun sw_kv_pairs_to_internal_attributes :: "(string \<times> string) list \<Rightarrow> attrs \<Rightarrow> attrs" where
  "sw_kv_pairs_to_internal_attributes [] dest = dest"
| "sw_kv_pairs_to_internal_attributes ((k, v) # pairs) dest =
     sw_kv_pairs_to_internal_attributes pairs
       (case ot_span_tags_mapping k of
          Some otk \<Rightarrow> put_str otk v dest
        | None \<Rightarrow> put_str k v dest)"

text \<open>\<open>strings.Split(s, "@")[1]\<close>, guarded by \<open>strings.Contains\<close>.\<close>

definition sw_service_instance_to_ip :: "string \<Rightarrow> string" where
  "sw_service_instance_to_ip s = (if contains_str s ''@'' then split_str ''@'' s ! 1 else s)"

section \<open>Spans\<close>

definition set_internal_span_status :: "sw_span \<Rightarrow> ot_span \<Rightarrow> ot_span" where
  "set_internal_span_status span dest =
     (if is_error span then dest\<lparr>os_status := StatusError, os_message := ''ERROR''\<rparr>
      else dest\<lparr>os_status := StatusOk, os_message := ''SUCCESS''\<rparr>)"

definition set_sw_span_id_to_attributes :: "sw_span \<Rightarrow> attrs \<Rightarrow> attrs" where
  "set_sw_span_id_to_attributes span dest =
     (let dest1 = put_int attr_sw_span_id (scast (span_id span)) dest
      in if parent_span_id span \<noteq> - 1
         then put_int attr_sw_parent_span_id (scast (parent_span_id span)) dest1
         else dest1)"

fun sw_logs_loop :: "nat \<Rightarrow> sw_log list \<Rightarrow> ot_event list \<Rightarrow> ot_event list" where
  "sw_logs_loop i [] dest = dest"
| "sw_logs_loop i (log # logs) dest =
     (let event = (if i < length dest then dest ! i else empty_event);
          named = event\<lparr>event_name := ''logs'', event_time := microseconds_to_timestamp (log_time log)\<rparr>;
          filled = (if log_data log = [] then named
                    else named\<lparr>event_attrs := sw_kv_pairs_to_internal_attributes (log_data log) Map.empty\<rparr>)
      in sw_logs_loop (Suc i) logs (if i < length dest then dest[i := filled] else dest @ [filled]))"

definition sw_logs_to_span_events :: "sw_log list \<Rightarrow> ot_event list \<Rightarrow> ot_event list" where
  "sw_logs_to_span_events logs dest = (if logs = [] then dest else sw_logs_loop 0 logs dest)"

definition sw_ref_pairs :: "sw_env \<Rightarrow> sw_ref \<Rightarrow> (string \<times> string) list" where
  "sw_ref_pairs env ref =
     [(attr_parent_service, ref_parent_service ref),
      (attr_parent_instance, ref_parent_service_instance ref),
      (attr_parent_endpoint, ref_parent_endpoint ref),
      (attr_network_address, ref_network_address ref),
      (attr_ref_type, env_ref_type_name env (ref_type ref)),
      (attr_sw_trace_id, ref_trace_id ref),
      (attr_sw_parent_segment_id, ref_parent_segment_id ref),
      (attr_sw_parent_span_id, itoa (sint (ref_parent_span_id ref))),
      (attr_parent_instance_name, sw_service_instance_to_ip (ref_parent_service_instance ref))]"

fun sw_references_to_span_links :: "sw_env \<Rightarrow> sw_ref list \<Rightarrow> ot_span \<Rightarrow> ot_span outcome" where
  "sw_references_to_span_links env [] dest = Ret dest"
| "sw_references_to_span_links env (ref # refs) dest =
     bind_outcome (sw_trace_id_to_trace_id (env_uuid_parse env) (ref_trace_id ref)) (\<lambda>tid.
     bind_outcome
       (if os_parent_id dest = empty_span_id
        then bind_outcome
               (segment_id_to_span_id (env_sha256 env) (ref_parent_segment_id ref) (ref_parent_span_id ref))
               (\<lambda>p. Ret (dest\<lparr>os_parent_id := p\<rparr>))
        else Ret dest) (\<lambda>dest1.
     bind_outcome
       (segment_id_to_span_id (env_sha256 env) (ref_parent_segment_id ref) (ref_parent_span_id ref)) (\<lambda>sid.
       sw_references_to_span_links env refs
         (dest1\<lparr>os_links := os_links dest1 @
            [\<lparr>link_trace_id = tid, link_span_id = sid, link_trace_state = '''',
              link_attrs = sw_kv_pairs_to_internal_attributes (sw_ref_pairs env ref) Map.empty\<rparr>]\<rparr>))))"

text \<open>The switch on layer and type, with its two fallthroughs, on the attributes and the kind.\<close>

definition sw_kind_switch :: "string \<Rightarrow> sw_span \<Rightarrow> attrs \<Rightarrow> span_kind \<Rightarrow> attrs \<times> span_kind" where
  "sw_kind_switch component_name span attrs kind =
     (case sw_span_layer span of
        LayerMQ \<Rightarrow>
          (put_str conv_messaging_system component_name attrs,
           if sw_span_type span = TypeEntry then KindConsumer
           else if sw_span_type span = TypeExit then KindProducer
           else kind)
      | LayerCache \<Rightarrow>
          (put_str conv_db_system component_name (put_str conv_db_system component_name attrs), KindClient)
      | LayerDatabase \<Rightarrow> (put_str conv_db_system component_name attrs, KindClient)
      | LayerOther _ \<Rightarrow>
          (attrs,
           case sw_span_type span of
             TypeExit \<Rightarrow> KindClient
           | TypeEntry \<Rightarrow> KindServer
           | TypeLocal \<Rightarrow> KindInternal
           | TypeOther _ \<Rightarrow> KindUnspecified))"

text \<open>
  The attributes before the switch: translated tags, custom tags of the credential, then the
  fields of the span.  (\<open>attrs.Clear()\<close> on an empty map changes nothing.)
\<close>

definition sw_span_attributes ::
    "sw_env \<Rightarrow> context_values \<Rightarrow> string \<Rightarrow> sw_span \<Rightarrow> attrs \<Rightarrow> attrs" where
  "sw_span_attributes env ctx segment_id span attrs0 =
     (let attrs1 = sw_kv_pairs_to_internal_attributes (span_tags span) attrs0;
          attrs2 = (case ctx_tags ctx of None \<Rightarrow> attrs1 | Some m \<Rightarrow> put_strs m attrs1);
          attrs3 = put_str attr_span_layer (env_layer_name env (sw_span_layer span)) attrs2;
          attrs4 = put_str conv_net_peer_name (span_peer span) attrs3;
          attrs5 = put_str attr_sw_segment_id segment_id attrs4;
          attrs6 = set_sw_span_id_to_attributes span attrs5
      in put_str attr_sw_component
           (get_server_name_based_on_component (env_tables env) (sw_component_id span)) attrs6)"

definition sw_span_to_span ::
    "sw_env \<Rightarrow> context_values \<Rightarrow> string \<Rightarrow> string \<Rightarrow> sw_span \<Rightarrow> ot_span \<Rightarrow> ot_span outcome" where
  "sw_span_to_span env ctx trace_id segment_id span dest =
     bind_outcome (sw_trace_id_to_trace_id (env_uuid_parse env) trace_id) (\<lambda>tid.
     bind_outcome (segment_id_to_span_id (env_sha256 env) segment_id (span_id span)) (\<lambda>sid.
     bind_outcome
       (if parent_span_id span \<noteq> - 1
        then segment_id_to_span_id (env_sha256 env) segment_id (parent_span_id span)
        else Ret (os_parent_id dest)) (\<lambda>pid.
       let attrs = sw_span_attributes env ctx segment_id span (os_attrs dest);
           component_name = get_server_name_based_on_component (env_tables env) (sw_component_id span);
           (attrs1, kind) = sw_kind_switch component_name span attrs (os_kind dest);
           dest1 = set_internal_span_status span
             (dest\<lparr>os_trace_id := tid, os_span_id := sid, os_parent_id := pid,
                   os_name := operation_name span,
                   os_start := microseconds_to_timestamp (start_time span),
                   os_end := microseconds_to_timestamp (end_time span),
                   os_attrs := attrs1, os_kind := kind,
                   os_events := sw_logs_to_span_events (span_logs span) (os_events dest)\<rparr>)
       in sw_references_to_span_links env (span_refs span) dest1)))"

fun sw_spans_to_span_slice ::
    "sw_env \<Rightarrow> context_values \<Rightarrow> string \<Rightarrow> string \<Rightarrow> sw_span option list \<Rightarrow> ot_span list \<Rightarrow> ot_span list outcome" where
  "sw_spans_to_span_slice env ctx trace_id segment_id [] dest = Ret dest"
| "sw_spans_to_span_slice env ctx trace_id segment_id (None # spans) dest =
     sw_spans_to_span_slice env ctx trace_id segment_id spans dest"
| "sw_spans_to_span_slice env ctx trace_id segment_id (Some span # spans) dest =
     bind_outcome (sw_span_to_span env ctx trace_id segment_id span empty_span) (\<lambda>d.
       sw_spans_to_span_slice env ctx trace_id segment_id spans (dest @ [d]))"

definition sw_resource_attributes :: "context_values \<Rightarrow> sw_segment \<Rightarrow> attrs" where
  "sw_resource_attributes ctx segment =
     (let a1 = (case ctx_tenant ctx of None \<Rightarrow> Map.empty | Some t \<Rightarrow> put_str tenant_key t Map.empty);
          a2 = put_str conv_service_name (seg_service segment) a1;
          a3 = put_str conv_service_instance_id (seg_service_instance segment) a2;
          a4 = put_str attr_sw_trace_id (seg_trace_id segment) a3;
          a5 = put_str conv_net_host_ip (sw_service_instance_to_ip (seg_service_instance segment)) a4
      in put_str attr_instance (sw_service_instance_to_ip (seg_service_instance segment)) a5)"

text \<open>\<open>swSpans == nil && len(swSpans) == 0\<close>: only the nil list gives empty traces.\<close>

definition skywalking_to_traces ::
    "sw_env \<Rightarrow> context_values \<Rightarrow> sw_segment \<Rightarrow> traces outcome" where
  "skywalking_to_traces env ctx segment =
     (case seg_spans segment of
        None \<Rightarrow> Ret []
      | Some sw_spans \<Rightarrow>
          bind_outcome
            (sw_spans_to_span_slice env ctx (seg_trace_id segment) (seg_segment_id segment) sw_spans [])
            (\<lambda>spans. Ret [\<lparr>res_attrs = sw_resource_attributes ctx segment,
                           res_scopes = [empty_scope\<lparr>scope_items := spans\<rparr>]\<rparr>]))"

section \<open>Closed forms\<close>

lemma sw_kv_pairs_eq:
  "sw_kv_pairs_to_internal_attributes pairs dest = put_strs (map (\<lambda>(k, v). (ot_key k, v)) pairs) dest"
  by (induction pairs arbitrary: dest) (auto simp: ot_key_def split: option.splits)

lemma sw_service_instance_at:
  "CHR ''@'' \<notin> set a \<Longrightarrow> CHR ''@'' \<notin> set b \<Longrightarrow> sw_service_instance_to_ip (a @ CHR ''@'' # b) = b"
proof -
  assume a: "CHR ''@'' \<notin> set a" and b: "CHR ''@'' \<notin> set b"
  have i: "index_str ''@'' (a @ CHR ''@'' # b) = Some (length a)"
    using a by (induction a) (auto simp: has_prefix_def)
  have n: "index_str ''@'' b = None"
    using b by (induction b) (auto simp: has_prefix_def)
  have "split_str ''@'' b = [b]"
    by (rule split_str_absent) (simp add: contains_str_def n)
  then have "split_str ''@'' (a @ CHR ''@'' # b) = [a, b]"
    by (subst split_str.simps) (simp add: i)
  with i show ?thesis by (simp add: sw_service_instance_to_ip_def contains_str_def)
qed

definition sw_event_of :: "sw_log \<Rightarrow> ot_event" where
  "sw_event_of log =
     \<lparr>event_name = ''logs'', event_time = microseconds_to_timestamp (log_time log),
      event_attrs = sw_kv_pairs_to_internal_attributes (log_data log) Map.empty\<rparr>"

lemma sw_logs_loop_eq: "length dest = i \<Longrightarrow> sw_logs_loop i logs dest = dest @ map sw_event_of logs"
  by (induction logs arbitrary: i dest)
    (simp_all add: Let_def sw_event_of_def empty_event_def)

lemma sw_logs_to_span_events_eq: "sw_logs_to_span_events logs [] = map sw_event_of logs"
  by (simp add: sw_logs_to_span_events_def sw_logs_loop_eq)

text \<open>What a reference adds: a link, and its span id as the parent while there is none.\<close>

definition sw_link_of :: "sw_env \<Rightarrow> sw_ref \<Rightarrow> ot_link \<Rightarrow> bool" where
  "sw_link_of env ref l \<longleftrightarrow>
     sw_trace_id_to_trace_id (env_uuid_parse env) (ref_trace_id ref) = Ret (link_trace_id l) \<and>
     segment_id_to_span_id (env_sha256 env) (ref_parent_segment_id ref) (ref_parent_span_id ref) =
       Ret (link_span_id l) \<and>
     link_attrs l = put_strs (map (\<lambda>(k, v). (ot_key k, v)) (sw_ref_pairs env ref)) Map.empty"

definition first_parent :: "byte list \<Rightarrow> byte list list \<Rightarrow> byte list" where
  "first_parent p ids = fold (\<lambda>i q. if q = empty_span_id then i else q) ids p"

lemma first_parent_simps [simp]:
  "first_parent p [] = p" "first_parent p (i # ids) = first_parent (if p = empty_span_id then i else p) ids"
  by (simp_all add: first_parent_def)

lemma first_parent_set: "p \<noteq> empty_span_id \<Longrightarrow> first_parent p ids = p"
  by (induction ids) auto

lemma sw_references_closed:
  "sw_references_to_span_links env refs dest = Ret d \<Longrightarrow>
   \<exists>ls. list_all2 (sw_link_of env) refs ls \<and>
        d = dest\<lparr>os_links := os_links dest @ ls, os_parent_id := first_parent (os_parent_id dest) (map link_span_id ls)\<rparr>"
proof (induction refs arbitrary: dest)
  case Nil
  then show ?case by simp
next
  case (Cons ref refs)
  from Cons.prems obtain tid sid where
    t: "sw_trace_id_to_trace_id (env_uuid_parse env) (ref_trace_id ref) = Ret tid" and
    s: "segment_id_to_span_id (env_sha256 env) (ref_parent_segment_id ref) (ref_parent_span_id ref) = Ret sid"
    by (auto simp: bind_outcome_Ret_iff)
  let ?l = "\<lparr>link_trace_id = tid, link_span_id = sid, link_trace_state = '''',
      link_attrs = sw_kv_pairs_to_internal_attributes (sw_ref_pairs env ref) Map.empty\<rparr>"
  let ?p = "if os_parent_id dest = empty_span_id then sid else os_parent_id dest"
  have "sw_references_to_span_links env refs
      (dest\<lparr>os_parent_id := ?p, os_links := os_links dest @ [?l]\<rparr>) = Ret d"
    using Cons.prems t s by (auto split: if_splits)
  from Cons.IH [OF this] obtain ls where ls: "list_all2 (sw_link_of env) refs ls"
    "d = dest\<lparr>os_links := os_links dest @ ?l # ls, os_parent_id := first_parent ?p (map link_span_id ls)\<rparr>"
    by auto
  have "sw_link_of env ref ?l"
    using t s by (simp add: sw_link_of_def sw_kv_pairs_eq)
  with ls have "list_all2 (sw_link_of env) (ref # refs) (?l # ls) \<and>
      d = dest\<lparr>os_links := os_links dest @ ?l # ls,
               os_parent_id := first_parent (os_parent_id dest) (map link_span_id (?l # ls))\<rparr>"
    by simp
  then show ?case by blast
qed

lemma sw_spans_to_span_slice_eq:
  "sw_spans_to_span_slice env ctx tid sid spans dest =
     bind_outcome (map_outcome (\<lambda>s. sw_span_to_span env ctx tid sid s empty_span) [s. Some s \<leftarrow> spans])
       (\<lambda>ds. Ret (dest @ ds))"
proof (induction spans arbitrary: dest)
  case (Cons x spans)
  show ?case
  proof (cases x)
    case (Some s)
    with Cons show ?thesis
      by (cases "sw_span_to_span env ctx tid sid s empty_span";
          cases "map_outcome (\<lambda>s. sw_span_to_span env ctx tid sid s empty_span) [s. Some s \<leftarrow> spans]") auto
  qed (simp add: Cons)
qed simp

text \<open>The kind of a span by its layer and type.\<close>

definition sw_kind :: "sw_span \<Rightarrow> span_kind" where
  "sw_kind span =
     (case (sw_span_layer span, sw_span_type span) of
        (LayerMQ, TypeEntry) \<Rightarrow> KindConsumer
      | (LayerMQ, TypeExit) \<Rightarrow> KindProducer
      | (LayerMQ, _) \<Rightarrow> KindUnspecified
      | (LayerCache, _) \<Rightarrow> KindClient
      | (LayerDatabase, _) \<Rightarrow> KindClient
      | (_, TypeExit) \<Rightarrow> KindClient
      | (_, TypeEntry) \<Rightarrow> KindServer
      | (_, TypeLocal) \<Rightarrow> KindInternal
      | (_, TypeOther _) \<Rightarrow> KindUnspecified)"

text \<open>The attributes the translation itself sets, none of which a tag can replace.\<close>

definition sw_own_attrs :: "sw_env \<Rightarrow> string \<Rightarrow> sw_span \<Rightarrow> attrs" where
  "sw_own_attrs env segment_id span =
     (let component = get_server_name_based_on_component (env_tables env) (sw_component_id span) in
     [attr_span_layer \<mapsto> AStr (env_layer_name env (sw_span_layer span)),
      conv_net_peer_name \<mapsto> AStr (span_peer span),
      attr_sw_segment_id \<mapsto> AStr segment_id,
      attr_sw_span_id \<mapsto> AInt (scast (span_id span)),
      attr_sw_component \<mapsto> AStr component] ++
     (if parent_span_id span \<noteq> - 1
      then [attr_sw_parent_span_id \<mapsto> AInt (scast (parent_span_id span))] else Map.empty) ++
     (case sw_span_layer span of
        LayerMQ \<Rightarrow> [conv_messaging_system \<mapsto> AStr component]
      | LayerCache \<Rightarrow> [conv_db_system \<mapsto> AStr component]
      | LayerDatabase \<Rightarrow> [conv_db_system \<mapsto> AStr component]
      | LayerOther _ \<Rightarrow> Map.empty))"

definition sw_tag_attrs :: "context_values \<Rightarrow> sw_span \<Rightarrow> attrs" where
  "sw_tag_attrs ctx span =
     put_strs (case ctx_tags ctx of None \<Rightarrow> [] | Some m \<Rightarrow> m)
       (put_strs (map (\<lambda>(k, v). (ot_key k, v)) (span_tags span)) Map.empty)"

lemma sw_kind_switch_eq:
  "snd (sw_kind_switch c span attrs KindUnspecified) = sw_kind span"
  by (auto simp: sw_kind_switch_def sw_kind_def split: span_layer.splits span_type.splits)

lemma sw_span_attributes_eq:
  "fst (sw_kind_switch (get_server_name_based_on_component (env_tables env) (sw_component_id span)) span
     (sw_span_attributes env ctx segment_id span Map.empty) kind) =
   sw_tag_attrs ctx span ++ sw_own_attrs env segment_id span"
proof
  fix k
  have t: "(case ctx_tags ctx of None \<Rightarrow> sw_kv_pairs_to_internal_attributes (span_tags span) Map.empty
            | Some m \<Rightarrow> put_strs m (sw_kv_pairs_to_internal_attributes (span_tags span) Map.empty)) =
      sw_tag_attrs ctx span"
    by (simp add: sw_tag_attrs_def sw_kv_pairs_eq split: option.split)
  show "fst (sw_kind_switch (get_server_name_based_on_component (env_tables env) (sw_component_id span)) span
      (sw_span_attributes env ctx segment_id span Map.empty) kind) k =
    (sw_tag_attrs ctx span ++ sw_own_attrs env segment_id span) k"
    unfolding sw_span_attributes_def Let_def t
    by (simp add: sw_kind_switch_def sw_own_attrs_def set_sw_span_id_to_attributes_def map_add_def sw_key_defs
        Let_def split: span_layer.split)
qed

lemma empty_span_fields [simp]:
  "os_parent_id empty_span = empty_span_id" "os_attrs empty_span = Map.empty"
  "os_kind empty_span = KindUnspecified" "os_events empty_span = []" "os_links empty_span = []"
  by (simp_all add: empty_span_def empty_span_id_def)

lemma sw_span_to_span_RetD:
  assumes "sw_span_to_span env ctx trace_id segment_id span empty_span = Ret d"
  obtains tid sid pid ls where
    "sw_trace_id_to_trace_id (env_uuid_parse env) trace_id = Ret tid"
    "segment_id_to_span_id (env_sha256 env) segment_id (span_id span) = Ret sid"
    "(if parent_span_id span \<noteq> - 1
      then segment_id_to_span_id (env_sha256 env) segment_id (parent_span_id span)
      else Ret empty_span_id) = Ret pid"
    "list_all2 (sw_link_of env) (span_refs span) ls"
    "d = \<lparr>os_trace_id = tid, os_span_id = sid, os_parent_id = first_parent pid (map link_span_id ls),
          os_trace_state = [], os_name = operation_name span, os_start = microseconds_to_timestamp (start_time span),
          os_end = microseconds_to_timestamp (end_time span),
          os_attrs = sw_tag_attrs ctx span ++ sw_own_attrs env segment_id span, os_kind = sw_kind span,
          os_status = (if is_error span then StatusError else StatusOk),
          os_message = (if is_error span then ''ERROR'' else ''SUCCESS''),
          os_events = map sw_event_of (span_logs span), os_links = ls\<rparr>"
proof -
  let ?c = "get_server_name_based_on_component (env_tables env) (sw_component_id span)"
  let ?a = "sw_span_attributes env ctx segment_id span Map.empty"
  obtain tid sid pid where
    ids: "sw_trace_id_to_trace_id (env_uuid_parse env) trace_id = Ret tid"
      "segment_id_to_span_id (env_sha256 env) segment_id (span_id span) = Ret sid"
      "(if parent_span_id span \<noteq> - 1
        then segment_id_to_span_id (env_sha256 env) segment_id (parent_span_id span)
        else Ret empty_span_id) = Ret pid" and
    r: "sw_references_to_span_links env (span_refs span)
       (set_internal_span_status span
         (empty_span\<lparr>os_trace_id := tid, os_span_id := sid, os_parent_id := pid,
           os_name := operation_name span, os_start := microseconds_to_timestamp (start_time span),
           os_end := microseconds_to_timestamp (end_time span),
           os_attrs := fst (sw_kind_switch ?c span ?a KindUnspecified),
           os_kind := snd (sw_kind_switch ?c span ?a KindUnspecified),
           os_events := sw_logs_to_span_events (span_logs span) []\<rparr>)) = Ret d"
    using assms unfolding sw_span_to_span_def empty_span_fields
    by (auto simp: bind_outcome_Ret_iff Let_def case_prod_beta)
  show thesis
    using sw_references_closed [OF r] ids
    by (auto simp: set_internal_span_status_def sw_kind_switch_eq sw_span_attributes_eq
        sw_logs_to_span_events_eq empty_span_def intro!: that)
qed

section \<open>Where the translation cannot panic\<close>

text \<open>The only ids that panic: a first dot after 32 bytes, and no other.\<close>

definition single_dot :: "string \<Rightarrow> bool" where
  "single_dot s \<longleftrightarrow> index_byte (CHR ''.'') s = Some 32 \<and> last_index_byte (CHR ''.'') s = Some 32"

lemma last_index_byte_bound:
  "index_byte b s = Some i \<Longrightarrow> last_index_byte b s = Some j \<Longrightarrow> i \<le> j \<and> j < length s"
proof (induction s arbitrary: i j)
  case (Cons c s)
  have e: "last_index_byte b s = Some k \<Longrightarrow> \<exists>i. index_byte b s = Some i" for k
    using index_byte_None [of b s] last_index_byte_None [of b s] by fastforce
  from Cons.prems Cons.IH show ?case
    by (auto split: if_splits option.splits dest: e simp: last_index_byte_None)
qed simp

lemma sw_string_to_uuid_total: "\<not> single_dot s \<Longrightarrow> sw_string_to_uuid s extra \<noteq> Panic"
  by (auto simp: sw_string_to_uuid_def single_dot_def slice_str_def Let_def case_prod_beta
      split: option.split dest: last_index_byte_bound)

lemma segment_id_to_span_id_total: "\<not> single_dot s \<Longrightarrow> segment_id_to_span_id sha s n \<noteq> Panic"
  using sw_string_to_uuid_total [of s n]
  by (cases "sw_string_to_uuid s n") (auto simp: segment_id_to_span_id_def)

lemma sw_trace_id_total: "\<not> single_dot s \<Longrightarrow> sw_trace_id_to_trace_id parse s \<noteq> Panic"
  using sw_string_to_uuid_total [of s 0]
  by (auto simp: sw_trace_id_to_trace_id_def split: option.split)

lemma bind_outcome_total: "m \<noteq> Panic \<Longrightarrow> (\<And>x. m = Ret x \<Longrightarrow> f x \<noteq> Panic) \<Longrightarrow> bind_outcome m f \<noteq> Panic"
  by (cases m) auto

lemma sw_references_total:
  "\<forall>r \<in> set refs. \<not> single_dot (ref_trace_id r) \<and> \<not> single_dot (ref_parent_segment_id r) \<Longrightarrow>
   sw_references_to_span_links env refs dest \<noteq> Panic"
proof (induction refs arbitrary: dest)
  case (Cons r refs)
  then have t: "sw_trace_id_to_trace_id (env_uuid_parse env) (ref_trace_id r) \<noteq> Panic"
    and s: "segment_id_to_span_id (env_sha256 env) (ref_parent_segment_id r) (ref_parent_span_id r) \<noteq> Panic"
    by (auto simp: sw_trace_id_total segment_id_to_span_id_total)
  have IH: "sw_references_to_span_links env refs d \<noteq> Panic" for d
    using Cons by simp
  show ?case
    unfolding sw_references_to_span_links.simps
    using t s IH by (intro bind_outcome_total) (auto simp: bind_outcome_total)
qed simp

lemma sw_span_to_span_total:
  assumes "\<not> single_dot tid" and "\<not> single_dot sid"
    and "\<forall>r \<in> set (span_refs span). \<not> single_dot (ref_trace_id r) \<and> \<not> single_dot (ref_parent_segment_id r)"
  shows "sw_span_to_span env ctx tid sid span dest \<noteq> Panic"
  unfolding sw_span_to_span_def Let_def case_prod_beta
  using assms by (intro bind_outcome_total sw_references_total)
    (auto simp: sw_trace_id_total segment_id_to_span_id_total)

section \<open>Properties\<close>

text \<open>What the span \<open>d\<close> must carry for the SkyWalking span \<open>s\<close> of a segment.\<close>

definition sw_translated :: "sw_env \<Rightarrow> context_values \<Rightarrow> sw_segment \<Rightarrow> sw_span \<Rightarrow> ot_span \<Rightarrow> bool" where
  "sw_translated env ctx seg s d \<longleftrightarrow>
     sw_trace_id_to_trace_id (env_uuid_parse env) (seg_trace_id seg) = Ret (os_trace_id d) \<and>
     segment_id_to_span_id (env_sha256 env) (seg_segment_id seg) (span_id s) = Ret (os_span_id d) \<and>
     os_name d = operation_name s \<and>
     os_start d = microseconds_to_timestamp (start_time s) \<and>
     os_end d = microseconds_to_timestamp (end_time s) \<and>
     os_kind d = sw_kind s \<and>
     os_status d = (if is_error s then StatusError else StatusOk) \<and>
     os_attrs d = sw_tag_attrs ctx s ++ sw_own_attrs env (seg_segment_id seg) s \<and>
     os_events d = map sw_event_of (span_logs s) \<and>
     list_all2 (sw_link_of env) (span_refs s) (os_links d)"

definition real_spans :: "sw_segment \<Rightarrow> sw_span list" where
  "real_spans seg = (case seg_spans seg of None \<Rightarrow> [] | Some xs \<Rightarrow> [s. Some s \<leftarrow> xs])"

lemma skywalking_to_traces_RetD:
  assumes "skywalking_to_traces env ctx seg = Ret t"
  shows "list_all2 (\<lambda>s d. sw_span_to_span env ctx (seg_trace_id seg) (seg_segment_id seg) s empty_span = Ret d)
           (real_spans seg) (items t)"
    and "seg_spans seg \<noteq> None \<Longrightarrow>
      t = [\<lparr>res_attrs = sw_resource_attributes ctx seg, res_scopes = [empty_scope\<lparr>scope_items := items t\<rparr>]\<rparr>]"
  using assms
  by (auto simp: skywalking_to_traces_def real_spans_def sw_spans_to_span_slice_eq bind_outcome_Ret_iff
      map_outcome_Ret_iff items_def split: option.splits)

lemma sw_resource_tenant:
  "sw_resource_attributes ctx seg tenant_key = map_option AStr (ctx_tenant ctx)"
  "sw_resource_attributes ctx seg conv_service_name = Some (AStr (seg_service seg))"
  by (simp_all add: sw_resource_attributes_def sw_key_defs Let_def split: option.split)

lemma skywalking_resource:
  assumes "skywalking_to_traces env ctx seg = Ret t" and "r \<in> set t"
  shows "res_attrs r = sw_resource_attributes ctx seg"
proof (cases "seg_spans seg")
  case None
  with assms show ?thesis by (simp add: skywalking_to_traces_def)
next
  case (Some xs)
  with skywalking_to_traces_RetD(2) [OF assms(1)]
  have "set t = {\<lparr>res_attrs = sw_resource_attributes ctx seg,
      res_scopes = [empty_scope\<lparr>scope_items := items t\<rparr>]\<rparr>}"
    by (metis list.set(1) list.set(2) option.distinct(1))
  with assms(2) show ?thesis by simp
qed

text \<open>
  C6: the translation of a segment keeps every span that is not nil, in order and with its own
  trace id, span id, name, times, status, kind, attributes, one event per log and one link per
  reference, under one resource that carries the tenant of the context (and no other tenant)
  and the service of the segment.
\<close>

theorem sw_segment_translated:
  assumes "skywalking_to_traces env ctx seg = Ret t"
  shows "list_all2 (sw_translated env ctx seg) (real_spans seg) (items t) \<and>
         item_count t = length (real_spans seg) \<and>
         (\<forall>r \<in> set t. res_attrs r tenant_key = map_option AStr (ctx_tenant ctx) \<and>
                      res_attrs r conv_service_name = Some (AStr (seg_service seg)))"
proof (intro conjI)
  note T = skywalking_to_traces_RetD [OF assms]
  show l: "list_all2 (sw_translated env ctx seg) (real_spans seg) (items t)"
    using T(1) by (rule list_all2_mono) (erule sw_span_to_span_RetD, simp add: sw_translated_def)
  then show "item_count t = length (real_spans seg)"
    by (simp add: item_count_items list_all2_lengthD)
  show "\<forall>r \<in> set t. res_attrs r tenant_key = map_option AStr (ctx_tenant ctx) \<and>
      res_attrs r conv_service_name = Some (AStr (seg_service seg))"
    using skywalking_resource [OF assms] by (auto simp: sw_resource_tenant)
qed

text \<open>
  C23: parent links survive: a span whose parent number is that of another span of the segment
  gets that span's translated id as its parent id (provided the hash of it is not the empty id);
  a root span without references gets the empty parent id, and a root span whose first reference
  has a non-empty span id gets that id.
\<close>

theorem sw_parent_links:
  assumes "skywalking_to_traces env ctx seg = Ret t" and "i < length (real_spans seg)"
  defines "s \<equiv> real_spans seg ! i" and "d \<equiv> items t ! i"
  shows "(parent_span_id s \<noteq> - 1 \<and> j < length (real_spans seg) \<and>
          span_id (real_spans seg ! j) = parent_span_id s \<and> os_span_id (items t ! j) \<noteq> empty_span_id \<longrightarrow>
          os_parent_id d = os_span_id (items t ! j)) \<and>
         (parent_span_id s = - 1 \<and> span_refs s = [] \<longrightarrow> os_parent_id d = empty_span_id) \<and>
         (parent_span_id s = - 1 \<and> span_refs s = r # rs \<and>
          segment_id_to_span_id (env_sha256 env) (ref_parent_segment_id r) (ref_parent_span_id r) = Ret p \<and>
          p \<noteq> empty_span_id \<longrightarrow> os_parent_id d = p)"
proof -
  note T = skywalking_to_traces_RetD(1) [OF assms(1)]
  have d: "sw_span_to_span env ctx (seg_trace_id seg) (seg_segment_id seg) s empty_span = Ret d"
    using T assms(2) by (simp add: list_all2_conv_all_nth s_def d_def)
  then obtain tid sid pid ls where
    pid: "(if parent_span_id s \<noteq> - 1
           then segment_id_to_span_id (env_sha256 env) (seg_segment_id seg) (parent_span_id s)
           else Ret empty_span_id) = Ret pid" and
    ls: "list_all2 (sw_link_of env) (span_refs s) ls" and
    par: "os_parent_id d = first_parent pid (map link_span_id ls)"
    by (rule sw_span_to_span_RetD) simp
  show ?thesis
  proof (intro conjI impI)
    assume j: "parent_span_id s \<noteq> - 1 \<and> j < length (real_spans seg) \<and>
      span_id (real_spans seg ! j) = parent_span_id s \<and> os_span_id (items t ! j) \<noteq> empty_span_id"
    then have "sw_span_to_span env ctx (seg_trace_id seg) (seg_segment_id seg) (real_spans seg ! j) empty_span =
        Ret (items t ! j)"
      using T by (simp add: list_all2_conv_all_nth)
    then have "segment_id_to_span_id (env_sha256 env) (seg_segment_id seg) (parent_span_id s) = Ret (os_span_id (items t ! j))"
      using j by (elim sw_span_to_span_RetD) simp
    with pid j par show "os_parent_id d = os_span_id (items t ! j)"
      by (simp add: first_parent_set)
  next
    assume "parent_span_id s = - 1 \<and> span_refs s = []"
    with pid ls par show "os_parent_id d = empty_span_id" by simp
  next
    assume r: "parent_span_id s = - 1 \<and> span_refs s = r # rs \<and>
      segment_id_to_span_id (env_sha256 env) (ref_parent_segment_id r) (ref_parent_span_id r) = Ret p \<and>
      p \<noteq> empty_span_id"
    with ls obtain l ls' where "ls = l # ls'" "link_span_id l = p"
      by (auto simp: sw_link_of_def list_all2_Cons1)
    with r pid par show "os_parent_id d = p" by (simp add: first_parent_set)
  qed
qed

text \<open>
  The attributes the translation sets from the span (layer, peer, segment id, span id,
  component) are never replaced by tags, and a custom tag of the credential replaces a span tag
  under the same key.
\<close>

lemma sw_reserved_attributes:
  assumes "skywalking_to_traces env ctx seg = Ret t" and "i < length (real_spans seg)"
  defines "s \<equiv> real_spans seg ! i" and "a \<equiv> os_attrs (items t ! i)"
  shows "a attr_span_layer = Some (AStr (env_layer_name env (sw_span_layer s))) \<and>
         a conv_net_peer_name = Some (AStr (span_peer s)) \<and>
         a attr_sw_segment_id = Some (AStr (seg_segment_id seg)) \<and>
         a attr_sw_span_id = Some (AInt (scast (span_id s))) \<and>
         a attr_sw_component =
           Some (AStr (get_server_name_based_on_component (env_tables env) (sw_component_id s))) \<and>
         (sw_own_attrs env (seg_segment_id seg) s k = None \<and> ctx_tags ctx = Some tags \<and>
          map_of (rev tags) k = Some v \<longrightarrow> a k = Some (AStr v))"
proof -
  have "sw_span_to_span env ctx (seg_trace_id seg) (seg_segment_id seg) s empty_span = Ret (items t ! i)"
    using skywalking_to_traces_RetD(1) [OF assms(1)] assms(2) by (simp add: list_all2_conv_all_nth s_def)
  then have a: "a = sw_tag_attrs ctx s ++ sw_own_attrs env (seg_segment_id seg) s"
    unfolding a_def by (rule sw_span_to_span_RetD) simp
  have "sw_own_attrs env (seg_segment_id seg) s attr_span_layer = Some (AStr (env_layer_name env (sw_span_layer s)))"
    "sw_own_attrs env (seg_segment_id seg) s conv_net_peer_name = Some (AStr (span_peer s))"
    "sw_own_attrs env (seg_segment_id seg) s attr_sw_segment_id = Some (AStr (seg_segment_id seg))"
    "sw_own_attrs env (seg_segment_id seg) s attr_sw_span_id = Some (AInt (scast (span_id s)))"
    "sw_own_attrs env (seg_segment_id seg) s attr_sw_component =
      Some (AStr (get_server_name_based_on_component (env_tables env) (sw_component_id s)))"
    by (simp_all add: sw_own_attrs_def sw_key_defs Let_def map_add_def split: span_layer.split)
  then show ?thesis
    unfolding a by (simp add: map_add_def sw_tag_attrs_def put_strs_lookup)
qed


text \<open>A segment of a root span, with a reference into another segment, and one child.\<close>

definition sample_env :: sw_env where
  "sample_env = \<lparr>env_uuid_parse = (\<lambda>_. None), env_sha256 = (\<lambda>b. b @ b),
     env_layer_name = (\<lambda>_. ''Http''), env_ref_type_name = (\<lambda>_. ''CrossProcess''), env_tables = empty_tables\<rparr>"

definition sample_hex :: string where
  "sample_hex = ''56a5e1c519ae4c76a2b8b11d92cead7f''"

definition sample_root :: sw_span where
  "sample_root = \<lparr>span_id = 0, parent_span_id = - 1, start_time = 5, end_time = 9,
     span_refs = [\<lparr>ref_trace_id = sample_hex, ref_parent_segment_id = sample_hex, ref_parent_span_id = 3,
       ref_parent_service = ''a'', ref_parent_service_instance = ''i@10.0.0.1'', ref_parent_endpoint = ''e'',
       ref_network_address = ''n'', ref_type = 0\<rparr>],
     operation_name = ''/users'', span_peer = ''p'', sw_span_type = TypeEntry, sw_span_layer = LayerOther 3,
     sw_component_id = 1, is_error = False, span_tags = [(''url'', ''/users?x=1'')], span_logs = []\<rparr>"

definition sample_child :: sw_span where
  "sample_child = sample_root\<lparr>span_id := 1, parent_span_id := 0, span_refs := [], sw_span_type := TypeExit\<rparr>"

definition sample_segment :: sw_segment where
  "sample_segment = \<lparr>seg_trace_id = sample_hex, seg_segment_id = sample_hex,
     seg_spans = Some [Some sample_root, None, Some sample_child],
     seg_service = ''users'', seg_service_instance = ''x@10.0.0.2''\<rparr>"

definition sample_ctx :: context_values where
  "sample_ctx = \<lparr>ctx_tags = Some [(''zone'', ''eu'')], ctx_tenant = Some ''t1'', ctx_metadata = None\<rparr>"

lemma sample_no_dot: "\<not> single_dot sample_hex"
  by (simp add: single_dot_def sample_hex_def)

lemma sample_real_spans: "real_spans sample_segment = [sample_root, sample_child]"
  by (simp add: real_spans_def sample_segment_def)


lemma sample_uuid:
  "hex_decode 16 sample_hex =
     ([0x56, 0xa5, 0xe1, 0xc5, 0x19, 0xae, 0x4c, 0x76, 0xa2, 0xb8, 0xb1, 0x1d, 0x92, 0xce, 0xad, 0x7f], True)"
  by (simp add: hex_decode_def sample_hex_def from_hex_char_def)

lemma sample_length: "length sample_hex = 32"
  by (simp add: sample_hex_def)

lemma sample_trace_id: "sw_trace_id_to_trace_id f sample_hex = Ret (fst (hex_decode 16 sample_hex))"
  by (simp add: sw_trace_id_to_trace_id_def sample_length)

lemma sample_span_id:
  "segment_id_to_span_id (\<lambda>b. b @ b) sample_hex n =
     Ret (take 8 (xor_uid (fst (hex_decode 16 sample_hex)) (le_bytes 4 n @ replicate 12 0)))"
  using segment_id_to_span_id_plain [of "fst (hex_decode 16 sample_hex)" "\<lambda>b. b @ b" n]
  by (simp add: segment_id_to_span_id_def sw_string_to_uuid_def sample_length sample_uuid
      xor_extra_closed uuid_to_8_bytes_def)

lemmas sample_simps = sample_root_def sample_child_def sample_env_def sample_uuid

lemma sample_segment_translates: "\<exists>t. skywalking_to_traces sample_env ctx sample_segment = Ret t \<and> t \<noteq> []"
proof -
  have "map_outcome (\<lambda>s. sw_span_to_span sample_env ctx sample_hex sample_hex s empty_span) [sample_root, sample_child] \<noteq> Panic"
    by (intro map_outcome_total sw_span_to_span_total)
      (auto simp: sample_no_dot sample_root_def sample_child_def)
  then obtain ds where "map_outcome (\<lambda>s. sw_span_to_span sample_env ctx sample_hex sample_hex s empty_span)
      [sample_root, sample_child] = Ret ds"
    by (metis outcome.exhaust)
  then show ?thesis
    by (simp add: skywalking_to_traces_def sample_segment_def sw_spans_to_span_slice_eq)
qed

definition sample_traces :: traces where
  "sample_traces = (case skywalking_to_traces sample_env sample_ctx sample_segment of Ret t \<Rightarrow> t | Panic \<Rightarrow> [])"

lemma sample_translates: "skywalking_to_traces sample_env sample_ctx sample_segment = Ret sample_traces"
  using sample_segment_translates [of sample_ctx] by (auto simp: sample_traces_def)

theorem sw_segment_translated_witness:
  "item_count sample_traces = 2 \<and>
   list_all (\<lambda>r. res_attrs r tenant_key = Some (AStr ''t1'')) sample_traces"
  using sw_segment_translated [OF sample_translates]
  by (simp add: sample_real_spans sample_ctx_def list_all_iff)

lemma sw_reserved_attributes_witness:
  "os_attrs (items sample_traces ! 0) attr_sw_segment_id = Some (AStr sample_hex) \<and>
   os_attrs (items sample_traces ! 0) ''zone'' = Some (AStr ''eu'')"
  using sw_reserved_attributes [OF sample_translates, of 0 "''zone''" "[(''zone'', ''eu'')]" "''eu''"]
  by (simp add: sample_real_spans sw_own_attrs_def sw_key_defs sample_ctx_def sample_root_def)
    (simp add: sample_segment_def)

lemma sample_root_span_id: "os_span_id (items sample_traces ! 0) \<noteq> empty_span_id"
proof -
  have "sw_span_to_span sample_env sample_ctx sample_hex sample_hex sample_root empty_span = Ret (items sample_traces ! 0)"
    using skywalking_to_traces_RetD(1) [OF sample_translates]
    unfolding sample_real_spans by (auto simp: sample_segment_def list_all2_Cons1)
  then have "segment_id_to_span_id (\<lambda>b. b @ b) sample_hex 0 = Ret (os_span_id (items sample_traces ! 0))"
    by (rule sw_span_to_span_RetD) (simp add: sample_env_def sample_root_def)
  then have "os_span_id (items sample_traces ! 0) =
      take 8 (xor_uid (fst (hex_decode 16 sample_hex)) (le_bytes 4 (0::u32) @ replicate 12 0))"
    by (simp add: sample_span_id)
  moreover have "le_bytes 4 (0::u32) = [0, 0, 0, 0]" by (simp add: le_bytes_def numeral_eq_Suc)
  ultimately have "os_span_id (items sample_traces ! 0) ! 0 = 0x56"
    by (simp add: sample_uuid xor_uid_def)
  moreover have "empty_span_id ! 0 = 0" by (simp add: empty_span_id_def)
  ultimately show ?thesis by auto
qed

theorem sw_parent_links_witness:
  "os_parent_id (items sample_traces ! 1) = os_span_id (items sample_traces ! 0)"
  using sw_parent_links [OF sample_translates, of 1 0] sample_root_span_id
  by (simp add: sample_real_spans) (simp add: sample_root_def sample_child_def)

end
