(* ===== verification/SkywalkingMetrics.thy ===== *)
theory SkywalkingMetrics
  imports Pdata SkywalkingIds
begin

text \<open>
  \<open>skywalkingproto_to_metrics.go\<close>: the JVM metrics of a SkyWalking agent to gauges.  The
  generated getters read 0 from a nil message, which is what the model's records hold then; the
  one field the source reads without a getter is \<open>metric.Cpu\<close>.  The names of the enum values
  (\<open>Enum().String()\<close>) are arguments.
\<close>

section \<open>The JVM messages\<close>

record jvm_memory =
  mem_is_heap :: bool
  mem_init :: i64
  mem_max :: i64
  mem_used :: i64
  mem_committed :: i64

record jvm_memory_pool =
  pool_type :: i32
  pool_init :: i64
  pool_max :: i64
  pool_used :: i64
  pool_committed :: i64

record jvm_gc =
  gc_phase :: i32
  gc_count :: i64
  gc_time :: i64

record jvm_thread =
  live_count :: i64
  daemon_count :: i64
  peak_count :: i64
  runnable_count :: i64
  blocked_count :: i64
  waiting_count :: i64
  timed_waiting_count :: i64

record jvm_metric =
  jvm_time :: i64
  jvm_cpu :: "float64 option" \<comment> \<open>\<open>UsagePercent\<close>, when the message is there\<close>
  jvm_memories :: "jvm_memory list"
  jvm_pools :: "jvm_memory_pool list"
  jvm_gcs :: "jvm_gc list"
  jvm_threads :: jvm_thread

record jvm_collection =
  coll_metrics :: "jvm_metric list"
  coll_service :: string
  coll_instance :: string

record enum_names =
  en_pool :: "i32 \<Rightarrow> string"
  en_phase :: "i32 \<Rightarrow> string"

section \<open>Gauges\<close>

definition populate_metric_metadata :: "ot_metric \<Rightarrow> string \<Rightarrow> string \<Rightarrow> metric_type \<Rightarrow> ot_metric" where
  "populate_metric_metadata dest name unit ty =
     (let named = dest\<lparr>metric_name := name, metric_unit := unit\<rparr>
      in case ty of
           MetricTypeEmpty \<Rightarrow> named
         | _ \<Rightarrow> named\<lparr>metric_kind := ty, metric_points := []\<rparr>)"

text \<open>The loop indexes both slices; a value missing for a key would panic.\<close>

fun populate_attributes :: "attrs \<Rightarrow> string list \<Rightarrow> string list \<Rightarrow> attrs outcome" where
  "populate_attributes dest [] vs = Ret dest"
| "populate_attributes dest (k # ks) [] = Panic"
| "populate_attributes dest (k # ks) (v # vs) = populate_attributes (put_str k v dest) ks vs"

definition populate_gauge_value ::
    "ot_metric \<Rightarrow> string \<Rightarrow> string \<Rightarrow> attr_val \<Rightarrow> timestamp \<Rightarrow> string list \<Rightarrow> string list \<Rightarrow> ot_metric outcome" where
  "populate_gauge_value dest name unit val ts label_keys label_values =
     (let m = populate_metric_metadata dest name unit MetricTypeGauge
      in bind_outcome (populate_attributes Map.empty label_keys label_values) (\<lambda>attrs.
           Ret (m\<lparr>metric_points := metric_points m @
                   [empty_point\<lparr>np_value := val, np_time := ts, np_attrs := attrs\<rparr>]\<rparr>)))"

definition populate_gauge ::
    "string \<Rightarrow> i64 \<Rightarrow> timestamp \<Rightarrow> string list \<Rightarrow> string list \<Rightarrow> ot_metric outcome" where
  "populate_gauge name val ts label_keys label_values =
     populate_gauge_value empty_metric name ''By'' (AInt val) ts label_keys label_values"

definition populate_gauge_f ::
    "string \<Rightarrow> string \<Rightarrow> float64 \<Rightarrow> timestamp \<Rightarrow> string list \<Rightarrow> string list \<Rightarrow> ot_metric outcome" where
  "populate_gauge_f name unit val ts label_keys label_values =
     populate_gauge_value empty_metric name unit (ADouble val) ts label_keys label_values"

text \<open>\<open>dest.AppendEmpty()\<close> filled by each gauge of a list in turn.\<close>

definition append_gauges :: "ot_metric outcome list \<Rightarrow> ot_metric list \<Rightarrow> ot_metric list outcome" where
  "append_gauges gs dest = bind_outcome (map_outcome (\<lambda>g. g) gs) (\<lambda>ms. Ret (dest @ ms))"

definition append_thread :: "ot_metric list \<Rightarrow> jvm_thread \<Rightarrow> timestamp \<Rightarrow> ot_metric list outcome" where
  "append_thread dest thread ts =
     append_gauges
       [populate_gauge ''thread.live.count'' (live_count thread) ts [] [],
        populate_gauge ''thread.daemon.count'' (daemon_count thread) ts [] [],
        populate_gauge ''thread.peak.count'' (peak_count thread) ts [] [],
        populate_gauge ''thread.runnablestate.count'' (runnable_count thread) ts [] [],
        populate_gauge ''thread.blockedstate.count'' (blocked_count thread) ts [] [],
        populate_gauge ''thread.waitingstate.count'' (waiting_count thread) ts [] [],
        populate_gauge ''thread.timedwaiting.count'' (timed_waiting_count thread) ts [] []] dest"

definition append_cpu :: "ot_metric list \<Rightarrow> float64 option \<Rightarrow> timestamp \<Rightarrow> ot_metric list outcome" where
  "append_cpu dest cpu ts =
     (case cpu of
        None \<Rightarrow> Panic
      | Some usage \<Rightarrow> append_gauges [populate_gauge_f ''cpu.usagepercent'' ''By'' usage ts [] []] dest)"

fun append_gc :: "enum_names \<Rightarrow> ot_metric list \<Rightarrow> jvm_gc list \<Rightarrow> timestamp \<Rightarrow> ot_metric list outcome" where
  "append_gc en dest [] ts = Ret dest"
| "append_gc en dest (gc # gcs) ts =
     (let label_keys = [''gc.phase''];
          label_values = [en_phase en (gc_phase gc)]
      in bind_outcome
           (append_gauges
             [populate_gauge ''gc.time'' (gc_time gc) ts label_keys label_values,
              populate_gauge ''gc.count'' (gc_count gc) ts label_keys label_values] dest)
           (\<lambda>dest1. append_gc en dest1 gcs ts))"

fun append_memory_pool ::
    "enum_names \<Rightarrow> ot_metric list \<Rightarrow> jvm_memory_pool list \<Rightarrow> timestamp \<Rightarrow> ot_metric list outcome" where
  "append_memory_pool en dest [] ts = Ret dest"
| "append_memory_pool en dest (pool # pools) ts =
     (let label_keys = [''memorypool.type''];
          label_values = [en_pool en (pool_type pool)]
      in bind_outcome
           (append_gauges
             [populate_gauge ''memorypool.init'' (pool_init pool) ts label_keys label_values,
              populate_gauge ''memorypool.max'' (pool_max pool) ts label_keys label_values,
              populate_gauge ''memorypool.used'' (pool_used pool) ts label_keys label_values,
              populate_gauge ''memorypool.committed'' (pool_committed pool) ts label_keys label_values] dest)
           (\<lambda>dest1. append_memory_pool en dest1 pools ts))"

fun append_memory :: "ot_metric list \<Rightarrow> jvm_memory list \<Rightarrow> timestamp \<Rightarrow> ot_metric list outcome" where
  "append_memory dest [] ts = Ret dest"
| "append_memory dest (memory # memorys) ts =
     (let label_keys = [''memory.isheap''];
          label_values = (if mem_is_heap memory then [''true''] else [''false''])
      in bind_outcome
           (append_gauges
             [populate_gauge ''memory.init'' (mem_init memory) ts label_keys label_values,
              populate_gauge ''memory.max'' (mem_max memory) ts label_keys label_values,
              populate_gauge ''memory.used'' (mem_used memory) ts label_keys label_values,
              populate_gauge ''memory.committed'' (mem_committed memory) ts label_keys label_values] dest)
           (\<lambda>dest1. append_memory dest1 memorys ts))"

fun append_jvm_metrics ::
    "enum_names \<Rightarrow> ot_metric list \<Rightarrow> jvm_metric list \<Rightarrow> ot_metric list outcome" where
  "append_jvm_metrics en dest [] = Ret dest"
| "append_jvm_metrics en dest (metric # metrics) =
     (let ts = microseconds_to_timestamp (jvm_time metric)
      in bind_outcome (append_cpu dest (jvm_cpu metric) ts) (\<lambda>d1.
         bind_outcome (append_memory d1 (jvm_memories metric) ts) (\<lambda>d2.
         bind_outcome (append_memory_pool en d2 (jvm_pools metric) ts) (\<lambda>d3.
         bind_outcome (append_gc en d3 (jvm_gcs metric) ts) (\<lambda>d4.
         bind_outcome (append_thread d4 (jvm_threads metric) ts) (\<lambda>d5.
           append_jvm_metrics en d5 metrics))))))"

definition skywalking_to_metrics :: "enum_names \<Rightarrow> jvm_collection \<Rightarrow> ot_metric ot_resource outcome" where
  "skywalking_to_metrics en coll =
     (let attrs = put_str ''service.name'' (coll_service coll)
                    (put_str ''service.instance'' (coll_instance coll) Map.empty)
      in bind_outcome (append_jvm_metrics en [] (coll_metrics coll)) (\<lambda>ms.
           Ret \<lparr>res_attrs = attrs, res_scopes = [empty_scope\<lparr>scope_items := ms\<rparr>]\<rparr>))"

section \<open>Closed form\<close>

definition gauge :: "string \<Rightarrow> attr_val \<Rightarrow> timestamp \<Rightarrow> attrs \<Rightarrow> ot_metric" where
  "gauge name v ts a =
     \<lparr>metric_name = name, metric_unit = ''By'', metric_kind = MetricTypeGauge,
      metric_points = [\<lparr>np_value = v, np_time = ts, np_attrs = a\<rparr>]\<rparr>"

lemma populate_gauge_eq [simp]:
  "populate_gauge name v ts [] [] = Ret (gauge name (AInt v) ts Map.empty)"
  "populate_gauge name v ts [k] [l] = Ret (gauge name (AInt v) ts [k \<mapsto> AStr l])"
  "populate_gauge_f name ''By'' d ts [] [] = Ret (gauge name (ADouble d) ts Map.empty)"
  by (simp_all add: populate_gauge_def populate_gauge_f_def populate_gauge_value_def gauge_def put_str_def
      populate_metric_metadata_def empty_metric_def empty_point_def)

lemma append_gauges_simps [simp]:
  "append_gauges [] dest = Ret dest"
  "append_gauges (Ret g # gs) dest = append_gauges gs (dest @ [g])"
proof -
  show "append_gauges (Ret g # gs) dest = append_gauges gs (dest @ [g])"
    by (cases "map_outcome (\<lambda>g. g) gs") (simp_all add: append_gauges_def)
qed (simp add: append_gauges_def)

text \<open>The gauges of one metric message, in order.\<close>

definition memory_gauges :: "timestamp \<Rightarrow> jvm_memory \<Rightarrow> ot_metric list" where
  "memory_gauges ts m =
     (let l = [''memory.isheap'' \<mapsto> AStr (if mem_is_heap m then ''true'' else ''false'')] in
      [gauge ''memory.init'' (AInt (mem_init m)) ts l, gauge ''memory.max'' (AInt (mem_max m)) ts l,
       gauge ''memory.used'' (AInt (mem_used m)) ts l, gauge ''memory.committed'' (AInt (mem_committed m)) ts l])"

definition pool_gauges :: "enum_names \<Rightarrow> timestamp \<Rightarrow> jvm_memory_pool \<Rightarrow> ot_metric list" where
  "pool_gauges en ts p =
     (let l = [''memorypool.type'' \<mapsto> AStr (en_pool en (pool_type p))] in
      [gauge ''memorypool.init'' (AInt (pool_init p)) ts l, gauge ''memorypool.max'' (AInt (pool_max p)) ts l,
       gauge ''memorypool.used'' (AInt (pool_used p)) ts l,
       gauge ''memorypool.committed'' (AInt (pool_committed p)) ts l])"

definition gc_gauges :: "enum_names \<Rightarrow> timestamp \<Rightarrow> jvm_gc \<Rightarrow> ot_metric list" where
  "gc_gauges en ts g =
     (let l = [''gc.phase'' \<mapsto> AStr (en_phase en (gc_phase g))] in
      [gauge ''gc.time'' (AInt (gc_time g)) ts l, gauge ''gc.count'' (AInt (gc_count g)) ts l])"

definition thread_gauges :: "timestamp \<Rightarrow> jvm_thread \<Rightarrow> ot_metric list" where
  "thread_gauges ts t =
     map (\<lambda>(n, v). gauge (''thread.'' @ n @ ''.count'') (AInt v) ts Map.empty)
       [(''live'', live_count t), (''daemon'', daemon_count t), (''peak'', peak_count t),
        (''runnablestate'', runnable_count t), (''blockedstate'', blocked_count t),
        (''waitingstate'', waiting_count t), (''timedwaiting'', timed_waiting_count t)]"

definition jvm_gauges :: "enum_names \<Rightarrow> jvm_metric \<Rightarrow> ot_metric list" where
  "jvm_gauges en m =
     (let ts = microseconds_to_timestamp (jvm_time m) in
      [gauge ''cpu.usagepercent'' (ADouble (the (jvm_cpu m))) ts Map.empty] @
      concat (map (memory_gauges ts) (jvm_memories m)) @
      concat (map (pool_gauges en ts) (jvm_pools m)) @
      concat (map (gc_gauges en ts) (jvm_gcs m)) @ thread_gauges ts (jvm_threads m))"

lemma append_memory_eq: "append_memory dest ms ts = Ret (dest @ concat (map (memory_gauges ts) ms))"
  by (induction ms arbitrary: dest) (simp_all add: memory_gauges_def Let_def)

lemma append_memory_pool_eq:
  "append_memory_pool en dest ps ts = Ret (dest @ concat (map (pool_gauges en ts) ps))"
  by (induction ps arbitrary: dest) (simp_all add: pool_gauges_def Let_def)

lemma append_gc_eq: "append_gc en dest gs ts = Ret (dest @ concat (map (gc_gauges en ts) gs))"
  by (induction gs arbitrary: dest) (simp_all add: gc_gauges_def Let_def)

lemma append_thread_eq: "append_thread dest t ts = Ret (dest @ thread_gauges ts t)"
  by (simp add: append_thread_def thread_gauges_def)

lemma append_jvm_metrics_eq:
  "append_jvm_metrics en dest ms =
     (if \<exists>m \<in> set ms. jvm_cpu m = None then Panic else Ret (dest @ concat (map (jvm_gauges en) ms)))"
proof (induction ms arbitrary: dest)
  case (Cons m ms)
  then show ?case
    by (cases "jvm_cpu m")
      (simp_all add: Let_def append_cpu_def append_memory_eq append_memory_pool_eq append_gc_eq
        append_thread_eq jvm_gauges_def [of en m])
qed simp

lemma jvm_gauges_length:
  "length (jvm_gauges en m) =
     8 + 4 * length (jvm_memories m) + 4 * length (jvm_pools m) + 2 * length (jvm_gcs m)"
proof -
  have "length (concat (map (memory_gauges ts) ms)) = 4 * length ms" for ts ms
    by (induction ms) (simp_all add: memory_gauges_def Let_def)
  moreover have "length (concat (map (pool_gauges en ts) ps)) = 4 * length ps" for ts ps
    by (induction ps) (simp_all add: pool_gauges_def Let_def)
  moreover have "length (concat (map (gc_gauges en ts) gs)) = 2 * length gs" for ts gs
    by (induction gs) (simp_all add: gc_gauges_def Let_def)
  ultimately show ?thesis
    by (simp add: jvm_gauges_def Let_def thread_gauges_def)
qed

section \<open>Properties\<close>

text \<open>
  The translation of JVM metrics panics exactly when some metric has no CPU message;
  otherwise it yields, in the order of the messages, 8 gauges and 4 for each memory and memory
  pool and 2 for each collector, each with one data point at the time of its message.
\<close>

lemma jvm_metrics_translated:
  "skywalking_to_metrics en coll =
     (if \<exists>m \<in> set (coll_metrics coll). jvm_cpu m = None then Panic
      else Ret \<lparr>res_attrs = [''service.instance'' \<mapsto> AStr (coll_instance coll), ''service.name'' \<mapsto> AStr (coll_service coll)],
                res_scopes = [\<lparr>scope_name = [], scope_version = [],
                               scope_items = concat (map (jvm_gauges en) (coll_metrics coll))\<rparr>]\<rparr>) \<and>
   length (concat (map (jvm_gauges en) (coll_metrics coll))) =
     sum_list (map (\<lambda>m. 8 + 4 * length (jvm_memories m) + 4 * length (jvm_pools m) + 2 * length (jvm_gcs m))
                (coll_metrics coll))"
  by (simp add: skywalking_to_metrics_def append_jvm_metrics_eq put_str_def length_concat comp_def
      jvm_gauges_length empty_scope_def)

end
