(* ===== verification/SkywalkingServices.thy ===== *)
theory SkywalkingServices
  imports SkywalkingTraces SkywalkingMetrics HttpUtils
begin

text \<open>
  The handlers of the SkyWalking receiver: \<open>tracing_report_service.go\<close>,
  \<open>metrics_report_service.go\<close>, the HTTP handler of \<open>trace_receiver.go\<close> and
  \<open>sw_dummy_response_service.go\<close>.  A consumer is a function of what it was handed before and of
  what it is handed now; the model's state is the list of what it was handed.  A panic inside a
  handler ends the process, so nothing is said of the state after it.
\<close>

type_synonym 'a consumer = "'a list \<Rightarrow> 'a \<Rightarrow> go_error option"

section \<open>Traces\<close>

definition consume_traces ::
    "sw_env \<Rightarrow> traces consumer \<Rightarrow> context_values \<Rightarrow> sw_segment option \<Rightarrow> traces list \<Rightarrow>
       (go_error option \<times> traces list) outcome" where
  "consume_traces env consumer ctx segment delivered =
     (case segment of
        None \<Rightarrow> Ret (None, delivered)
      | Some s \<Rightarrow>
          bind_outcome (skywalking_to_traces env ctx s) (\<lambda>ptd.
            Ret (consumer delivered ptd, delivered @ [ptd])))"

text \<open>
  What \<open>stream.Recv()\<close> returns: messages, then the end of the stream or an error.  The result is
  whether the reply was sent (\<open>SendAndClose\<close>) and the error returned.
\<close>

datatype stream_end = StreamEOF | StreamError go_error

fun collect_segments ::
    "sw_env \<Rightarrow> traces consumer \<Rightarrow> context_values \<Rightarrow> go_error option \<Rightarrow> sw_segment option list \<Rightarrow> stream_end \<Rightarrow>
       traces list \<Rightarrow> (bool \<times> go_error option \<times> traces list) outcome" where
  "collect_segments env consumer ctx send_err [] StreamEOF delivered = Ret (True, send_err, delivered)"
| "collect_segments env consumer ctx send_err [] (StreamError e) delivered = Ret (False, Some e, delivered)"
| "collect_segments env consumer ctx send_err (msg # msgs) fin delivered =
     bind_outcome (consume_traces env consumer ctx msg delivered) (\<lambda>(err, delivered1).
       if err \<noteq> None then Ret (True, send_err, delivered1)
       else collect_segments env consumer ctx send_err msgs fin delivered1)"

text \<open>\<open>CollectInSync\<close>: errors are printed, and the next segment is tried.\<close>

fun collect_in_sync ::
    "sw_env \<Rightarrow> traces consumer \<Rightarrow> context_values \<Rightarrow> sw_segment option list \<Rightarrow> traces list \<Rightarrow> traces list outcome" where
  "collect_in_sync env consumer ctx [] delivered = Ret delivered"
| "collect_in_sync env consumer ctx (segment # segments) delivered =
     bind_outcome (consume_traces env consumer ctx segment delivered) (\<lambda>(err, delivered1).
       collect_in_sync env consumer ctx segments delivered1)"

text \<open>
  \<open>httpHandler\<close>: the body as read (or the error), decoded by \<open>json.Unmarshal\<close>, whose error is
  printed while what it decoded is used.  The reply is the status and its message.
\<close>

definition sw_http_handler ::
    "sw_env \<Rightarrow> traces consumer \<Rightarrow> context_values \<Rightarrow> (string \<Rightarrow> sw_segment option list) \<Rightarrow> go_error + string \<Rightarrow>
       traces list \<Rightarrow> ((nat \<times> string) \<times> traces list) outcome" where
  "sw_http_handler env consumer ctx unmarshal body delivered =
     (case body of
        Inl e \<Rightarrow> Ret ((400, e), delivered)
      | Inr b \<Rightarrow>
          bind_outcome (collect_in_sync env consumer ctx (unmarshal b) delivered) (\<lambda>d. Ret ((200, []), d)))"

section \<open>Metrics\<close>

definition collect_jvm_metrics ::
    "enum_names \<Rightarrow> ot_metric telemetry consumer \<Rightarrow> jvm_collection \<Rightarrow> ot_metric telemetry list \<Rightarrow>
       (go_error option \<times> ot_metric telemetry list) outcome" where
  "collect_jvm_metrics en consumer coll delivered =
     bind_outcome (skywalking_to_metrics en coll) (\<lambda>rs.
       let md = [rs] in Ret (consumer delivered md, delivered @ [md]))"

section \<open>Agent configuration\<close>

record agent_configuration =
  ag_tenant :: string
  ag_service :: string
  ag_configuration :: gomap
  ag_uuid :: string

definition empty_agent_configuration :: agent_configuration where
  "empty_agent_configuration = \<lparr>ag_tenant = [], ag_service = [], ag_configuration = [], ag_uuid = []\<rparr>"

record agent_config_request =
  agr_tenant :: string
  agr_service :: string
  agr_extend_info :: string

record sw_command =
  cmd_name :: string
  cmd_args :: "(string \<times> string) list"

record config_sync_request =
  sync_service :: string
  sync_uuid :: string

text \<open>
  \<open>json.Marshal\<close> and \<open>json.Unmarshal\<close> on these types, \<open>uuid.New\<close> and the network.  A failed
  \<open>Unmarshal\<close> returns what it filled in before the error.
\<close>

record fetch_env =
  fe_marshal_map :: "gomap \<Rightarrow> string"
  fe_marshal_request :: "agent_config_request \<Rightarrow> string"
  fe_unmarshal :: "string \<Rightarrow> agent_configuration \<times> go_error option"
  fe_new_uuid :: string
  fe_net :: "http_request \<Rightarrow> http_reply"

definition gateway_agent_config_url :: string where
  "gateway_agent_config_url = ''/internal/api/gateway/agent/configuration/query''"

definition fetch_request :: "fetch_env \<Rightarrow> string \<Rightarrow> string \<Rightarrow> string \<Rightarrow> config_sync_request \<Rightarrow> (go_error + string) \<times> http_event list" where
  "fetch_request fe endpoint tenant extend_info req =
     (let url = (if \<not> has_prefix endpoint ''http://'' then ''http://'' @ endpoint else endpoint);
          request = \<lparr>agr_tenant = tenant, agr_service = sync_service req, agr_extend_info = extend_info\<rparr>
      in http_post (fe_net fe) (url @ gateway_agent_config_url) (fe_marshal_request fe request))"

definition discovery_command :: "fetch_env \<Rightarrow> agent_configuration \<Rightarrow> sw_command" where
  "discovery_command fe ac =
     \<lparr>cmd_name = ''ConfigurationDiscoveryCommand'',
      cmd_args = [(''UUID'', ag_uuid ac), (''SerialNumber'', fe_new_uuid fe)] @ ag_configuration ac\<rparr>"

text \<open>
  The commands of the reply, the context afterwards (the map of custom tags is the one in the
  context, and the handler writes to it), and the requests sent.
\<close>

definition fetch_configurations ::
    "fetch_env \<Rightarrow> string \<Rightarrow> context_values \<Rightarrow> config_sync_request \<Rightarrow>
       sw_command list \<times> context_values \<times> http_event list" where
  "fetch_configurations fe endpoint ctx req =
     (case ctx_tenant ctx of
        None \<Rightarrow> ([], ctx, [])
      | Some tenant \<Rightarrow>
          let tags = map_option (gm_put ''type'' ''skywalking'') (ctx_tags ctx);
              ctx1 = ctx\<lparr>ctx_tags := tags\<rparr>;
              extend_info = (case tags of None \<Rightarrow> [] | Some m \<Rightarrow> fe_marshal_map fe m);
              (res, evs) = fetch_request fe endpoint tenant extend_info req
          in (case res of
                Inl e \<Rightarrow> ([], ctx1, evs)
              | Inr response \<Rightarrow>
                  if response = [] then ([], ctx1, evs)
                  else let (ac, err) = fe_unmarshal fe response
                       in if ag_uuid ac \<noteq> sync_uuid req
                          then ([discovery_command fe ac], ctx1, evs)
                          else ([], ctx1, evs)))"

text \<open>The other services of the receiver answer every call without an error and drop the message.\<close>

datatype dummy_call =
    ReportInstanceProperties | KeepAlive | CollectJVM | GetProfileTaskCommands | CollectSnapshot
  | ReportTaskFinish | CollectCLR | CollectEvents | CollectMeters | CollectMeterBatch

fun dummy_service :: "dummy_call \<Rightarrow> sw_command list \<times> go_error option" where
  "dummy_service ReportInstanceProperties = ([], None)"
| "dummy_service KeepAlive = ([], None)"
| "dummy_service CollectJVM = ([], None)"
| "dummy_service GetProfileTaskCommands = ([], None)"
| "dummy_service CollectSnapshot = ([], None)"
| "dummy_service ReportTaskFinish = ([], None)"
| "dummy_service CollectCLR = ([], None)"
| "dummy_service CollectEvents = ([], None)"
| "dummy_service CollectMeters = ([], None)"
| "dummy_service CollectMeterBatch = ([], None)"

section \<open>What is delivered\<close>

definition present :: "'a option list \<Rightarrow> 'a list" where
  "present xs = [x. Some x \<leftarrow> xs]"

lemma present_simps [simp]:
  "present [] = []" "present (None # xs) = present xs" "present (Some x # xs) = x # present xs"
  by (simp_all add: present_def)

text \<open>What a consumer that stops the stream at its first error has been handed.\<close>

fun until_error :: "'a consumer \<Rightarrow> 'a list \<Rightarrow> 'a list \<Rightarrow> bool \<times> 'a list" where
  "until_error c d [] = (True, d)"
| "until_error c d (x # xs) = (if c d x = None then until_error c (d @ [x]) xs else (False, d @ [x]))"

lemma until_error_prefix: "\<exists>k. snd (until_error c d xs) = d @ take k xs"
proof (induction xs arbitrary: d)
  case (Cons x xs)
  then obtain k where "snd (until_error c (d @ [x]) xs) = (d @ [x]) @ take k xs" by blast
  then have "snd (until_error c d (x # xs)) = d @ take (if c d x = None then Suc k else 1) (x # xs)"
    by simp
  then show ?case by blast
qed simp

lemma until_error_all: "fst (until_error c d xs) \<Longrightarrow> snd (until_error c d xs) = d @ xs"
  by (induction xs arbitrary: d) (auto split: if_splits)

lemma collect_segments_eq:
  assumes "\<And>s. s \<in> set (present msgs) \<Longrightarrow> skywalking_to_traces env ctx s = Ret (tr s)"
  shows "collect_segments env consumer ctx send_err msgs fin d =
     (case until_error consumer d (map tr (present msgs)) of
        (True, d') \<Rightarrow> (case fin of StreamEOF \<Rightarrow> Ret (True, send_err, d') | StreamError e \<Rightarrow> Ret (False, Some e, d'))
      | (False, d') \<Rightarrow> Ret (True, send_err, d'))"
  using assms
proof (induction msgs arbitrary: d)
  case Nil
  then show ?case by (cases fin) simp_all
next
  case (Cons m msgs)
  then show ?case by (cases m) (simp_all add: consume_traces_def)
qed

lemma collect_in_sync_eq:
  assumes "\<And>s. s \<in> set (present segments) \<Longrightarrow> skywalking_to_traces env ctx s = Ret (tr s)"
  shows "collect_in_sync env consumer ctx segments d = Ret (d @ map tr (present segments))"
  using assms
proof (induction segments arbitrary: d)
  case (Cons m segments)
  then show ?case by (cases m) (simp_all add: consume_traces_def)
qed simp

section \<open>Properties\<close>

text \<open>
  The stream handler hands the translations of the segments to the consumer in the order of
  the stream and stops at the first one the consumer refuses, which it still answers with a
  success; when the consumer takes them all, every segment has been handed over, and the stream's
  own error, if it ends in one, is returned.
\<close>

lemma sw_stream_delivery:
  fixes consumer :: "traces consumer" and d and tr and msgs
  assumes "\<And>s. s \<in> set (present msgs) \<Longrightarrow> skywalking_to_traces env ctx s = Ret (tr s)"
  defines "all_taken \<equiv> fst (until_error consumer d (map tr (present msgs)))"
  shows "\<exists>k. collect_segments env consumer ctx send_err msgs fin d =
           Ret (all_taken \<longrightarrow> fin = StreamEOF,
                if all_taken then (case fin of StreamEOF \<Rightarrow> send_err | StreamError e \<Rightarrow> Some e) else send_err,
                d @ take k (map tr (present msgs))) \<and>
         (all_taken \<longrightarrow> k = length (present msgs))"
proof -
  let ?u = "until_error consumer d (map tr (present msgs))"
  note eq = collect_segments_eq [where tr = tr, OF assms(1), of msgs consumer send_err fin d]
  show ?thesis
  proof (cases "fst ?u")
    case True
    with until_error_all [OF True] obtain d' where "?u = (True, d')" "d' = d @ map tr (present msgs)"
      by (metis prod.collapse)
    with eq True show ?thesis
      by (intro exI [of _ "length (present msgs)"]) (cases fin, simp_all add: all_taken_def)
  next
    case False
    then obtain k where "?u = (False, d @ take k (map tr (present msgs)))"
      by (metis prod.collapse until_error_prefix)
    with eq show ?thesis by (intro exI [of _ k]) (simp add: all_taken_def)
  qed
qed

text \<open>
  The batch handlers, gRPC and HTTP, hand the translation of every segment to the consumer,
  in order, whatever the consumer answers, and report success; only a body that cannot be read is
  answered with status 400, and then nothing is handed over.
\<close>

lemma sw_batch_delivery:
  assumes "\<And>s. s \<in> set (present (unmarshal b)) \<Longrightarrow> skywalking_to_traces env ctx s = Ret (tr s)"
  shows "collect_in_sync env consumer ctx (unmarshal b) d = Ret (d @ map tr (present (unmarshal b))) \<and>
         sw_http_handler env consumer ctx unmarshal (Inr b) d = Ret ((200, []), d @ map tr (present (unmarshal b))) \<and>
         sw_http_handler env consumer ctx unmarshal (Inl e) d = Ret ((400, e), d)"
  using collect_in_sync_eq [where tr = tr, OF assms, of "unmarshal b" consumer d]
  by (simp add: sw_http_handler_def)

text \<open>
  The agent configuration handler sends no request without a tenant in the context; with one
  it sends exactly one request, to the gateway, and answers with a command exactly when the
  reply is a success with a body whose configuration has another UUID than the agent's.  The
  answer depends only on what was decoded before an error: a malformed body decoded to nothing
  sends an agent that has a configuration a command with an empty UUID and no settings.
\<close>

lemma fetch_configurations_reply:
  assumes "ctx_tenant ctx = Some tenant" and "fe_net fe = (\<lambda>_. Reply 200 st (Inr body))" and "body \<noteq> []"
    and "fe_unmarshal fe body = (ac, err)"
  shows "fst (fetch_configurations fe endpoint ctx req) =
           (if ag_uuid ac = sync_uuid req then [] else [discovery_command fe ac]) \<and>
         (\<exists>rq. snd (snd (fetch_configurations fe endpoint ctx req)) = [EvSend rq, EvCloseBody] \<and>
               rq_url rq = (if has_prefix endpoint ''http://'' then endpoint else ''http://'' @ endpoint) @
                           gateway_agent_config_url) \<and>
         (ac = empty_agent_configuration \<and> sync_uuid req \<noteq> [] \<longrightarrow>
            map cmd_args (fst (fetch_configurations fe endpoint ctx req)) =
              [[(''UUID'', []), (''SerialNumber'', fe_new_uuid fe)]]) \<and>
         fetch_configurations fe endpoint (ctx\<lparr>ctx_tenant := None\<rparr>) req = ([], ctx\<lparr>ctx_tenant := None\<rparr>, [])"
  using assms
  by (auto simp: fetch_configurations_def fetch_request_def http_post_def Let_def status_ok_def
      discovery_command_def empty_agent_configuration_def)

definition sample_fetch :: fetch_env where
  "sample_fetch = \<lparr>fe_marshal_map = (\<lambda>_. ''{}''), fe_marshal_request = (\<lambda>r. agr_tenant r),
     fe_unmarshal = (\<lambda>_. (empty_agent_configuration, Some ''invalid character'')), fe_new_uuid = ''n'',
     fe_net = (\<lambda>_. Reply 200 ''200 OK'' (Inr ''<html>''))\<rparr>"

lemma fetch_configurations_reply_witness:
  "map cmd_args (fst (fetch_configurations sample_fetch ''gw:80'' sample_ctx \<lparr>sync_service = ''s'', sync_uuid = ''u1''\<rparr>)) =
     [[(''UUID'', []), (''SerialNumber'', ''n'')]]"
proof -
  have "ctx_tenant sample_ctx = Some ''t1''" by (simp add: sample_ctx_def)
  moreover have "fe_net sample_fetch = (\<lambda>_. Reply 200 ''200 OK'' (Inr ''<html>''))"
    "fe_unmarshal sample_fetch ''<html>'' = (empty_agent_configuration, Some ''invalid character'')"
    "fe_new_uuid sample_fetch = ''n''"
    by (simp_all add: sample_fetch_def)
  ultimately show ?thesis
    using fetch_configurations_reply [of sample_ctx "''t1''" sample_fetch "''200 OK''" "''<html>''"
        empty_agent_configuration "Some ''invalid character''" "''gw:80''" "\<lparr>sync_service = ''s'', sync_uuid = ''u1''\<rparr>"]
    by (simp add: discovery_command_def empty_agent_configuration_def)
qed

text \<open>Two segments, of which the consumer refuses the second; one nil message between them.\<close>

definition empty_segment :: sw_segment where
  "empty_segment = \<lparr>seg_trace_id = [], seg_segment_id = [], seg_spans = Some [], seg_service = ''s'', seg_service_instance = ''i''\<rparr>"

definition refuse_second :: "traces consumer" where
  "refuse_second d t = (if d = [] then None else Some ''full'')"

definition empty_translation :: "sw_segment \<Rightarrow> traces" where
  "empty_translation s =
     [\<lparr>res_attrs = sw_resource_attributes sample_ctx s, res_scopes = [\<lparr>scope_name = [], scope_version = [], scope_items = []\<rparr>]\<rparr>]"

lemma empty_segment_translates: "skywalking_to_traces sample_env sample_ctx empty_segment = Ret (empty_translation empty_segment)"
  by (simp add: skywalking_to_traces_def empty_segment_def empty_translation_def empty_scope_def)

lemma sw_stream_delivery_witness:
  "\<exists>k. collect_segments sample_env refuse_second sample_ctx None
         [Some empty_segment, None, Some empty_segment, Some empty_segment] StreamEOF [] =
       Ret (True, None, take k [empty_translation empty_segment, empty_translation empty_segment, empty_translation empty_segment])"
  using sw_stream_delivery [of "[Some empty_segment, None, Some empty_segment, Some empty_segment]" sample_env sample_ctx
      empty_translation refuse_second None StreamEOF "[]"]
  by (auto simp: empty_segment_translates refuse_second_def)

lemma sw_batch_delivery_witness:
  "sw_http_handler sample_env refuse_second sample_ctx (\<lambda>_. [Some empty_segment, None, Some empty_segment]) (Inr ''[]'') [] =
     Ret ((200, []), [empty_translation empty_segment, empty_translation empty_segment])"
  using sw_batch_delivery [of "\<lambda>_. [Some empty_segment, None, Some empty_segment]" "''[]''" sample_env sample_ctx
      empty_translation refuse_second "[]" "''''"]
  by (simp add: empty_segment_translates)

end
