(* ===== verification/SharedComponent.thy ===== *)
theory SharedComponent
  imports Prelude
begin

text \<open>
  \<open>internal/sharedcomponent/sharedcomponent.go\<close> and the generic copy under
  \<open>receiver/holoinsightotlpreceiver/internal/sharedcomponent\<close>: a map from configurations to
  wrapped components that are started and stopped once each.  The pointers
  \<open>*SharedComponent\<close> are indices into a heap of objects; \<open>wcalls\<close> records the calls that
  reach a wrapped component, in order.  The wrapped component itself belongs to the caller:
  the error its \<open>Start\<close> or \<open>Shutdown\<close> returns is an argument of the step.
\<close>

section \<open>State\<close>

datatype lifecycle = WStart | WShutdown

record ('k, 'c) shared_object =
  so_key :: 'k
  so_component :: 'c
  so_started :: bool
  so_stopped :: bool

record ('k, 'c) shared_components =
  comps :: "'k \<rightharpoonup> nat"
  heap :: "('k, 'c) shared_object list"
  wcalls :: "(lifecycle \<times> nat) list"

definition new_shared_components :: "('k, 'c) shared_components" where
  "new_shared_components = \<lparr>comps = Map.empty, heap = [], wcalls = []\<rparr>"

section \<open>Operations\<close>

text \<open>The allocation shared by both versions of \<open>GetOrAdd\<close>.\<close>

definition add_new :: "'k \<Rightarrow> 'c \<Rightarrow> ('k, 'c) shared_components \<Rightarrow> nat \<times> ('k, 'c) shared_components" where
  "add_new k c s =
     (length (heap s),
      s\<lparr>comps := (comps s)(k \<mapsto> length (heap s)),
        heap := heap s @ [\<lparr>so_key = k, so_component = c, so_started = False, so_stopped = False\<rparr>]\<rparr>)"

text \<open>\<open>GetOrAdd\<close>: \<open>c\<close> is what \<open>create()\<close> returns if it is called.\<close>

definition get_or_add :: "'k \<Rightarrow> 'c \<Rightarrow> ('k, 'c) shared_components \<Rightarrow> nat \<times> ('k, 'c) shared_components" where
  "get_or_add k c s = (case comps s k of Some r \<Rightarrow> (r, s) | None \<Rightarrow> add_new k c s)"

text \<open>The generic version: \<open>create()\<close> may fail, and then nothing is added.\<close>

definition get_or_add_e ::
    "'k \<Rightarrow> go_error + 'c \<Rightarrow> ('k, 'c) shared_components \<Rightarrow> (go_error + nat) \<times> ('k, 'c) shared_components" where
  "get_or_add_e k create s =
     (case comps s k of
        Some r \<Rightarrow> (Inr r, s)
      | None \<Rightarrow>
          (case create of
             Inl e \<Rightarrow> (Inl e, s)
           | Inr c \<Rightarrow> (case add_new k c s of (r, s') \<Rightarrow> (Inr r, s'))))"

definition so_unwrap :: "nat \<Rightarrow> ('k, 'c) shared_components \<Rightarrow> 'c" where
  "so_unwrap r s = so_component (heap s ! r)"

text \<open>\<open>Start\<close> under \<open>startOnce\<close>; \<open>err\<close> is what the wrapped \<open>Start\<close> returns.\<close>

definition so_start ::
    "nat \<Rightarrow> go_error option \<Rightarrow> ('k, 'c) shared_components \<Rightarrow> go_error option \<times> ('k, 'c) shared_components" where
  "so_start r err s =
     (if so_started (heap s ! r) then (None, s)
      else (err, s\<lparr>heap := (heap s)[r := (heap s ! r)\<lparr>so_started := True\<rparr>],
                   wcalls := wcalls s @ [(WStart, r)]\<rparr>))"

text \<open>\<open>Shutdown\<close> under \<open>stopOnce\<close>: the wrapped \<open>Shutdown\<close>, then \<open>removeFunc\<close>.\<close>

definition so_shutdown ::
    "nat \<Rightarrow> go_error option \<Rightarrow> ('k, 'c) shared_components \<Rightarrow> go_error option \<times> ('k, 'c) shared_components" where
  "so_shutdown r err s =
     (if so_stopped (heap s ! r) then (None, s)
      else (err, s\<lparr>heap := (heap s)[r := (heap s ! r)\<lparr>so_stopped := True\<rparr>],
                   wcalls := wcalls s @ [(WShutdown, r)],
                   comps := (comps s)(so_key (heap s ! r) := None)\<rparr>))"

section \<open>Runs and the invariant\<close>

inductive scs_step :: "('k, 'c) shared_components \<Rightarrow> ('k, 'c) shared_components \<Rightarrow> bool" where
  step_get: "scs_step s (snd (get_or_add k c s))"
| step_get_e: "scs_step s (snd (get_or_add_e k create s))"
| step_start: "r < length (heap s) \<Longrightarrow> scs_step s (snd (so_start r err s))"
| step_shutdown: "r < length (heap s) \<Longrightarrow> scs_step s (snd (so_shutdown r err s))"

inductive_cases scs_stepE: "scs_step s t"

inductive scs_reachable :: "('k, 'c) shared_components \<Rightarrow> bool" where
  reach_new: "scs_reachable new_shared_components"
| reach_step: "scs_reachable s \<Longrightarrow> scs_step s t \<Longrightarrow> scs_reachable t"

text \<open>
  The map holds exactly the objects that were not shut down, each under its own key, and the
  call log holds one call for each flag that is set.
\<close>

definition scs_live :: "('k, 'c) shared_components \<Rightarrow> 'k \<Rightarrow> nat \<Rightarrow> bool" where
  "scs_live s k r \<longleftrightarrow> r < length (heap s) \<and> so_key (heap s ! r) = k \<and> \<not> so_stopped (heap s ! r)"

definition scs_calls_ok :: "('k, 'c) shared_components \<Rightarrow> bool" where
  "scs_calls_ok s \<longleftrightarrow>
     (\<forall>r. count_list (wcalls s) (WStart, r) = of_bool (r < length (heap s) \<and> so_started (heap s ! r)) \<and>
          count_list (wcalls s) (WShutdown, r) = of_bool (r < length (heap s) \<and> so_stopped (heap s ! r)))"

definition scs_inv :: "('k, 'c) shared_components \<Rightarrow> bool" where
  "scs_inv s \<longleftrightarrow> (\<forall>k r. comps s k = Some r \<longleftrightarrow> scs_live s k r) \<and> scs_calls_ok s"

lemma scs_invD:
  "scs_inv s \<Longrightarrow> comps s k = Some r \<Longrightarrow>
     r < length (heap s) \<and> so_key (heap s ! r) = k \<and> \<not> so_stopped (heap s ! r)"
  by (auto simp: scs_inv_def scs_live_def)

lemma scs_inv_new: "scs_inv new_shared_components"
  by (simp add: scs_inv_def scs_live_def scs_calls_ok_def new_shared_components_def)

lemma scs_inv_add_new:
  assumes "scs_inv s" and "comps s k = None"
  shows "scs_inv (snd (add_new k c s))"
proof -
  have "\<not> scs_live s k r" for r
    using assms unfolding scs_inv_def by (metis option.distinct(1))
  with assms show ?thesis
    by (auto simp: scs_inv_def scs_live_def scs_calls_ok_def add_new_def nth_append less_Suc_eq)
qed

lemma scs_inv_get: "scs_inv s \<Longrightarrow> scs_inv (snd (get_or_add k c s))"
  by (auto simp: get_or_add_def scs_inv_add_new split: option.split)

lemma scs_inv_get_e: "scs_inv s \<Longrightarrow> scs_inv (snd (get_or_add_e k create s))"
  by (simp add: get_or_add_e_def case_prod_beta scs_inv_add_new split: option.split sum.split)

lemma scs_inv_start:
  assumes "scs_inv s" and "r < length (heap s)"
  shows "scs_inv (snd (so_start r err s))"
  using assms
  by (auto simp: so_start_def scs_inv_def scs_live_def scs_calls_ok_def nth_list_update)

lemma scs_live_unique: "scs_inv s \<Longrightarrow> scs_live s k r \<Longrightarrow> scs_live s k r' \<Longrightarrow> r = r'"
  unfolding scs_inv_def by (metis option.inject)

lemma scs_inv_shutdown:
  assumes "scs_inv s" and "r < length (heap s)"
  shows "scs_inv (snd (so_shutdown r err s))"
proof -
  have "r' = r" if "so_key (heap s ! r') = so_key (heap s ! r)" "r' < length (heap s)"
    "\<not> so_stopped (heap s ! r')" "\<not> so_stopped (heap s ! r)" for r'
    using that assms scs_live_unique [OF assms(1)] by (simp add: scs_live_def)
  with assms show ?thesis
    by (auto simp: so_shutdown_def scs_inv_def scs_live_def scs_calls_ok_def nth_list_update)
qed

lemma scs_inv_step: "scs_step s t \<Longrightarrow> scs_inv s \<Longrightarrow> scs_inv t"
  by (erule scs_stepE)
    (simp_all add: scs_inv_get scs_inv_get_e scs_inv_start scs_inv_shutdown)

lemma scs_reachable_inv: "scs_reachable s \<Longrightarrow> scs_inv s"
  by (induction rule: scs_reachable.induct) (auto intro: scs_inv_new scs_inv_step)


section \<open>The interface the receiver factories use\<close>

text \<open>
  A factory asks the registry for the instance of a configuration, and an instance that is shut
  down through its wrapper leaves the registry.  \<open>get k create s\<close> returns \<open>None\<close> when nothing
  could be created.
\<close>

locale component_registry =
  fixes get :: "'k \<Rightarrow> 'c option \<Rightarrow> 's \<Rightarrow> nat option \<times> 's"
    and shutdown :: "nat \<Rightarrow> 's \<Rightarrow> 's"
    and lookup :: "'s \<Rightarrow> 'k \<rightharpoonup> nat"
    and inv :: "'s \<Rightarrow> bool"
  assumes get_present: "inv s \<Longrightarrow> lookup s k = Some r \<Longrightarrow> get k create s = (Some r, s)"
    and get_absent:
      "inv s \<Longrightarrow> lookup s k = None \<Longrightarrow> get k (Some c) s = (res, s') \<Longrightarrow>
         \<exists>r. res = Some r \<and> lookup s' = (lookup s)(k \<mapsto> r) \<and> (\<forall>k'. lookup s k' \<noteq> Some r)"
    and inv_get: "inv s \<Longrightarrow> inv (snd (get k create s))"
    and shutdown_lookup:
      "inv s \<Longrightarrow> lookup s k = Some r \<Longrightarrow> lookup (shutdown r s) = (lookup s)(k := None)"
    and inv_shutdown: "inv s \<Longrightarrow> lookup s k = Some r \<Longrightarrow> inv (shutdown r s)"
begin

lemma get_Some:
  assumes "inv s" and "get k (Some c) s = (res, s')"
  shows "\<exists>r. res = Some r \<and> lookup s' k = Some r"
proof (cases "lookup s k")
  case None
  with get_absent [OF assms(1) None assms(2)] show ?thesis by auto
next
  case (Some r)
  with get_present [OF assms(1) Some, of "Some c"] assms(2) show ?thesis by simp
qed

text \<open>Two factories that ask for one configuration share one instance.\<close>

lemma same_instance:
  assumes "inv s" and "get k (Some c) s = (Some r, s1)"
  shows "get k c' s1 = (Some r, s1)"
proof -
  have "lookup s1 k = Some r" using get_Some [OF assms] by auto
  moreover have "inv s1" using inv_get [OF assms(1), of k "Some c"] assms(2) by simp
  ultimately show ?thesis by (rule get_present [rotated])
qed

text \<open>A request for another configuration returns another instance.\<close>

lemma other_instance:
  assumes inv: "inv s" and g1: "get k1 (Some c1) s = (Some r1, s1)"
    and ne: "k1 \<noteq> k2" and l2: "lookup s k2 = None"
    and g2: "get k2 (Some c2) s1 = (Some r2, s2)"
  shows "r1 \<noteq> r2"
proof -
  have i1: "inv s1" using inv_get [OF inv, of k1 "Some c1"] g1 by simp
  have l1: "lookup s1 k1 = Some r1" using get_Some [OF inv g1] by auto
  have "lookup s1 k2 = None"
  proof (cases "lookup s k1")
    case None
    with get_absent [OF inv None g1] ne l2 show ?thesis by auto
  next
    case (Some r)
    with get_present [OF inv Some] g1 l2 show ?thesis by auto
  qed
  from get_absent [OF i1 this g2] l1 show ?thesis by auto
qed

text \<open>After a shutdown the same configuration gets an instance again, under a new identity.\<close>

lemma recreate_after_shutdown:
  assumes "inv s" and "lookup s k = Some r" and "get k (Some c) (shutdown r s) = (res, s')"
  shows "\<exists>r'. res = Some r' \<and> lookup s' k = Some r' \<and> (\<forall>k'. lookup (shutdown r s) k' \<noteq> Some r')"
proof -
  have inv: "inv (shutdown r s)" using assms(1,2) by (rule inv_shutdown)
  have "lookup (shutdown r s) k = None"
    using shutdown_lookup [OF assms(1,2)] by simp
  from get_absent [OF inv this assms(3)] show ?thesis by auto
qed

end

definition registry_get ::
    "'k \<Rightarrow> 'c option \<Rightarrow> ('k, 'c) shared_components \<Rightarrow> nat option \<times> ('k, 'c) shared_components" where
  "registry_get k c s =
     (case get_or_add_e k (case c of None \<Rightarrow> Inl ''create'' | Some v \<Rightarrow> Inr v) s of
        (Inl e, s') \<Rightarrow> (None, s')
      | (Inr r, s') \<Rightarrow> (Some r, s'))"

definition registry_get_plain ::
    "'k \<Rightarrow> 'c option \<Rightarrow> ('k, 'c option) shared_components \<Rightarrow> nat option \<times> ('k, 'c option) shared_components" where
  "registry_get_plain k c s = (case get_or_add k c s of (r, s') \<Rightarrow> (Some r, s'))"

lemma scs_live_fresh: "scs_inv s \<Longrightarrow> comps s k \<noteq> Some (length (heap s))"
  by (auto dest: scs_invD)

lemma snd_registry_get: "scs_inv s \<Longrightarrow> scs_inv (snd (registry_get k c s))"
  using scs_inv_get_e [of s k "case c of None \<Rightarrow> Inl ''create'' | Some v \<Rightarrow> Inr v"]
  by (auto simp: registry_get_def split: prod.split sum.split)

lemma snd_registry_get_plain: "scs_inv s \<Longrightarrow> scs_inv (snd (registry_get_plain k c s))"
  using scs_inv_get [of s k c] by (auto simp: registry_get_plain_def split: prod.split)

lemma so_shutdown_comps:
  "scs_inv s \<Longrightarrow> comps s k = Some r \<Longrightarrow>
     comps (snd (so_shutdown r err s)) = (comps s)(k := None)"
  by (auto simp: so_shutdown_def dest: scs_invD)

lemma so_shutdown_live_inv:
  "scs_inv s \<Longrightarrow> comps s k = Some r \<Longrightarrow> scs_inv (snd (so_shutdown r err s))"
  by (rule scs_inv_shutdown) (auto dest: scs_invD)

interpretation scs: component_registry registry_get "\<lambda>r s. snd (so_shutdown r None s)" comps scs_inv
proof
  show "registry_get k c s = (Some r, s)" if "scs_inv s" "comps s k = Some r" for s k r c
    using that by (simp add: registry_get_def get_or_add_e_def)
  show "\<exists>r. res = Some r \<and> comps s' = (comps s)(k \<mapsto> r) \<and> (\<forall>k'. comps s k' \<noteq> Some r)"
    if "scs_inv s" "comps s k = None" "registry_get k (Some c) s = (res, s')" for s s' k c res
    using that scs_live_fresh [OF that(1)]
    by (auto simp: registry_get_def get_or_add_e_def add_new_def)
qed (simp_all add: snd_registry_get so_shutdown_comps so_shutdown_live_inv)

text \<open>
  The non-generic registry keeps whatever \<open>create()\<close> returned, a nil component included, so
  its instances are \<open>'c option\<close> and every request succeeds.
\<close>

interpretation scs_plain:
  component_registry registry_get_plain "\<lambda>r s. snd (so_shutdown r None s)" comps scs_inv
proof
  show "registry_get_plain k c s = (Some r, s)" if "scs_inv s" "comps s k = Some r" for s k r c
    using that by (simp add: registry_get_plain_def get_or_add_def)
  show "\<exists>r. res = Some r \<and> comps s' = (comps s)(k \<mapsto> r) \<and> (\<forall>k'. comps s k' \<noteq> Some r)"
    if "scs_inv s" "comps s k = None" "registry_get_plain k (Some c) s = (res, s')" for s s' k c res
    using that scs_live_fresh [OF that(1)]
    by (auto simp: registry_get_plain_def get_or_add_def add_new_def)
qed (simp_all add: snd_registry_get_plain so_shutdown_comps so_shutdown_live_inv)

section \<open>Properties\<close>

text \<open>
  C8: along every run of \<open>GetOrAdd\<close>, \<open>Start\<close> and \<open>Shutdown\<close> calls, through however many wrappers
  and in whatever order, the registry holds exactly the instances not yet shut down, at most one
  for each configuration, and each wrapped component is started at most once and shut down at most
  once.
\<close>

theorem shared_component_lifecycle:
  assumes "scs_reachable s"
  shows "(comps s k = Some r \<longleftrightarrow>
           r < length (heap s) \<and> so_key (heap s ! r) = k \<and> \<not> so_stopped (heap s ! r)) \<and>
         count_list (wcalls s) (ev, r) \<le> 1"
  using scs_reachable_inv [OF assms]
  by (cases ev) (simp_all add: scs_inv_def scs_live_def scs_calls_ok_def)

definition scs_example :: "(string, nat) shared_components" where
  "scs_example =
     snd (so_shutdown 0 None (snd (so_start 0 None (snd (so_start 0 None
       (snd (get_or_add ''cfg'' 7 new_shared_components)))))))"

lemma scs_example_reachable: "scs_reachable scs_example"
  unfolding scs_example_def
  by (intro reach_step [OF _ step_shutdown] reach_step [OF _ step_start]
      reach_step [OF _ step_get] reach_new)
    (simp_all add: get_or_add_def add_new_def new_shared_components_def so_start_def)

theorem shared_component_lifecycle_witness:
  "(comps scs_example ''cfg'' = Some 0 \<longleftrightarrow>
      0 < length (heap scs_example) \<and> so_key (heap scs_example ! 0) = ''cfg''
        \<and> \<not> so_stopped (heap scs_example ! 0)) \<and>
   count_list (wcalls scs_example) (WStart, 0) \<le> 1 \<and>
   wcalls scs_example = [(WStart, 0), (WShutdown, 0)]"
proof -
  have "wcalls scs_example = [(WStart, 0), (WShutdown, 0)]"
    by (simp add: scs_example_def get_or_add_def add_new_def new_shared_components_def
        so_start_def so_shutdown_def)
  with shared_component_lifecycle [OF scs_example_reachable, of "''cfg''" 0 WStart]
  show ?thesis by simp
qed

text \<open>
  A configuration whose instance was shut down through its wrapper gets a new instance from
  the next \<open>GetOrAdd\<close>: another object, not started yet, registered under that configuration.
\<close>

lemma shutdown_then_recreate:
  assumes "scs_reachable s" and "comps s k = Some r"
    and "get_or_add_e k (Inr c) (snd (so_shutdown r None s)) = (res, s')"
  shows "\<exists>r'. res = Inr r' \<and> r' \<noteq> r \<and> comps s' k = Some r' \<and>
              heap s' ! r' = \<lparr>so_key = k, so_component = c, so_started = False, so_stopped = False\<rparr>"
proof -
  have inv: "scs_inv s" using assms(1) by (rule scs_reachable_inv)
  have "r < length (heap s)" using scs_invD [OF inv assms(2)] by simp
  moreover have "comps (snd (so_shutdown r None s)) k = None"
    using scs.shutdown_lookup [OF inv assms(2)] by simp
  moreover have "length (heap (snd (so_shutdown r None s))) = length (heap s)"
    by (simp add: so_shutdown_def)
  ultimately show ?thesis
    using assms(3) by (auto simp: get_or_add_e_def add_new_def nth_append)
qed

lemma shutdown_then_recreate_witness:
  "\<exists>r'. (Inr 1 :: go_error + nat) = Inr r' \<and> r' \<noteq> 0 \<and>
     comps (snd (get_or_add_e ''cfg'' (Inr 8)
        (snd (so_shutdown 0 None (snd (get_or_add ''cfg'' (7::nat) new_shared_components)))))) ''cfg'' = Some r'"
proof -
  let ?s = "snd (get_or_add ''cfg'' (7::nat) new_shared_components)"
  have reach: "scs_reachable ?s"
    by (rule reach_step [OF reach_new step_get])
  have live: "comps ?s ''cfg'' = Some 0"
    by (simp add: get_or_add_def add_new_def new_shared_components_def)
  have g: "get_or_add_e ''cfg'' (Inr 8) (snd (so_shutdown 0 None ?s)) =
      (Inr 1, snd (get_or_add_e ''cfg'' (Inr 8) (snd (so_shutdown 0 None ?s))))"
    by (simp add: get_or_add_def get_or_add_e_def add_new_def new_shared_components_def so_shutdown_def)
  from shutdown_then_recreate [OF reach live g] show ?thesis by auto
qed

end
