(* ===== verification/SkywalkingConfig.thy ===== *)
theory SkywalkingConfig
  imports Prelude
begin

text \<open>
  \<open>config.go\<close> of the SkyWalking receiver and the conversion of a configuration into the ports the
  receiver listens on (\<open>extractPortFromEndpoint\<close> and the body of the create function in
  \<open>factory.go\<close>), with \<open>net.SplitHostPort\<close> of the Go standard library.  Of the settings of the
  gRPC and HTTP servers the sources read the endpoint.  The decoded configuration tree
  (\<open>confmap.Conf\<close>, a third-party package) is described by what the code asks of it.
\<close>

section \<open>net.SplitHostPort\<close>

datatype addr_error =
    MissingPort | TooManyColons | MissingBracket | UnexpectedOpenBracket | UnexpectedCloseBracket

definition split_host_rest :: "string \<Rightarrow> nat \<Rightarrow> nat \<Rightarrow> nat \<Rightarrow> string \<Rightarrow> addr_error + (string \<times> string)" where
  "split_host_rest s i j k host =
     (if index_byte (CHR ''['') (drop j s) \<noteq> None then Inl UnexpectedOpenBracket
      else if index_byte (CHR '']'') (drop k s) \<noteq> None then Inl UnexpectedCloseBracket
      else Inr (host, drop (i + 1) s))"

definition split_host_port :: "string \<Rightarrow> addr_error + (string \<times> string)" where
  "split_host_port s =
     (case last_index_byte (CHR '':'') s of
        None \<Rightarrow> Inl MissingPort
      | Some i \<Rightarrow>
          if s ! 0 = CHR ''['' then
            (case index_byte (CHR '']'') s of
               None \<Rightarrow> Inl MissingBracket
             | Some e \<Rightarrow>
                 if e + 1 = length s then Inl MissingPort
                 else if e + 1 = i then split_host_rest s i 1 (e + 1) (take (e - 1) (drop 1 s))
                 else if s ! (e + 1) = CHR '':'' then Inl TooManyColons
                 else Inl MissingPort)
          else if index_byte (CHR '':'') (take i s) \<noteq> None then Inl TooManyColons
          else split_host_rest s i 0 0 (take i s))"

section \<open>Ports\<close>

datatype port_error = EndpointFormat addr_error | PortNotANumber num_error | PortOutOfRange

definition extract_port_from_endpoint :: "string \<Rightarrow> port_error + int" where
  "extract_port_from_endpoint endpoint =
     (case split_host_port endpoint of
        Inl e \<Rightarrow> Inl (EndpointFormat e)
      | Inr (host, port_str) \<Rightarrow>
          (case parse_int 64 port_str of
             (port, Some e) \<Rightarrow> Inl (PortNotANumber e)
           | (port, None) \<Rightarrow> if port < 1 \<or> port > 65535 then Inl PortOutOfRange else Inr port))"

section \<open>Configuration\<close>

record protocols =
  pr_grpc :: "string option" \<comment> \<open>the endpoint of the settings, when present\<close>
  pr_http :: "string option"

record sw_config =
  cfg_protocols :: protocols
  cfg_server :: protocols

datatype config_error =
    NoProtocol
  | GrpcPort port_error
  | HttpPort port_error
  | ServerPort port_error
  | EmptyConfig
  | ConfError go_error
  | ObsReport go_error

definition sw_validate :: "sw_config \<Rightarrow> config_error option" where
  "sw_validate cfg =
     (let p = cfg_protocols cfg in
      if pr_grpc p = None \<and> pr_http p = None then Some NoProtocol
      else case (case pr_grpc p of None \<Rightarrow> None
                 | Some ep \<Rightarrow> (case extract_port_from_endpoint ep of Inl e \<Rightarrow> Some (GrpcPort e) | Inr _ \<Rightarrow> None)) of
             Some e \<Rightarrow> Some e
           | None \<Rightarrow>
               (case pr_http p of None \<Rightarrow> None
                | Some ep \<Rightarrow> (case extract_port_from_endpoint ep of Inl e \<Rightarrow> Some (HttpPort e) | Inr _ \<Rightarrow> None)))"

text \<open>
  The configuration tree: its keys, the result of decoding it into a configuration, and which
  keys its \<open>protocols\<close> section sets.
\<close>

record conf_tree =
  conf_keys :: "string list"
  conf_unmarshal :: "sw_config \<Rightarrow> go_error + sw_config"
  conf_protocols :: "go_error + (string \<Rightarrow> bool)"

definition sw_unmarshal :: "conf_tree option \<Rightarrow> sw_config \<Rightarrow> config_error + sw_config" where
  "sw_unmarshal parser cfg =
     (case parser of
        None \<Rightarrow> Inl EmptyConfig
      | Some c \<Rightarrow>
          if conf_keys c = [] then Inl EmptyConfig
          else case conf_unmarshal c cfg of
                 Inl e \<Rightarrow> Inl (ConfError e)
               | Inr cfg1 \<Rightarrow>
                   (case conf_protocols c of
                      Inl e \<Rightarrow> Inl (ConfError e)
                    | Inr is_set \<Rightarrow>
                        let cfg2 = (if \<not> is_set ''grpc''
                                    then cfg1\<lparr>cfg_protocols := (cfg_protocols cfg1)\<lparr>pr_grpc := None\<rparr>\<rparr> else cfg1)
                        in Inr (if \<not> is_set ''http''
                                then cfg2\<lparr>cfg_protocols := (cfg_protocols cfg2)\<lparr>pr_http := None\<rparr>\<rparr> else cfg2)))"

definition default_config :: sw_config where
  "default_config =
     \<lparr>cfg_protocols = \<lparr>pr_grpc = Some ''0.0.0.0:11800'', pr_http = Some ''0.0.0.0:12800''\<rparr>,
      cfg_server = \<lparr>pr_grpc = None, pr_http = Some ''127.0.0.1:8080''\<rparr>\<rparr>"

text \<open>The receiver's own configuration; a field not set keeps the zero value.\<close>

record configuration =
  grpc_port :: int
  http_port :: int
  http_endpoint :: string
  gateway_port :: int
  gateway_endpoint :: string

definition zero_configuration :: configuration where
  "zero_configuration = \<lparr>grpc_port = 0, http_port = 0, http_endpoint = [], gateway_port = 0, gateway_endpoint = []\<rparr>"

text \<open>The create function of \<open>getReceiver\<close> up to the construction of the receiver.\<close>

definition receiver_configuration :: "sw_config \<Rightarrow> config_error + configuration" where
  "receiver_configuration cfg =
     (case (case pr_grpc (cfg_protocols cfg) of
              None \<Rightarrow> Inr zero_configuration
            | Some ep \<Rightarrow>
                (case extract_port_from_endpoint ep of
                   Inl e \<Rightarrow> Inl (GrpcPort e)
                 | Inr p \<Rightarrow> Inr (zero_configuration\<lparr>grpc_port := p\<rparr>))) of
        Inl e \<Rightarrow> Inl e
      | Inr c1 \<Rightarrow>
          (case (case pr_http (cfg_protocols cfg) of
                   None \<Rightarrow> Inr c1
                 | Some ep \<Rightarrow>
                     (case extract_port_from_endpoint ep of
                        Inl e \<Rightarrow> Inl (HttpPort e)
                      | Inr p \<Rightarrow> Inr (c1\<lparr>http_endpoint := ep, http_port := p\<rparr>))) of
             Inl e \<Rightarrow> Inl e
           | Inr c2 \<Rightarrow>
               (case pr_http (cfg_server cfg) of
                  None \<Rightarrow> Inr c2
                | Some ep \<Rightarrow>
                    (case extract_port_from_endpoint ep of
                       Inl e \<Rightarrow> Inl (ServerPort e)
                     | Inr p \<Rightarrow> Inr (c2\<lparr>gateway_endpoint := ep, gateway_port := p\<rparr>)))))"

section \<open>Endpoints\<close>

lemma split_plain:
  assumes "set host \<inter> {CHR '':'', CHR ''['', CHR '']''} = {}"
    and "set port \<inter> {CHR '':'', CHR ''['', CHR '']''} = {}"
  shows "split_host_port (host @ CHR '':'' # port) = Inr (host, port)"
proof -
  let ?s = "host @ CHR '':'' # port"
  have l: "last_index_byte (CHR '':'') ?s = Some (length host)"
    using assms(2) by (intro last_index_byte_append) auto
  have c: "?s ! 0 \<noteq> CHR ''[''"
    using assms(1) by (cases host) auto
  have n: "index_byte (CHR '':'') host = None" "index_byte (CHR ''['') ?s = None" "index_byte (CHR '']'') ?s = None"
    using assms by (auto simp: index_byte_None)
  show ?thesis
    unfolding split_host_port_def l using c n by (simp add: split_host_rest_def)
qed

lemma split_bracketed:
  assumes "set host \<inter> {CHR ''['', CHR '']''} = {}"
    and "set port \<inter> {CHR '':'', CHR ''['', CHR '']''} = {}"
  shows "split_host_port (CHR ''['' # host @ CHR '']'' # CHR '':'' # port) = Inr (host, port)"
proof -
  let ?s = "CHR ''['' # host @ CHR '']'' # CHR '':'' # port"
  have l: "last_index_byte (CHR '':'') ?s = Some (length host + 2)"
    using last_index_byte_append [of "CHR '':''" port "CHR ''['' # host @ '']''"] assms(2) by auto
  have e: "index_byte (CHR '']'') ?s = Some (length host + 1)"
    using index_byte_append [of "CHR '']''" "CHR ''['' # host" "CHR '':'' # port"] assms(1) by auto
  have n: "index_byte (CHR ''['') (host @ CHR '']'' # CHR '':'' # port) = None"
    "index_byte (CHR '']'') (CHR '':'' # port) = None"
    using assms by (auto simp: index_byte_None)
  have d: "drop (length host + 2) ?s = CHR '':'' # port" "drop (length host + 3) ?s = port" "drop 1 ?s = host @ CHR '']'' # CHR '':'' # port"
    by (simp_all add: numeral_2_eq_2 numeral_3_eq_3)
  show ?thesis
    unfolding split_host_port_def l e using n d by (simp add: split_host_rest_def numeral_3_eq_3)
qed

lemma show_nat_plain: "set (show_nat p) \<inter> {CHR '':'', CHR ''['', CHR '']''} = {}"
  using show_nat_digits [of p] by (auto simp: is_digit_def)

lemma extract_port_bounds: "extract_port_from_endpoint ep = Inr p \<Longrightarrow> 1 \<le> p \<and> p \<le> 65535"
  by (auto simp: extract_port_from_endpoint_def split: sum.splits prod.splits option.splits if_splits)

section \<open>Properties\<close>

text \<open>
  The port of an endpoint \<open>host:port\<close> (the host without colons and brackets) or
  \<open>[host]:port\<close> (an IPv6 address) is read back exactly, and accepted when it lies in 1 to 65535;
  no endpoint of any form yields a port outside that range.
\<close>

lemma extract_port_round_trip:
  assumes "set host \<inter> {CHR '':'', CHR ''['', CHR '']''} = {}" and "set host6 \<inter> {CHR ''['', CHR '']''} = {}"
    and "p < 2 ^ 63"
  defines "expected \<equiv> if 1 \<le> p \<and> p \<le> 65535 then Inr (int p) else Inl PortOutOfRange"
  shows "extract_port_from_endpoint (host @ '':'' @ show_nat p) = expected \<and>
         extract_port_from_endpoint (''['' @ host6 @ '']:'' @ show_nat p) = expected \<and>
         (extract_port_from_endpoint any = Inr q \<longrightarrow> 1 \<le> q \<and> q \<le> 65535)"
proof -
  have "parse_int 64 (show_nat p) = (int p, None)"
    using assms(3) by (intro parse_int_show_nat) (simp_all flip: of_nat_power)
  then show ?thesis
    using split_plain [OF assms(1) show_nat_plain, of p] split_bracketed [OF assms(2) show_nat_plain, of p]
      extract_port_bounds [of any q]
    by (auto simp: extract_port_from_endpoint_def expected_def)
qed

lemma extract_port_round_trip_witness:
  "extract_port_from_endpoint (''0.0.0.0'' @ '':'' @ show_nat 11800) = Inr 11800 \<and>
   extract_port_from_endpoint (''['' @ ''::1'' @ '']:'' @ show_nat 0) = Inl PortOutOfRange"
  using extract_port_round_trip [of "''0.0.0.0''" "''::1''" 11800 "[]" 0]
    extract_port_round_trip [of "''0.0.0.0''" "''::1''" 0 "[]" 0]
  by simp

text \<open>
  A configuration that passes validation and whose server endpoint, if it has one, has a
  port yields a receiver configuration with at least one port to listen on, every port in range;
  validation alone is not enough, since it does not look at the server endpoint.
\<close>

lemma validated_configuration:
  assumes "sw_validate cfg = None"
  shows "(case receiver_configuration cfg of
            Inr c \<Rightarrow> 0 \<le> grpc_port c \<and> grpc_port c \<le> 65535 \<and> 0 \<le> http_port c \<and> http_port c \<le> 65535 \<and>
                     (0 < grpc_port c \<or> 0 < http_port c)
          | Inl e \<Rightarrow> (\<exists>ep pe. pr_http (cfg_server cfg) = Some ep \<and>
                             extract_port_from_endpoint ep = Inl pe \<and> e = ServerPort pe))"
proof -
  obtain g h s where cfg: "pr_grpc (cfg_protocols cfg) = g" "pr_http (cfg_protocols cfg) = h" "pr_http (cfg_server cfg) = s"
    by simp
  from assms have "g \<noteq> None \<or> h \<noteq> None" and "\<forall>ep. g = Some ep \<longrightarrow> (\<exists>p. extract_port_from_endpoint ep = Inr p)"
    and "\<forall>ep. h = Some ep \<longrightarrow> (\<exists>p. extract_port_from_endpoint ep = Inr p)"
    by (auto simp: sw_validate_def Let_def cfg split: if_splits option.splits sum.splits)
  then show ?thesis
    by (auto simp: receiver_configuration_def zero_configuration_def cfg
        split: option.splits sum.splits dest: extract_port_bounds)
qed

definition bad_server_config :: sw_config where
  "bad_server_config = default_config\<lparr>cfg_server := \<lparr>pr_grpc = None, pr_http = Some ''gateway''\<rparr>\<rparr>"

lemma default_ports:
  "extract_port_from_endpoint ''0.0.0.0:11800'' = Inr 11800"
  "extract_port_from_endpoint ''0.0.0.0:12800'' = Inr 12800"
  "extract_port_from_endpoint ''127.0.0.1:8080'' = Inr 8080"
  by (simp_all add: extract_port_from_endpoint_def split_host_port_def split_host_rest_def parse_int_def
      is_digit_def digit_val_def)

lemma validated_configuration_witness:
  "sw_validate bad_server_config = None \<and>
   receiver_configuration bad_server_config = Inl (ServerPort (EndpointFormat MissingPort))"
proof -
  have v: "sw_validate bad_server_config = None"
    by (simp add: bad_server_config_def default_config_def sw_validate_def default_ports)
  have e: "extract_port_from_endpoint ''gateway'' = Inl (EndpointFormat MissingPort)"
    by (simp add: extract_port_from_endpoint_def split_host_port_def)
  show ?thesis
    using validated_configuration [OF v] v e
    by (simp add: receiver_configuration_def bad_server_config_def default_config_def default_ports)
qed

end
