(* ===== verification/SkywalkingReceiver.thy ===== *)
theory SkywalkingReceiver
  imports SharedComponent SkywalkingConfig
begin

text \<open>
  The receiver object of \<open>trace_receiver.go\<close>, started and stopped once, and the factory of
  \<open>factory.go\<close>, which keeps one receiver for each configuration in the shared component registry.
  Consumers are known by number, configurations by the address of their object (the key of the
  registry).  What the listeners and servers of the third-party packages return is an argument;
  the calls the receiver makes are recorded as events.
\<close>

section \<open>The receiver\<close>

datatype sw_service =
    SegmentReport | JVMMetricReport | JVMMetricDummy | ManagementDummy | ConfigDiscoveryDummy
  | EventReport | ProfileTaskDummy | MeterReport | CLRMetricReport | BrowserPerfDummy

datatype sw_event =
    EvListenHTTP | EvServeHTTP | EvListenGRPC int | EvRegister sw_service | EvServeGRPC
  | EvShutdownHTTP | EvStopGRPC | EvWait

record sw_receiver =
  next_traces :: "nat option"
  next_metrics :: "nat option"
  rcv_config :: configuration
  grpc_server :: bool \<comment> \<open>\<open>sr.grpc\<close> is not nil\<close>
  collector_server :: bool \<comment> \<open>\<open>sr.collectorServer\<close> is not nil\<close>
  start_done :: bool
  stop_done :: bool

definition new_skywalking_receiver :: "configuration \<Rightarrow> sw_receiver" where
  "new_skywalking_receiver c =
     \<lparr>next_traces = None, next_metrics = None, rcv_config = c, grpc_server = False,
      collector_server = False, start_done = False, stop_done = False\<rparr>"

definition collector_grpc_enabled :: "sw_receiver \<Rightarrow> bool" where
  "collector_grpc_enabled sr \<longleftrightarrow> grpc_port (rcv_config sr) > 0"

definition collector_http_enabled :: "sw_receiver \<Rightarrow> bool" where
  "collector_http_enabled sr \<longleftrightarrow> http_port (rcv_config sr) > 0"

definition collector_grpc_addr :: "sw_receiver \<Rightarrow> string" where
  "collector_grpc_addr sr = CHR '':'' # itoa (grpc_port (rcv_config sr))"

text \<open>The errors of the calls that may fail during the start.\<close>

record start_env =
  se_http_listen :: "go_error option"
  se_http_server :: "go_error option"
  se_grpc_server :: "go_error option"
  se_grpc_listen :: "string \<Rightarrow> go_error option"

definition start_http :: "start_env \<Rightarrow> sw_receiver \<Rightarrow> go_error option \<times> sw_receiver \<times> sw_event list" where
  "start_http env sr =
     (case se_http_listen env of
        Some e \<Rightarrow> (Some (''failed to bind to Collector address '' @ e), sr, [])
      | None \<Rightarrow>
          (case se_http_server env of
             Some e \<Rightarrow> (Some e, sr\<lparr>collector_server := False\<rparr>, [EvListenHTTP])
           | None \<Rightarrow> (None, sr\<lparr>collector_server := True\<rparr>, [EvListenHTTP, EvServeHTTP])))"

definition start_grpc :: "start_env \<Rightarrow> sw_receiver \<Rightarrow> go_error option \<times> sw_receiver \<times> sw_event list" where
  "start_grpc env sr =
     (case se_grpc_server env of
        Some e \<Rightarrow> (Some (''failed to build the options '' @ e), sr\<lparr>grpc_server := False\<rparr>, [])
      | None \<Rightarrow>
          let sr1 = sr\<lparr>grpc_server := True\<rparr>; addr = collector_grpc_addr sr
          in case se_grpc_listen env addr of
               Some e \<Rightarrow> (Some (''failed to bind to gRPC address '' @ addr @ e), sr1, [])
             | None \<Rightarrow>
                 (None, sr1,
                  [EvListenGRPC (grpc_port (rcv_config sr)), EvRegister SegmentReport] @
                  (if next_metrics sr \<noteq> None then [EvRegister JVMMetricReport] else [EvRegister JVMMetricDummy]) @
                  [EvRegister ManagementDummy, EvRegister ConfigDiscoveryDummy, EvRegister EventReport,
                   EvRegister ProfileTaskDummy, EvRegister MeterReport, EvRegister CLRMetricReport,
                   EvRegister BrowserPerfDummy, EvServeGRPC]))"

definition start_collector :: "start_env \<Rightarrow> sw_receiver \<Rightarrow> go_error option \<times> sw_receiver \<times> sw_event list" where
  "start_collector env sr =
     (if \<not> collector_grpc_enabled sr \<and> \<not> collector_http_enabled sr then (None, sr, [])
      else
        let (err, sr1, evs) = (if collector_http_enabled sr then start_http env sr else (None, sr, []))
        in if err \<noteq> None then (err, sr1, evs)
           else if collector_grpc_enabled sr1
           then (case start_grpc env sr1 of (err2, sr2, evs2) \<Rightarrow> (err2, sr2, evs @ evs2))
           else (None, sr1, evs))"

definition sw_start :: "start_env \<Rightarrow> sw_receiver \<Rightarrow> go_error option \<times> sw_receiver \<times> sw_event list" where
  "sw_start env sr =
     (if start_done sr then (None, sr, [])
      else case start_collector env (sr\<lparr>start_done := True\<rparr>) of (err, sr1, evs) \<Rightarrow> (err, sr1, evs))"

definition sw_shutdown :: "go_error option \<Rightarrow> sw_receiver \<Rightarrow> go_error option \<times> sw_receiver \<times> sw_event list" where
  "sw_shutdown cerr sr =
     (if stop_done sr then (None, sr, [])
      else (if collector_server sr then cerr else None, sr\<lparr>stop_done := True\<rparr>,
            (if collector_server sr then [EvShutdownHTTP] else []) @
            (if grpc_server sr then [EvStopGRPC] else []) @ [EvWait]))"

section \<open>The factory\<close>

text \<open>
  What the create function returns as a component: nil, a nil receiver in an interface (when the
  construction fails), or a receiver, by its place in the list of receivers.
\<close>

datatype comp_ref = NilComponent | NilReceiver | Receiver nat

record sw_factory =
  fac_registry :: "(nat, comp_ref) shared_components"
  fac_receivers :: "sw_receiver list"

definition new_factory :: sw_factory where
  "new_factory = \<lparr>fac_registry = new_shared_components, fac_receivers = []\<rparr>"

text \<open>The create function: the error it leaves in \<open>err\<close>, what it returns, and the new receiver.\<close>

definition sw_create :: "sw_config \<Rightarrow> go_error option \<Rightarrow> nat \<Rightarrow> config_error option \<times> comp_ref \<times> sw_receiver list" where
  "sw_create cfg obs_err fresh =
     (case receiver_configuration cfg of
        Inl e \<Rightarrow> (Some e, NilComponent, [])
      | Inr c \<Rightarrow>
          (case obs_err of
             Some e \<Rightarrow> (Some (ObsReport e), NilReceiver, [])
           | None \<Rightarrow> (None, Receiver fresh, [new_skywalking_receiver c])))"

definition get_receiver ::
    "nat \<Rightarrow> sw_config \<Rightarrow> go_error option \<Rightarrow> sw_factory \<Rightarrow> (config_error + comp_ref) \<times> sw_factory" where
  "get_receiver key cfg obs_err f =
     (let (err, comp, new) = (if comps (fac_registry f) key = None
                              then sw_create cfg obs_err (length (fac_receivers f))
                              else (None, NilComponent, []));
          (r, reg) = get_or_add key comp (fac_registry f);
          f1 = f\<lparr>fac_registry := reg, fac_receivers := fac_receivers f @ new\<rparr>
      in case err of
           Some e \<Rightarrow> (Inl e, f1)
         | None \<Rightarrow> (Inr (so_unwrap r reg), f1))"

text \<open>A type assertion on nil, and a setter on a nil receiver, panic.\<close>

definition set_consumer ::
    "(nat option \<Rightarrow> sw_receiver \<Rightarrow> sw_receiver) \<Rightarrow> nat option \<Rightarrow> (config_error + comp_ref) \<times> sw_factory \<Rightarrow>
       ((config_error + nat) \<times> sw_factory) outcome" where
  "set_consumer upd consumer res =
     (case res of
        (Inl e, f) \<Rightarrow> Ret (Inl e, f)
      | (Inr NilComponent, f) \<Rightarrow> Panic
      | (Inr NilReceiver, f) \<Rightarrow> Panic
      | (Inr (Receiver i), f) \<Rightarrow>
          Ret (Inr i, f\<lparr>fac_receivers := (fac_receivers f)[i := upd consumer (fac_receivers f ! i)]\<rparr>))"

definition create_traces_receiver ::
    "nat \<Rightarrow> sw_config \<Rightarrow> go_error option \<Rightarrow> nat option \<Rightarrow> sw_factory \<Rightarrow> ((config_error + nat) \<times> sw_factory) outcome" where
  "create_traces_receiver key cfg obs_err consumer f =
     set_consumer (\<lambda>c r. r\<lparr>next_traces := c\<rparr>) consumer (get_receiver key cfg obs_err f)"

definition create_metrics_receiver ::
    "nat \<Rightarrow> sw_config \<Rightarrow> go_error option \<Rightarrow> nat option \<Rightarrow> sw_factory \<Rightarrow> ((config_error + nat) \<times> sw_factory) outcome" where
  "create_metrics_receiver key cfg obs_err consumer f =
     set_consumer (\<lambda>c r. r\<lparr>next_metrics := c\<rparr>) consumer (get_receiver key cfg obs_err f)"

text \<open>The collector starts and stops the receivers the factory handed out.\<close>

definition start_receiver :: "nat \<Rightarrow> start_env \<Rightarrow> sw_factory \<Rightarrow> go_error option \<times> sw_factory \<times> sw_event list" where
  "start_receiver i env f =
     (case sw_start env (fac_receivers f ! i) of
        (err, r, evs) \<Rightarrow> (err, f\<lparr>fac_receivers := (fac_receivers f)[i := r]\<rparr>, evs))"

definition shutdown_receiver :: "nat \<Rightarrow> go_error option \<Rightarrow> sw_factory \<Rightarrow> go_error option \<times> sw_factory \<times> sw_event list" where
  "shutdown_receiver i cerr f =
     (case sw_shutdown cerr (fac_receivers f ! i) of
        (err, r, evs) \<Rightarrow> (err, f\<lparr>fac_receivers := (fac_receivers f)[i := r]\<rparr>, evs))"

section \<open>Starting and stopping\<close>

lemma start_done_again: "start_done sr \<Longrightarrow> sw_start env sr = (None, sr, [])"
  by (simp add: sw_start_def)

lemma stop_done_again: "stop_done sr \<Longrightarrow> sw_shutdown cerr sr = (None, sr, [])"
  by (simp add: sw_shutdown_def)

lemma start_http_flags:
  "start_http env sr = (err, sr1, evs) \<Longrightarrow>
     (EvServeHTTP \<in> set evs \<longrightarrow> collector_server sr1) \<and> EvServeGRPC \<notin> set evs \<and>
     start_done sr1 = start_done sr \<and> stop_done sr1 = stop_done sr \<and> grpc_server sr1 = grpc_server sr"
  by (auto simp: start_http_def split: option.splits)

lemma start_grpc_flags:
  "start_grpc env sr = (err, sr1, evs) \<Longrightarrow>
     (EvServeGRPC \<in> set evs \<longrightarrow> grpc_server sr1) \<and> EvServeHTTP \<notin> set evs \<and>
     start_done sr1 = start_done sr \<and> stop_done sr1 = stop_done sr \<and> collector_server sr1 = collector_server sr"
  by (auto simp: start_grpc_def Let_def split: option.splits if_splits)

lemma start_collector_flags:
  assumes "start_collector env sr = (err, sr1, evs)"
  shows "(EvServeHTTP \<in> set evs \<longrightarrow> collector_server sr1) \<and> (EvServeGRPC \<in> set evs \<longrightarrow> grpc_server sr1) \<and>
         start_done sr1 = start_done sr \<and> stop_done sr1 = stop_done sr"
  using assms
  by (auto simp: start_collector_def split: if_splits prod.splits
      dest!: start_http_flags start_grpc_flags)

section \<open>Properties\<close>

text \<open>
  Whatever the start of a fresh receiver ran into, a shutdown after it stops every server
  that was set to serve and waits for it, and from then on neither start nor shutdown does
  anything.
\<close>

lemma sw_shutdown_stops_servers:
  assumes "\<not> start_done sr" and "\<not> stop_done sr"
    and "sw_start env sr = (err, sr1, evs)" and "sw_shutdown cerr sr1 = (err', sr2, evs')"
  shows "(EvServeHTTP \<in> set evs \<longrightarrow> EvShutdownHTTP \<in> set evs') \<and>
         (EvServeGRPC \<in> set evs \<longrightarrow> EvStopGRPC \<in> set evs') \<and> evs' \<noteq> [] \<and> last evs' = EvWait \<and>
         sw_start env2 sr2 = (None, sr2, []) \<and> sw_shutdown cerr2 sr2 = (None, sr2, [])"
proof -
  from assms(1,3) obtain err where "start_collector env (sr\<lparr>start_done := True\<rparr>) = (err, sr1, evs)"
    by (auto simp: sw_start_def split: prod.splits)
  from start_collector_flags [OF this] assms(2)
  have f: "EvServeHTTP \<in> set evs \<longrightarrow> collector_server sr1" "EvServeGRPC \<in> set evs \<longrightarrow> grpc_server sr1"
    "start_done sr1" "\<not> stop_done sr1" by simp_all
  then have "start_done sr2" "stop_done sr2"
    using assms(4) by (auto simp: sw_shutdown_def)
  with f assms(4) show ?thesis
    by (auto simp: sw_shutdown_def start_done_again stop_done_again)
qed

definition both_ports :: configuration where
  "both_ports = \<lparr>grpc_port = 11800, http_port = 12800, http_endpoint = '':12800'', gateway_port = 0, gateway_endpoint = []\<rparr>"

definition busy_grpc :: start_env where
  "busy_grpc = \<lparr>se_http_listen = None, se_http_server = None, se_grpc_server = None,
     se_grpc_listen = (\<lambda>a. Some ''address already in use'')\<rparr>"

lemma sw_shutdown_stops_servers_witness:
  "EvShutdownHTTP \<in> set (snd (snd (sw_shutdown None (fst (snd (sw_start busy_grpc (new_skywalking_receiver both_ports)))))))"
proof -
  have "\<not> start_done (new_skywalking_receiver both_ports)" "\<not> stop_done (new_skywalking_receiver both_ports)"
    by (simp_all add: new_skywalking_receiver_def)
  moreover obtain err sr1 evs where s: "sw_start busy_grpc (new_skywalking_receiver both_ports) = (err, sr1, evs)"
    by (metis prod_cases3)
  moreover obtain err' sr2 evs' where t: "sw_shutdown None sr1 = (err', sr2, evs')"
    by (metis prod_cases3)
  moreover have "EvServeHTTP \<in> set evs"
    using s by (auto simp: sw_start_def start_collector_def start_http_def start_grpc_def busy_grpc_def Let_def
        collector_http_enabled_def collector_grpc_enabled_def new_skywalking_receiver_def both_ports_def)
  ultimately show ?thesis
    using sw_shutdown_stops_servers [of "new_skywalking_receiver both_ports" busy_grpc err sr1 evs None err' sr2 evs'] by simp
qed

text \<open>
  The traces and the metrics pipeline of one configuration share one receiver, which holds
  the consumers of both; another configuration has another receiver.
\<close>

lemma sw_pipelines_share_receiver:
  assumes "receiver_configuration cfg = Inr c" and "receiver_configuration cfg' = Inr c'" and "key' \<noteq> key"
    and "comps (fac_registry f) key = None" and "comps (fac_registry f) key' = None"
  shows "\<exists>f1 f2 f3 i j.
           create_traces_receiver key cfg None (Some t) f = Ret (Inr i, f1) \<and>
           create_metrics_receiver key cfg None (Some m) f1 = Ret (Inr i, f2) \<and>
           create_traces_receiver key' cfg' None (Some t') f2 = Ret (Inr j, f3) \<and>
           fac_receivers f3 ! i = (new_skywalking_receiver c)\<lparr>next_traces := Some t, next_metrics := Some m\<rparr> \<and>
           j \<noteq> i \<and> fac_receivers f3 ! j = (new_skywalking_receiver c')\<lparr>next_traces := Some t'\<rparr>"
  using assms
  by (simp add: create_traces_receiver_def create_metrics_receiver_def get_receiver_def sw_create_def
      get_or_add_def add_new_def so_unwrap_def set_consumer_def Let_def nth_append list_update_append
      new_skywalking_receiver_def)

lemma sw_pipelines_share_receiver_witness:
  "\<exists>f1 f2 i. create_traces_receiver 1 default_config None (Some 7) new_factory = Ret (Inr i, f1) \<and>
     create_metrics_receiver 1 default_config None (Some 8) f1 = Ret (Inr i, f2)"
proof -
  obtain c where "receiver_configuration default_config = Inr c"
    by (simp add: receiver_configuration_def default_config_def default_ports)
  then show ?thesis
    using sw_pipelines_share_receiver [of default_config c default_config c 2 1 new_factory 7 8 9]
    by (auto simp: new_factory_def new_shared_components_def)
qed

text \<open>
  A configuration whose receiver could not be created stays registered with no receiver: the
  first request returns the error, the next one for the same configuration panics.
\<close>

lemma sw_failed_create_poisons:
  assumes "receiver_configuration cfg = Inl e" and "comps (fac_registry f) key = None"
  shows "\<exists>f1. create_traces_receiver key cfg obs_err t f = Ret (Inl e, f1) \<and>
              create_metrics_receiver key cfg obs_err m f1 = Panic"
  using assms
  by (simp add: create_traces_receiver_def create_metrics_receiver_def get_receiver_def sw_create_def
      get_or_add_def add_new_def so_unwrap_def set_consumer_def Let_def nth_append)

lemma sw_failed_create_poisons_witness:
  "\<exists>f1. create_traces_receiver 5 bad_server_config None None new_factory =
          Ret (Inl (ServerPort (EndpointFormat MissingPort)), f1) \<and>
        create_metrics_receiver 5 bad_server_config None None f1 = Panic"
proof -
  have "extract_port_from_endpoint ''gateway'' = Inl (EndpointFormat MissingPort)"
    by (simp add: extract_port_from_endpoint_def split_host_port_def)
  then have "receiver_configuration bad_server_config = Inl (ServerPort (EndpointFormat MissingPort))"
    by (simp add: receiver_configuration_def bad_server_config_def default_config_def default_ports)
  then show ?thesis
    using sw_failed_create_poisons [of bad_server_config "ServerPort (EndpointFormat MissingPort)" new_factory 5]
    by (simp add: new_factory_def new_shared_components_def)
qed

text \<open>
  Since the factory hands out the receiver and not its registry wrapper, shutting it down
  leaves it registered: the next pipeline of the configuration gets the stopped receiver, and
  starting that does nothing and reports no error.
\<close>

lemma sw_restart_reuses_stopped:
  assumes "receiver_configuration cfg = Inr c" and "comps (fac_registry f) key = None"
    and "create_traces_receiver key cfg None t f = Ret (Inr i, f1)"
    and "start_receiver i env f1 = (err1, f2, evs1)" and "shutdown_receiver i cerr f2 = (err2, f3, evs2)"
  shows "\<exists>f4. create_traces_receiver key cfg None t' f3 = Ret (Inr i, f4) \<and>
              start_receiver i env' f4 = (None, f4, [])"
proof -
  have i: "i = length (fac_receivers f)"
    and f1: "fac_receivers f1 = fac_receivers f @ [(new_skywalking_receiver c)\<lparr>next_traces := t\<rparr>]"
    and reg: "comps (fac_registry f1) key = Some (length (heap (fac_registry f)))"
      "heap (fac_registry f1) ! length (heap (fac_registry f)) =
         \<lparr>so_key = key, so_component = Receiver i, so_started = False, so_stopped = False\<rparr>"
    using assms(1-3)
    by (auto simp: create_traces_receiver_def get_receiver_def sw_create_def get_or_add_def add_new_def
        so_unwrap_def set_consumer_def Let_def nth_append)
  obtain r where r: "sw_start env (fac_receivers f1 ! i) = (err1, r, evs1)"
    "f2 = f1\<lparr>fac_receivers := (fac_receivers f1)[i := r]\<rparr>"
    using assms(4) by (auto simp: start_receiver_def split: prod.splits)
  obtain q where q: "sw_shutdown cerr (fac_receivers f2 ! i) = (err2, q, evs2)"
    "f3 = f2\<lparr>fac_receivers := (fac_receivers f2)[i := q]\<rparr>"
    using assms(5) by (auto simp: shutdown_receiver_def split: prod.splits)
  have "start_done r"
    using r(1) by (auto simp: sw_start_def split: if_splits prod.splits dest: start_collector_flags)
  moreover have "fac_receivers f2 ! i = r"
    using f1 r(2) by (simp add: i)
  ultimately have "start_done q"
    using q(1) by (auto simp: sw_shutdown_def split: if_splits)
  then have "start_done (q\<lparr>next_traces := t'\<rparr>)" by simp
  moreover have "fac_receivers f3 ! i = q" "i < length (fac_receivers f3)"
    using f1 r(2) q(2) by (simp_all add: i)
  ultimately show ?thesis
    using reg r(2) q(2)
    by (simp add: create_traces_receiver_def get_receiver_def get_or_add_def so_unwrap_def set_consumer_def
        Let_def start_receiver_def start_done_again)
qed

lemma sw_restart_reuses_stopped_witness:
  "\<exists>f1 i f2 f3 evs1 evs2 f4 err1. create_traces_receiver 1 default_config None None new_factory = Ret (Inr i, f1) \<and>
     start_receiver i busy_grpc f1 = (err1, f2, evs1) \<and> EvServeHTTP \<in> set evs1 \<and>
     shutdown_receiver i None f2 = (None, f3, evs2) \<and>
     create_traces_receiver 1 default_config None None f3 = Ret (Inr i, f4) \<and>
     start_receiver i busy_grpc f4 = (None, f4, [])"
proof -
  obtain c where c: "receiver_configuration default_config = Inr c" "http_port c > 0" "grpc_port c > 0"
    by (simp add: receiver_configuration_def default_config_def default_ports)
  define f1 where "f1 = snd (case create_traces_receiver 1 default_config None None new_factory of Ret x \<Rightarrow> x | Panic \<Rightarrow> undefined)"
  have f1: "create_traces_receiver 1 default_config None None new_factory = Ret (Inr 0, f1)"
    "fac_receivers f1 = [new_skywalking_receiver c]"
    using c by (simp_all add: f1_def create_traces_receiver_def get_receiver_def sw_create_def get_or_add_def add_new_def
        so_unwrap_def set_consumer_def new_factory_def new_shared_components_def new_skywalking_receiver_def)
  obtain err1 f2 evs1 where s: "start_receiver 0 busy_grpc f1 = (err1, f2, evs1)" by (metis prod_cases3)
  obtain err2 f3 evs2 where t: "shutdown_receiver 0 None f2 = (err2, f3, evs2)" by (metis prod_cases3)
  have "EvServeHTTP \<in> set evs1"
    using s f1(2) c by (auto simp: start_receiver_def sw_start_def start_collector_def start_http_def start_grpc_def
        busy_grpc_def Let_def collector_http_enabled_def collector_grpc_enabled_def new_skywalking_receiver_def)
  moreover have "err2 = None"
    using t by (auto simp: shutdown_receiver_def sw_shutdown_def split: prod.splits if_splits)
  moreover have "comps (fac_registry new_factory) 1 = None"
    by (simp add: new_factory_def new_shared_components_def)
  ultimately show ?thesis
    using sw_restart_reuses_stopped [OF c(1) _ f1(1) s t, of None busy_grpc] f1(1) s t by blast
qed

end
