(* ===== verification/OtlpExport.thy ===== *)
theory OtlpExport
  imports Pdata AuthExtension
begin

text \<open>
  The OTLP receiver's services (\<open>internal/trace\<close>, \<open>internal/metrics\<close>, \<open>internal/logs\<close>) and its HTTP
  side (\<open>otlphttp.go\<close>, \<open>encoder.go\<close>, the handlers registered in \<open>otlp.go\<close>).  The protobuf and JSON
  codecs of the collector and \<open>status.FromError\<close> are arguments; a consumer is a function of what
  it was handed before and of what it is handed now.
\<close>

section \<open>Export\<close>

definition attribute_instance :: string where "attribute_instance = ''service.instance.name''"
definition attribute_host_name :: string where "attribute_host_name = ''host.name''"

text \<open>\<open>Value.Str()\<close>: the string of a string value, and the empty string of any other.\<close>

definition value_str :: "attr_val \<Rightarrow> string" where
  "value_str v = (case v of AStr s \<Rightarrow> s | _ \<Rightarrow> [])"

text \<open>The first \<open>tenant\<close> of the metadata, whose keys gRPC has lower-cased.\<close>

definition incoming_tenant :: "context_values \<Rightarrow> string" where
  "incoming_tenant ctx =
     (case ctx_metadata ctx of
        None \<Rightarrow> []
      | Some md \<Rightarrow> (case md ''tenant'' of Some (v # vs) \<Rightarrow> v | _ \<Rightarrow> []))"

definition tag_resource :: "string \<Rightarrow> 'a ot_resource \<Rightarrow> 'a ot_resource" where
  "tag_resource tenant rs =
     (let a1 = put_str ''tenant'' tenant (res_attrs rs);
          a2 = (case a1 attribute_host_name of
                  Some host \<Rightarrow> put_str attribute_instance (value_str host) a1
                | None \<Rightarrow> a1)
      in rs\<lparr>res_attrs := a2\<rparr>)"

type_synonym 'a otlp_consumer = "'a telemetry list \<Rightarrow> 'a telemetry \<Rightarrow> go_error option"

definition export_traces ::
    "ot_span otlp_consumer \<Rightarrow> context_values \<Rightarrow> traces \<Rightarrow> traces list \<Rightarrow> go_error option \<times> traces list" where
  "export_traces consumer ctx td delivered =
     (if item_count td = 0 then (None, delivered)
      else let td1 = map (tag_resource (incoming_tenant ctx)) td
           in (consumer delivered td1, delivered @ [td1]))"

definition data_point_count :: "ot_metric telemetry \<Rightarrow> nat" where
  "data_point_count md = sum_list (map (length \<circ> metric_points) (items md))"

definition export_metrics ::
    "ot_metric otlp_consumer \<Rightarrow> ot_metric telemetry \<Rightarrow> ot_metric telemetry list \<Rightarrow>
       go_error option \<times> ot_metric telemetry list" where
  "export_metrics consumer md delivered =
     (if data_point_count md = 0 then (None, delivered)
      else (consumer delivered md, delivered @ [md]))"

text \<open>The log records are passed on as they are.\<close>

definition export_logs ::
    "'l otlp_consumer \<Rightarrow> 'l telemetry \<Rightarrow> 'l telemetry list \<Rightarrow> go_error option \<times> 'l telemetry list" where
  "export_logs consumer ld delivered =
     (if item_count ld = 0 then (None, delivered)
      else (consumer delivered ld, delivered @ [ld]))"

section \<open>HTTP\<close>

datatype rpc_code = CodeInvalidArgument | CodeUnknown | CodeOther nat

record rpc_status =
  st_code :: rpc_code
  st_message :: string

text \<open>An encoder for requests of type \<open>'req\<close>; the responses are empty messages.\<close>

record 'req encoder =
  enc_content_type :: string
  enc_unmarshal :: "string \<Rightarrow> go_error + 'req"
  enc_marshal_response :: "go_error + string"
  enc_marshal_status :: "rpc_status \<Rightarrow> go_error + string"

record http_response =
  rs_content_type :: string
  rs_status :: nat
  rs_body :: string

record otlp_request =
  or_method :: string
  or_content_type :: string
  or_body :: "go_error + string"
  or_close_error :: "go_error option"

definition pb_content_type :: string where "pb_content_type = ''application/x-protobuf''"
definition json_content_type :: string where "json_content_type = ''application/json''"

definition fallback_msg :: string where
  "fallback_msg = [CHR 0x7b, CHR 0x22] @ ''code'' @ [CHR 0x22] @ '': 13, '' @ [CHR 0x22] @ ''message'' @ [CHR 0x22] @
     '': '' @ [CHR 0x22] @ ''failed to marshal error message'' @ [CHR 0x22, CHR 0x7d]"

definition write_response :: "string \<Rightarrow> nat \<Rightarrow> string \<Rightarrow> http_response" where
  "write_response content_type status_code msg =
     \<lparr>rs_content_type = content_type, rs_status = status_code, rs_body = msg\<rparr>"

definition error_msg_to_status :: "string \<Rightarrow> nat \<Rightarrow> rpc_status" where
  "error_msg_to_status err_msg status_code =
     (if status_code = 400 then \<lparr>st_code = CodeInvalidArgument, st_message = err_msg\<rparr>
      else \<lparr>st_code = CodeUnknown, st_message = err_msg\<rparr>)"

definition write_status_response :: "'req encoder \<Rightarrow> nat \<Rightarrow> rpc_status \<Rightarrow> http_response" where
  "write_status_response enc status_code rsp =
     (case enc_marshal_status enc rsp of
        Inl e \<Rightarrow> write_response json_content_type 500 fallback_msg
      | Inr msg \<Rightarrow> write_response (enc_content_type enc) status_code msg)"

definition write_error :: "(go_error \<Rightarrow> rpc_status option) \<Rightarrow> 'req encoder \<Rightarrow> go_error \<Rightarrow> nat \<Rightarrow> http_response" where
  "write_error from_error enc err status_code =
     write_status_response enc status_code
       (case from_error err of Some s \<Rightarrow> s | None \<Rightarrow> error_msg_to_status err status_code)"

definition error_handler ::
    "'req encoder \<Rightarrow> 'req encoder \<Rightarrow> string \<Rightarrow> string \<Rightarrow> nat \<Rightarrow> http_response" where
  "error_handler pb js content_type err_msg status_code =
     (let s = error_msg_to_status err_msg status_code in
      if content_type = pb_content_type then write_status_response pb status_code s
      else if content_type = json_content_type then write_status_response js status_code s
      else write_response json_content_type 500 fallback_msg)"

definition read_and_close_body ::
    "(go_error \<Rightarrow> rpc_status option) \<Rightarrow> 'req encoder \<Rightarrow> otlp_request \<Rightarrow> http_response + string" where
  "read_and_close_body from_error enc req =
     (case or_body req of
        Inl e \<Rightarrow> Inl (write_error from_error enc e 400)
      | Inr body \<Rightarrow>
          (case or_close_error req of
             Some e \<Rightarrow> Inl (write_error from_error enc e 400)
           | None \<Rightarrow> Inr body))"

text \<open>
  \<open>handleTraces\<close>, \<open>handleMetrics\<close> and \<open>handleLogs\<close> have one text, on three request types; \<open>export\<close>
  is the method of the service.
\<close>

definition handle_request ::
    "(go_error \<Rightarrow> rpc_status option) \<Rightarrow> 'req encoder \<Rightarrow> ('req \<Rightarrow> 's \<Rightarrow> go_error option \<times> 's) \<Rightarrow> otlp_request \<Rightarrow> 's \<Rightarrow>
       http_response \<times> 's" where
  "handle_request from_error enc export req s =
     (case read_and_close_body from_error enc req of
        Inl resp \<Rightarrow> (resp, s)
      | Inr body \<Rightarrow>
          (case enc_unmarshal enc body of
             Inl e \<Rightarrow> (write_error from_error enc e 400, s)
           | Inr otlp_req \<Rightarrow>
               (case export otlp_req s of
                  (Some e, s1) \<Rightarrow> (write_error from_error enc e 500, s1)
                | (None, s1) \<Rightarrow>
                    (case enc_marshal_response enc of
                       Inl e \<Rightarrow> (write_error from_error enc e 500, s1)
                     | Inr msg \<Rightarrow> (write_response (enc_content_type enc) 200 msg, s1)))))"

definition handle_unmatched_method :: http_response where
  "handle_unmatched_method =
     write_response ''text/plain'' 405 (show_nat 405 @ '' method not allowed, supported: [POST]'')"

definition handle_unmatched_content_type :: http_response where
  "handle_unmatched_content_type =
     write_response ''text/plain'' 415
       (show_nat 415 @ '' unsupported media type, supported: ['' @ json_content_type @ '', '' @ pb_content_type @ '']'')"

text \<open>
  The two encoders, over the codecs of the protocol library and the status messages: for a request
  type, the two decoders of a request, the two encodings of the empty response, and the two
  encodings of a status.
\<close>

record 'req codec =
  cd_unmarshal_proto :: "string \<Rightarrow> go_error + 'req"
  cd_unmarshal_json :: "string \<Rightarrow> go_error + 'req"
  cd_response_proto :: "go_error + string"
  cd_response_json :: "go_error + string"
  cd_status_proto :: "rpc_status \<Rightarrow> go_error + string"
  cd_status_json :: "rpc_status \<Rightarrow> go_error + string"

definition proto_encoder :: "'req codec \<Rightarrow> 'req encoder" where
  "proto_encoder c =
     \<lparr>enc_content_type = pb_content_type, enc_unmarshal = cd_unmarshal_proto c,
      enc_marshal_response = cd_response_proto c, enc_marshal_status = cd_status_proto c\<rparr>"

definition json_encoder :: "'req codec \<Rightarrow> 'req encoder" where
  "json_encoder c =
     \<lparr>enc_content_type = json_content_type, enc_unmarshal = cd_unmarshal_json c,
      enc_marshal_response = cd_response_json c, enc_marshal_status = cd_status_json c\<rparr>"

text \<open>The function registered for a path.\<close>

definition dispatch ::
    "(go_error \<Rightarrow> rpc_status option) \<Rightarrow> 'req encoder \<Rightarrow> 'req encoder \<Rightarrow> ('req \<Rightarrow> 's \<Rightarrow> go_error option \<times> 's) \<Rightarrow>
       otlp_request \<Rightarrow> 's \<Rightarrow> http_response \<times> 's" where
  "dispatch from_error pb js export req s =
     (if or_method req \<noteq> ''POST'' then (handle_unmatched_method, s)
      else if or_content_type req = pb_content_type then handle_request from_error pb export req s
      else if or_content_type req = json_content_type then handle_request from_error js export req s
      else (handle_unmatched_content_type, s))"

text \<open>The three paths, each over the export of its service.\<close>

definition traces_endpoint where
  "traces_endpoint from_error c consumer ctx req d =
     dispatch from_error (proto_encoder c) (json_encoder c) (export_traces consumer ctx) req d"

definition metrics_endpoint where
  "metrics_endpoint from_error c consumer req d =
     dispatch from_error (proto_encoder c) (json_encoder c) (export_metrics consumer) req d"

definition logs_endpoint where
  "logs_endpoint from_error c consumer req d =
     dispatch from_error (proto_encoder c) (json_encoder c) (export_logs consumer) req d"

section \<open>Properties\<close>

lemma tag_resource_fields:
  "res_attrs (tag_resource t rs) ''tenant'' = Some (AStr t)"
  "res_attrs rs attribute_host_name = Some h \<Longrightarrow> res_attrs (tag_resource t rs) attribute_instance = Some (AStr (value_str h))"
  "k \<noteq> ''tenant'' \<Longrightarrow> k \<noteq> attribute_instance \<Longrightarrow> res_attrs (tag_resource t rs) k = res_attrs rs k"
  "res_scopes (tag_resource t rs) = res_scopes rs"
  by (simp_all add: tag_resource_def Let_def attribute_host_name_def attribute_instance_def split: option.split)

text \<open>
  An export with at least one span hands its spans to the consumer unchanged, once, with
  every resource under the tenant of the incoming metadata (the empty string if there is none),
  whatever tenant the client put into the resource, and the instance name taken from the host
  name; an export without spans is answered with success and handed to nobody.
\<close>

lemma otlp_export_tenant:
  assumes "export_traces consumer ctx td d = (err, d')"
  shows "if items td = [] then err = None \<and> d' = d
         else \<exists>td'. d' = d @ [td'] \<and> err = consumer d td' \<and> items td' = items td \<and>
           list_all2 (\<lambda>r r'. res_attrs r' ''tenant'' = Some (AStr (incoming_tenant ctx)) \<and>
                             res_scopes r' = res_scopes r \<and>
                             (case res_attrs r ''host.name'' of
                                Some h \<Rightarrow> res_attrs r' ''service.instance.name'' = Some (AStr (value_str h))
                              | None \<Rightarrow> res_attrs r' ''service.instance.name'' = res_attrs r ''service.instance.name''))
             td td'"
proof (cases "items td = []")
  case True
  with assms show ?thesis by (simp add: export_traces_def item_count_items)
next
  case False
  let ?td' = "map (tag_resource (incoming_tenant ctx)) td"
  let ?R = "\<lambda>r r'. res_attrs r' ''tenant'' = Some (AStr (incoming_tenant ctx)) \<and> res_scopes r' = res_scopes r \<and>
    (case res_attrs r ''host.name'' of
       Some h \<Rightarrow> res_attrs r' ''service.instance.name'' = Some (AStr (value_str h))
     | None \<Rightarrow> res_attrs r' ''service.instance.name'' = res_attrs r ''service.instance.name'')"
  have "items ?td' = items td"
    by (simp add: items_def comp_def tag_resource_fields)
  moreover have "?R r (tag_resource (incoming_tenant ctx) r)" for r
    by (simp add: tag_resource_def Let_def attribute_host_name_def attribute_instance_def split: option.split)
  then have "list_all2 ?R td ?td'"
    unfolding list_all2_map2 list_all2_same by (intro ballI)
  moreover have "d' = d @ [?td']" "err = consumer d ?td'"
    using assms False by (auto simp: export_traces_def item_count_items Let_def)
  ultimately have "\<exists>td'. d' = d @ [td'] \<and> err = consumer d td' \<and> items td' = items td \<and> list_all2 ?R td td'"
    by blast
  with False show ?thesis by simp
qed

text \<open>The request, when the body can be read, closed and decoded.\<close>

definition decoded :: "'req encoder \<Rightarrow> otlp_request \<Rightarrow> 'req option" where
  "decoded enc req =
     (case (or_body req, or_close_error req) of
        (Inr b, None) \<Rightarrow> (case enc_unmarshal enc b of Inr r \<Rightarrow> Some r | Inl e \<Rightarrow> None)
      | _ \<Rightarrow> None)"

lemma handle_request_cases:
  assumes "\<And>s. \<exists>m. enc_marshal_status enc s = Inr m"
  shows "snd (handle_request from_error enc export req s) =
           (case decoded enc req of None \<Rightarrow> s | Some r \<Rightarrow> snd (export r s)) \<and>
         rs_content_type (fst (handle_request from_error enc export req s)) = enc_content_type enc \<and>
         rs_status (fst (handle_request from_error enc export req s)) =
           (case decoded enc req of
              None \<Rightarrow> 400
            | Some r \<Rightarrow> if fst (export r s) = None \<and> (\<exists>m. enc_marshal_response enc = Inr m) then 200 else 500)"
proof -
  have w: "rs_status (write_error from_error enc e c) = c \<and> rs_content_type (write_error from_error enc e c) = enc_content_type enc"
    for e c
  proof -
    obtain m where "enc_marshal_status enc (case from_error e of Some s \<Rightarrow> s | None \<Rightarrow> error_msg_to_status e c) = Inr m"
      using assms by blast
    then show ?thesis by (simp add: write_error_def write_status_response_def write_response_def)
  qed
  show ?thesis
    using w
    by (auto simp: handle_request_def read_and_close_body_def decoded_def write_response_def
        split: sum.splits option.splits prod.splits)
qed

text \<open>
  An HTTP endpoint answers 405 to any method but POST and 415 to any content type but the two
  supported ones, without calling the service; otherwise it answers in the content type of the
  request, 400 exactly when the body cannot be read or decoded, and calls the service exactly
  when it can; then 200 when the service and the encoding of its answer succeed and 500 if not.
\<close>

lemma otlp_http_replies:
  assumes "\<And>s. \<exists>m. cd_status_proto c s = Inr m" and "\<And>s. \<exists>m. cd_status_json c s = Inr m"
    and "dispatch from_error (proto_encoder c) (json_encoder c) export req s = (resp, s')"
  shows "(or_method req \<noteq> ''POST'' \<longrightarrow> rs_status resp = 405 \<and> s' = s) \<and>
    (or_method req = ''POST'' \<and> or_content_type req \<notin> {pb_content_type, json_content_type} \<longrightarrow>
       rs_status resp = 415 \<and> s' = s) \<and>
    (or_method req = ''POST'' \<and> or_content_type req \<in> {pb_content_type, json_content_type} \<longrightarrow>
       rs_content_type resp = or_content_type req \<and>
       (case decoded (if or_content_type req = pb_content_type then proto_encoder c else json_encoder c) req of
          None \<Rightarrow> rs_status resp = 400 \<and> s' = s
        | Some r \<Rightarrow>
            s' = snd (export r s) \<and>
            rs_status resp =
              (if fst (export r s) = None \<and>
                  (\<exists>m. (if or_content_type req = pb_content_type then cd_response_proto c else cd_response_json c) = Inr m)
               then 200 else 500)))"
proof -
  have ne: "json_content_type \<noteq> pb_content_type"
    by (simp add: json_content_type_def pb_content_type_def)
  have "\<exists>m. enc_marshal_status (proto_encoder c) s = Inr m" and "\<exists>m. enc_marshal_status (json_encoder c) s = Inr m" for s
    using assms(1,2) by (simp_all add: proto_encoder_def json_encoder_def)
  note P = handle_request_cases [OF this(1), of from_error export req s]
    and J = handle_request_cases [OF this(2), of from_error export req s]
  have enc: "enc_content_type (proto_encoder c) = pb_content_type" "enc_content_type (json_encoder c) = json_content_type"
    "enc_marshal_response (proto_encoder c) = cd_response_proto c" "enc_marshal_response (json_encoder c) = cd_response_json c"
    by (simp_all add: proto_encoder_def json_encoder_def)
  show ?thesis
    using P J assms(3) ne unfolding enc
    by (auto simp: dispatch_def handle_unmatched_method_def handle_unmatched_content_type_def write_response_def
        split: if_splits option.split)
qed

definition sample_codec :: "string codec" where
  "sample_codec = \<lparr>cd_unmarshal_proto = (\<lambda>b. if b = [] then Inl ''EOF'' else Inr b),
     cd_unmarshal_json = (\<lambda>b. if b = [] then Inl ''EOF'' else Inr b),
     cd_response_proto = Inr [], cd_response_json = Inr [],
     cd_status_proto = (\<lambda>s. Inr (st_message s)), cd_status_json = (\<lambda>s. Inr (st_message s))\<rparr>"

lemma otlp_http_replies_witness:
  "rs_status (fst (dispatch (\<lambda>_. None) (proto_encoder sample_codec) (json_encoder sample_codec)
     (\<lambda>r d. (Some ''queue full'', d @ [r]))
     \<lparr>or_method = ''POST'', or_content_type = json_content_type, or_body = Inr ''x'', or_close_error = None\<rparr> [])) = 500"
proof -
  let ?req = "\<lparr>or_method = ''POST'', or_content_type = json_content_type, or_body = Inr ''x'', or_close_error = None\<rparr>"
  obtain resp s' where r: "dispatch (\<lambda>_. None) (proto_encoder sample_codec) (json_encoder sample_codec)
      (\<lambda>r d. (Some ''queue full'', d @ [r])) ?req [] = (resp, s')" by fastforce
  have "json_content_type \<noteq> pb_content_type"
    by (simp add: json_content_type_def pb_content_type_def)
  then show ?thesis
    using otlp_http_replies [OF _ _ r] r by (simp add: sample_codec_def decoded_def json_encoder_def)
qed

definition sample_otlp :: traces where
  "sample_otlp = [\<lparr>res_attrs = [''tenant'' \<mapsto> AStr ''mine'', ''host.name'' \<mapsto> AStr ''h1''],
                   res_scopes = [\<lparr>scope_name = [], scope_version = [], scope_items = [empty_span]\<rparr>]\<rparr>]"

lemma otlp_export_tenant_witness:
  "\<exists>td'. snd (export_traces (\<lambda>_ _. None) (background\<lparr>ctx_metadata := Some [''tenant'' \<mapsto> [''t1'']]\<rparr>) sample_otlp []) = [td'] \<and>
         (\<forall>r \<in> set td'. res_attrs r ''tenant'' = Some (AStr ''t1''))"
proof -
  let ?ctx = "background\<lparr>ctx_metadata := Some [''tenant'' \<mapsto> [''t1'']]\<rparr>"
  obtain err d' where r: "export_traces (\<lambda>_ _. None) ?ctx sample_otlp [] = (err, d')" by fastforce
  have "incoming_tenant ?ctx = ''t1''" by (simp add: incoming_tenant_def)
  moreover have "items sample_otlp \<noteq> []" by (simp add: items_def sample_otlp_def)
  ultimately show ?thesis
    using otlp_export_tenant [OF r] r by (fastforce simp: list_all2_conv_all_nth in_set_conv_nth)
qed

end
