(* ===== verification/OtlpReceiver.thy ===== *)
theory OtlpReceiver
  imports OtlpExport SharedComponent
begin

text \<open>
  The OTLP receiver object of \<open>otlp.go\<close> (registration of the consumers, start and shutdown), its
  configuration (\<open>config.go\<close>) and its factory (\<open>factory.go\<close>) over the generic shared component
  registry.  What servers and listeners return is an argument; the calls made are events.
  Registering a path twice with \<open>http.ServeMux\<close> panics.
\<close>

section \<open>Configuration\<close>

record otlp_config =
  oc_grpc :: "string option" \<comment> \<open>the endpoint, when the protocol is configured\<close>
  oc_http :: "string option"

definition otlp_validate :: "otlp_config \<Rightarrow> go_error option" where
  "otlp_validate cfg =
     (if oc_grpc cfg = None \<and> oc_http cfg = None
      then Some ''must specify at least one protocol when using the OTLP receiver'' else None)"

text \<open>\<open>conf.Unmarshal\<close> and \<open>conf.IsSet\<close> of the third-party configuration tree are arguments.\<close>

definition otlp_unmarshal ::
    "(otlp_config \<Rightarrow> go_error + otlp_config) \<Rightarrow> (string \<Rightarrow> bool) \<Rightarrow> otlp_config \<Rightarrow> go_error + otlp_config" where
  "otlp_unmarshal unmarshal is_set cfg =
     (case unmarshal cfg of
        Inl e \<Rightarrow> Inl e
      | Inr cfg1 \<Rightarrow>
          let cfg2 = (if \<not> is_set ''protocols::grpc'' then cfg1\<lparr>oc_grpc := None\<rparr> else cfg1)
          in Inr (if \<not> is_set ''protocols::http'' then cfg2\<lparr>oc_http := None\<rparr> else cfg2))"

definition otlp_default_config :: otlp_config where
  "otlp_default_config = \<lparr>oc_grpc = Some ''0.0.0.0:4317'', oc_http = Some ''0.0.0.0:4318''\<rparr>"

section \<open>The receiver\<close>

datatype signal = Traces | Metrics | Logs

datatype otlp_event =
    OEvRegister signal | OEvServeGRPC | OEvServeHTTP | OEvShutdownHTTP | OEvStopGRPC | OEvWait

text \<open>
  \<open>signals\<close> are the services that are not nil, each with its consumer; \<open>mux_routes\<close> the paths of
  \<open>httpMux\<close>, when there is one.
\<close>

record otlp_receiver =
  orc_cfg :: otlp_config
  orc_signals :: "signal \<Rightarrow> nat option"
  orc_mux :: "(signal \<times> nat) list option"
  orc_server_grpc :: bool
  orc_server_http :: bool

definition new_otlp_receiver :: "otlp_config \<Rightarrow> go_error option \<Rightarrow> go_error option \<Rightarrow> go_error + otlp_receiver" where
  "new_otlp_receiver cfg grpc_obs_err http_obs_err =
     (let r = \<lparr>orc_cfg = cfg, orc_signals = (\<lambda>_. None), orc_mux = (if oc_http cfg \<noteq> None then Some [] else None),
               orc_server_grpc = False, orc_server_http = False\<rparr>
      in case grpc_obs_err of
           Some e \<Rightarrow> Inl e
         | None \<Rightarrow> (case http_obs_err of Some e \<Rightarrow> Inl e | None \<Rightarrow> Inr r))"

text \<open>
  \<open>registerTraceConsumer\<close>, \<open>registerMetricsConsumer\<close> and \<open>registerLogsConsumer\<close>, one text on the
  three signals.
\<close>

definition register_consumer :: "signal \<Rightarrow> nat option \<Rightarrow> otlp_receiver \<Rightarrow> (go_error option \<times> otlp_receiver) outcome" where
  "register_consumer sig consumer r =
     (case consumer of
        None \<Rightarrow> Ret (Some ''nil nextConsumer'', r)
      | Some c \<Rightarrow>
          let r1 = r\<lparr>orc_signals := (orc_signals r)(sig := Some c)\<rparr>
          in case orc_mux r1 of
               None \<Rightarrow> Ret (None, r1)
             | Some routes \<Rightarrow>
                 if sig \<in> fst ` set routes then Panic
                 else Ret (None, r1\<lparr>orc_mux := Some (routes @ [(sig, c)])\<rparr>))"

record otlp_start_env =
  oe_grpc_server :: "go_error option"
  oe_grpc_listen :: "go_error option"
  oe_http_server :: "go_error option"
  oe_http_listen :: "go_error option"

definition start_grpc_server :: "otlp_start_env \<Rightarrow> go_error option \<times> otlp_event list" where
  "start_grpc_server env =
     (case oe_grpc_listen env of Some e \<Rightarrow> (Some e, []) | None \<Rightarrow> (None, [OEvServeGRPC]))"

definition start_http_server :: "otlp_start_env \<Rightarrow> go_error option \<times> otlp_event list" where
  "start_http_server env =
     (case oe_http_listen env of Some e \<Rightarrow> (Some e, []) | None \<Rightarrow> (None, [OEvServeHTTP]))"

definition registrations :: "otlp_receiver \<Rightarrow> otlp_event list" where
  "registrations r = [OEvRegister s. s \<leftarrow> [Traces, Metrics, Logs], orc_signals r s \<noteq> None]"

definition start_protocol_servers ::
    "otlp_start_env \<Rightarrow> otlp_receiver \<Rightarrow> go_error option \<times> otlp_receiver \<times> otlp_event list" where
  "start_protocol_servers env r =
     (let (err1, r1, evs1) =
        (if oc_grpc (orc_cfg r) = None then (None, r, [])
         else case oe_grpc_server env of
                Some e \<Rightarrow> (Some e, r\<lparr>orc_server_grpc := False\<rparr>, [])
              | None \<Rightarrow>
                  (case start_grpc_server env of
                     (err, evs) \<Rightarrow> (err, r\<lparr>orc_server_grpc := True\<rparr>, registrations r @ evs)))
      in if err1 \<noteq> None then (err1, r1, evs1)
         else if oc_http (orc_cfg r1) = None then (None, r1, evs1)
         else case oe_http_server env of
                Some e \<Rightarrow> (Some e, r1\<lparr>orc_server_http := False\<rparr>, evs1)
              | None \<Rightarrow>
                  (case start_http_server env of
                     (err, evs) \<Rightarrow> (err, r1\<lparr>orc_server_http := True\<rparr>, evs1 @ evs)))"

definition otlp_shutdown :: "go_error option \<Rightarrow> otlp_receiver \<Rightarrow> go_error option \<times> otlp_event list" where
  "otlp_shutdown herr r =
     (if orc_server_http r then herr else None,
      (if orc_server_http r then [OEvShutdownHTTP] else []) @
      (if orc_server_grpc r then [OEvStopGRPC] else []) @ [OEvWait])"

section \<open>The factory\<close>

record otlp_factory =
  of_registry :: "(nat, nat) shared_components"
  of_receivers :: "otlp_receiver list"

definition new_otlp_factory :: otlp_factory where
  "new_otlp_factory = \<lparr>of_registry = new_shared_components, of_receivers = []\<rparr>"

text \<open>
  \<open>createTraces\<close>, \<open>createMetrics\<close>, \<open>createLog\<close>: the result is the registry's wrapper, by its place.
\<close>

definition create_signal ::
    "signal \<Rightarrow> nat \<Rightarrow> otlp_config \<Rightarrow> go_error option \<Rightarrow> nat option \<Rightarrow> otlp_factory \<Rightarrow>
       ((go_error + nat) \<times> otlp_factory) outcome" where
  "create_signal sig key cfg obs_err consumer f =
     (let fresh = length (of_receivers f);
          made = new_otlp_receiver cfg obs_err obs_err;
          needed = (comps (of_registry f) key = None)
      in case get_or_add_e key (case made of Inl e \<Rightarrow> Inl e | Inr r \<Rightarrow> Inr fresh) (of_registry f) of
           (Inl e, reg) \<Rightarrow> Ret (Inl e, f\<lparr>of_registry := reg\<rparr>)
         | (Inr w, reg) \<Rightarrow>
             let f1 = f\<lparr>of_registry := reg,
                        of_receivers := of_receivers f @ (case made of Inr r \<Rightarrow> if needed then [r] else [] | Inl e \<Rightarrow> [])\<rparr>;
                 i = so_unwrap w reg
             in bind_outcome (register_consumer sig consumer (of_receivers f1 ! i)) (\<lambda>(err, r).
                  let f2 = f1\<lparr>of_receivers := (of_receivers f1)[i := r]\<rparr>
                  in Ret (case err of Some e \<Rightarrow> Inl e | None \<Rightarrow> Inr w, f2)))"

text \<open>The collector shuts the wrapper down.\<close>

definition shutdown_wrapper :: "nat \<Rightarrow> go_error option \<Rightarrow> otlp_factory \<Rightarrow> go_error option \<times> otlp_factory" where
  "shutdown_wrapper w herr f =
     (case so_shutdown w (fst (otlp_shutdown herr (of_receivers f ! so_unwrap w (of_registry f)))) (of_registry f) of
        (err, reg) \<Rightarrow> (err, f\<lparr>of_registry := reg\<rparr>))"

section \<open>Properties\<close>

lemma registrations_no_serve [simp]: "OEvServeGRPC \<notin> set (registrations r)" "OEvServeHTTP \<notin> set (registrations r)"
  by (auto simp: registrations_def)

text \<open>
  Whatever the start runs into, a shutdown after it stops every server that was set to serve
  and then waits; a start without errors serves exactly the configured protocols, and registers a
  gRPC service for exactly the signals that have a consumer, before it serves.
\<close>

lemma otlp_shutdown_stops_servers:
  assumes "start_protocol_servers env r = (err, r1, evs)" and "otlp_shutdown herr r1 = (err', evs')"
  shows "(OEvServeGRPC \<in> set evs \<longrightarrow> OEvStopGRPC \<in> set evs') \<and>
         (OEvServeHTTP \<in> set evs \<longrightarrow> OEvShutdownHTTP \<in> set evs') \<and> last evs' = OEvWait \<and>
         (err = None \<longrightarrow>
            (OEvServeGRPC \<in> set evs \<longleftrightarrow> oc_grpc (orc_cfg r) \<noteq> None) \<and>
            (OEvServeHTTP \<in> set evs \<longleftrightarrow> oc_http (orc_cfg r) \<noteq> None) \<and>
            (oc_grpc (orc_cfg r) \<noteq> None \<longrightarrow> (\<forall>s. OEvRegister s \<in> set evs \<longleftrightarrow> orc_signals r s \<noteq> None)))"
proof -
  have reg: "OEvRegister s \<in> set (registrations r) \<longleftrightarrow> orc_signals r s \<noteq> None" for s
    by (cases s) (auto simp: registrations_def)
  show ?thesis
    using assms reg
    by (auto simp: start_protocol_servers_def otlp_shutdown_def start_grpc_server_def start_http_server_def Let_def
        split: if_splits option.splits) metis+
qed

definition sample_otlp_receiver :: otlp_receiver where
  "sample_otlp_receiver = \<lparr>orc_cfg = otlp_default_config, orc_signals = (\<lambda>_. None)(Traces := Some 1),
     orc_mux = Some [(Traces, 1)], orc_server_grpc = False, orc_server_http = False\<rparr>"

lemma otlp_shutdown_stops_servers_witness:
  "OEvStopGRPC \<in> set (snd (otlp_shutdown None (fst (snd (start_protocol_servers
     \<lparr>oe_grpc_server = None, oe_grpc_listen = None, oe_http_server = None, oe_http_listen = Some ''in use''\<rparr>
     sample_otlp_receiver)))))"
proof -
  let ?env = "\<lparr>oe_grpc_server = None, oe_grpc_listen = None, oe_http_server = None, oe_http_listen = Some ''in use''\<rparr>"
  obtain err r1 evs where s: "start_protocol_servers ?env sample_otlp_receiver = (err, r1, evs)" by (metis prod_cases3)
  obtain err' evs' where t: "otlp_shutdown None r1 = (err', evs')" by fastforce
  have "OEvServeGRPC \<in> set evs"
    using s by (auto simp: start_protocol_servers_def start_grpc_server_def start_http_server_def
        sample_otlp_receiver_def otlp_default_config_def)
  then show ?thesis using otlp_shutdown_stops_servers [OF s t] s t by simp
qed

text \<open>
  The pipelines of one configuration share one receiver with the consumer of each signal;
  asking for the same signal of it again panics when HTTP is configured; after the wrapper is
  shut down the configuration gets a new receiver.
\<close>

lemma otlp_pipelines_share_receiver:
  assumes "comps (of_registry f) key = None" and "sig \<noteq> sig'" and "oc_http cfg \<noteq> None"
  shows "\<exists>w i f1 f2 f3 w'. create_signal sig key cfg None (Some c) f = Ret (Inr w, f1) \<and>
           create_signal sig' key cfg None (Some c') f1 = Ret (Inr w, f2) \<and>
           so_unwrap w (of_registry f2) = i \<and>
           orc_signals (of_receivers f2 ! i) = (\<lambda>_. None)(sig := Some c, sig' := Some c') \<and>
           create_signal sig key cfg None (Some c) f2 = Panic \<and>
           create_signal sig key cfg None (Some c) (snd (shutdown_wrapper w herr f2)) = Ret (Inr w', f3) \<and>
           w' \<noteq> w \<and> so_unwrap w' (of_registry f3) \<noteq> i"
  using assms
  by (auto simp: create_signal_def get_or_add_e_def add_new_def new_otlp_receiver_def so_unwrap_def
      register_consumer_def shutdown_wrapper_def so_shutdown_def Let_def nth_append list_update_append case_prod_beta)

lemma otlp_pipelines_share_receiver_witness:
  "\<exists>w f1 f2. create_signal Traces 3 otlp_default_config None (Some 1) new_otlp_factory = Ret (Inr w, f1) \<and>
     create_signal Logs 3 otlp_default_config None (Some 2) f1 = Ret (Inr w, f2)"
  using otlp_pipelines_share_receiver [of new_otlp_factory 3 Traces Logs otlp_default_config 1 2 None]
  by (auto simp: new_otlp_factory_def new_shared_components_def otlp_default_config_def)

end
