(* ===== verification/DatadogTraces.thy ===== *)
theory DatadogTraces
  imports Pdata
begin

text \<open>
  \<open>translator.go\<close> of the Datadog receiver: a tracer payload to OpenTelemetry spans, grouped by
  service.  \<open>strings.ToLower\<close> is an argument (it works on Unicode letters), and so is the order in
  which a range loop visits the groups; maps that are only ranged over are association lists in
  the order of the visit.  A span decoded from a nil is nil, and reading it panics.
\<close>

section \<open>Payloads\<close>

record dd_span =
  dd_service :: string
  dd_name :: string
  dd_resource :: string
  dd_trace_id :: u64
  dd_span_id :: u64
  dd_parent_id :: u64
  dd_start :: i64
  dd_duration :: i64
  dd_error :: i32
  dd_meta :: gomap
  dd_metrics :: "(string \<times> float64) list"
  dd_type :: string

type_synonym dd_trace = "dd_span option list"

record tracer_payload =
  tp_container_id :: string
  tp_language_name :: string
  tp_language_version :: string
  tp_env :: string
  tp_hostname :: string
  tp_app_version :: string
  tp_tracer_version :: string
  tp_tags :: gomap
  tp_chunks :: "dd_trace list"

type_synonym headers = "string \<Rightarrow> string" \<comment> \<open>\<open>Header.Get\<close>: a missing header reads as empty\<close>

section \<open>Identifiers\<close>

text \<open>\<open>binary.BigEndian.PutUint64\<close>.\<close>

definition put_uint64 :: "u64 \<Rightarrow> byte list" where
  "put_uint64 x = map (\<lambda>i. ucast (drop_bit (8 * (7 - i)) x)) [0..<8]"

definition uint64_to_trace_id :: "u64 \<Rightarrow> u64 \<Rightarrow> byte list" where
  "uint64_to_trace_id high low = put_uint64 high @ put_uint64 low"

definition uint64_to_span_id :: "u64 \<Rightarrow> byte list" where
  "uint64_to_span_id i = put_uint64 i"

section \<open>Attributes\<close>

definition translate_datadog_key_to_otel :: "(string \<Rightarrow> string) \<Rightarrow> string \<Rightarrow> string" where
  "translate_datadog_key_to_otel lower k =
     (let l = lower k in
      if l = ''env'' then ''deployment.environment''
      else if l = ''version'' then ''service.version''
      else if l = ''container_id'' then ''container.id''
      else if l = ''container_name'' then ''container.name''
      else if l = ''image_name'' then ''container.image.name''
      else if l = ''image_tag'' then ''container.image.tag''
      else if l = ''process_id'' then ''process.pid''
      else if l = ''error.stacktrace'' then ''exception.stacktrace''
      else if l = ''error.msg'' then ''exception.message''
      else k)"

definition upsert_headers_attributes :: "headers \<Rightarrow> attrs \<Rightarrow> attrs" where
  "upsert_headers_attributes hdr attrs0 =
     (let v = hdr ''Datadog-Meta-Tracer-Version'';
          l = hdr ''Datadog-Meta-Lang'';
          a1 = (if v \<noteq> [] then put_str ''telemetry.sdk.version'' (''Datadog-'' @ v) attrs0 else attrs0)
      in if l \<noteq> [] then put_str ''telemetry.sdk.language'' l a1 else a1)"

definition payload_fields :: "tracer_payload \<Rightarrow> (string \<times> string) list" where
  "payload_fields p =
     [(''container.id'', tp_container_id p), (''telemetry.sdk.language'', tp_language_name p),
      (''process.runtime.version'', tp_language_version p), (''deployment.environment'', tp_env p),
      (''host.name'', tp_hostname p), (''service.version'', tp_app_version p),
      (''telemetry.sdk.name'', ''Datadog''), (''telemetry.sdk.version'', tp_tracer_version p)]"

definition shared_attributes :: "(string \<Rightarrow> string) \<Rightarrow> tracer_payload \<Rightarrow> headers \<Rightarrow> attrs" where
  "shared_attributes lower p hdr =
     (let a1 = put_strs [(k, v) \<leftarrow> payload_fields p. v \<noteq> []] Map.empty;
          a2 = put_strs [(translate_datadog_key_to_otel lower k, v). (k, v) \<leftarrow> tp_tags p, v \<noteq> []] a1
      in upsert_headers_attributes hdr a2)"

section \<open>Spans\<close>

definition dd_span_kind :: "dd_span \<Rightarrow> span_kind" where
  "dd_span_kind span =
     (let k = gm_get (dd_meta span) ''span.kind'' in
      if k = ''server'' then KindServer
      else if k = ''client'' then KindClient
      else if k = ''producer'' then KindProducer
      else if k = ''consumer'' then KindConsumer
      else if k = ''internal'' then KindInternal
      else if dd_type span = ''web'' then KindServer
      else if dd_type span = ''http'' then KindClient
      else KindUnspecified)"

text \<open>The loop over the meta tags, which also looks out for the tenant.\<close>

fun meta_loop :: "(string \<Rightarrow> string) \<Rightarrow> gomap \<Rightarrow> attrs \<Rightarrow> string \<Rightarrow> attrs \<times> string" where
  "meta_loop lower [] a tenant = (a, tenant)"
| "meta_loop lower ((k0, v) # kvs) a tenant =
     (let k = translate_datadog_key_to_otel lower k0 in
      if k \<noteq> [] then meta_loop lower kvs (put_str k v a) (if k = ''tenant'' then v else tenant)
      else meta_loop lower kvs a tenant)"

fun metrics_loop :: "(string \<times> float64) list \<Rightarrow> attrs \<Rightarrow> attrs" where
  "metrics_loop [] a = a"
| "metrics_loop ((k, v) # kvs) a = metrics_loop kvs (put_double k v a)"

definition dd_to_span :: "(string \<Rightarrow> string) \<Rightarrow> dd_span \<Rightarrow> string \<Rightarrow> ot_span \<times> string" where
  "dd_to_span lower span tenant =
     (let a1 = put_str ''dd.span.Resource'' (dd_resource span) Map.empty;
          a2 = put_str ''datadog.span.id'' (show_nat (unat (dd_span_id span))) a1;
          a3 = put_str ''datadog.trace.id'' (show_nat (unat (dd_trace_id span))) a2;
          (a4, tenant1) = meta_loop lower (dd_meta span) a3 tenant;
          a5 = metrics_loop (dd_metrics span) a4
      in (empty_span\<lparr>os_trace_id := uint64_to_trace_id 0 (dd_trace_id span),
                     os_span_id := uint64_to_span_id (dd_span_id span),
                     os_start := dd_start span,
                     os_end := dd_start span + dd_duration span,
                     os_parent_id := uint64_to_span_id (dd_parent_id span),
                     os_name := dd_name span,
                     os_status := (if 0 <s dd_error span then StatusError else StatusOk),
                     os_attrs := a5,
                     os_kind := dd_span_kind span\<rparr>, tenant1))"

text \<open>\<open>groupByService\<close>: the spans of each service, in the order they were appended.\<close>

type_synonym groups = "(string \<times> ot_span list) list"

definition group_append :: "string \<Rightarrow> ot_span \<Rightarrow> groups \<Rightarrow> groups" where
  "group_append service s gs = assoc_append service s gs"

fun group_spans :: "(string \<Rightarrow> string) \<Rightarrow> dd_trace \<Rightarrow> groups \<Rightarrow> string \<Rightarrow> (groups \<times> string) outcome" where
  "group_spans lower [] gs tenant = Ret (gs, tenant)"
| "group_spans lower (None # spans) gs tenant = Panic"
| "group_spans lower (Some span # spans) gs tenant =
     (let (new, tenant1) = dd_to_span lower span tenant
      in group_spans lower spans (group_append (dd_service span) new gs) tenant1)"

fun group_traces :: "(string \<Rightarrow> string) \<Rightarrow> dd_trace list \<Rightarrow> groups \<Rightarrow> string \<Rightarrow> (groups \<times> string) outcome" where
  "group_traces lower [] gs tenant = Ret (gs, tenant)"
| "group_traces lower (t # ts) gs tenant =
     bind_outcome (group_spans lower t gs tenant) (\<lambda>(gs1, tenant1). group_traces lower ts gs1 tenant1)"

definition service_resource :: "attrs \<Rightarrow> string \<Rightarrow> string \<Rightarrow> string \<times> ot_span list \<Rightarrow> ot_span ot_resource" where
  "service_resource shared tenant version g =
     \<lparr>res_attrs = put_str ''tenant'' tenant (put_str ''service.name'' (fst g) shared),
      res_scopes = [\<lparr>scope_name = ''Datadog'', scope_version = version, scope_items = snd g\<rparr>]\<rparr>"

definition to_traces ::
    "(string \<Rightarrow> string) \<Rightarrow> (groups \<Rightarrow> groups) \<Rightarrow> tracer_payload \<Rightarrow> headers \<Rightarrow> traces outcome" where
  "to_traces lower visit payload hdr =
     bind_outcome (group_traces lower (tp_chunks payload) [] ''default'') (\<lambda>(gs, tenant).
       Ret (map (service_resource (shared_attributes lower payload hdr) tenant (tp_tracer_version payload)) (visit gs)))"

section \<open>Chunks\<close>

text \<open>\<open>byID\<close>, with the groups in the order \<open>visit\<close> ranges over them.\<close>

definition by_id_append :: "dd_span \<Rightarrow> (u64 \<times> dd_trace) list \<Rightarrow> (u64 \<times> dd_trace) list" where
  "by_id_append s gs = assoc_append (dd_trace_id s) (Some s) gs"

definition trace_chunks_from_spans ::
    "((u64 \<times> dd_trace) list \<Rightarrow> (u64 \<times> dd_trace) list) \<Rightarrow> dd_span list \<Rightarrow> dd_trace list" where
  "trace_chunks_from_spans visit spans = map snd (visit (fold by_id_append spans []))"

definition trace_chunks_from_traces :: "dd_trace list \<Rightarrow> dd_trace list" where
  "trace_chunks_from_traces traces = map (\<lambda>t. t) traces"

section \<open>Identifiers are kept\<close>

lemma length_put_uint64 [simp]: "length (put_uint64 x) = 8"
  by (simp add: put_uint64_def)

lemma put_uint64_inj: "put_uint64 x = put_uint64 y \<Longrightarrow> x = y"
proof -
  assume a: "put_uint64 x = put_uint64 y"
  show "x = y"
  proof (rule bit_word_eqI)
    fix n assume "n < LENGTH(64)"
    then have n: "n < 64" by simp
    then have k: "7 - n div 8 < 8" and e: "7 - (7 - n div 8) = n div 8" by auto
    from arg_cong [OF a, of "\<lambda>l. l ! (7 - n div 8)"] k e
    have "(ucast (drop_bit (8 * (n div 8)) x) :: byte) = ucast (drop_bit (8 * (n div 8)) y)"
      by (simp add: put_uint64_def)
    then have "bit (ucast (drop_bit (8 * (n div 8)) x) :: byte) (n mod 8) =
        bit (ucast (drop_bit (8 * (n div 8)) y) :: byte) (n mod 8)"
      by simp
    then show "bit x n = bit y n"
      using n by (simp add: bit_simps)
  qed
qed

lemma put_uint64_0: "put_uint64 0 = replicate 8 0"
  by (simp add: put_uint64_def map_replicate_const)

section \<open>Grouping keeps the spans\<close>

text \<open>The span a payload span becomes; its attributes do not depend on the tenant found so far.\<close>

definition dd_span_of :: "(string \<Rightarrow> string) \<Rightarrow> dd_span \<Rightarrow> ot_span" where
  "dd_span_of lower span = fst (dd_to_span lower span [])"

lemma meta_loop_attrs:
  "fst (meta_loop lower kvs a t) =
     fold (\<lambda>(k, v) m. if translate_datadog_key_to_otel lower k \<noteq> []
                      then put_str (translate_datadog_key_to_otel lower k) v m else m) kvs a"
proof (induction kvs arbitrary: a t)
  case (Cons kv kvs)
  obtain k v where "kv = (k, v)" by fastforce
  with Cons.IH show ?case by (simp add: Let_def del: put_lookup)
qed simp

lemma dd_to_span_fst: "fst (dd_to_span lower span t) = dd_span_of lower span"
  by (simp add: dd_to_span_def dd_span_of_def Let_def case_prod_beta meta_loop_attrs
      del: put_lookup)

text \<open>The tenant tags of a span, in the order the loop meets them.\<close>

definition tenant_tags :: "(string \<Rightarrow> string) \<Rightarrow> dd_span \<Rightarrow> string list" where
  "tenant_tags lower span =
     [v. (k, v) \<leftarrow> dd_meta span, translate_datadog_key_to_otel lower k = ''tenant'']"

definition last_or :: "'a \<Rightarrow> 'a list \<Rightarrow> 'a" where
  "last_or d xs = (if xs = [] then d else last xs)"

lemma last_or_append: "last_or d (xs @ ys) = last_or (last_or d xs) ys"
  by (simp add: last_or_def)

lemma last_or_simps [simp]: "last_or d [] = d" "last_or d (x # xs) = last_or x xs"
  by (simp_all add: last_or_def)

lemma meta_loop_tenant:
  "snd (meta_loop lower kvs a t) =
     last_or t [v. (k, v) \<leftarrow> kvs, translate_datadog_key_to_otel lower k = ''tenant'']"
proof (induction kvs arbitrary: a t)
  case (Cons kv kvs)
  obtain k v where "kv = (k, v)" by fastforce
  with Cons.IH show ?case by (simp add: Let_def del: put_lookup)
qed simp

lemma dd_to_span_snd: "snd (dd_to_span lower span t) = last_or t (tenant_tags lower span)"
  by (simp add: dd_to_span_def Let_def case_prod_beta meta_loop_tenant tenant_tags_def
      del: put_lookup)

lemma dd_to_span_eq: "dd_to_span lower span t = (dd_span_of lower span, last_or t (tenant_tags lower span))"
  using dd_to_span_fst [of lower span t] dd_to_span_snd [of lower span t]
  by (metis prod.collapse)

definition group_step :: "(string \<Rightarrow> string) \<Rightarrow> dd_span \<Rightarrow> groups \<times> string \<Rightarrow> groups \<times> string" where
  "group_step lower span st =
     (group_append (dd_service span) (dd_span_of lower span) (fst st),
      last_or (snd st) (tenant_tags lower span))"

lemma group_step_apply [simp]:
  "group_step lower span (gs, t) =
     (group_append (dd_service span) (dd_span_of lower span) gs, last_or t (tenant_tags lower span))"
  by (simp add: group_step_def)

lemma group_spans_eq:
  "group_spans lower spans gs t =
     (if None \<in> set spans then Panic else Ret (fold (group_step lower) [s. Some s \<leftarrow> spans] (gs, t)))"
proof (induction spans arbitrary: gs t)
  case (Cons x spans)
  then show ?case by (cases x) (simp_all add: dd_to_span_eq)
qed simp

lemma group_traces_eq:
  "group_traces lower ts gs t =
     (if None \<in> set (concat ts) then Panic
      else Ret (fold (group_step lower) [s. Some s \<leftarrow> concat ts] (gs, t)))"
  by (induction ts arbitrary: gs t) (auto simp: group_spans_eq case_prod_beta)

lemma fold_group_tenant:
  "snd (fold (group_step lower) spans st) = last_or (snd st) (concat (map (tenant_tags lower) spans))"
  by (induction spans arbitrary: st) (simp_all add: group_step_def last_or_append)

lemma fold_group_groups:
  "fst (fold (group_step lower) spans st) = group_by dd_service (dd_span_of lower) spans (fst st)"
  by (induction spans arbitrary: st) (simp_all add: group_step_def group_append_def)

text \<open>What the whole translation amounts to, for a visit that visits every group once.\<close>

definition payload_spans :: "tracer_payload \<Rightarrow> dd_span list" where
  "payload_spans p = [s. Some s \<leftarrow> concat (tp_chunks p)]"

lemma to_traces_RetD:
  assumes "to_traces lower visit p hdr = Ret t"
  defines "st \<equiv> fold (group_step lower) (payload_spans p) ([], ''default'')"
  shows "t = map (service_resource (shared_attributes lower p hdr)
               (last_or ''default'' (concat (map (tenant_tags lower) (payload_spans p)))) (tp_tracer_version p))
             (visit (fst st))"
    and "snd st = last_or ''default'' (concat (map (tenant_tags lower) (payload_spans p)))"
  using assms(1) fold_group_tenant [of lower "payload_spans p" "([], ''default'')"]
  by (auto simp: to_traces_def group_traces_eq payload_spans_def st_def case_prod_beta split: if_splits)

lemma items_service_resources: "items (map (service_resource a t v) gs) = concat (map snd gs)"
  by (induction gs) (simp_all add: items_def service_resource_def)

lemma fold_by_id: "fold by_id_append spans gs = group_by dd_trace_id Some spans gs"
  by (induction spans arbitrary: gs) (simp_all add: by_id_append_def)

lemma put_uint64_eq [simp]: "put_uint64 x = put_uint64 y \<longleftrightarrow> x = y"
  using put_uint64_inj by auto

lemma put_uint64_zero: "put_uint64 x = replicate 8 0 \<longleftrightarrow> x = 0"
  unfolding put_uint64_0 [symmetric] by simp

lemma dd_span_of_fields:
  "os_trace_id (dd_span_of lower s) = put_uint64 0 @ put_uint64 (dd_trace_id s)"
  "os_span_id (dd_span_of lower s) = put_uint64 (dd_span_id s)"
  "os_parent_id (dd_span_of lower s) = put_uint64 (dd_parent_id s)"
  by (simp_all add: dd_span_of_def dd_to_span_def Let_def case_prod_beta uint64_to_trace_id_def
      uint64_to_span_id_def del: put_lookup)

section \<open>Properties\<close>

text \<open>
  C25: grouping by service loses, duplicates and reorders nothing: the spans of the result are
  those of the payload, one resource for each service, holding exactly the spans of the service
  in the order of the payload, whatever order the groups are visited in.
\<close>

theorem dd_spans_by_service:
  assumes "to_traces lower visit p hdr = Ret t" and "\<And>gs. mset (visit gs) = mset gs"
  shows "mset (items t) = mset (map (dd_span_of lower) (payload_spans p)) \<and>
         (\<forall>r \<in> set t. \<exists>service sc. res_attrs r ''service.name'' = Some (AStr service) \<and> res_scopes r = [sc] \<and>
            scope_items sc = map (dd_span_of lower) [s \<leftarrow> payload_spans p. dd_service s = service] \<and>
            scope_items sc \<noteq> []) \<and>
         distinct (map (\<lambda>r. res_attrs r ''service.name'') t)"
proof -
  define gs where "gs = group_by dd_service (dd_span_of lower) (payload_spans p) []"
  define tenant where "tenant = last_or ''default'' (concat (map (tenant_tags lower) (payload_spans p)))"
  have t: "t = map (service_resource (shared_attributes lower p hdr) tenant (tp_tracer_version p)) (visit gs)"
    using to_traces_RetD(1) [OF assms(1)] by (simp add: gs_def tenant_def fold_group_groups)
  have "mset (items t) = mset (concat (map snd gs))"
    using mset_concat_visit [OF assms(2), of snd gs] by (simp add: t items_service_resources)
  then have one: "mset (items t) = mset (map (dd_span_of lower) (payload_spans p))"
    by (simp add: gs_def group_by_mset)
  have two: "ss = map (dd_span_of lower) [s \<leftarrow> payload_spans p. dd_service s = k] \<and> ss \<noteq> []"
    if "(k, ss) \<in> set (visit gs)" for k ss
  proof -
    have "(k, ss) \<in> set gs"
      using that mset_eq_setD [OF assms(2) [of gs]] by simp
    then show ?thesis
      unfolding gs_def group_by_member by blast
  qed
  have "mset (map fst (visit gs)) = mset (map fst gs)"
    using assms(2) [of gs] by simp
  moreover have "distinct (map fst gs)"
    unfolding gs_def by (rule group_by_distinct) simp
  ultimately have "distinct (map fst (visit gs))"
    by (metis mset_eq_imp_distinct_iff)
  then have three: "distinct (map (\<lambda>r. res_attrs r ''service.name'') t)"
    by (auto simp: t service_resource_def comp_def distinct_map inj_on_def)
  show ?thesis
    using one two three by (auto simp: t service_resource_def)
qed

text \<open>
  Every resource of a payload carries the same tenant, that of the last tenant tag the loops
  meet in any span of any service, and \<open>default\<close> when no span has one.  A payload whose services
  belong to different tenants is attributed to one of them as a whole.
\<close>

lemma dd_tenant_shared:
  assumes "to_traces lower visit p hdr = Ret t"
  shows "\<forall>r \<in> set t. res_attrs r ''tenant'' =
           Some (AStr (last_or ''default'' (concat (map (tenant_tags lower) (payload_spans p)))))"
  unfolding to_traces_RetD(1) [OF assms] by (simp add: service_resource_def)

text \<open>
  The identifiers survive the translation: two spans get the same span id (or trace id)
  exactly when theirs are equal, a span gets the parent id that is another's span id exactly when
  it names that span as its parent, and the empty parent id exactly when its parent is 0.
\<close>

lemma dd_ids_kept:
  "(os_span_id (dd_span_of lower s) = os_span_id (dd_span_of lower s') \<longleftrightarrow> dd_span_id s = dd_span_id s') \<and>
   (os_trace_id (dd_span_of lower s) = os_trace_id (dd_span_of lower s') \<longleftrightarrow> dd_trace_id s = dd_trace_id s') \<and>
   (os_parent_id (dd_span_of lower s) = os_span_id (dd_span_of lower s') \<longleftrightarrow> dd_parent_id s = dd_span_id s') \<and>
   (os_parent_id (dd_span_of lower s) = replicate 8 0 \<longleftrightarrow> dd_parent_id s = 0) \<and>
   length (os_trace_id (dd_span_of lower s)) = 16 \<and> length (os_span_id (dd_span_of lower s)) = 8"
  by (simp add: dd_span_of_fields put_uint64_zero)

text \<open>
  Chunking a flat list of spans by trace id loses and duplicates no span, and the spans of
  one chunk are those of one trace.
\<close>

lemma dd_chunks_by_trace:
  assumes "\<And>gs. mset (visit gs) = mset gs"
  shows "mset (concat (trace_chunks_from_spans visit spans)) = mset (map Some spans) \<and>
         (\<forall>c \<in> set (trace_chunks_from_spans visit spans). \<exists>tid. \<forall>x \<in> set c. \<exists>s. x = Some s \<and> dd_trace_id s = tid)"
proof -
  let ?gs = "group_by dd_trace_id Some spans []"
  have "mset (concat (map snd (visit ?gs))) = mset (concat (map snd ?gs))"
    using assms by (rule mset_concat_visit)
  moreover have "set (visit ?gs) = set ?gs"
    using assms by (rule mset_eq_setD)
  ultimately show ?thesis
    by (fastforce simp: trace_chunks_from_spans_def fold_by_id group_by_mset group_by_member)
qed

text \<open>Two services, of which the later one names a tenant.\<close>

definition sample_dd :: "string \<Rightarrow> u64 \<Rightarrow> gomap \<Rightarrow> dd_span" where
  "sample_dd service i meta =
     \<lparr>dd_service = service, dd_name = ''op'', dd_resource = ''r'', dd_trace_id = 9, dd_span_id = i, dd_parent_id = 0,
      dd_start = 1, dd_duration = 2, dd_error = 0, dd_meta = meta, dd_metrics = [], dd_type = ''web''\<rparr>"

definition sample_payload :: tracer_payload where
  "sample_payload =
     \<lparr>tp_container_id = [], tp_language_name = ''go'', tp_language_version = [], tp_env = [], tp_hostname = ''h'',
      tp_app_version = [], tp_tracer_version = ''1'', tp_tags = [],
      tp_chunks = [[Some (sample_dd ''a'' 1 [(''tenant'', ''t1'')]), Some (sample_dd ''b'' 2 [(''tenant'', ''t2'')])]]\<rparr>"

definition sample_dd_traces :: traces where
  "sample_dd_traces = (case to_traces (\<lambda>k. k) rev sample_payload (\<lambda>_. []) of Ret t \<Rightarrow> t | Panic \<Rightarrow> [])"

lemma sample_dd_translates: "to_traces (\<lambda>k. k) rev sample_payload (\<lambda>_. []) = Ret sample_dd_traces"
  by (simp add: sample_dd_traces_def to_traces_def group_traces_eq sample_payload_def)

lemma sample_payload_spans:
  "payload_spans sample_payload = [sample_dd ''a'' 1 [(''tenant'', ''t1'')], sample_dd ''b'' 2 [(''tenant'', ''t2'')]]"
  by (simp add: payload_spans_def sample_payload_def)

theorem dd_spans_by_service_witness: "item_count sample_dd_traces = 2"
proof -
  have "mset (items sample_dd_traces) = mset (map (dd_span_of (\<lambda>k. k)) (payload_spans sample_payload))"
    using dd_spans_by_service [OF sample_dd_translates] by simp
  from arg_cong [OF this, of size] show ?thesis
    by (simp add: item_count_items sample_payload_spans)
qed

lemma dd_tenant_shared_witness:
  "list_all (\<lambda>r. res_attrs r ''tenant'' = Some (AStr ''t2'')) sample_dd_traces"
  using dd_tenant_shared [OF sample_dd_translates]
  by (simp add: list_all_iff sample_payload_spans tenant_tags_def sample_dd_def translate_datadog_key_to_otel_def Let_def)

lemma dd_chunks_by_trace_witness:
  "mset (concat (trace_chunks_from_spans rev [sample_dd ''a'' 1 [], sample_dd ''b'' 2 []])) =
     mset [Some (sample_dd ''a'' 1 []), Some (sample_dd ''b'' 2 [])]"
  using dd_chunks_by_trace [of rev "[sample_dd ''a'' 1 [], sample_dd ''b'' 2 []]"] by simp

end
