(* ===== verification/DatadogReceiver.thy ===== *)
theory DatadogReceiver
  imports DatadogTraces SharedComponent
begin

text \<open>
  The request side of the Datadog receiver: \<open>handlePayload\<close> and \<open>decodeRequest\<close> of
  \<open>translator.go\<close>, the handler and the lifecycle of \<open>receiver.go\<close>, and the factory.  The decoders
  (msgpack, JSON), \<open>mime.ParseMediaType\<close>, the HTTP server and the consumer are arguments.
\<close>

section \<open>Requests\<close>

text \<open>
  A request: its path, its headers, its body (or the error reading it), and the errors of
  draining and closing the body, which the deferred function adds to the result.
\<close>

record dd_request =
  rq_path :: string
  rq_headers :: headers
  rq_dd_body :: "go_error + string"
  rq_drain_errors :: "go_error list"

text \<open>
  The decoders.  \<open>Decode\<close> of a \<open>json.Decoder\<close> reads the body through a buffer: besides the value
  and the error the model has how many bytes it took from the body.  A decoder that fails may
  have filled in a part of its target.
\<close>

record dd_codec =
  co_payload_msg :: "string \<Rightarrow> tracer_payload \<times> go_error option"
  co_dictionary :: "string \<Rightarrow> dd_trace list \<times> go_error option"
  co_spans_json :: "string \<Rightarrow> dd_span list \<times> go_error option"
  co_traces_json :: "string \<Rightarrow> dd_trace list \<times> go_error option \<times> nat"
  co_traces_msg :: "dd_trace list \<Rightarrow> string \<Rightarrow> dd_trace list \<times> go_error option"
  co_media_type :: "string \<Rightarrow> string option"
  co_visit_ids :: "(u64 \<times> dd_trace) list \<Rightarrow> (u64 \<times> dd_trace) list"

definition get_media_type :: "dd_codec \<Rightarrow> dd_request \<Rightarrow> string" where
  "get_media_type co req =
     (case co_media_type co (rq_headers req ''Content-Type'') of None \<Rightarrow> ''application/json'' | Some mt \<Rightarrow> mt)"

text \<open>An unreadable body is an error of the JSON decoder as well.\<close>

definition json_traces :: "dd_codec \<Rightarrow> go_error + string \<Rightarrow> dd_trace list \<times> go_error option \<times> nat" where
  "json_traces co body = (case body of Inl e \<Rightarrow> ([], Some e, 0) | Inr b \<Rightarrow> co_traces_json co b)"

definition decode_request :: "dd_codec \<Rightarrow> dd_request \<Rightarrow> dd_trace list \<times> go_error option" where
  "decode_request co req =
     (let mt = get_media_type co req in
      if mt = ''application/msgpack'' then
        (case rq_dd_body req of
           Inl e \<Rightarrow> ([], Some e)
         | Inr b \<Rightarrow> co_traces_msg co [] b)
      else if mt = ''application/json'' \<or> mt = ''text/json'' \<or> mt = [] then
        (case json_traces co (rq_dd_body req) of (traces, err, n) \<Rightarrow> (traces, err))
      else
        (case json_traces co (rq_dd_body req) of
           (traces, None, n) \<Rightarrow> (traces, None)
         | (traces, Some err1, n) \<Rightarrow>
             (case rq_dd_body req of
                Inl e \<Rightarrow> (traces, Some e)
              | Inr b \<Rightarrow> co_traces_msg co traces (drop n b))))"

definition payload_of_headers :: "headers \<Rightarrow> dd_trace list \<Rightarrow> tracer_payload" where
  "payload_of_headers hdr chunks =
     \<lparr>tp_container_id = [], tp_language_name = hdr ''Datadog-Meta-Lang'',
      tp_language_version = hdr ''Datadog-Meta-Lang-Version'', tp_env = [], tp_hostname = [],
      tp_app_version = [], tp_tracer_version = hdr ''Datadog-Meta-Tracer-Version'', tp_tags = [],
      tp_chunks = chunks\<rparr>"

definition combine_errors :: "go_error option \<Rightarrow> go_error list \<Rightarrow> go_error list" where
  "combine_errors err errs = (case err of None \<Rightarrow> [] | Some e \<Rightarrow> [e]) @ errs"

text \<open>The payload, when one is returned, and the errors combined with those of the deferred function.\<close>

definition handle_payload :: "dd_codec \<Rightarrow> dd_request \<Rightarrow> tracer_payload option \<times> go_error list" where
  "handle_payload co req =
     (let (tp, err) =
        (if has_prefix (rq_path req) ''/v0.7'' then
           (case rq_dd_body req of
              Inl e \<Rightarrow> (None, Some e)
            | Inr b \<Rightarrow> (case co_payload_msg co b of (p, e) \<Rightarrow> (Some p, e)))
         else if has_prefix (rq_path req) ''/v0.5'' then
           (case rq_dd_body req of
              Inl e \<Rightarrow> (None, Some e)
            | Inr b \<Rightarrow>
                (case co_dictionary co b of
                   (traces, e) \<Rightarrow> (Some (payload_of_headers (rq_headers req) (trace_chunks_from_traces traces)), e)))
         else if has_prefix (rq_path req) ''/v0.1'' then
           (case rq_dd_body req of
              Inl e \<Rightarrow> (None, Some e)
            | Inr b \<Rightarrow>
                (case co_spans_json co b of
                   (spans, Some e) \<Rightarrow> (None, Some e)
                 | (spans, None) \<Rightarrow>
                     (Some (payload_of_headers (rq_headers req) (trace_chunks_from_spans (co_visit_ids co) spans)), None)))
         else
           (case decode_request co req of
              (traces, Some e) \<Rightarrow> (None, Some e)
            | (traces, None) \<Rightarrow> (Some (payload_of_headers (rq_headers req) (trace_chunks_from_traces traces)), None)))
      in (tp, combine_errors err (rq_drain_errors req)))"

section \<open>The handler\<close>

text \<open>
  The status and body of the reply, the span count reported to \<open>EndTracesOp\<close>, and what the
  consumer has been handed.  A nil payload reads as an empty one (it only comes with an error).
\<close>

definition handle_traces ::
    "dd_codec \<Rightarrow> (string \<Rightarrow> string) \<Rightarrow> (groups \<Rightarrow> groups) \<Rightarrow> (traces list \<Rightarrow> traces \<Rightarrow> go_error option) \<Rightarrow> dd_request \<Rightarrow>
       traces list \<Rightarrow> ((nat \<times> string) \<times> nat \<times> traces list) outcome" where
  "handle_traces co lower visit consumer req delivered =
     (case handle_payload co req of
        (tp, e # es) \<Rightarrow> Ret ((400, ''Unable to unmarshal reqs''), 0, delivered)
      | (tp, []) \<Rightarrow>
          (case tp of
             None \<Rightarrow> Panic
           | Some p \<Rightarrow>
               bind_outcome (to_traces lower visit p (rq_headers req)) (\<lambda>t.
                 case consumer delivered t of
                   Some e \<Rightarrow> Ret ((500, ''Trace consumer errored out''), item_count t, delivered @ [t])
                 | None \<Rightarrow> Ret ((200, ''OK''), item_count t, delivered @ [t]))))"

section \<open>The receiver\<close>

text \<open>
  The server object, by the read timeout it was built with.  \<open>ToServer\<close> (third party) returns a
  server of its own or an error.
\<close>

record dd_receiver =
  ddr_config_timeout :: nat
  ddr_server :: "nat option"
  ddr_listening :: bool

definition new_datadog_receiver :: "nat \<Rightarrow> bool \<Rightarrow> go_error option \<Rightarrow> go_error + dd_receiver" where
  "new_datadog_receiver timeout has_consumer obs_err =
     (if \<not> has_consumer then Inl ''nil nextConsumer''
      else case obs_err of
             Some e \<Rightarrow> Inl e
           | None \<Rightarrow> Inr \<lparr>ddr_config_timeout = timeout, ddr_server = Some timeout, ddr_listening = False\<rparr>)"

definition dd_routes :: "string list" where
  "dd_routes = [''/v0.3/traces'', ''/v0.4/traces'', ''/v0.5/traces'', ''/v0.7/traces'']"

definition ddr_start ::
    "go_error + nat \<Rightarrow> go_error option \<Rightarrow> dd_receiver \<Rightarrow> go_error option \<times> dd_receiver" where
  "ddr_start to_server listen_err ddr =
     (case to_server of
        Inl e \<Rightarrow> (Some (''failed to create server definition: '' @ e), ddr\<lparr>ddr_server := None\<rparr>)
      | Inr timeout \<Rightarrow>
          let ddr1 = ddr\<lparr>ddr_server := Some timeout\<rparr>
          in case listen_err of
               Some e \<Rightarrow> (Some (''failed to create datadog listener: '' @ e), ddr1)
             | None \<Rightarrow> (None, ddr1\<lparr>ddr_listening := True\<rparr>))"

text \<open>\<open>Shutdown\<close> of a nil server panics.\<close>

definition ddr_shutdown :: "go_error option \<Rightarrow> dd_receiver \<Rightarrow> (go_error option \<times> dd_receiver) outcome" where
  "ddr_shutdown err ddr =
     (case ddr_server ddr of None \<Rightarrow> Panic | Some _ \<Rightarrow> Ret (err, ddr\<lparr>ddr_listening := False\<rparr>))"

text \<open>
  The factory keeps what the construction returned, its error dropped (a nil component then),
  and hands out the registry's wrapper.
\<close>

definition dd_create_traces_receiver ::
    "nat \<Rightarrow> nat \<Rightarrow> bool \<Rightarrow> go_error option \<Rightarrow> (nat, dd_receiver option) shared_components \<Rightarrow>
       nat \<times> (nat, dd_receiver option) shared_components" where
  "dd_create_traces_receiver key timeout has_consumer obs_err reg =
     get_or_add key
       (case new_datadog_receiver timeout has_consumer obs_err of Inl e \<Rightarrow> None | Inr d \<Rightarrow> Some d) reg"

section \<open>Properties\<close>

lemma handle_payload_some: "handle_payload co req = (tp, []) \<Longrightarrow> tp \<noteq> None"
  by (auto simp: handle_payload_def Let_def combine_errors_def
      split: if_splits sum.splits prod.splits option.splits)

text \<open>
  The handler answers 400 exactly when there is an error reading, decoding or closing the
  request, and then hands nothing to the consumer; otherwise it hands over exactly the
  translation of the payload once and answers 200 or, if the consumer refuses it, 500.
\<close>

lemma dd_handler_replies:
  assumes "handle_traces co lower visit consumer req d = Ret ((status, msg), n, d')"
  shows "case handle_payload co req of
           (tp, e # es) \<Rightarrow> status = 400 \<and> d' = d
         | (tp, []) \<Rightarrow>
             (\<exists>p t. tp = Some p \<and> to_traces lower visit p (rq_headers req) = Ret t \<and> d' = d @ [t] \<and> n = item_count t \<and>
                    status = (if consumer d t = None then 200 else 500))"
proof -
  obtain tp errs where h: "handle_payload co req = (tp, errs)" by fastforce
  show ?thesis
  proof (cases errs)
    case Nil
    with h obtain p where "tp = Some p" using handle_payload_some by fastforce
    with h Nil assms show ?thesis
      by (auto simp: handle_traces_def bind_outcome_Ret_iff split: option.splits)
  next
    case (Cons e es)
    with h assms show ?thesis by (auto simp: handle_traces_def)
  qed
qed

text \<open>
  A body in msgpack under a media type the handler does not know is tried as JSON first, and
  the fallback decodes only what that attempt left of the body: if it took the whole body, the
  fallback sees nothing, whatever the body was.
\<close>

lemma dd_fallback_sees_rest:
  assumes "get_media_type co req = mt" and "mt \<notin> {''application/msgpack'', ''application/json'', ''text/json'', []}"
    and "rq_dd_body req = Inr b" and "co_traces_json co b = (part, Some e, n)" and "length b \<le> n"
  shows "decode_request co req = co_traces_msg co part []"
  using assms by (simp add: decode_request_def json_traces_def)

definition sample_codec :: dd_codec where
  "sample_codec = \<lparr>co_payload_msg = (\<lambda>b. (payload_of_headers (\<lambda>_. []) [], None)), co_dictionary = (\<lambda>b. ([], None)),
     co_spans_json = (\<lambda>b. ([], None)), co_traces_json = (\<lambda>b. ([], Some ''invalid character'', length b)),
     co_traces_msg = (\<lambda>t b. if b = [] then (t, Some ''short bytes'') else ([[Some (sample_dd ''a'' 1 [])]], None)),
     co_media_type = (\<lambda>s. if s = [] then None else Some s), co_visit_ids = (\<lambda>g. g)\<rparr>"

definition sample_request :: dd_request where
  "sample_request = \<lparr>rq_path = ''/v0.4/traces'', rq_headers = (\<lambda>h. if h = ''Content-Type'' then ''application/x-msgpack'' else []),
     rq_dd_body = Inr ''body'', rq_drain_errors = []\<rparr>"

lemma dd_fallback_sees_rest_witness:
  "decode_request sample_codec sample_request = ([], Some ''short bytes'') \<and>
   co_traces_msg sample_codec [] ''body'' = ([[Some (sample_dd ''a'' 1 [])]], None)"
  using dd_fallback_sees_rest [of sample_codec sample_request "''application/x-msgpack''" "''body''" "[]"
      "''invalid character''" "length ''body''"]
  by (simp add: sample_codec_def sample_request_def get_media_type_def)

lemma dd_handler_replies_witness:
  "\<exists>t. handle_traces sample_codec (\<lambda>k. k) rev (\<lambda>_ _. Some ''full'') (sample_request\<lparr>rq_path := ''/v0.7/traces''\<rparr>) [] =
     Ret ((500, ''Trace consumer errored out''), item_count t, [t])"
proof -
  let ?req = "sample_request\<lparr>rq_path := ''/v0.7/traces''\<rparr>"
  have h: "handle_payload sample_codec ?req = (Some (payload_of_headers (\<lambda>_. []) []), [])"
    by (simp add: handle_payload_def sample_request_def sample_codec_def has_prefix_def combine_errors_def)
  then obtain status msg n d' where
    r: "handle_traces sample_codec (\<lambda>k. k) rev (\<lambda>_ _. Some ''full'') ?req [] = Ret ((status, msg), n, d')"
    by (auto simp: handle_traces_def to_traces_def payload_of_headers_def)
  from dd_handler_replies [OF r] h show ?thesis
    by (auto simp: handle_traces_def)
qed

text \<open>
  The configured read timeout bounds the server the constructor builds, but a successful
  start replaces that server by the one the HTTP settings build, so the timeout is never used.
\<close>

lemma dd_read_timeout_dropped:
  assumes "new_datadog_receiver timeout True None = Inr d"
  shows "ddr_server d = Some timeout \<and>
         (\<exists>d'. ddr_start (Inr other) None d = (None, d') \<and> ddr_server d' = Some other \<and> ddr_listening d')"
  using assms by (auto simp: new_datadog_receiver_def ddr_start_def)

lemma dd_read_timeout_dropped_witness:
  "\<exists>d d'. new_datadog_receiver 60 True None = Inr d \<and> ddr_start (Inr 0) None d = (None, d') \<and> ddr_server d' = Some 0"
proof -
  obtain d where "new_datadog_receiver 60 True None = Inr d"
    by (simp add: new_datadog_receiver_def)
  then show ?thesis using dd_read_timeout_dropped [of 60 d 0] by blast
qed

end
