(* ===== verification/LogsExtension.thy ===== *)
theory LogsExtension
  imports Aes HttpUtils AuthExtension
begin

text \<open>
  \<open>extension/holoinsightlogsextension\<close>: the endpoint that takes logs and forwards them to the log
  service project of their key.  Clients are shared objects: the cache maps a key to a place in a
  heap of clients.  The block cipher, JSON, the network, the host's name and address, the clock
  and the producer's result are arguments; \<open>aesutil.go\<close> is the code of the authenticator's.
\<close>

section \<open>Data and state\<close>

record log_data_msg =
  ld_logs :: "gomap list"
  ld_tags :: gomap
  ld_topic :: string
  ld_source :: string

record log_content_msg =
  lc_time :: u32
  lc_contents :: "(string \<times> string) list"

record sls_config =
  sls_endpoint :: string
  sls_project :: string
  sls_logstore :: string
  sls_key_id :: string
  sls_key_secret :: string

record logs_config =
  lg_server_endpoint :: string
  lg_sls_endpoint :: string
  lg_decrypt :: decrypt_config

record log_client =
  cl_config :: sls_config
  cl_logstore :: string
  cl_topic :: string
  cl_source :: string

text \<open>What reaches the producer: project, logstore, topic, source, log groups.\<close>

record log_push =
  lp_project :: string
  lp_logstore :: string
  lp_topic :: string
  lp_source :: string
  lp_logs :: "log_content_msg list"

record logs_state =
  ls_cache :: "string \<rightharpoonup> nat"
  ls_clients :: "log_client list"
  ls_queries :: "string list" \<comment> \<open>keys asked of the server\<close>
  ls_pushed :: "log_push list"

definition new_logs_state :: logs_state where
  "new_logs_state = \<lparr>ls_cache = Map.empty, ls_clients = [], ls_queries = [], ls_pushed = []\<rparr>"

text \<open>An address of a network interface, as far as \<open>getIPAddress\<close> looks at it.\<close>

record if_addr =
  ia_ip_net :: bool
  ia_loopback :: bool
  ia_v4 :: bool
  ia_text :: string

record logs_env =
  le_dec :: block_dec
  le_unmarshal_map :: json_map
  le_unmarshal_data :: "string \<Rightarrow> go_error + log_data_msg option" \<comment> \<open>\<open>null\<close> decodes to nil\<close>
  le_net :: "http_request \<Rightarrow> http_reply"
  le_hostname :: string
  le_interfaces :: "if_addr list"
  le_now :: u32
  le_send :: "log_push \<Rightarrow> go_error option"

record logs_request =
  lr_logstore :: string
  lr_body :: "go_error + string"
  lr_drain_errors :: "go_error list"

section \<open>Clients\<close>

text \<open>\<open>getIPAddress\<close>: the last IPv4 address that is no loopback, empty if there is none.\<close>

fun get_ip_address :: "if_addr list \<Rightarrow> string \<Rightarrow> string" where
  "get_ip_address [] ip = ip"
| "get_ip_address (a # as) ip =
     get_ip_address as
       (if ia_ip_net a \<and> \<not> ia_loopback a then (if ia_v4 a then ia_text a else ip) else ip)"

definition new_log_service_client :: "logs_env \<Rightarrow> sls_config \<Rightarrow> go_error + log_client" where
  "new_log_service_client env c =
     (if sls_endpoint c = [] \<or> sls_project c = []
      then Inl ''[holoinsightlogsextension] missing logservice params: Endpoint, Project''
      else Inr \<lparr>cl_config = c, cl_logstore = sls_logstore c, cl_topic = le_hostname env, cl_source = get_ip_address (le_interfaces env) []\<rparr>)"

definition push_of :: "log_client \<Rightarrow> log_content_msg list \<Rightarrow> log_push" where
  "push_of c logs = \<lparr>lp_project = sls_project (cl_config c), lp_logstore = cl_logstore c,
                    lp_topic = cl_topic c, lp_source = cl_source c, lp_logs = logs\<rparr>"

definition send_logs :: "logs_env \<Rightarrow> log_client \<Rightarrow> log_content_msg list \<Rightarrow> logs_state \<Rightarrow> go_error option \<times> logs_state" where
  "send_logs env c logs s =
     (if cl_logstore c = [] then (Some ''[holoinsightlogsextension] missing logservice params: LogStore'', s)
      else (le_send env (push_of c logs), s\<lparr>ls_pushed := ls_pushed s @ [push_of c logs]\<rparr>))"

definition set_log_store :: "string \<Rightarrow> log_client \<Rightarrow> log_client" where
  "set_log_store l c = c\<lparr>cl_logstore := l\<rparr>"

definition set_topic :: "string \<Rightarrow> log_client \<Rightarrow> log_client" where
  "set_topic t c = c\<lparr>cl_topic := t\<rparr>"

definition set_source :: "string \<Rightarrow> log_client \<Rightarrow> log_client" where
  "set_source t c = c\<lparr>cl_source := t\<rparr>"

definition server_query_url :: "logs_config \<Rightarrow> string \<Rightarrow> string" where
  "server_query_url cfg key =
     lg_server_endpoint cfg @ ''/internal/customize/log/project/query?key='' @ query_escape key"

definition get_log_service_client ::
    "logs_env \<Rightarrow> logs_config \<Rightarrow> string \<Rightarrow> logs_state \<Rightarrow> (go_error + nat) \<times> logs_state" where
  "get_log_service_client env cfg key s =
     (case ls_cache s key of
        Some i \<Rightarrow> (Inr i, s)
      | None \<Rightarrow>
          let s1 = s\<lparr>ls_queries := ls_queries s @ [key]\<rparr>
          in case fst (http_get (le_net env) (server_query_url cfg key)) of
               Inl e \<Rightarrow> (Inl e, s1)
             | Inr response \<Rightarrow>
                 (case le_unmarshal_map env response of
                    Inl e \<Rightarrow> (Inl e, s1)
                  | Inr m \<Rightarrow>
                      let c = \<lparr>sls_endpoint = lg_sls_endpoint cfg, sls_project = gm_get m ''projectName'',
                               sls_logstore = key, sls_key_id = gm_get m ''accessId'',
                               sls_key_secret = gm_get m ''accessKey''\<rparr>
                      in case new_log_service_client env c of
                           Inl e \<Rightarrow> (Inl e, s1)
                         | Inr client \<Rightarrow>
                             (Inr (length (ls_clients s1)),
                              s1\<lparr>ls_clients := ls_clients s1 @ [client],
                                 ls_cache := (ls_cache s1)(key \<mapsto> length (ls_clients s1))\<rparr>)))"

section \<open>Requests\<close>

text \<open>\<open>handlePayload\<close>: the data (or nil) and the errors, those of the deferred drain and close included.\<close>

definition logs_handle_payload :: "logs_env \<Rightarrow> logs_request \<Rightarrow> log_data_msg option \<times> go_error list" where
  "logs_handle_payload env req =
     (case lr_body req of
        Inl e \<Rightarrow> (None, e # lr_drain_errors req)
      | Inr b \<Rightarrow>
          (case le_unmarshal_data env b of
             Inl e \<Rightarrow> (None, e # lr_drain_errors req)
           | Inr d \<Rightarrow> (d, lr_drain_errors req)))"

text \<open>
  \<open>dataToSLSLogs\<close>: one log for the whole request, and the changes to the (shared) client; a nil
  \<open>data\<close> panics.
\<close>

definition data_to_sls_logs ::
    "logs_env \<Rightarrow> log_data_msg option \<Rightarrow> log_client \<Rightarrow> (log_content_msg list \<times> log_client) outcome" where
  "data_to_sls_logs env data client =
     (case data of
        None \<Rightarrow> Panic
      | Some d \<Rightarrow>
          let c1 = concat (ld_logs d) @ ld_tags d;
              (c2, cl1) = (if ld_topic d \<noteq> [] then (c1 @ [(''__topic__'', ld_topic d)], set_topic (ld_topic d) client)
                           else (c1, client));
              (c3, cl2) = (if ld_source d \<noteq> [] then (c2 @ [(''__source__'', ld_source d)], set_source (ld_source d) cl1)
                           else (c2, cl1))
          in Ret ([\<lparr>lc_time = le_now env, lc_contents = c3\<rparr>], cl2))"

definition logstore_key :: "logs_env \<Rightarrow> logs_config \<Rightarrow> string \<Rightarrow> (go_error + string) outcome" where
  "logstore_key env cfg logstore =
     (let d = lg_decrypt cfg in
      if dc_enable d \<and> dc_secret_key d \<noteq> []
      then bind_outcome (aes_decrypt (le_dec env) logstore (dc_secret_key d) (dc_iv d)) (\<lambda>(v, err).
             Ret (case err of Some e \<Rightarrow> Inl ''Unauthorized access'' | None \<Rightarrow> Inr v))
      else Ret (Inr logstore))"

text \<open>\<open>handleLogs\<close>: the status of the reply (200 when nothing is written) and the new state.\<close>

definition handle_logs :: "logs_env \<Rightarrow> logs_config \<Rightarrow> logs_request \<Rightarrow> logs_state \<Rightarrow> (nat \<times> logs_state) outcome" where
  "handle_logs env cfg req s =
     bind_outcome (logstore_key env cfg (lr_logstore req)) (\<lambda>k.
       case k of
         Inl e \<Rightarrow> Ret (401, s)
       | Inr key \<Rightarrow>
           (case logs_handle_payload env req of
              (data, e # es) \<Rightarrow> Ret (500, s)
            | (data, []) \<Rightarrow>
                (case get_log_service_client env cfg key s of
                   (Inl e, s1) \<Rightarrow> Ret (500, s1)
                 | (Inr i, s1) \<Rightarrow>
                     bind_outcome (data_to_sls_logs env data (ls_clients s1 ! i)) (\<lambda>(logs, client).
                       let s2 = s1\<lparr>ls_clients := (ls_clients s1)[i := client]\<rparr>
                       in case send_logs env client logs s2 of
                            (Some e, s3) \<Rightarrow> Ret (500, s3)
                          | (None, s3) \<Rightarrow> Ret (200, s3)))))"

section \<open>The extension object\<close>

text \<open>
  \<open>Start\<close> and \<open>Shutdown\<close> have value receivers: they work on a copy of the object, so what
  \<open>Start\<close> assigns to \<open>server\<close> is gone when it returns.  A server is known by a number; 0 is the
  one the constructor makes.  The list holds the servers set to serve and not shut down.
\<close>

record logs_extension =
  lx_server :: nat
  lx_state :: logs_state

definition new_logs_extension :: "logs_config \<Rightarrow> go_error + logs_extension" where
  "new_logs_extension cfg =
     (if lg_server_endpoint cfg = [] then Inl ''server endpoint not set''
      else Inr \<lparr>lx_server = 0, lx_state = new_logs_state\<rparr>)"

definition logs_start ::
    "go_error + nat \<Rightarrow> go_error option \<Rightarrow> logs_extension \<Rightarrow> nat list \<Rightarrow> go_error option \<times> logs_extension \<times> nat list" where
  "logs_start to_server listen_err l serving =
     (case to_server of
        Inl e \<Rightarrow> (Some (''failed to create holoinsight logs server definition: '' @ e), l, serving)
      | Inr server \<Rightarrow>
          let copy = l\<lparr>lx_server := server\<rparr>
          in case listen_err of
               Some e \<Rightarrow> (Some (''failed to create holoinsight logs listener: '' @ e), l, serving)
             | None \<Rightarrow> (None, l, serving @ [lx_server copy]))"

definition logs_shutdown :: "logs_extension \<Rightarrow> nat list \<Rightarrow> nat list" where
  "logs_shutdown l serving = [s \<leftarrow> serving. s \<noteq> lx_server l]"

section \<open>The cache over a run\<close>

text \<open>
  A run serves requests with the same server and decoder; the time, the producer's answers and
  the requests vary.
\<close>

inductive logs_reachable ::
    "logs_config \<Rightarrow> (http_request \<Rightarrow> http_reply) \<Rightarrow> json_map \<Rightarrow> logs_state \<Rightarrow> bool" for cfg net um where
  logs_init: "logs_reachable cfg net um new_logs_state"
| logs_step: "logs_reachable cfg net um s \<Longrightarrow> le_net env = net \<Longrightarrow> le_unmarshal_map env = um \<Longrightarrow>
    handle_logs env cfg req s = Ret (status, s') \<Longrightarrow> logs_reachable cfg net um s'"

text \<open>The project the server names for a key.\<close>

definition server_project ::
    "logs_config \<Rightarrow> (http_request \<Rightarrow> http_reply) \<Rightarrow> json_map \<Rightarrow> string \<Rightarrow> string option" where
  "server_project cfg net um key =
     (case fst (http_get net (server_query_url cfg key)) of
        Inl e \<Rightarrow> None
      | Inr response \<Rightarrow> (case um response of Inl e \<Rightarrow> None | Inr m \<Rightarrow> Some (gm_get m ''projectName'')))"

definition client_ok :: "logs_config \<Rightarrow> (http_request \<Rightarrow> http_reply) \<Rightarrow> json_map \<Rightarrow> string \<Rightarrow> log_client \<Rightarrow> bool" where
  "client_ok cfg net um key c \<longleftrightarrow>
     cl_logstore c = key \<and> server_project cfg net um key = Some (sls_project (cl_config c)) \<and>
     sls_project (cl_config c) \<noteq> []"

definition logs_inv :: "logs_config \<Rightarrow> (http_request \<Rightarrow> http_reply) \<Rightarrow> json_map \<Rightarrow> logs_state \<Rightarrow> bool" where
  "logs_inv cfg net um s \<longleftrightarrow>
     (\<forall>k i. ls_cache s k = Some i \<longrightarrow> i < length (ls_clients s) \<and> client_ok cfg net um k (ls_clients s ! i)) \<and>
     (\<forall>p \<in> set (ls_pushed s). lp_logstore p \<noteq> [] \<and> server_project cfg net um (lp_logstore p) = Some (lp_project p) \<and>
                             lp_project p \<noteq> [])"

lemma client_ok_set [simp]:
  "client_ok cfg net um k (set_topic t c) = client_ok cfg net um k c"
  "client_ok cfg net um k (set_source t c) = client_ok cfg net um k c"
  by (simp_all add: client_ok_def set_topic_def set_source_def)

lemma data_to_sls_logs_client:
  "data_to_sls_logs env data c = Ret (logs, c') \<Longrightarrow> client_ok cfg net um k c' = client_ok cfg net um k c"
  by (auto simp: data_to_sls_logs_def Let_def split: option.splits if_splits)

lemma logs_inv_queries [simp]: "logs_inv cfg net um (s\<lparr>ls_queries := q\<rparr>) = logs_inv cfg net um s"
  by (simp add: logs_inv_def)

lemma logs_inv_add:
  assumes "logs_inv cfg net um s" and "client_ok cfg net um k c"
  shows "logs_inv cfg net um
    (s\<lparr>ls_clients := ls_clients s @ [c], ls_cache := (ls_cache s)(k \<mapsto> length (ls_clients s))\<rparr>)"
  unfolding logs_inv_def
proof (intro conjI allI impI)
  fix k' i assume "ls_cache (s\<lparr>ls_clients := ls_clients s @ [c],
    ls_cache := (ls_cache s)(k \<mapsto> length (ls_clients s))\<rparr>) k' = Some i"
  then have "k' = k \<and> i = length (ls_clients s) \<or> ls_cache s k' = Some i" by (auto split: if_splits)
  with assms show "i < length (ls_clients (s\<lparr>ls_clients := ls_clients s @ [c],
        ls_cache := (ls_cache s)(k \<mapsto> length (ls_clients s))\<rparr>))"
    and "client_ok cfg net um k' (ls_clients (s\<lparr>ls_clients := ls_clients s @ [c],
        ls_cache := (ls_cache s)(k \<mapsto> length (ls_clients s))\<rparr>) ! i)"
    by (auto simp: logs_inv_def nth_append less_SucI)
qed (use assms in \<open>simp add: logs_inv_def\<close>)

lemma get_log_service_client_inv:
  assumes "logs_inv cfg (le_net env) (le_unmarshal_map env) s"
    and "get_log_service_client env cfg key s = (res, s1)"
  shows "logs_inv cfg (le_net env) (le_unmarshal_map env) s1 \<and>
         (\<forall>i. res = Inr i \<longrightarrow> ls_cache s1 key = Some i)"
proof (cases "ls_cache s key")
  case (Some i)
  with assms show ?thesis by (auto simp: get_log_service_client_def)
next
  case None
  show ?thesis
  proof (cases "fst (http_get (le_net env) (server_query_url cfg key))")
    case (Inl e)
    with assms None show ?thesis by (auto simp: get_log_service_client_def)
  next
    case response: (Inr response)
    show ?thesis
    proof (cases "le_unmarshal_map env response")
      case (Inl e)
      with assms None response show ?thesis by (auto simp: get_log_service_client_def)
    next
      case m: (Inr m)
      let ?c = "\<lparr>sls_endpoint = lg_sls_endpoint cfg, sls_project = gm_get m ''projectName'',
        sls_logstore = key, sls_key_id = gm_get m ''accessId'', sls_key_secret = gm_get m ''accessKey''\<rparr>"
      show ?thesis
      proof (cases "new_log_service_client env ?c")
        case (Inl e)
        with assms None response m show ?thesis by (auto simp: get_log_service_client_def)
      next
        case (Inr client)
        then have "client_ok cfg (le_net env) (le_unmarshal_map env) key client"
          using response m
          by (auto simp: client_ok_def server_project_def new_log_service_client_def split: if_splits)
        from logs_inv_add [OF _ this, of "s\<lparr>ls_queries := ls_queries s @ [key]\<rparr>"]
        show ?thesis using assms None response m Inr by (auto simp: get_log_service_client_def Let_def)
      qed
    qed
  qed
qed

lemma send_logs_inv:
  assumes "logs_inv cfg net um s" and "client_ok cfg net um k c" and "send_logs env c logs s = (err, s')"
  shows "logs_inv cfg net um s'"
  using assms by (auto simp: send_logs_def logs_inv_def client_ok_def push_of_def split: if_splits)

lemma set_client_inv:
  assumes "logs_inv cfg net um s" and "client_ok cfg net um k c"
    and "\<And>k'. ls_cache s k' = Some i \<Longrightarrow> k' = k"
  shows "logs_inv cfg net um (s\<lparr>ls_clients := (ls_clients s)[i := c]\<rparr>)"
  using assms by (auto simp: logs_inv_def) (metis nth_list_update_eq nth_list_update_neq)

lemma logs_inv_cache_inj:
  assumes "logs_inv cfg net um s" and "ls_cache s k = Some i" and "ls_cache s k' = Some i"
  shows "k' = k"
proof -
  have "cl_logstore (ls_clients s ! i) = k" "cl_logstore (ls_clients s ! i) = k'"
    using assms unfolding logs_inv_def client_ok_def by blast+
  then show ?thesis by simp
qed

text \<open>The successful path of a request, step by step.\<close>

lemma handle_logs_cases:
  assumes "handle_logs env cfg req s = Ret (status, s')"
  obtains (early) "s' = s" "status \<noteq> 200"
  | (no_client) key e where "get_log_service_client env cfg key s = (Inl e, s')" "status = 500"
  | (sent) key data i s1 logs client err where
      "logstore_key env cfg (lr_logstore req) = Ret (Inr key)" "logs_handle_payload env req = (data, [])"
      "get_log_service_client env cfg key s = (Inr i, s1)"
      "data_to_sls_logs env data (ls_clients s1 ! i) = Ret (logs, client)"
      "send_logs env client logs (s1\<lparr>ls_clients := (ls_clients s1)[i := client]\<rparr>) = (err, s')"
      "status = (if err = None then 200 else 500)"
proof -
  from assms obtain k where k: "logstore_key env cfg (lr_logstore req) = Ret k"
    by (auto simp: handle_logs_def bind_outcome_Ret_iff)
  obtain data errs where h: "logs_handle_payload env req = (data, errs)" by fastforce
  show thesis
  proof (cases k)
    case (Inl e)
    with assms k show thesis by (intro early) (auto simp: handle_logs_def)
  next
    case (Inr key)
    show thesis
    proof (cases errs)
      case (Cons e es)
      with assms k h Inr show thesis by (intro early) (auto simp: handle_logs_def)
    next
      case Nil
      obtain res s1 where g: "get_log_service_client env cfg key s = (res, s1)" by fastforce
      show thesis
      proof (cases res)
        case (Inl e)
        with assms k h Inr Nil g show thesis by (intro no_client) (auto simp: handle_logs_def)
      next
        case i: (Inr i)
        with assms k h Inr Nil g obtain logs client where
          d: "data_to_sls_logs env data (ls_clients s1 ! i) = Ret (logs, client)"
          by (auto simp: handle_logs_def bind_outcome_Ret_iff)
        obtain err s3 where t: "send_logs env client logs (s1\<lparr>ls_clients := (ls_clients s1)[i := client]\<rparr>) = (err, s3)"
          by fastforce
        have "s3 = s'" and "status = (if err = None then 200 else 500)"
          using assms k h Inr Nil g i d t by (auto simp: handle_logs_def split: option.splits)
        then show thesis
          using k h Inr Nil g i d t by (intro sent [of key data i s1 logs client err]) simp_all
      qed
    qed
  qed
qed

lemma logs_reachable_inv: "logs_reachable cfg net um s \<Longrightarrow> logs_inv cfg net um s"
proof (induction rule: logs_reachable.induct)
  case logs_init
  then show ?case by (simp add: logs_inv_def new_logs_state_def)
next
  case (logs_step s env req status s')
  then have inv: "logs_inv cfg (le_net env) (le_unmarshal_map env) s" by simp
  from logs_step(4) show ?case
  proof (cases rule: handle_logs_cases)
    case early
    with logs_step show ?thesis by simp
  next
    case no_client
    with get_log_service_client_inv [OF inv] logs_step(2,3) show ?thesis by metis
  next
    case (sent key data i s1 logs client err)
    note g = get_log_service_client_inv [OF inv sent(3)]
    then have c: "client_ok cfg net um key (ls_clients s1 ! i)"
      using logs_step(2,3) by (auto simp: logs_inv_def)
    then have c': "client_ok cfg net um key client"
      using data_to_sls_logs_client [OF sent(4)] by simp
    have "logs_inv cfg net um s1" "ls_cache s1 key = Some i"
      using g logs_step(2,3) by auto
    then have "logs_inv cfg net um (s1\<lparr>ls_clients := (ls_clients s1)[i := client]\<rparr>)"
      using set_client_inv [OF _ c', of s1 i] logs_inv_cache_inj [of cfg net um s1 key i] by blast
    then show ?thesis using send_logs_inv c' sent(5) by blast
  qed
qed

section \<open>Properties\<close>

text \<open>
  Over any sequence of requests, whatever the cache holds, everything pushed under a key goes
  to the project the server names for that key and to no other; nothing is pushed under an empty
  key or to an empty project.
\<close>

lemma logs_pushed_to_own_project:
  assumes "logs_reachable cfg net um s" and "p \<in> set (ls_pushed s)"
  shows "server_project cfg net um (lp_logstore p) = Some (lp_project p) \<and>
         lp_logstore p \<noteq> [] \<and> lp_project p \<noteq> []"
  using logs_reachable_inv [OF assms(1)] assms(2) by (auto simp: logs_inv_def)

text \<open>
  A request is answered with 200 exactly when it pushed one log with all its entries, tags
  and, if set, topic and source, and the producer took it; a cached key is not asked of the
  server again.
\<close>

lemma logs_request_pushed:
  assumes "handle_logs env cfg req s = Ret (200, s')"
  shows "\<exists>d key c. logs_handle_payload env req = (Some d, []) \<and> logstore_key env cfg (lr_logstore req) = Ret (Inr key) \<and>
           ls_pushed s' = ls_pushed s @ [push_of c
             [\<lparr>lc_time = le_now env,
               lc_contents = concat (ld_logs d) @ ld_tags d @
                 (if ld_topic d = [] then [] else [(''__topic__'', ld_topic d)]) @
                 (if ld_source d = [] then [] else [(''__source__'', ld_source d)])\<rparr>]] \<and>
           le_send env (last (ls_pushed s')) = None \<and>
           (ld_topic d \<noteq> [] \<longrightarrow> cl_topic c = ld_topic d) \<and> (ld_source d \<noteq> [] \<longrightarrow> cl_source c = ld_source d) \<and>
           (ls_cache s key \<noteq> None \<longrightarrow> ls_queries s' = ls_queries s)"
  using assms
proof (cases rule: handle_logs_cases)
  case (sent key data i s1 logs client err)
  obtain d where d: "data = Some d"
    using sent(4) by (cases data) (auto simp: data_to_sls_logs_def)
  have f: "ls_pushed s1 = ls_pushed s" "ls_cache s key \<noteq> None \<Longrightarrow> ls_queries s1 = ls_queries s"
    using sent(3) by (auto simp: get_log_service_client_def Let_def split: option.splits sum.splits)
  have err: "err = None" using sent(6) by (auto split: if_splits)
  have p: "ls_pushed s' = ls_pushed s @ [push_of client logs]" "le_send env (push_of client logs) = None"
    "ls_queries s' = ls_queries s1"
    using sent(5) err f by (auto simp: send_logs_def split: if_splits)
  have l: "logs = [\<lparr>lc_time = le_now env,
      lc_contents = concat (ld_logs d) @ ld_tags d @
        (if ld_topic d = [] then [] else [(''__topic__'', ld_topic d)]) @
        (if ld_source d = [] then [] else [(''__source__'', ld_source d)])\<rparr>]"
    "ld_topic d \<noteq> [] \<longrightarrow> cl_topic client = ld_topic d" "ld_source d \<noteq> [] \<longrightarrow> cl_source client = ld_source d"
    using sent(4) by (auto simp: data_to_sls_logs_def d Let_def set_topic_def set_source_def split: if_splits)
  show ?thesis
    using sent(1,2) d f p l by (intro exI [of _ d] exI [of _ key] exI [of _ client]) simp
qed auto

text \<open>
  The topic and the source of a request stay on the shared client: a later request of the
  same key that names none is pushed under those of the earlier request.
\<close>

lemma logs_topic_leaks:
  assumes "ls_cache s key = Some i" and "i < length (ls_clients s)" and "cl_logstore (ls_clients s ! i) = key"
    and "key \<noteq> []" and "\<not> dc_enable (lg_decrypt cfg)"
    and "logs_handle_payload env reqA = (Some a, [])" and "ld_topic a \<noteq> []" and "ld_source a \<noteq> []"
    and "logs_handle_payload env reqB = (Some b, [])" and "ld_topic b = []" and "ld_source b = []"
    and "lr_logstore reqA = key" and "lr_logstore reqB = key" and "\<And>p. le_send env p = None"
  shows "\<exists>s1 s2 p. handle_logs env cfg reqA s = Ret (200, s1) \<and> handle_logs env cfg reqB s1 = Ret (200, s2) \<and>
           ls_pushed s2 = ls_pushed s1 @ [p] \<and> lp_topic p = ld_topic a \<and> lp_source p = ld_source a \<and>
           concat (map lc_contents (lp_logs p)) = concat (ld_logs b) @ ld_tags b"
  using assms
  by (simp add: handle_logs_def logstore_key_def Let_def get_log_service_client_def data_to_sls_logs_def
      send_logs_def set_topic_def set_source_def push_of_def)

text \<open>
  A shutdown after a successful start leaves the started server serving, since the start
  recorded it only in a copy of the extension.
\<close>

lemma logs_shutdown_leaves_server:
  assumes "new_logs_extension cfg = Inr l" and "server \<noteq> 0"
    and "logs_start (Inr server) None l serving = (err, l', serving')"
  shows "err = None \<and> server \<in> set (logs_shutdown l' serving')"
  using assms by (auto simp: logs_start_def logs_shutdown_def new_logs_extension_def split: if_splits)

definition sample_logs_config :: logs_config where
  "sample_logs_config = \<lparr>lg_server_endpoint = ''http://h'', lg_sls_endpoint = ''sls'',
     lg_decrypt = \<lparr>dc_enable = False, dc_secret_key = [], dc_iv = []\<rparr>\<rparr>"

definition sample_logs_env :: logs_env where
  "sample_logs_env = \<lparr>le_dec = (\<lambda>k b. b), le_unmarshal_map = (\<lambda>r. Inr [(''projectName'', r)]),
     le_unmarshal_data = (\<lambda>b. Inr (Some \<lparr>ld_logs = [[(''m'', ''hello'')]], ld_tags = [], ld_topic = b, ld_source = b\<rparr>)),
     le_net = (\<lambda>_. Reply 200 ''200 OK'' (Inr ''proj'')), le_hostname = ''host'', 
     le_interfaces = [\<lparr>ia_ip_net = True, ia_loopback = False, ia_v4 = True, ia_text = ''10.0.0.1''\<rparr>], le_now = 5,
     le_send = (\<lambda>_. None)\<rparr>"

definition sample_logs_request :: "string \<Rightarrow> logs_request" where
  "sample_logs_request body = \<lparr>lr_logstore = ''k'', lr_body = Inr body, lr_drain_errors = []\<rparr>"

lemmas sample_logs_defs = sample_logs_config_def sample_logs_env_def sample_logs_request_def

definition sample_logs_state :: logs_state where
  "sample_logs_state = (case handle_logs sample_logs_env sample_logs_config (sample_logs_request []) new_logs_state of
     Ret (st, s) \<Rightarrow> s | Panic \<Rightarrow> new_logs_state)"

lemma sample_logs_served:
  "handle_logs sample_logs_env sample_logs_config (sample_logs_request []) new_logs_state = Ret (200, sample_logs_state)"
  "ls_cache sample_logs_state ''k'' = Some 0" "length (ls_clients sample_logs_state) = 1"
  "cl_logstore (ls_clients sample_logs_state ! 0) = ''k''"
  by (simp_all add: sample_logs_state_def sample_logs_defs handle_logs_def logstore_key_def new_logs_state_def
      get_log_service_client_def http_get_def status_ok_def new_log_service_client_def logs_handle_payload_def
      data_to_sls_logs_def send_logs_def gm_get_def Let_def)

lemma logs_request_pushed_witness: "length (ls_pushed sample_logs_state) = 1"
proof -
  have "ls_pushed new_logs_state = []" by (simp add: new_logs_state_def)
  with logs_request_pushed [OF sample_logs_served(1)] show ?thesis by auto
qed

lemma logs_pushed_to_own_project_witness:
  "\<exists>p. ls_pushed sample_logs_state = [p] \<and>
     server_project sample_logs_config (le_net sample_logs_env) (le_unmarshal_map sample_logs_env) (lp_logstore p) =
       Some (lp_project p)"
proof -
  have "length (ls_pushed sample_logs_state) = 1"
    by (simp add: sample_logs_state_def sample_logs_defs handle_logs_def logstore_key_def new_logs_state_def
        get_log_service_client_def http_get_def status_ok_def new_log_service_client_def logs_handle_payload_def
        data_to_sls_logs_def send_logs_def gm_get_def Let_def)
  then obtain p where p: "ls_pushed sample_logs_state = [p]"
    by (auto simp: length_Suc_conv)
  have "logs_reachable sample_logs_config (le_net sample_logs_env) (le_unmarshal_map sample_logs_env) sample_logs_state"
    by (rule logs_step [OF logs_init refl refl sample_logs_served(1)])
  from logs_pushed_to_own_project [OF this, of p] p show ?thesis by simp
qed

lemma logs_topic_leaks_witness:
  "\<exists>s1 s2 p. handle_logs sample_logs_env sample_logs_config (sample_logs_request ''A'') sample_logs_state = Ret (200, s1) \<and>
     handle_logs sample_logs_env sample_logs_config (sample_logs_request []) s1 = Ret (200, s2) \<and>
     ls_pushed s2 = ls_pushed s1 @ [p] \<and> lp_topic p = ''A''"
proof -
  have "logs_handle_payload sample_logs_env (sample_logs_request b) =
      (Some \<lparr>ld_logs = [[(''m'', ''hello'')]], ld_tags = [], ld_topic = b, ld_source = b\<rparr>, [])" for b
    by (simp add: logs_handle_payload_def sample_logs_defs)
  moreover have "lr_logstore (sample_logs_request b) = ''k''" "\<not> dc_enable (lg_decrypt sample_logs_config)"
    "le_send sample_logs_env p = None" for b p
    by (simp_all add: sample_logs_defs)
  ultimately show ?thesis
    using logs_topic_leaks [of sample_logs_state "''k''" 0 sample_logs_config sample_logs_env "sample_logs_request ''A''"
        _ "sample_logs_request []"] sample_logs_served(2-4)
    by fastforce
qed

lemma logs_shutdown_leaves_server_witness:
  "\<exists>l l' serving. new_logs_extension sample_logs_config = Inr l \<and> logs_start (Inr 1) None l [] = (None, l', serving) \<and>
     1 \<in> set (logs_shutdown l' serving)"
proof -
  obtain l where l: "new_logs_extension sample_logs_config = Inr l"
    by (simp add: new_logs_extension_def sample_logs_config_def)
  obtain err l' serving where s: "logs_start (Inr 1) None l [] = (err, l', serving)" by (metis prod_cases3)
  from logs_shutdown_leaves_server [OF l _ s] l s show ?thesis by auto
qed

end
