(* ===== verification/BatchPerSignal.thy ===== *)
theory BatchPerSignal
  imports Pdata
begin

text \<open>
  \<open>pkg/batchpersignal/batchpersignal.go\<close> of the bundled contrib module: splitting a batch of
  spans or of log records into batches of one trace each.  The two functions of the file are one
  loop over different item types; \<open>split_batch\<close> is that loop for items with a key.  A map entry
  of the loop is a reference to a resource of the result, here the position of its batch in the
  result.  Schema URLs, which are copied next to the resource and the scope, are not part of the
  telemetry records.
\<close>

section \<open>The loop\<close>

text \<open>A new batch holds a copy of the resource with one copy of the scope, without items.\<close>

definition new_batch :: "'a ot_resource \<Rightarrow> 'a scoped \<Rightarrow> 'a telemetry" where
  "new_batch r sc = [r\<lparr>res_scopes := [sc\<lparr>scope_items := []\<rparr>]\<rparr>]"

text \<open>\<open>batches[key].ScopeSpans().At(0).Spans().AppendEmpty()\<close>, then \<open>CopyTo\<close>.\<close>

definition append_item :: "'a \<Rightarrow> 'a telemetry \<Rightarrow> 'a telemetry" where
  "append_item x b =
     (case b of
        r # rs \<Rightarrow>
          (case res_scopes r of
             sc # scs \<Rightarrow> r\<lparr>res_scopes := sc\<lparr>scope_items := scope_items sc @ [x]\<rparr> # scs\<rparr> # rs
           | [] \<Rightarrow> b)
      | [] \<Rightarrow> b)"

text \<open>The body of the innermost loop, with the map \<open>batches\<close> and the slice \<open>result\<close>.\<close>

definition split_item ::
  "('a \<Rightarrow> 'k) \<Rightarrow> 'a ot_resource \<Rightarrow> 'a scoped \<Rightarrow> 'a \<Rightarrow>
   ('k \<rightharpoonup> nat) \<times> 'a telemetry list \<Rightarrow> ('k \<rightharpoonup> nat) \<times> 'a telemetry list" where
  "split_item key r sc x st =
     (let (batches, result) =
            (case fst st (key x) of
               None \<Rightarrow> ((fst st)(key x \<mapsto> length (snd st)), snd st @ [new_batch r sc])
             | Some _ \<Rightarrow> st);
          i = (case batches (key x) of Some n \<Rightarrow> n | None \<Rightarrow> 0)
      in (batches, result[i := append_item x (result ! i)]))"

definition split_scope ::
  "('a \<Rightarrow> 'k) \<Rightarrow> 'a ot_resource \<Rightarrow> 'a scoped \<Rightarrow> 'a telemetry list \<Rightarrow> 'a telemetry list" where
  "split_scope key r sc result = snd (fold (split_item key r sc) (scope_items sc) (Map.empty, result))"

definition split_batch :: "('a \<Rightarrow> 'k) \<Rightarrow> 'a telemetry \<Rightarrow> 'a telemetry list" where
  "split_batch key t = fold (\<lambda>r. fold (split_scope key r) (res_scopes r)) t []"

definition split_traces :: "traces \<Rightarrow> traces list" where
  "split_traces = split_batch os_trace_id"

record log_record =
  lr_trace_id :: "byte list"

definition split_logs :: "'m log_record_scheme telemetry \<Rightarrow> 'm log_record_scheme telemetry list" where
  "split_logs = split_batch lr_trace_id"

section \<open>The loop against grouping\<close>

text \<open>The batch of a group, and the positions of the groups in the result.\<close>

definition batch_of :: "'a ot_resource \<Rightarrow> 'a scoped \<Rightarrow> 'a list \<Rightarrow> 'a telemetry" where
  "batch_of r sc xs = [r\<lparr>res_scopes := [sc\<lparr>scope_items := xs\<rparr>]\<rparr>]"

lemma batch_of_simps [simp]:
  "new_batch r sc = batch_of r sc []"
  "append_item x (batch_of r sc xs) = batch_of r sc (xs @ [x])"
  "items (batch_of r sc xs) = xs"
  by (simp_all add: new_batch_def batch_of_def append_item_def items_def)

fun positions :: "nat \<Rightarrow> ('k \<times> 'v) list \<Rightarrow> 'k \<rightharpoonup> nat" where
  "positions n [] = Map.empty"
| "positions n ((k, v) # gs) = (positions (Suc n) gs)(k \<mapsto> n)"

lemma positions_dom: "positions n gs k = None \<longleftrightarrow> k \<notin> fst ` set gs"
  by (induction n gs rule: positions.induct) auto

lemma positions_snoc:
  "k \<notin> fst ` set gs \<Longrightarrow> positions n (gs @ [(k, v)]) = (positions n gs)(k \<mapsto> n + length gs)"
  by (induction n gs rule: positions.induct) (auto simp: fun_upd_twist)

lemma positions_mid: "k \<notin> fst ` set g1 \<Longrightarrow> positions n (g1 @ (k, v) # g2) k = Some (n + length g1)"
  by (induction n g1 rule: positions.induct) auto

lemma positions_values: "map fst gs = map fst gs' \<Longrightarrow> positions n gs = positions n gs'"
proof (induction gs arbitrary: n gs')
  case (Cons g gs)
  then show ?case by (cases g; cases gs') auto
qed simp

lemma assoc_append_new: "k \<notin> fst ` set gs \<Longrightarrow> assoc_append k v gs = gs @ [(k, [v])]"
  by (induction k v gs rule: assoc_append.induct) auto

lemma assoc_append_old:
  "k \<notin> fst ` set g1 \<Longrightarrow> assoc_append k v (g1 @ (k, vs) # g2) = g1 @ (k, vs @ [v]) # g2"
  by (induction g1) auto

lemma split_item_group:
  defines "mk \<equiv> \<lambda>r sc. \<lambda>g. batch_of r sc (snd g)"
  shows "split_item key r sc x (positions (length acc) gs, acc @ map (mk r sc) gs) =
         (positions (length acc) (assoc_append (key x) x gs), acc @ map (mk r sc) (assoc_append (key x) x gs))"
proof (cases "key x \<in> fst ` set gs")
  case False
  then have "positions (length acc) gs (key x) = None" by (simp add: positions_dom)
  with False show ?thesis
    by (simp add: split_item_def Let_def mk_def assoc_append_new positions_snoc nth_append list_update_append)
next
  case True
  then obtain v where "(key x, v) \<in> set gs" by force
  then obtain g1 vs g2 where gs: "gs = g1 @ (key x, vs) # g2" and g1: "key x \<notin> fst ` set g1"
    using split_list_first_prop [of gs "\<lambda>g. fst g = key x"] by force
  have "positions n (g1 @ (key x, vs) # g2) = positions n (g1 @ (key x, vs @ [x]) # g2)" for n
    by (rule positions_values) simp
  with g1 show ?thesis
    unfolding gs by (simp add: split_item_def Let_def mk_def assoc_append_old positions_mid nth_append list_update_append)
qed

lemma split_scope_group:
  "split_scope key r sc acc = acc @ map (\<lambda>g. batch_of r sc (snd g)) (group_by key (\<lambda>x. x) (scope_items sc) [])"
proof -
  have "fold (split_item key r sc) xs (positions (length acc) gs, acc @ map (\<lambda>g. batch_of r sc (snd g)) gs) =
    (positions (length acc) (group_by key (\<lambda>x. x) xs gs),
     acc @ map (\<lambda>g. batch_of r sc (snd g)) (group_by key (\<lambda>x. x) xs gs))" for xs gs
    by (induction xs arbitrary: gs) (simp_all add: split_item_group)
  from this [of "scope_items sc" "[]"] show ?thesis by (simp add: split_scope_def)
qed

lemma fold_appending: "(\<And>x acc. f x acc = acc @ g x) \<Longrightarrow> fold f xs acc = acc @ concat (map g xs)"
  by (induction xs arbitrary: acc) simp_all

lemma split_batch_groups:
  "split_batch key t =
     concat (map (\<lambda>r. concat (map (\<lambda>sc.
       map (\<lambda>g. batch_of r sc (snd g)) (group_by key (\<lambda>x. x) (scope_items sc) [])) (res_scopes r))) t)"
  unfolding split_batch_def
  by (subst fold_appending [where g = "\<lambda>r. concat (map (\<lambda>sc.
        map (\<lambda>g. batch_of r sc (snd g)) (group_by key (\<lambda>x. x) (scope_items sc) [])) (res_scopes r))"])
     (simp_all add: fold_appending split_scope_group)

text \<open>The keys of the groups, in the order of their first use.\<close>

definition first_uses :: "'k list \<Rightarrow> 'k list" where
  "first_uses ks = rev (remdups (rev ks))"

lemma group_by_first_uses:
  "group_by key val xs [] = map (\<lambda>k. (k, map val [x \<leftarrow> xs. key x = k])) (first_uses (map key xs))"
proof -
  have keys: "map fst (assoc_append k v gs) = (if k \<in> fst ` set gs then map fst gs else map fst gs @ [k])" for k v and gs :: "('a \<times> 'b list) list"
    by (induction k v gs rule: assoc_append.induct) auto
  have fsts: "map fst (group_by key val xs []) = first_uses (map key xs)" for xs
    by (induction xs rule: rev_induct) (simp_all add: group_by_append keys first_uses_def flip: set_map)
  have "map (\<lambda>k. (k, map val [x \<leftarrow> xs. key x = k])) (map fst gs) = gs"
    if "\<And>k vs. (k, vs) \<in> set gs \<Longrightarrow> vs = map val [x \<leftarrow> xs. key x = k]" for gs
    using that by (auto simp: comp_def intro!: map_idI)
  from this [of "group_by key val xs []"] show ?thesis
    by (simp add: fsts group_by_member)
qed

section \<open>Properties\<close>

lemma batches_items:
  "mset (concat (map items (split_batch key t))) = mset (items t)"
proof -
  have group: "mset (concat (map items (map (\<lambda>g. batch_of r sc (snd g)) gs))) = mset (concat (map snd gs))" for r sc gs
    by (induction gs) simp_all
  have scopes: "mset (concat (map items (concat (map (\<lambda>sc.
      map (\<lambda>g. batch_of r sc (snd g)) (group_by key (\<lambda>x. x) (scope_items sc) [])) scs)))) =
      mset (concat (map scope_items scs))" for r scs
    by (induction scs) (simp_all add: group group_by_mset del: map_map)
  show ?thesis
    unfolding split_batch_groups items_def [of t]
    by (induction t) (simp_all add: scopes del: map_map)
qed

text \<open>
  C37: splitting yields, for each scope and each trace id in it, one batch with that resource, that
  scope and exactly the spans of the trace in their order; nothing is lost or duplicated.
\<close>

theorem split_traces_batches:
  "split_traces t =
     concat (map (\<lambda>r. concat (map (\<lambda>sc.
       map (\<lambda>tid. [r\<lparr>res_scopes := [sc\<lparr>scope_items := [s \<leftarrow> scope_items sc. os_trace_id s = tid]\<rparr>]\<rparr>])
         (first_uses (map os_trace_id (scope_items sc)))) (res_scopes r))) t) \<and>
   mset (concat (map items (split_traces t))) = mset (items t)"
  by (simp add: split_traces_def batches_items)
     (simp add: split_batch_groups group_by_first_uses batch_of_def comp_def)

text \<open>Every batch has at least one item, and all of one key.\<close>

lemma split_batch_member:
  assumes "b \<in> set (split_batch key t)"
  shows "\<exists>r sc k x xs. b = batch_of r sc (x # xs) \<and> (\<forall>y \<in> set (x # xs). key y = k)"
proof -
  from assms obtain r sc k vs where "(k, vs) \<in> set (group_by key (\<lambda>x. x) (scope_items sc) [])"
    and b: "b = batch_of r sc vs"
    by (auto simp: split_batch_groups)
  then have vs: "vs = [x \<leftarrow> scope_items sc. key x = k] \<and> vs \<noteq> []"
    unfolding group_by_member list.map_ident by blast
  then have "\<forall>y \<in> set vs. key y = k" by (metis (mono_tags, lifting) mem_Collect_eq set_filter)
  moreover from vs obtain x xs where "vs = x # xs" by (meson neq_Nil_conv)
  ultimately have "b = batch_of r sc (x # xs)" and "\<forall>y \<in> set (x # xs). key y = k"
    using b by simp_all
  then show ?thesis by blast
qed

end
