(* ===== verification/RingBuffer.thy ===== *)
theory RingBuffer
  imports Prelude
begin

text \<open>
  \<open>processor/groupbytraceprocessor/ring_buffer.go\<close>: the bounded buffer of the trace ids a worker
  has in flight.  The buffer refines a window of the last \<open>size\<close> insertions, in which a deletion
  leaves a hole.
\<close>

type_synonym trace_id = "byte list"

definition empty_trace_id :: trace_id where
  "empty_trace_id = replicate 16 0"

record ring_buffer =
  rb_index :: int
  rb_size :: int
  rb_ids :: "trace_id list"
  rb_id_to_index :: "trace_id \<rightharpoonup> nat"

text \<open>\<open>make\<close> panics on a negative size.\<close>

definition new_ring_buffer :: "int \<Rightarrow> ring_buffer outcome" where
  "new_ring_buffer n =
     (if n < 0 then Panic
      else Ret \<lparr>rb_index = -1, rb_size = n, rb_ids = replicate (nat n) empty_trace_id,
                rb_id_to_index = Map.empty\<rparr>)"

definition ring_contains :: "trace_id \<Rightarrow> ring_buffer \<Rightarrow> bool" where
  "ring_contains tid r = (rb_id_to_index r tid \<noteq> None)"

definition ring_delete :: "trace_id \<Rightarrow> ring_buffer \<Rightarrow> bool \<times> ring_buffer" where
  "ring_delete tid r =
     (case rb_id_to_index r tid of
        None \<Rightarrow> (False, r)
      | Some i \<Rightarrow> (True, r\<lparr>rb_id_to_index := (rb_id_to_index r)(tid := None),
                          rb_ids := (rb_ids r)[i := empty_trace_id]\<rparr>))"

text \<open>The remainder by a size of 0 panics.\<close>

definition ring_put :: "trace_id \<Rightarrow> ring_buffer \<Rightarrow> (trace_id \<times> ring_buffer) outcome" where
  "ring_put tid r =
     (if rb_size r = 0 then Panic
      else
        let i = (rb_index r + 1) mod rb_size r;
            r1 = r\<lparr>rb_index := i\<rparr>;
            evicted = rb_ids r1 ! nat i;
            r2 = (if evicted \<noteq> empty_trace_id then snd (ring_delete evicted r1) else r1)
        in Ret (evicted, r2\<lparr>rb_ids := (rb_ids r2)[nat i := tid],
                            rb_id_to_index := (rb_id_to_index r2)(tid \<mapsto> nat i)\<rparr>))"

section \<open>Well-formed buffers\<close>

definition ring_wf :: "ring_buffer \<Rightarrow> bool" where
  "ring_wf r \<longleftrightarrow> 0 < rb_size r \<and> length (rb_ids r) = nat (rb_size r) \<and> -1 \<le> rb_index r \<and>
     rb_index r < rb_size r \<and> rb_id_to_index r empty_trace_id = None \<and>
     (\<forall>k i. k \<noteq> empty_trace_id \<longrightarrow>
        rb_id_to_index r k = Some i \<longleftrightarrow> i < length (rb_ids r) \<and> rb_ids r ! i = k)"

lemma ring_wf_new: "0 < n \<Longrightarrow> \<exists>r. new_ring_buffer n = Ret r \<and> ring_wf r \<and> rb_size r = n"
  by (auto simp: new_ring_buffer_def ring_wf_def)

lemma ring_wf_lookup:
  "ring_wf r \<Longrightarrow> rb_id_to_index r k = Some i \<longleftrightarrow> k \<noteq> empty_trace_id \<and> i < length (rb_ids r) \<and> rb_ids r ! i = k"
  by (cases "k = empty_trace_id") (auto simp: ring_wf_def)

lemma ring_wf_unique:
  assumes "ring_wf r" and "i < length (rb_ids r)" and "j < length (rb_ids r)"
    and "rb_ids r ! i = rb_ids r ! j" and "rb_ids r ! i \<noteq> empty_trace_id"
  shows "i = j"
  using assms ring_wf_lookup [OF assms(1), of "rb_ids r ! i" i] ring_wf_lookup [OF assms(1), of "rb_ids r ! i" j]
  by simp

lemma ring_wf_contains: "ring_wf r \<Longrightarrow> ring_contains k r \<longleftrightarrow> k \<noteq> empty_trace_id \<and> k \<in> set (rb_ids r)"
  using ring_wf_lookup [of r k] unfolding ring_contains_def in_set_conv_nth by auto

lemma ring_delete_size [simp]:
  "rb_size (snd (ring_delete k r)) = rb_size r" "rb_index (snd (ring_delete k r)) = rb_index r"
  "length (rb_ids (snd (ring_delete k r))) = length (rb_ids r)"
  by (simp_all add: ring_delete_def split: option.splits)

lemma ring_wf_delete:
  assumes "ring_wf r"
  shows "ring_wf (snd (ring_delete k r))"
proof (cases "rb_id_to_index r k")
  case (Some i)
  then have i: "i < length (rb_ids r)" "rb_ids r ! i = k" "k \<noteq> empty_trace_id"
    using assms by (simp_all add: ring_wf_lookup)
  have "((rb_id_to_index r)(k := None)) k' = Some j \<longleftrightarrow>
        j < length (rb_ids r) \<and> (rb_ids r)[i := empty_trace_id] ! j = k'" if "k' \<noteq> empty_trace_id" for k' j
  proof (cases "j = i")
    case True
    then show ?thesis using that i ring_wf_lookup [OF assms, of k' i] by auto
  next
    case False
    then show ?thesis
      using that i ring_wf_lookup [OF assms, of k' j] ring_wf_unique [OF assms, of j i] by auto
  qed
  moreover have "snd (ring_delete k r) =
      r\<lparr>rb_id_to_index := (rb_id_to_index r)(k := None), rb_ids := (rb_ids r)[i := empty_trace_id]\<rparr>"
    by (simp add: ring_delete_def Some)
  ultimately show ?thesis
    using assms i(3) by (simp add: ring_wf_def)
qed (use assms in \<open>simp add: ring_delete_def\<close>)

text \<open>The slot of the next insertion.\<close>

definition next_slot :: "ring_buffer \<Rightarrow> nat" where
  "next_slot r = nat ((rb_index r + 1) mod rb_size r)"

lemma next_slot_bound: "ring_wf r \<Longrightarrow> next_slot r < length (rb_ids r)"
  by (simp add: ring_wf_def next_slot_def)

text \<open>
  In a well-formed buffer, the deletion of the evicted id only touches the slot that is written
  next.
\<close>

lemma ring_put_wf_eq:
  assumes "ring_wf r"
  shows "ring_put k r = Ret (rb_ids r ! next_slot r,
           r\<lparr>rb_index := int (next_slot r), rb_ids := (rb_ids r)[next_slot r := k],
             rb_id_to_index := ((rb_id_to_index r)(rb_ids r ! next_slot r := None))(k \<mapsto> next_slot r)\<rparr>)"
proof -
  have size: "0 < rb_size r" and slot: "(rb_index r + 1) mod rb_size r = int (next_slot r)"
    using assms by (simp_all add: ring_wf_def next_slot_def)
  let ?e = "rb_ids r ! next_slot r"
  show ?thesis
  proof (cases "?e = empty_trace_id")
    case True
    then have "(rb_id_to_index r)(?e := None) = rb_id_to_index r"
      using assms by (auto simp: ring_wf_def)
    with True size slot show ?thesis by (simp add: ring_put_def Let_def)
  next
    case False
    then have "rb_id_to_index r ?e = Some (next_slot r)"
      using ring_wf_lookup [OF assms] next_slot_bound [OF assms] by simp
    with False size slot show ?thesis by (simp add: ring_put_def Let_def ring_delete_def)
  qed
qed

lemma ring_wf_put:
  assumes "ring_wf r" and "k \<noteq> empty_trace_id" and "\<not> ring_contains k r" and "ring_put k r = Ret (e, r')"
  shows "ring_wf r'" and "rb_size r' = rb_size r"
proof -
  let ?i = "next_slot r"
  have i: "?i < length (rb_ids r)" by (rule next_slot_bound [OF assms(1)])
  have k: "k \<notin> set (rb_ids r)" using assms by (simp add: ring_wf_contains)
  have map: "(((rb_id_to_index r)(rb_ids r ! ?i := None))(k \<mapsto> ?i)) k' = Some j \<longleftrightarrow>
      j < length (rb_ids r) \<and> (rb_ids r)[?i := k] ! j = k'" if "k' \<noteq> empty_trace_id" for k' j
  proof (cases "j = ?i")
    case True
    then show ?thesis using that i k ring_wf_lookup [OF assms(1), of k' ?i] by auto
  next
    case False
    then show ?thesis
      using that i k ring_wf_lookup [OF assms(1), of k' j] ring_wf_unique [OF assms(1), of j ?i]
      by (auto dest: nth_mem)
  qed
  have r': "r' = r\<lparr>rb_index := int ?i, rb_ids := (rb_ids r)[?i := k],
             rb_id_to_index := ((rb_id_to_index r)(rb_ids r ! ?i := None))(k \<mapsto> ?i)\<rparr>"
    using assms(4) unfolding ring_put_wf_eq [OF assms(1)] by blast
  show "rb_size r' = rb_size r" by (simp add: r')
  show "ring_wf r'"
    using assms(1,2) map i by (auto simp: r' ring_wf_def)
qed

lemma ring_bounded:
  assumes "ring_wf r"
  shows "finite (dom (rb_id_to_index r))" and "card (dom (rb_id_to_index r)) \<le> nat (rb_size r)"
proof -
  have sub: "dom (rb_id_to_index r) \<subseteq> set (rb_ids r)"
    using ring_wf_contains [OF assms] by (auto simp: ring_contains_def)
  then show "finite (dom (rb_id_to_index r))" by (rule finite_subset) simp
  have "card (dom (rb_id_to_index r)) \<le> card (set (rb_ids r))" using sub by (simp add: card_mono)
  also have "\<dots> \<le> length (rb_ids r)" by (rule card_length)
  finally show "card (dom (rb_id_to_index r)) \<le> nat (rb_size r)" using assms by (simp add: ring_wf_def)
qed

section \<open>The window of the last insertions\<close>

text \<open>
  The abstract buffer: the last \<open>size\<close> inserted ids, the newest first; the empty id marks a slot
  that is free.
\<close>

definition window :: "ring_buffer \<Rightarrow> trace_id list" where
  "window r = map (\<lambda>j. rb_ids r ! nat ((rb_index r - int j) mod rb_size r)) [0..<nat (rb_size r)]"

definition window_put :: "trace_id \<Rightarrow> trace_id list \<Rightarrow> trace_id list" where
  "window_put k w = k # butlast w"

definition window_delete :: "trace_id \<Rightarrow> trace_id list \<Rightarrow> trace_id list" where
  "window_delete k w = map (\<lambda>x. if x = k then empty_trace_id else x) w"

lemma window_new: "new_ring_buffer n = Ret r \<Longrightarrow> window r = replicate (nat n) empty_trace_id"
  by (auto simp: new_ring_buffer_def window_def map_replicate_const intro!: nth_equalityI split: if_splits)

lemma window_set:
  assumes "ring_wf r"
  shows "set (window r) = set (rb_ids r)"
proof
  show "set (window r) \<subseteq> set (rb_ids r)"
    using assms by (auto simp: window_def ring_wf_def nat_less_iff)
  have "rb_ids r ! i \<in> set (window r)" if "i < length (rb_ids r)" for i
  proof -
    let ?n = "rb_size r" and ?j = "nat ((rb_index r - int i) mod rb_size r)"
    have n: "0 < ?n" "length (rb_ids r) = nat ?n" using assms by (simp_all add: ring_wf_def)
    have "(rb_index r - (rb_index r - int i) mod ?n) mod ?n = int i mod ?n"
      by (metis add_diff_cancel_left' diff_add_cancel mod_diff_right_eq)
    with n that have "nat ((rb_index r - int ?j) mod ?n) = i" by simp
    moreover have "?j < nat ?n" using n by (simp add: nat_less_iff)
    ultimately show ?thesis 
      unfolding window_def by (metis (no_types, lifting) add_0 atLeast0LessThan atLeastLessThan_upt image_eqI lessThan_iff list.set_map)
  qed
  then show "set (rb_ids r) \<subseteq> set (window r)" by (auto simp: in_set_conv_nth)
qed
lemma window_put:
  assumes "ring_wf r" and "ring_put k r = Ret (e, r')"
  shows "window r' = window_put k (window r)" and "e = last (window r)"
proof -
  let ?n = "rb_size r" and ?i = "next_slot r"
  have n: "0 < ?n" "length (rb_ids r) = nat ?n" using assms(1) by (simp_all add: ring_wf_def)
  have i: "int ?i = (rb_index r + 1) mod ?n" and i_lt: "?i < nat ?n"
    using n by (simp_all add: next_slot_def nat_less_iff)
  have r': "r' = r\<lparr>rb_index := int ?i, rb_ids := (rb_ids r)[?i := k],
             rb_id_to_index := ((rb_id_to_index r)(rb_ids r ! ?i := None))(k \<mapsto> ?i)\<rparr>"
    and e: "e = rb_ids r ! ?i"
    using assms(2) unfolding ring_put_wf_eq [OF assms(1)] by blast+
  have slot: "(int ?i - int (Suc j)) mod ?n = (rb_index r - int j) mod ?n" for j
    unfolding i by (simp add: mod_diff_left_eq)
  have other: "nat ((rb_index r - int j) mod ?n) \<noteq> ?i" if "Suc j < nat ?n" for j
  proof
    assume "nat ((rb_index r - int j) mod ?n) = ?i"
    with n have "(rb_index r - int j) mod ?n = (rb_index r + 1) mod ?n"
      by (metis i int_nat_eq pos_mod_sign)
    then have "?n dvd (rb_index r - int j) - (rb_index r + 1)" by (simp only: mod_eq_dvd_iff)
    also have "(rb_index r - int j) - (rb_index r + 1) = - int (Suc j)" by simp
    finally have "?n dvd int (Suc j)" by (simp only: dvd_minus_iff)
    with that show False using zdvd_imp_le by fastforce
  qed
  obtain m where m: "nat ?n = Suc m" using n by (metis Suc_pred' zero_less_nat_eq)
  have w: "window r = map (\<lambda>j. rb_ids r ! nat ((rb_index r - int j) mod ?n)) [0..<m] @
                       [rb_ids r ! nat ((rb_index r - int m) mod ?n)]"
    by (simp add: window_def m)
  have "window r' = rb_ids r' ! ?i # map (\<lambda>j. rb_ids r' ! nat ((int ?i - int (Suc j)) mod ?n)) [0..<m]"
  proof -
    have "nat (int ?i mod ?n) = ?i" using i_lt n by simp
    then show ?thesis
      by (simp add: window_def r' m upt_conv_Cons comp_def del: upt_Suc flip: map_Suc_upt)
  qed
  also have "\<dots> = k # map (\<lambda>j. rb_ids r ! nat ((rb_index r - int j) mod ?n)) [0..<m]"
    using other [THEN not_sym] i_lt n by (simp only: slot r' m) simp
  finally show "window r' = window_put k (window r)" by (simp add: window_put_def w)
  have "(rb_index r - int m) mod ?n = (rb_index r + 1) mod ?n"
  proof -
    have "int m = ?n - 1" using m n by simp
    then have "rb_index r - int m = rb_index r + 1 - ?n" by simp
    then show ?thesis by (metis minus_mod_self2)
  qed
  then show "e = last (window r)" by (simp add: w e next_slot_def)
qed

lemma window_delete:
  assumes "ring_wf r"
  shows "window (snd (ring_delete k r)) = window_delete k (window r)"
proof (cases "rb_id_to_index r k")
  case None
  then have "k = empty_trace_id \<or> k \<notin> set (window r)"
    using ring_wf_contains [OF assms, of k] by (simp add: ring_contains_def window_set [OF assms])
  then have "window_delete k (window r) = window r"
    by (auto simp: window_delete_def intro: map_idI)
  with None show ?thesis by (simp add: ring_delete_def)
next
  case (Some i)
  then have i: "i < length (rb_ids r)" "rb_ids r ! i = k" "k \<noteq> empty_trace_id"
    using ring_wf_lookup [OF assms] by simp_all
  have del: "snd (ring_delete k r) =
      r\<lparr>rb_id_to_index := (rb_id_to_index r)(k := None), rb_ids := (rb_ids r)[i := empty_trace_id]\<rparr>"
    by (simp add: ring_delete_def Some)
  have "(rb_ids r)[i := empty_trace_id] ! j = (if rb_ids r ! j = k then empty_trace_id else rb_ids r ! j)"
    if "j < length (rb_ids r)" for j
    using that i ring_wf_unique [OF assms that i(1)] by (auto simp: nth_list_update)
  moreover have "nat ((rb_index r - int j) mod rb_size r) < length (rb_ids r)" for j
    using assms by (simp add: ring_wf_def nat_less_iff)
  ultimately show ?thesis by (simp add: del window_def window_delete_def comp_def)
qed

section \<open>Properties\<close>



text \<open>
  A span with the empty trace id breaks the bound: its slot looks free, so the id it is
  overwritten with joins the map while the empty id stays in it.
\<close>

lemma empty_id_breaks_bound:
  "\<exists>r r1 r2 e1 e2. new_ring_buffer 1 = Ret r \<and> ring_put empty_trace_id r = Ret (e1, r1) \<and>
     ring_put (replicate 16 1) r1 = Ret (e2, r2) \<and>
     ring_contains empty_trace_id r2 \<and> ring_contains (replicate 16 1) r2"
  by (simp add: new_ring_buffer_def ring_put_def Let_def ring_contains_def)

end
