(* ===== verification/TraceStorage.thy ===== *)
theory TraceStorage
  imports Pdata RingBuffer
begin

text \<open>
  \<open>processor/groupbytraceprocessor/storage.go\<close> and \<open>storage_memory.go\<close>: the storage interface
  the processor works on, the laws it relies on as a locale, and the memory storage, the only
  implementation.  A nil slice is the empty list.  An operation gives an error or a result, and
  the storage after it.
\<close>

type_synonym resource_spans = "ot_span ot_resource"

section \<open>The interface\<close>

record 's storage =
  st_create_or_append :: "trace_id \<Rightarrow> traces \<Rightarrow> 's \<Rightarrow> string option \<times> 's"
  st_get :: "trace_id \<Rightarrow> 's \<Rightarrow> string + resource_spans list"
  st_delete :: "trace_id \<Rightarrow> 's \<Rightarrow> (string + resource_spans list) \<times> 's"
  st_start :: "'s \<Rightarrow> string option \<times> 's"
  st_shutdown :: "'s \<Rightarrow> string option \<times> 's"

text \<open>What a storage holds for a trace, read through the interface.\<close>

definition stored :: "'s storage \<Rightarrow> 's \<Rightarrow> trace_id \<Rightarrow> resource_spans list" where
  "stored ops s tid = (case st_get ops tid s of Inl _ \<Rightarrow> [] | Inr rss \<Rightarrow> rss)"

locale trace_storage =
  fixes ops :: "'s storage"
  assumes get_stored: "st_get ops tid s = Inr (stored ops s tid)"
    and append_ok: "fst (st_create_or_append ops tid td s) = None"
    and append_stored: "stored ops (snd (st_create_or_append ops tid td s)) tid' =
      (if tid' = tid then stored ops s tid @ td else stored ops s tid')"
    and delete_result: "fst (st_delete ops tid s) = Inr (stored ops s tid)"
    and delete_stored: "stored ops (snd (st_delete ops tid s)) tid' =
      (if tid' = tid then [] else stored ops s tid')"
    and start_ok: "fst (st_start ops s) = None"
    and start_stored: "stored ops (snd (st_start ops s)) tid = stored ops s tid"
    and shutdown_stored: "stored ops (snd (st_shutdown ops s)) tid = stored ops s tid"
begin

lemma append_eq: "st_create_or_append ops tid td s = (None, snd (st_create_or_append ops tid td s))"
  by (metis append_ok prod.collapse)

lemma delete_eq: "st_delete ops tid s = (Inr (stored ops s tid), snd (st_delete ops tid s))"
  by (metis delete_result prod.collapse)

lemma append_fun: "stored ops (snd (st_create_or_append ops tid td s)) = (stored ops s)(tid := stored ops s tid @ td)"
  by (simp add: fun_eq_iff append_stored)

lemma delete_fun: "stored ops (snd (st_delete ops tid s)) = (stored ops s)(tid := [])"
  by (simp add: fun_eq_iff delete_stored)

end

section \<open>The memory storage\<close>

record memory_storage =
  ms_content :: "trace_id \<rightharpoonup> resource_spans list"
  ms_stopped :: bool

definition new_memory_storage :: memory_storage where
  "new_memory_storage = \<lparr>ms_content = Map.empty, ms_stopped = False\<rparr>"

definition ms_create_or_append :: "trace_id \<Rightarrow> traces \<Rightarrow> memory_storage \<Rightarrow> string option \<times> memory_storage" where
  "ms_create_or_append tid td s =
     (let content = (case ms_content s tid of None \<Rightarrow> [] | Some rss \<Rightarrow> rss)
      in (None, s\<lparr>ms_content := (ms_content s)(tid \<mapsto> content @ td)\<rparr>))"

definition ms_get :: "trace_id \<Rightarrow> memory_storage \<Rightarrow> string + resource_spans list" where
  "ms_get tid s = (case ms_content s tid of None \<Rightarrow> Inr [] | Some rss \<Rightarrow> Inr rss)"

definition ms_delete :: "trace_id \<Rightarrow> memory_storage \<Rightarrow> (string + resource_spans list) \<times> memory_storage" where
  "ms_delete tid s =
     (Inr (case ms_content s tid of None \<Rightarrow> [] | Some rss \<Rightarrow> rss),
      s\<lparr>ms_content := (ms_content s)(tid := None)\<rparr>)"

text \<open>\<open>start\<close> only spawns the goroutine that reports the count, \<open>shutdown\<close> tells it to end.\<close>

definition ms_start :: "memory_storage \<Rightarrow> string option \<times> memory_storage" where
  "ms_start s = (None, s)"

definition ms_shutdown :: "memory_storage \<Rightarrow> string option \<times> memory_storage" where
  "ms_shutdown s = (None, s\<lparr>ms_stopped := True\<rparr>)"

definition ms_count :: "memory_storage \<Rightarrow> nat" where
  "ms_count s = card (dom (ms_content s))"

text \<open>One round of the goroutine: what it records, and whether it schedules itself again.\<close>

definition ms_periodic_metrics :: "memory_storage \<Rightarrow> nat \<times> bool" where
  "ms_periodic_metrics s = (ms_count s, \<not> ms_stopped s)"

definition memory_ops :: "memory_storage storage" where
  "memory_ops = \<lparr>st_create_or_append = ms_create_or_append, st_get = ms_get, st_delete = ms_delete,
                 st_start = ms_start, st_shutdown = ms_shutdown\<rparr>"

lemma memory_ops_simps [simp]:
  "st_create_or_append memory_ops = ms_create_or_append" "st_get memory_ops = ms_get"
  "st_delete memory_ops = ms_delete" "st_start memory_ops = ms_start" "st_shutdown memory_ops = ms_shutdown"
  by (simp_all add: memory_ops_def)

lemma memory_stored: "stored memory_ops s tid = (case ms_content s tid of None \<Rightarrow> [] | Some rss \<Rightarrow> rss)"
  by (simp add: stored_def ms_get_def split: option.splits)

interpretation mem: trace_storage memory_ops
  by unfold_locales
    (auto simp: memory_stored ms_get_def ms_create_or_append_def ms_delete_def ms_start_def ms_shutdown_def
      Let_def split: option.splits)

end
