(* ===== verification/GroupByTrace.thy ===== *)
theory GroupByTrace
  imports BatchPerSignal TraceStorage "HOL-Library.Signed_Division"
begin

text \<open>
  The group-by-trace processor of the bundled contrib module (\<open>processor/groupbytraceprocessor\<close>):
  \<open>event.go\<close>, \<open>processor.go\<close>, \<open>config.go\<close> and \<open>factory.go\<close>.  A batch is split by trace, each
  trace is an event of the worker its id hashes to, and the handlers of the events move the spans
  into the storage, and out of it after the wait duration.

  A state holds the workers with their queues, the storage, and what runs outside the workers: the
  timers that have not fired (\<open>time.AfterFunc\<close>), the goroutines of \<open>markAsReleased\<close> before and
  after their call of \<open>get\<close>, and the goroutines that call the next consumer.  The handlers are
  atomic steps; a queue has no capacity limit and the one second an event may take is not
  modelled.  The hash of the workers, seeded at random, is a parameter.
\<close>

section \<open>Configuration\<close>

record gbt_config =
  gc_num_traces :: int
  gc_num_workers :: int
  gc_wait_duration :: int
  gc_discard_orphans :: bool
  gc_store_on_disk :: bool

definition gbt_default_config :: gbt_config where
  "gbt_default_config =
     \<lparr>gc_num_traces = 1000000, gc_num_workers = 1, gc_wait_duration = 1000000000,
      gc_discard_orphans = False, gc_store_on_disk = False\<rparr>"

section \<open>Events\<close>

datatype event_type = TraceReceived | TraceExpired | TraceReleased | TraceRemoved | OtherEvent int

datatype event_payload =
    TracesWithID trace_id traces
  | TraceIDPayload trace_id
  | ResourceSpansPayload "resource_spans list"

record gbt_event =
  ev_type :: event_type
  ev_payload :: event_payload

definition mk_event :: "event_type \<Rightarrow> event_payload \<Rightarrow> gbt_event" where
  "mk_event ty p = \<lparr>ev_type = ty, ev_payload = p\<rparr>"

record worker =
  wk_buffer :: ring_buffer
  wk_events :: "gbt_event list"

record 's gbt =
  gb_workers :: "worker list"
  gb_storage :: 's
  gb_running :: bool \<comment> \<open>the workers have been started, \<open>em.close\<close> is open\<close>
  gb_closed :: bool
  gb_timers :: "(trace_id \<times> nat) list"
  gb_releases :: "(trace_id \<times> nat) list"
  gb_firing :: "(resource_spans list \<times> trace_id \<times> nat) list"
  gb_sends :: "traces list"
  gb_delivered :: "traces list"

text \<open>The callbacks of the machine; an error they return is only logged.\<close>

record 's machine_callbacks =
  on_received :: "(trace_id \<Rightarrow> traces \<Rightarrow> nat \<Rightarrow> 's gbt \<Rightarrow> (string option \<times> 's gbt) outcome) option"
  on_expired :: "(trace_id \<Rightarrow> nat \<Rightarrow> 's gbt \<Rightarrow> (string option \<times> 's gbt) outcome) option"
  on_released :: "(resource_spans list \<Rightarrow> 's gbt \<Rightarrow> (string option \<times> 's gbt) outcome) option"
  on_removed :: "(trace_id \<Rightarrow> 's gbt \<Rightarrow> (string option \<times> 's gbt) outcome) option"
  on_error :: "(gbt_event \<Rightarrow> 's gbt \<Rightarrow> 's gbt) option"

definition call_on_error :: "'s machine_callbacks \<Rightarrow> gbt_event \<Rightarrow> 's gbt \<Rightarrow> 's gbt" where
  "call_on_error cb e st = (case on_error cb of None \<Rightarrow> st | Some f \<Rightarrow> f e st)"

definition logged :: "(string option \<times> 's gbt) outcome \<Rightarrow> 's gbt outcome" where
  "logged r = bind_outcome r (\<lambda>(err, st). Ret st)"

definition handle_event :: "'s machine_callbacks \<Rightarrow> gbt_event \<Rightarrow> nat \<Rightarrow> 's gbt \<Rightarrow> 's gbt outcome" where
  "handle_event cb e w st =
     (case ev_type e of
        TraceReceived \<Rightarrow>
          (case on_received cb of None \<Rightarrow> Ret (call_on_error cb e st)
           | Some f \<Rightarrow>
               (case ev_payload e of TracesWithID tid td \<Rightarrow> logged (f tid td w st)
                | _ \<Rightarrow> Ret (call_on_error cb e st)))
      | TraceExpired \<Rightarrow>
          (case on_expired cb of None \<Rightarrow> Ret (call_on_error cb e st)
           | Some f \<Rightarrow>
               (case ev_payload e of TraceIDPayload tid \<Rightarrow> logged (f tid w st)
                | _ \<Rightarrow> Ret (call_on_error cb e st)))
      | TraceReleased \<Rightarrow>
          (case on_released cb of None \<Rightarrow> Ret (call_on_error cb e st)
           | Some f \<Rightarrow>
               (case ev_payload e of ResourceSpansPayload rss \<Rightarrow> logged (f rss st)
                | _ \<Rightarrow> Ret (call_on_error cb e st)))
      | TraceRemoved \<Rightarrow>
          (case on_removed cb of None \<Rightarrow> Ret (call_on_error cb e st)
           | Some f \<Rightarrow>
               (case ev_payload e of TraceIDPayload tid \<Rightarrow> logged (f tid st)
                | _ \<Rightarrow> Ret (call_on_error cb e st)))
      | OtherEvent _ \<Rightarrow> Ret (call_on_error cb e st))"

text \<open>\<open>fire\<close>: a machine that is closed takes no new events.\<close>

definition push_events :: "gbt_event list \<Rightarrow> worker \<Rightarrow> worker" where
  "push_events es wk = wk\<lparr>wk_events := wk_events wk @ es\<rparr>"

definition fire :: "gbt_event list \<Rightarrow> nat \<Rightarrow> 's gbt \<Rightarrow> 's gbt" where
  "fire es w st =
     (if gb_closed st then st
      else st\<lparr>gb_workers := (gb_workers st)[w := push_events es (gb_workers st ! w)]\<rparr>)"

definition num_events :: "'s gbt \<Rightarrow> nat" where
  "num_events st = sum_list (map (length \<circ> wk_events) (gb_workers st))"

section \<open>Receiving\<close>

definition err_no_trace_id :: string where
  "err_no_trace_id = ''trace doesn't have traceID''"

definition get_trace_id :: "traces \<Rightarrow> string + trace_id" where
  "get_trace_id td =
     (case td of [] \<Rightarrow> Inl err_no_trace_id
      | rs # _ \<Rightarrow>
        (case res_scopes rs of [] \<Rightarrow> Inl err_no_trace_id
         | sc # _ \<Rightarrow>
           (case scope_items sc of [] \<Rightarrow> Inl err_no_trace_id
            | s # _ \<Rightarrow> Inr (os_trace_id s))))"

definition worker_index_for_trace_id :: "(trace_id \<Rightarrow> u64) \<Rightarrow> trace_id \<Rightarrow> nat \<Rightarrow> nat outcome" where
  "worker_index_for_trace_id hash tid n =
     (if n = 0 then Panic else Ret (unat (hash tid mod of_nat n)))"

definition consume :: "(trace_id \<Rightarrow> u64) \<Rightarrow> traces \<Rightarrow> 's gbt \<Rightarrow> (string option \<times> 's gbt) outcome" where
  "consume hash td st =
     (case get_trace_id td of
        Inl err \<Rightarrow> Ret (Some (''eventmachine consume failed: '' @ err), st)
      | Inr tid \<Rightarrow>
          bind_outcome
            (if length (gb_workers st) \<noteq> 1 then worker_index_for_trace_id hash tid (length (gb_workers st)) else Ret 0)
            (\<lambda>bucket. Ret (None, fire [mk_event TraceReceived (TracesWithID tid td)] bucket st)))"

text \<open>\<open>ConsumeTraces\<close> without interleaving: the traces of a batch one after the other.\<close>

fun consume_all :: "(trace_id \<Rightarrow> u64) \<Rightarrow> traces list \<Rightarrow> 's gbt \<Rightarrow> (string list \<times> 's gbt) outcome" where
  "consume_all hash [] st = Ret ([], st)"
| "consume_all hash (td # tds) st =
     bind_outcome (consume hash td st) (\<lambda>(err, st1).
       bind_outcome (consume_all hash tds st1) (\<lambda>(errs, st2).
         Ret ((case err of None \<Rightarrow> errs | Some e \<Rightarrow> e # errs), st2)))"

definition gbt_consume_traces :: "(trace_id \<Rightarrow> u64) \<Rightarrow> traces \<Rightarrow> 's gbt \<Rightarrow> (string list \<times> 's gbt) outcome" where
  "gbt_consume_traces hash td st = consume_all hash (split_traces td) st"

section \<open>Handlers\<close>

definition add_spans :: "'s storage \<Rightarrow> trace_id \<Rightarrow> traces \<Rightarrow> 's gbt \<Rightarrow> string option \<times> 's gbt" where
  "add_spans ops tid td st =
     (let (err, s) = st_create_or_append ops tid td (gb_storage st) in (err, st\<lparr>gb_storage := s\<rparr>))"

definition set_buffer :: "nat \<Rightarrow> ring_buffer \<Rightarrow> 's gbt \<Rightarrow> 's gbt" where
  "set_buffer w r st = st\<lparr>gb_workers := (gb_workers st)[w := (gb_workers st ! w)\<lparr>wk_buffer := r\<rparr>]\<rparr>"

definition add_error :: "string \<Rightarrow> string" where
  "add_error err = ''couldn't add spans to existing trace: '' @ err"

definition on_trace_received ::
  "'s storage \<Rightarrow> trace_id \<Rightarrow> traces \<Rightarrow> nat \<Rightarrow> 's gbt \<Rightarrow> (string option \<times> 's gbt) outcome" where
  "on_trace_received ops tid td w st =
     (let buffer = wk_buffer (gb_workers st ! w) in
      if ring_contains tid buffer then
        (case add_spans ops tid td st of
           (Some err, st1) \<Rightarrow> Ret (Some (add_error err), st1)
         | (None, st1) \<Rightarrow> Ret (None, st1))
      else
        bind_outcome (ring_put tid buffer) (\<lambda>(evicted, buffer').
          let st1 = set_buffer w buffer' st;
              st2 = (if evicted \<noteq> empty_trace_id
                     then fire [mk_event TraceRemoved (TraceIDPayload evicted)] w st1 else st1)
          in case add_spans ops tid td st2 of
               (Some err, st3) \<Rightarrow> Ret (Some (add_error err), st3)
             | (None, st3) \<Rightarrow> Ret (None, st3\<lparr>gb_timers := gb_timers st3 @ [(tid, w)]\<rparr>)))"

definition on_trace_expired :: "trace_id \<Rightarrow> nat \<Rightarrow> 's gbt \<Rightarrow> (string option \<times> 's gbt) outcome" where
  "on_trace_expired tid w st =
     (let buffer = wk_buffer (gb_workers st ! w) in
      if \<not> ring_contains tid buffer then Ret (None, st)
      else
        let st1 = set_buffer w (snd (ring_delete tid buffer)) st
        in Ret (None, st1\<lparr>gb_releases := gb_releases st1 @ [(tid, w)]\<rparr>))"

text \<open>\<open>markAsReleased\<close>: the call of \<open>get\<close>, then the two events, fired in one call.\<close>

definition mark_get :: "'s storage \<Rightarrow> trace_id \<Rightarrow> nat \<Rightarrow> 's gbt \<Rightarrow> string option \<times> 's gbt" where
  "mark_get ops tid w st =
     (case st_get ops tid (gb_storage st) of
        Inl err \<Rightarrow> (Some (''couldn't retrieve trace from the storage: '' @ err), st)
      | Inr [] \<Rightarrow> (Some ''the trace couldn't be found at the storage'', st)
      | Inr (rs # rss) \<Rightarrow> (None, st\<lparr>gb_firing := gb_firing st @ [(rs # rss, tid, w)]\<rparr>))"

definition mark_fire :: "resource_spans list \<Rightarrow> trace_id \<Rightarrow> nat \<Rightarrow> 's gbt \<Rightarrow> 's gbt" where
  "mark_fire rss tid w st =
     fire [mk_event TraceReleased (ResourceSpansPayload rss),
           mk_event TraceRemoved (TraceIDPayload tid)] w st"

definition on_trace_released :: "resource_spans list \<Rightarrow> 's gbt \<Rightarrow> (string option \<times> 's gbt) outcome" where
  "on_trace_released rss st =
     (let trace = foldl (\<lambda>t rs. t @ [rs]) [] rss
      in Ret (None, st\<lparr>gb_sends := gb_sends st @ [trace]\<rparr>))"

definition on_trace_removed :: "'s storage \<Rightarrow> trace_id \<Rightarrow> 's gbt \<Rightarrow> (string option \<times> 's gbt) outcome" where
  "on_trace_removed ops tid st =
     (case st_delete ops tid (gb_storage st) of
        (Inl err, s) \<Rightarrow> Ret (Some (''couldn't delete trace from the storage: '' @ err), st\<lparr>gb_storage := s\<rparr>)
      | (Inr [], s) \<Rightarrow> Ret (Some ''trace not found at the storage'', st\<lparr>gb_storage := s\<rparr>)
      | (Inr (rs # rss), s) \<Rightarrow> Ret (None, st\<lparr>gb_storage := s\<rparr>))"

definition gbt_callbacks :: "'s storage \<Rightarrow> 's machine_callbacks" where
  "gbt_callbacks ops =
     \<lparr>on_received = Some (on_trace_received ops), on_expired = Some on_trace_expired,
      on_released = Some on_trace_released, on_removed = Some (on_trace_removed ops), on_error = None\<rparr>"

section \<open>Construction, start and shutdown\<close>

fun new_workers :: "nat \<Rightarrow> int \<Rightarrow> worker list outcome" where
  "new_workers 0 n = Ret []"
| "new_workers (Suc k) n =
     bind_outcome (new_ring_buffer n) (\<lambda>r.
       bind_outcome (new_workers k n) (\<lambda>ws. Ret (\<lparr>wk_buffer = r, wk_events = []\<rparr> # ws)))"

definition new_event_machine :: "int \<Rightarrow> int \<Rightarrow> worker list outcome" where
  "new_event_machine workers traces =
     (if workers < 0 then Panic else new_workers (nat workers) (traces sdiv workers))"

definition new_group_by_trace :: "'s \<Rightarrow> gbt_config \<Rightarrow> 's gbt outcome" where
  "new_group_by_trace s cfg =
     bind_outcome (new_event_machine (gc_num_workers cfg) (gc_num_traces cfg)) (\<lambda>ws.
       Ret \<lparr>gb_workers = ws, gb_storage = s, gb_running = False, gb_closed = False, gb_timers = [],
            gb_releases = [], gb_firing = [], gb_sends = [], gb_delivered = []\<rparr>)"

definition create_gbt_processor :: "gbt_config \<Rightarrow> (string + memory_storage gbt) outcome" where
  "create_gbt_processor cfg =
     (if gc_store_on_disk cfg then Ret (Inl ''option 'disk storage' not supported in this release'')
      else if gc_discard_orphans cfg then Ret (Inl ''option 'discard orphans' not supported in this release'')
      else bind_outcome (new_group_by_trace new_memory_storage cfg) (\<lambda>st. Ret (Inr st)))"

definition gbt_start :: "'s storage \<Rightarrow> 's gbt \<Rightarrow> string option \<times> 's gbt" where
  "gbt_start ops st =
     (let (err, s) = st_start ops (gb_storage st) in (err, st\<lparr>gb_running := True, gb_storage := s\<rparr>))"

text \<open>
  \<open>Shutdown\<close> first closes the machine, then waits until the queues are empty or ten seconds have
  passed, ends the workers and shuts the storage down.
\<close>

definition gbt_close :: "'s gbt \<Rightarrow> 's gbt" where
  "gbt_close st = st\<lparr>gb_closed := True\<rparr>"

definition gbt_stop :: "'s storage \<Rightarrow> 's gbt \<Rightarrow> string option \<times> 's gbt" where
  "gbt_stop ops st =
     (let (err, s) = st_shutdown ops (gb_storage st) in (err, st\<lparr>gb_running := False, gb_storage := s\<rparr>))"

section \<open>Steps\<close>

text \<open>
  What can happen next: a trace of a batch arrives, a worker handles its next event, a timer
  fires, a goroutine of \<open>markAsReleased\<close> reads the storage or fires its events, a goroutine
  calls the next consumer, the processor is started, closed or stopped.  The number of a label
  chooses among the timers and goroutines, which run in any order.
\<close>

datatype gbt_label =
    Receive traces | Work nat | Expire nat | Get nat | Fire nat | Send nat | StartAll | Close | Stop

definition remove_nth :: "nat \<Rightarrow> 'a list \<Rightarrow> 'a list" where
  "remove_nth i xs = take i xs @ drop (Suc i) xs"

fun gbt_exec :: "'s storage \<Rightarrow> (trace_id \<Rightarrow> u64) \<Rightarrow> gbt_label \<Rightarrow> 's gbt \<Rightarrow> 's gbt outcome option" where
  "gbt_exec ops hash (Receive td) st = Some (bind_outcome (consume hash td st) (\<lambda>(err, st1). Ret st1))"
| "gbt_exec ops hash (Work w) st =
     (if gb_running st \<and> w < length (gb_workers st) then
        (case wk_events (gb_workers st ! w) of
           [] \<Rightarrow> None
         | e # es \<Rightarrow>
             Some (handle_event (gbt_callbacks ops) e w
               (st\<lparr>gb_workers := (gb_workers st)[w := (gb_workers st ! w)\<lparr>wk_events := es\<rparr>]\<rparr>)))
      else None)"
| "gbt_exec ops hash (Expire i) st =
     (if i < length (gb_timers st) then
        (let (tid, w) = gb_timers st ! i
         in Some (Ret (fire [mk_event TraceExpired (TraceIDPayload tid)] w
              (st\<lparr>gb_timers := remove_nth i (gb_timers st)\<rparr>))))
      else None)"
| "gbt_exec ops hash (Get i) st =
     (if i < length (gb_releases st) then
        (let (tid, w) = gb_releases st ! i
         in Some (Ret (snd (mark_get ops tid w (st\<lparr>gb_releases := remove_nth i (gb_releases st)\<rparr>)))))
      else None)"
| "gbt_exec ops hash (Fire i) st =
     (if i < length (gb_firing st) then
        (let (rss, tid, w) = gb_firing st ! i
         in Some (Ret (mark_fire rss tid w (st\<lparr>gb_firing := remove_nth i (gb_firing st)\<rparr>))))
      else None)"
| "gbt_exec ops hash (Send i) st =
     (if i < length (gb_sends st) then
        Some (Ret (st\<lparr>gb_sends := remove_nth i (gb_sends st),
                      gb_delivered := gb_delivered st @ [gb_sends st ! i]\<rparr>))
      else None)"
| "gbt_exec ops hash StartAll st = Some (Ret (snd (gbt_start ops st)))"
| "gbt_exec ops hash Close st = Some (Ret (gbt_close st))"
| "gbt_exec ops hash Stop st = (if gb_closed st then Some (Ret (snd (gbt_stop ops st))) else None)"

inductive gbt_run :: "'s storage \<Rightarrow> (trace_id \<Rightarrow> u64) \<Rightarrow> gbt_label list \<Rightarrow> 's gbt \<Rightarrow> 's gbt \<Rightarrow> bool"
  for ops :: "'s storage" and hash :: "trace_id \<Rightarrow> u64" where
  run_nil: "gbt_run ops hash [] st st"
| run_snoc: "gbt_run ops hash ls st st1 \<Longrightarrow> gbt_exec ops hash l st1 = Some (Ret st2) \<Longrightarrow>
     gbt_run ops hash (ls @ [l]) st st2"

text \<open>The batches the steps of a run take in.\<close>

definition received :: "gbt_label list \<Rightarrow> traces list" where
  "received ls = concat (map (\<lambda>l. case l of Receive td \<Rightarrow> [td] | _ \<Rightarrow> []) ls)"

section \<open>Queues and buffers under the operations\<close>

definition queued :: "'s gbt \<Rightarrow> gbt_event set" where
  "queued st = (\<Union>wk \<in> set (gb_workers st). set (wk_events wk))"

definition rings :: "'s gbt \<Rightarrow> ring_buffer list" where
  "rings st = map wk_buffer (gb_workers st)"

definition dequeue :: "nat \<Rightarrow> gbt_event list \<Rightarrow> 's gbt \<Rightarrow> 's gbt" where
  "dequeue w es st = st\<lparr>gb_workers := (gb_workers st)[w := (gb_workers st ! w)\<lparr>wk_events := es\<rparr>]\<rparr>"

lemma list_update_set_cases: "x \<in> set (xs[i := y]) \<Longrightarrow> x \<in> set xs \<or> (i < length xs \<and> x = y)"
  by (metis list_update_beyond not_le set_update_subset_insert insertE subsetD)

lemma queued_fire: "queued (fire es w st) \<subseteq> queued st \<union> set es"
  by (auto simp: queued_def fire_def push_events_def dest!: list_update_set_cases)
     (use nth_mem in blast)

lemma queued_set_buffer: "queued (set_buffer w r st) \<subseteq> queued st"
  by (auto simp: queued_def set_buffer_def dest!: list_update_set_cases) (use nth_mem in blast)

lemma queued_dequeue: "wk_events (gb_workers st ! w) = e # es \<Longrightarrow> queued (dequeue w es st) \<subseteq> queued st"
  by (auto simp: queued_def dequeue_def dest!: list_update_set_cases) (metis list.set_intros(2) nth_mem)

lemma queued_head: "w < length (gb_workers st) \<Longrightarrow> wk_events (gb_workers st ! w) = e # es \<Longrightarrow> e \<in> queued st"
  unfolding queued_def by (metis UN_I list.set_intros(1) nth_mem)

lemma queued_eq [simp]:
  "queued (st\<lparr>gb_timers := ts\<rparr>) = queued st" "queued (st\<lparr>gb_releases := rs\<rparr>) = queued st"
  "queued (st\<lparr>gb_firing := fs\<rparr>) = queued st" "queued (st\<lparr>gb_storage := s\<rparr>) = queued st"
  "queued (st\<lparr>gb_sends := ss\<rparr>) = queued st" "queued (st\<lparr>gb_delivered := ds\<rparr>) = queued st"
  "queued (st\<lparr>gb_running := b\<rparr>) = queued st" "queued (st\<lparr>gb_closed := b\<rparr>) = queued st"
  by (simp_all add: queued_def)

lemma rings_eq [simp]:
  "rings (st\<lparr>gb_timers := ts\<rparr>) = rings st" "rings (st\<lparr>gb_releases := rs\<rparr>) = rings st"
  "rings (st\<lparr>gb_firing := fs\<rparr>) = rings st" "rings (st\<lparr>gb_storage := s\<rparr>) = rings st"
  "rings (st\<lparr>gb_sends := ss\<rparr>) = rings st" "rings (st\<lparr>gb_delivered := ds\<rparr>) = rings st"
  "rings (st\<lparr>gb_running := b\<rparr>) = rings st" "rings (st\<lparr>gb_closed := b\<rparr>) = rings st"
  by (simp_all add: rings_def)

lemma rings_fire [simp]: "rings (fire es w st) = rings st"
  by (cases "w < length (gb_workers st)")
     (simp_all add: rings_def fire_def push_events_def map_update list_update_same_conv list_update_beyond)

lemma rings_dequeue [simp]: "rings (dequeue w es st) = rings st"
  by (cases "w < length (gb_workers st)") (simp_all add: rings_def dequeue_def map_update list_update_same_conv list_update_beyond)

lemma rings_set_buffer [simp]: "rings (set_buffer w r st) = (rings st)[w := r]"
  by (simp add: rings_def set_buffer_def map_update)

lemma rings_length: "length (rings st) = length (gb_workers st)"
  by (simp add: rings_def)

lemma rings_nth: "w < length (rings st) \<Longrightarrow> wk_buffer (gb_workers st ! w) = rings st ! w"
  by (simp add: rings_def)

lemma fire_fields [simp]:
  "gb_storage (fire es w st) = gb_storage st" "gb_timers (fire es w st) = gb_timers st"
  "gb_releases (fire es w st) = gb_releases st" "gb_firing (fire es w st) = gb_firing st"
  "gb_sends (fire es w st) = gb_sends st" "gb_delivered (fire es w st) = gb_delivered st"
  "gb_running (fire es w st) = gb_running st" "gb_closed (fire es w st) = gb_closed st"
  by (simp_all add: fire_def)

lemma set_buffer_fields [simp]:
  "gb_storage (set_buffer w r st) = gb_storage st" "gb_timers (set_buffer w r st) = gb_timers st"
  "gb_releases (set_buffer w r st) = gb_releases st" "gb_firing (set_buffer w r st) = gb_firing st"
  "gb_sends (set_buffer w r st) = gb_sends st" "gb_delivered (set_buffer w r st) = gb_delivered st"
  "gb_running (set_buffer w r st) = gb_running st" "gb_closed (set_buffer w r st) = gb_closed st"
  by (simp_all add: set_buffer_def)

lemma dequeue_fields [simp]:
  "gb_storage (dequeue w es st) = gb_storage st" "gb_timers (dequeue w es st) = gb_timers st"
  "gb_releases (dequeue w es st) = gb_releases st" "gb_firing (dequeue w es st) = gb_firing st"
  "gb_sends (dequeue w es st) = gb_sends st" "gb_delivered (dequeue w es st) = gb_delivered st"
  "gb_running (dequeue w es st) = gb_running st" "gb_closed (dequeue w es st) = gb_closed st"
  by (simp_all add: dequeue_def)

lemma remove_nth_subset: "set (remove_nth i xs) \<subseteq> set xs"
  by (auto simp: remove_nth_def dest: in_set_takeD in_set_dropD)

lemma event_simps [simp]: "ev_type (mk_event ty p) = ty" "ev_payload (mk_event ty p) = p"
  by (simp_all add: mk_event_def)

lemma released_trace [simp]: "foldl (\<lambda>t rs. t @ [rs]) [] rss = rss"
proof -
  have "foldl (\<lambda>t rs. t @ [rs]) acc rss = acc @ rss" for acc :: "'a list"
    by (induction rss arbitrary: acc) simp_all
  then show ?thesis by simp
qed

text \<open>The events as the registered callbacks handle them.\<close>

lemma handle_event_simps:
  "handle_event (gbt_callbacks ops) (mk_event TraceReceived (TracesWithID tid td)) w st =
     logged (on_trace_received ops tid td w st)"
  "handle_event (gbt_callbacks ops) (mk_event TraceExpired (TraceIDPayload tid)) w st =
     logged (on_trace_expired tid w st)"
  "handle_event (gbt_callbacks ops) (mk_event TraceReleased (ResourceSpansPayload rss)) w st =
     logged (on_trace_released rss st)"
  "handle_event (gbt_callbacks ops) (mk_event TraceRemoved (TraceIDPayload tid)) w st =
     logged (on_trace_removed ops tid st)"
  by (simp_all add: handle_event_def gbt_callbacks_def)

text \<open>A handled event is one of the four, or changes nothing.\<close>

lemma handle_event_cases:
  assumes "handle_event (gbt_callbacks ops) e w st = Ret st'"
  obtains (received) tid td where "ev_payload e = TracesWithID tid td" "logged (on_trace_received ops tid td w st) = Ret st'"
  | (expired) tid where "ev_payload e = TraceIDPayload tid" "logged (on_trace_expired tid w st) = Ret st'"
  | (released) rss where "ev_payload e = ResourceSpansPayload rss" "logged (on_trace_released rss st) = Ret st'"
  | (removed) tid where "ev_payload e = TraceIDPayload tid" "logged (on_trace_removed ops tid st) = Ret st'"
  | (none) "st' = st"
  using assms
  by (auto simp: handle_event_def gbt_callbacks_def call_on_error_def split: event_type.splits event_payload.splits)

lemma logged_Ret: "logged r = Ret st \<longleftrightarrow> (\<exists>err. r = Ret (err, st))"
  by (cases r) (auto simp: logged_def)


section \<open>Provenance\<close>

text \<open>
  \<open>prov R tid rss\<close>: the resources come from \<open>R\<close> and hold spans of the trace \<open>tid\<close> only.
\<close>

definition prov :: "resource_spans set \<Rightarrow> trace_id \<Rightarrow> resource_spans list \<Rightarrow> bool" where
  "prov R tid rss \<longleftrightarrow> set rss \<subseteq> R \<and> (\<forall>s \<in> set (items rss). os_trace_id s = tid)"

lemma prov_simps [simp]:
  "prov R tid []" "prov R tid (xs @ ys) \<longleftrightarrow> prov R tid xs \<and> prov R tid ys"
  by (auto simp: prov_def)

lemma prov_mono: "prov R tid rss \<Longrightarrow> R \<subseteq> R' \<Longrightarrow> prov R' tid rss"
  by (auto simp: prov_def)

definition event_prov :: "resource_spans set \<Rightarrow> gbt_event \<Rightarrow> bool" where
  "event_prov R e =
     (case ev_payload e of
        TracesWithID tid td \<Rightarrow> prov R tid td
      | TraceIDPayload tid \<Rightarrow> True
      | ResourceSpansPayload rss \<Rightarrow> \<exists>tid. prov R tid rss)"

definition gbt_prov :: "'s storage \<Rightarrow> resource_spans set \<Rightarrow> 's gbt \<Rightarrow> bool" where
  "gbt_prov ops R st \<longleftrightarrow>
     (\<forall>e \<in> queued st. event_prov R e) \<and>
     (\<forall>tid. prov R tid (stored ops (gb_storage st) tid)) \<and>
     (\<forall>(rss, tid, w) \<in> set (gb_firing st). prov R tid rss) \<and>
     (\<forall>t \<in> set (gb_sends st) \<union> set (gb_delivered st). \<exists>tid. prov R tid t)"

lemma event_prov_mono: "event_prov R e \<Longrightarrow> R \<subseteq> R' \<Longrightarrow> event_prov R' e"
  by (auto simp: event_prov_def split: event_payload.splits intro: prov_mono)

lemma gbt_prov_mono:
  assumes "gbt_prov ops R st" and "R \<subseteq> R'"
  shows "gbt_prov ops R' st"
proof -
  have m: "prov R tid t \<Longrightarrow> prov R' tid t" for tid t using assms(2) by (rule prov_mono [rotated])
  moreover have "event_prov R e \<Longrightarrow> event_prov R' e" for e using assms(2) by (rule event_prov_mono [rotated])
  ultimately show ?thesis
    using assms(1) unfolding gbt_prov_def case_prod_beta by meson
qed

lemma gbt_prov_fire:
  "gbt_prov ops R st \<Longrightarrow> (\<And>e. e \<in> set es \<Longrightarrow> event_prov R e) \<Longrightarrow> gbt_prov ops R (fire es w st)"
  using queued_fire [of es w st] by (auto simp: gbt_prov_def)

lemma gbt_prov_set_buffer: "gbt_prov ops R st \<Longrightarrow> gbt_prov ops R (set_buffer w r st)"
  using queued_set_buffer [of w r st] by (auto simp: gbt_prov_def)

lemma gbt_prov_dequeue:
  "gbt_prov ops R st \<Longrightarrow> wk_events (gb_workers st ! w) = e # es \<Longrightarrow> gbt_prov ops R (dequeue w es st)"
  using queued_dequeue [of st w e es] by (auto simp: gbt_prov_def)

lemma gbt_prov_fields:
  "gbt_prov ops R (st\<lparr>gb_timers := ts\<rparr>) = gbt_prov ops R st"
  "gbt_prov ops R (st\<lparr>gb_releases := rs\<rparr>) = gbt_prov ops R st"
  "gbt_prov ops R (st\<lparr>gb_closed := b\<rparr>) = gbt_prov ops R st"
  "gbt_prov ops R (st\<lparr>gb_running := b\<rparr>) = gbt_prov ops R st"
  by (simp_all add: gbt_prov_def)

text \<open>The batches the split produces: the spans of one trace.\<close>

definition single_trace :: "traces \<Rightarrow> bool" where
  "single_trace td \<longleftrightarrow> (\<exists>tid. get_trace_id td = Inr tid \<and> (\<forall>s \<in> set (items td). os_trace_id s = tid))"

lemma split_single_trace: "td \<in> set (split_traces batch) \<Longrightarrow> single_trace td"
proof -
  assume "td \<in> set (split_traces batch)"
  then obtain r sc k x xs where "td = batch_of r sc (x # xs)" "\<forall>y \<in> set (x # xs). os_trace_id y = k"
    unfolding split_traces_def using split_batch_member by metis
  then show ?thesis
    by (simp add: single_trace_def get_trace_id_def) (simp add: batch_of_def)
qed

context trace_storage
begin

lemma prov_append:
  assumes "gbt_prov ops R st" and "prov R tid td"
  shows "gbt_prov ops R (st\<lparr>gb_storage := snd (st_create_or_append ops tid td (gb_storage st))\<rparr>)"
  using assms by (simp add: gbt_prov_def append_stored)

lemma prov_delete:
  "gbt_prov ops R st \<Longrightarrow> gbt_prov ops R (st\<lparr>gb_storage := snd (st_delete ops tid (gb_storage st))\<rparr>)"
  by (simp add: gbt_prov_def delete_stored)

lemma received_eq:
  "on_trace_received ops tid td w st =
     (let buffer = wk_buffer (gb_workers st ! w);
          append = (\<lambda>st. st\<lparr>gb_storage := snd (st_create_or_append ops tid td (gb_storage st))\<rparr>) in
      if ring_contains tid buffer then Ret (None, append st)
      else bind_outcome (ring_put tid buffer) (\<lambda>(evicted, buffer').
        let st1 = set_buffer w buffer' st;
            st2 = (if evicted \<noteq> empty_trace_id
                   then fire [mk_event TraceRemoved (TraceIDPayload evicted)] w st1 else st1)
        in Ret (None, (append st2)\<lparr>gb_timers := gb_timers st @ [(tid, w)]\<rparr>)))"
  unfolding on_trace_received_def add_spans_def Let_def
  by (subst (1 2) append_eq) (auto simp: case_prod_beta intro!: arg_cong [where f = "bind_outcome _"])

lemma removed_eq:
  "logged (on_trace_removed ops tid st) = Ret (st\<lparr>gb_storage := snd (st_delete ops tid (gb_storage st))\<rparr>)"
  unfolding on_trace_removed_def
  by (subst delete_eq) (auto simp: logged_def split: list.splits)

lemma mark_get_eq:
  "mark_get ops tid w st =
     (if stored ops (gb_storage st) tid = []
      then (Some ''the trace couldn't be found at the storage'', st)
      else (None, st\<lparr>gb_firing := gb_firing st @ [(stored ops (gb_storage st) tid, tid, w)]\<rparr>))"
  unfolding mark_get_def by (simp add: get_stored split: list.splits)

lemma prov_received:
  assumes "gbt_prov ops R st" and "prov R tid td" and "on_trace_received ops tid td w st = Ret (err, st')"
  shows "gbt_prov ops R st'"
proof (cases "ring_contains tid (wk_buffer (gb_workers st ! w))")
  case True
  then show ?thesis using assms by (auto simp: received_eq prov_append)
next
  case False
  with assms(3) obtain e r where put: "ring_put tid (wk_buffer (gb_workers st ! w)) = Ret (e, r)"
    by (auto simp: received_eq Let_def bind_outcome_Ret_iff)
  have "gbt_prov ops R (if e \<noteq> empty_trace_id
      then fire [mk_event TraceRemoved (TraceIDPayload e)] w (set_buffer w r st) else set_buffer w r st)"
    using assms(1) by (auto intro!: gbt_prov_fire gbt_prov_set_buffer simp: event_prov_def)
  from prov_append [OF this assms(2)] show ?thesis
    using assms(3) False put by (auto simp: received_eq Let_def gbt_prov_fields split: if_splits)
qed

lemma prov_handle:
  assumes "gbt_prov ops R st" and "event_prov R e" and "handle_event (gbt_callbacks ops) e w st = Ret st'"
  shows "gbt_prov ops R st'"
  using assms(3)
proof (cases rule: handle_event_cases)
  case (received tid td)
  with assms(2) have "prov R tid td" by (simp add: event_prov_def)
  with received assms(1) show ?thesis by (auto simp: logged_Ret intro: prov_received)
next
  case (expired tid)
  then show ?thesis
    using assms(1) by (auto simp: logged_Ret on_trace_expired_def Let_def gbt_prov_fields gbt_prov_set_buffer split: if_splits)
next
  case (released rss)
  with assms(2) obtain tid where "prov R tid rss" by (auto simp: event_prov_def)
  with released assms(1) show ?thesis
    by (auto simp: logged_Ret on_trace_released_def gbt_prov_def)
next
  case (removed tid)
  then show ?thesis using assms(1) by (auto simp: removed_eq prov_delete)
next
  case none
  then show ?thesis using assms(1) by simp
qed

lemma prov_exec:
  assumes "gbt_prov ops R st" and "gbt_exec ops hash l st = Some (Ret st')"
    and "\<And>td. l = Receive td \<Longrightarrow> single_trace td \<and> set td \<subseteq> R"
  shows "gbt_prov ops R st'"
proof (cases l)
  case (Receive td)
  with assms(2,3) show ?thesis
    by (auto simp: consume_def bind_outcome_Ret_iff single_trace_def prov_def event_prov_def
        split: sum.splits if_splits intro!: gbt_prov_fire assms(1))
next
  case (Work w)
  with assms(2) obtain e es where w: "w < length (gb_workers st)" and q: "wk_events (gb_workers st ! w) = e # es"
    and h: "handle_event (gbt_callbacks ops) e w (dequeue w es st) = Ret st'"
    by (auto simp: dequeue_def split: if_splits list.splits)
  have "event_prov R e" using assms(1) queued_head [OF w q] by (simp add: gbt_prov_def)
  then show ?thesis by (rule prov_handle [OF gbt_prov_dequeue [OF assms(1) q] _ h])
next
  case (Expire i)
  with assms(1,2) show ?thesis
    by (auto simp: gbt_prov_fields event_prov_def case_prod_beta split: if_splits intro!: gbt_prov_fire)
next
  case (Get i)
  obtain tid w where g: "gb_releases st ! i = (tid, w)" by fastforce
  have "gbt_prov ops R (st\<lparr>gb_releases := remove_nth i (gb_releases st)\<rparr>)"
    using assms(1) by (simp add: gbt_prov_fields)
  with Get assms(2) g show ?thesis
    by (auto simp: mark_get_eq gbt_prov_def split: if_splits)
next
  case (Fire i)
  obtain rss tid w where g: "gb_firing st ! i = (rss, tid, w)" by (metis prod_cases3)
  with Fire assms(2) have i: "(rss, tid, w) \<in> set (gb_firing st)"
    by (auto split: if_splits) (metis nth_mem)
  then have "\<exists>tid. prov R tid rss" using assms(1) by (auto simp: gbt_prov_def)
  moreover have "gbt_prov ops R (st\<lparr>gb_firing := remove_nth i (gb_firing st)\<rparr>)"
    using assms(1) remove_nth_subset [of i "gb_firing st"] by (auto simp: gbt_prov_def)
  ultimately show ?thesis
    using Fire assms(2) g
    by (auto simp: mark_fire_def event_prov_def split: if_splits intro!: gbt_prov_fire) blast
next
  case (Send i)
  with assms(1,2) remove_nth_subset [of i "gb_sends st"] show ?thesis
    by (auto simp: gbt_prov_def split: if_splits)
next
  case StartAll
  with assms(1,2) show ?thesis
    by (auto simp: gbt_start_def case_prod_beta gbt_prov_def start_stored)
next
  case Close
  with assms(1,2) show ?thesis by (auto simp: gbt_close_def gbt_prov_fields)
next
  case Stop
  with assms(1,2) show ?thesis
    by (auto simp: gbt_stop_def case_prod_beta gbt_prov_def shutdown_stored split: if_splits)
qed

lemma prov_run:
  assumes "gbt_run ops hash ls st st'" and "gbt_prov ops {} st" and "\<forall>td \<in> set (received ls). single_trace td"
  shows "gbt_prov ops (set (concat (received ls))) st'"
  using assms
proof (induction rule: gbt_run.induct)
  case (run_nil st)
  then show ?case by (simp add: received_def)
next
  case (run_snoc ls st st1 l st2)
  have rcv: "received (ls @ [l]) = received ls @ received [l]" by (simp add: received_def)
  then have "gbt_prov ops (set (concat (received ls))) st1" using run_snoc by simp
  then have "gbt_prov ops (set (concat (received (ls @ [l])))) st1"
    by (rule gbt_prov_mono) (simp add: rcv)
  then show ?case
    by (rule prov_exec [OF _ run_snoc.hyps(2)])
       (use run_snoc.prems in \<open>auto simp: rcv received_def\<close>)
qed

end

section \<open>Bounded buffers\<close>

definition payload_ok :: "gbt_event \<Rightarrow> bool" where
  "payload_ok e = (case ev_payload e of TracesWithID tid td \<Rightarrow> tid \<noteq> empty_trace_id | _ \<Rightarrow> True)"

definition gbt_bounded :: "nat \<Rightarrow> int \<Rightarrow> 's gbt \<Rightarrow> bool" where
  "gbt_bounded k n st \<longleftrightarrow> length (rings st) = k \<and> (\<forall>r \<in> set (rings st). ring_wf r \<and> rb_size r = n) \<and>
     (\<forall>e \<in> queued st. payload_ok e)"

lemma bounded_fire: "gbt_bounded k n st \<Longrightarrow> \<forall>e \<in> set es. payload_ok e \<Longrightarrow> gbt_bounded k n (fire es w st)"
  using queued_fire [of es w st] by (auto simp: gbt_bounded_def)

lemma bounded_dequeue:
  "gbt_bounded k n st \<Longrightarrow> wk_events (gb_workers st ! w) = e # es \<Longrightarrow> gbt_bounded k n (dequeue w es st)"
  using queued_dequeue [of st w e es] by (auto simp: gbt_bounded_def)

lemma bounded_set_buffer:
  "gbt_bounded k n st \<Longrightarrow> ring_wf r \<Longrightarrow> rb_size r = n \<Longrightarrow> gbt_bounded k n (set_buffer w r st)"
  using queued_set_buffer [of w r st] by (auto simp: gbt_bounded_def dest: list_update_set_cases)

lemma bounded_fields:
  "gbt_bounded k n (st\<lparr>gb_timers := ts\<rparr>) = gbt_bounded k n st"
  "gbt_bounded k n (st\<lparr>gb_releases := rs\<rparr>) = gbt_bounded k n st"
  "gbt_bounded k n (st\<lparr>gb_firing := fs\<rparr>) = gbt_bounded k n st"
  "gbt_bounded k n (st\<lparr>gb_storage := s\<rparr>) = gbt_bounded k n st"
  "gbt_bounded k n (st\<lparr>gb_sends := ss\<rparr>) = gbt_bounded k n st"
  "gbt_bounded k n (st\<lparr>gb_delivered := ds\<rparr>) = gbt_bounded k n st"
  "gbt_bounded k n (st\<lparr>gb_running := b\<rparr>) = gbt_bounded k n st"
  "gbt_bounded k n (st\<lparr>gb_closed := b\<rparr>) = gbt_bounded k n st"
  by (simp_all add: gbt_bounded_def)

lemma bounded_buffer:
  assumes "gbt_bounded k n st" and "w < length (gb_workers st)"
  shows "ring_wf (wk_buffer (gb_workers st ! w)) \<and> rb_size (wk_buffer (gb_workers st ! w)) = n"
  using assms by (metis gbt_bounded_def nth_mem rings_length rings_nth)

context trace_storage
begin

lemma bounded_received:
  assumes st: "gbt_bounded k n st" and w: "w < length (gb_workers st)" and tid: "tid \<noteq> empty_trace_id"
    and r: "on_trace_received ops tid td w st = Ret (err, st')"
  shows "gbt_bounded k n st'"
proof (cases "ring_contains tid (wk_buffer (gb_workers st ! w))")
  case True
  then show ?thesis using st r by (auto simp: received_eq bounded_fields)
next
  case False
  note wf = conjunct1 [OF bounded_buffer [OF st w]] and size = conjunct2 [OF bounded_buffer [OF st w]]
  from r False obtain e r where put: "ring_put tid (wk_buffer (gb_workers st ! w)) = Ret (e, r)"
    by (auto simp: received_eq Let_def bind_outcome_Ret_iff)
  have "gbt_bounded k n (set_buffer w r st)"
    using ring_wf_put [OF wf tid False put] size by (intro bounded_set_buffer [OF st]) simp_all
  then show ?thesis
    using r False put by (auto simp: received_eq Let_def bounded_fields payload_ok_def split: if_splits intro!: bounded_fire)
qed

lemma bounded_handle:
  assumes st: "gbt_bounded k n st" and w: "w < length (gb_workers st)" and e: "payload_ok e"
    and h: "handle_event (gbt_callbacks ops) e w st = Ret st'"
  shows "gbt_bounded k n st'"
  using h
proof (cases rule: handle_event_cases)
  case (received tid td)
  with e have "tid \<noteq> empty_trace_id" by (simp add: payload_ok_def)
  with received show ?thesis by (auto simp: logged_Ret intro: bounded_received [OF st w])
next
  case (expired tid)
  note b = bounded_buffer [OF st w]
  have "gbt_bounded k n (set_buffer w (snd (ring_delete tid (wk_buffer (gb_workers st ! w)))) st)"
    using b by (intro bounded_set_buffer [OF st]) (simp_all add: ring_wf_delete)
  then show ?thesis
    using expired st by (auto simp: logged_Ret on_trace_expired_def Let_def bounded_fields split: if_splits)
next
  case (released rss)
  then show ?thesis using st by (auto simp: logged_Ret on_trace_released_def bounded_fields)
next
  case (removed tid)
  then show ?thesis using st by (auto simp: removed_eq bounded_fields)
next
  case none
  then show ?thesis using st by simp
qed

lemma bounded_exec:
  assumes st: "gbt_bounded k n st" and x: "gbt_exec ops hash l st = Some (Ret st')"
    and l: "\<And>td. l = Receive td \<Longrightarrow> get_trace_id td \<noteq> Inr empty_trace_id"
  shows "gbt_bounded k n st'"
proof (cases l)
  case (Receive td)
  with st x l show ?thesis
    by (auto simp: consume_def bind_outcome_Ret_iff payload_ok_def split: sum.splits if_splits
        intro!: bounded_fire)
next
  case (Work w)
  with x obtain e es where w: "w < length (gb_workers st)" and q: "wk_events (gb_workers st ! w) = e # es"
    and h: "handle_event (gbt_callbacks ops) e w (dequeue w es st) = Ret st'"
    by (auto simp: dequeue_def split: if_splits list.splits)
  have "payload_ok e" using st queued_head [OF w q] by (simp add: gbt_bounded_def)
  moreover have "w < length (gb_workers (dequeue w es st))" using w by (simp add: dequeue_def)
  ultimately show ?thesis by (rule bounded_handle [OF bounded_dequeue [OF st q] _ _ h, rotated])
next
  case (Expire i)
  with st x show ?thesis
    by (auto simp: bounded_fields payload_ok_def case_prod_beta split: if_splits intro!: bounded_fire)
next
  case (Get i)
  with st x show ?thesis
    by (auto simp: mark_get_eq bounded_fields case_prod_beta split: if_splits)
next
  case (Fire i)
  with st x show ?thesis
    by (auto simp: mark_fire_def bounded_fields payload_ok_def case_prod_beta split: if_splits intro!: bounded_fire)
next
  case (Send i)
  with st x show ?thesis by (auto simp: bounded_fields split: if_splits)
next
  case StartAll
  with st x show ?thesis by (auto simp: gbt_start_def case_prod_beta bounded_fields)
next
  case Close
  with st x show ?thesis by (auto simp: gbt_close_def bounded_fields)
next
  case Stop
  with st x show ?thesis by (auto simp: gbt_stop_def case_prod_beta bounded_fields split: if_splits)
qed

lemma bounded_run:
  assumes "gbt_run ops hash ls st st'" and "gbt_bounded k n st"
    and "\<forall>td \<in> set (received ls). get_trace_id td \<noteq> Inr empty_trace_id"
  shows "gbt_bounded k n st'"
  using assms
proof (induction rule: gbt_run.induct)
  case (run_snoc ls st st1 l st2)
  have rcv: "received (ls @ [l]) = received ls @ received [l]" by (simp add: received_def)
  then have "gbt_bounded k n st1" using run_snoc by simp
  then show ?case
    by (rule bounded_exec [OF _ run_snoc.hyps(2)]) (use run_snoc.prems in \<open>auto simp: rcv received_def\<close>)
qed simp

end

text \<open>The ids in flight, over all workers.\<close>

definition in_flight :: "'s gbt \<Rightarrow> nat" where
  "in_flight st = sum_list (map (\<lambda>r. card (dom (rb_id_to_index r))) (rings st))"

lemma bounded_in_flight:
  assumes "gbt_bounded k n st"
  shows "in_flight st \<le> k * nat n"
proof -
  have "sum_list (map (\<lambda>r. card (dom (rb_id_to_index r))) rs) \<le> length rs * nat n"
    if "\<forall>r \<in> set rs. ring_wf r \<and> rb_size r = n" for rs
    using that
  proof (induction rs)
    case (Cons r rs)
    then have "card (dom (rb_id_to_index r)) \<le> nat n" using ring_bounded(2) [of r] by auto
    with Cons show ?case by simp
  qed simp
  with assms show ?thesis by (auto simp: in_flight_def gbt_bounded_def)
qed

lemma new_workers_bounded:
  "0 < n \<Longrightarrow> \<exists>ws. new_workers k n = Ret ws \<and> length ws = k \<and>
     (\<forall>w \<in> set ws. ring_wf (wk_buffer w) \<and> rb_size (wk_buffer w) = n \<and> wk_events w = [])"
proof (induction k)
  case (Suc k)
  then obtain ws r where "new_workers k n = Ret ws \<and> length ws = k \<and>
     (\<forall>w \<in> set ws. ring_wf (wk_buffer w) \<and> rb_size (wk_buffer w) = n \<and> wk_events w = [])"
    and "new_ring_buffer n = Ret r \<and> ring_wf r \<and> rb_size r = n"
    using ring_wf_new by blast
  then show ?case by simp
qed simp


section \<open>The life of a trace\<close>

lemma run_one: "gbt_exec ops hash l st = Some (Ret st') \<Longrightarrow> gbt_run ops hash [l] st st'"
  using run_snoc [OF run_nil] by fastforce

lemma run_append:
  assumes "gbt_run ops hash ls' st1 st2" and "gbt_run ops hash ls st st1"
  shows "gbt_run ops hash (ls @ ls') st st2"
  using assms by (induction rule: gbt_run.induct) (auto simp flip: append_assoc intro: run_snoc)

definition routes :: "(trace_id \<Rightarrow> u64) \<Rightarrow> trace_id \<Rightarrow> nat \<Rightarrow> 's gbt \<Rightarrow> bool" where
  "routes hash tid w st \<longleftrightarrow> w < length (gb_workers st) \<and>
     (if length (gb_workers st) = 1 then w = 0 else w = unat (hash tid mod of_nat (length (gb_workers st))))"

text \<open>A worker without queued events.\<close>

definition quiet :: "nat \<Rightarrow> 's gbt \<Rightarrow> bool" where
  "quiet w st \<longleftrightarrow> gb_running st \<and> \<not> gb_closed st \<and> w < length (gb_workers st) \<and> wk_events (gb_workers st ! w) = []"

lemma same_events:
  assumes "quiet w st"
  shows "st\<lparr>gb_workers := (gb_workers st)[w := (gb_workers st ! w)\<lparr>wk_events := []\<rparr>]\<rparr> = st"
proof -
  have "(gb_workers st ! w)\<lparr>wk_events := []\<rparr> = gb_workers st ! w"
    using assms by (cases "gb_workers st ! w") (simp add: quiet_def)
  then show ?thesis by simp
qed

lemma fire_dequeue:
  assumes "quiet w st"
  shows "gbt_exec ops hash (Work w) (fire [e] w st) = Some (handle_event (gbt_callbacks ops) e w st)"
    and "gbt_exec ops hash (Work w) (fire [e, e'] w st) =
           Some (handle_event (gbt_callbacks ops) e w (fire [e'] w st))"
  using assms same_events [OF assms] by (simp_all add: quiet_def fire_def push_events_def)

lemma receive_work:
  assumes "quiet w st" and "routes hash tid w st" and "get_trace_id td = Inr tid"
    and "on_trace_received ops tid td w st = Ret (err, st')"
  shows "gbt_run ops hash [Receive td, Work w] st st'"
proof -
  let ?e = "mk_event TraceReceived (TracesWithID tid td)"
  have "gbt_exec ops hash (Receive td) st = Some (Ret (fire [?e] w st))"
    using assms(2,3) by (auto simp: consume_def routes_def worker_index_for_trace_id_def split: if_splits)
  from run_append [OF run_one run_one [OF this]] fire_dequeue(1) [OF assms(1)] show ?thesis
    using assms(4) by (fastforce simp: handle_event_simps logged_Ret)
qed

text \<open>
  From \<open>st0\<close> to \<open>st\<close>: the trace is in flight with the spans \<open>td\<close> and one timer, and nothing else
  has changed in the storage or outside the workers.
\<close>

definition holds :: "'s storage \<Rightarrow> trace_id \<Rightarrow> nat \<Rightarrow> traces \<Rightarrow> 's gbt \<Rightarrow> 's gbt \<Rightarrow> bool" where
  "holds ops tid w td st0 st \<longleftrightarrow> quiet w st \<and> length (gb_workers st) = length (gb_workers st0) \<and>
     ring_wf (wk_buffer (gb_workers st ! w)) \<and> ring_contains tid (wk_buffer (gb_workers st ! w)) \<and>
     stored ops (gb_storage st) = (stored ops (gb_storage st0))(tid := td) \<and>
     gb_timers st = gb_timers st0 @ [(tid, w)] \<and> gb_releases st = gb_releases st0 \<and>
     gb_firing st = gb_firing st0 \<and> gb_sends st = gb_sends st0 \<and> gb_delivered st = gb_delivered st0"


definition released :: "'s storage \<Rightarrow> trace_id \<Rightarrow> nat \<Rightarrow> traces \<Rightarrow> 's gbt \<Rightarrow> 's gbt \<Rightarrow> bool" where
  "released ops tid w td st0 st \<longleftrightarrow> quiet w st \<and> length (gb_workers st) = length (gb_workers st0) \<and>
     ring_wf (wk_buffer (gb_workers st ! w)) \<and> \<not> ring_contains tid (wk_buffer (gb_workers st ! w)) \<and>
     stored ops (gb_storage st) = (stored ops (gb_storage st0))(tid := []) \<and>
     gb_timers st = gb_timers st0 \<and> gb_releases st = gb_releases st0 \<and>
     gb_firing st = gb_firing st0 \<and> gb_sends st = gb_sends st0 \<and> gb_delivered st = gb_delivered st0 @ [td]"

lemma quiet_fields:
  "quiet w (st\<lparr>gb_storage := s\<rparr>) = quiet w st" "quiet w (st\<lparr>gb_timers := ts\<rparr>) = quiet w st"
  "quiet w (st\<lparr>gb_releases := rs\<rparr>) = quiet w st" "quiet w (st\<lparr>gb_firing := fs\<rparr>) = quiet w st"
  "quiet w (st\<lparr>gb_sends := ss\<rparr>) = quiet w st" "quiet w (st\<lparr>gb_delivered := ds\<rparr>) = quiet w st"
  "quiet w st \<Longrightarrow> quiet w (set_buffer w r st)"
  by (auto simp: quiet_def set_buffer_def)

lemma workers_set_buffer:
  "w < length (gb_workers st) \<Longrightarrow> wk_buffer (gb_workers (set_buffer w r st) ! w) = r"
  "length (gb_workers (set_buffer w r st)) = length (gb_workers st)"
  by (simp_all add: set_buffer_def)

context trace_storage
begin

lemma first_batch:
  assumes q: "quiet w st" and r: "routes hash tid w st" and td: "get_trace_id td = Inr tid"
    and wf: "ring_wf (wk_buffer (gb_workers st ! w))" and new: "\<not> ring_contains tid (wk_buffer (gb_workers st ! w))"
    and free: "last (window (wk_buffer (gb_workers st ! w))) = empty_trace_id" and tid: "tid \<noteq> empty_trace_id"
    and none: "stored ops (gb_storage st) tid = []"
  shows "\<exists>st'. gbt_run ops hash [Receive td, Work w] st st' \<and> holds ops tid w td st st'"
proof -
  have w: "w < length (gb_workers st)" using q by (simp add: quiet_def)
  obtain e b where put: "ring_put tid (wk_buffer (gb_workers st ! w)) = Ret (e, b)"
    by (simp add: ring_put_wf_eq wf)
  have e: "e = empty_trace_id" using window_put(2) [OF wf put] free by simp
  note b = ring_wf_put(1) [OF wf tid new put]
  have c: "ring_contains tid b"
    using put by (auto simp: ring_put_wf_eq wf ring_contains_def)
  let ?st' = "set_buffer w b st\<lparr>gb_storage := snd (st_create_or_append ops tid td (gb_storage st)),
                gb_timers := gb_timers st @ [(tid, w)]\<rparr>"
  have "on_trace_received ops tid td w st = Ret (None, ?st')"
    using new put e by (simp add: received_eq Let_def)
  from receive_work [OF q r td this] moreover have "holds ops tid w td st ?st'"
    using q w b c none by (simp add: holds_def quiet_fields workers_set_buffer append_fun)
  ultimately show ?thesis by blast
qed

lemma next_batch:
  assumes h: "holds ops tid w acc st0 st" and r: "routes hash tid w st0" and td: "get_trace_id td = Inr tid"
  shows "\<exists>st'. gbt_run ops hash [Receive td, Work w] st st' \<and> holds ops tid w (acc @ td) st0 st'"
proof -
  let ?st' = "st\<lparr>gb_storage := snd (st_create_or_append ops tid td (gb_storage st))\<rparr>"
  have "on_trace_received ops tid td w st = Ret (None, ?st')"
    using h by (simp add: received_eq Let_def holds_def)
  moreover have "quiet w st" and "routes hash tid w st" using h r by (simp_all add: holds_def routes_def)
  ultimately have "gbt_run ops hash [Receive td, Work w] st ?st'" using td receive_work by blast
  moreover have "holds ops tid w (acc @ td) st0 ?st'"
    using h by (simp add: holds_def quiet_fields append_fun)
  ultimately show ?thesis by blast
qed

lemma more_batches:
  assumes "holds ops tid w acc st0 st" and "routes hash tid w st0" and "\<forall>td \<in> set tds. get_trace_id td = Inr tid"
  shows "\<exists>st'. gbt_run ops hash (concat (map (\<lambda>td. [Receive td, Work w]) tds)) st st' \<and>
           holds ops tid w (acc @ concat tds) st0 st'"
  using assms
proof (induction tds arbitrary: acc st)
  case Nil
  then show ?case using run_nil by auto
next
  case (Cons td tds)
  then obtain st1 where one: "gbt_run ops hash [Receive td, Work w] st st1" "holds ops tid w (acc @ td) st0 st1"
    using next_batch by (metis list.set_intros(1))
  with Cons obtain st2 where "gbt_run ops hash (concat (map (\<lambda>td. [Receive td, Work w]) tds)) st1 st2"
    and "holds ops tid w ((acc @ td) @ concat tds) st0 st2"
    using Cons.IH [OF one(2)] by auto
  then show ?case using run_append [OF _ one(1)] by fastforce
qed

lemma release:
  assumes h: "holds ops tid w td st0 st" and td: "td \<noteq> []"
  shows "\<exists>st'. gbt_run ops hash [Expire (length (gb_timers st0)), Work w, Get (length (gb_releases st0)),
             Fire (length (gb_firing st0)), Work w, Work w, Send (length (gb_sends st0))] st st' \<and>
           released ops tid w td st0 st'"
proof -
  let ?b = "snd (ring_delete tid (wk_buffer (gb_workers st ! w)))"
  define A where "A = set_buffer w ?b (st\<lparr>gb_timers := gb_timers st0\<rparr>)"
  define C where "C = A\<lparr>gb_releases := gb_releases st0, gb_firing := gb_firing st0\<rparr>"
  let ?rel = "mk_event TraceReleased (ResourceSpansPayload td)" and ?rem = "mk_event TraceRemoved (TraceIDPayload tid)"
  let ?exp = "mk_event TraceExpired (TraceIDPayload tid)"
  note H = h [unfolded holds_def]
  have w: "w < length (gb_workers st)" using H by (simp add: quiet_def)
  have qT: "quiet w (st\<lparr>gb_timers := gb_timers st0\<rparr>)" using H by (simp add: quiet_fields)
  have A: "quiet w A" "stored ops (gb_storage A) tid = td" "gb_firing A = gb_firing st0"
    "gb_sends A = gb_sends st0" "gb_delivered A = gb_delivered st0" "gb_releases A = gb_releases st0"
    using H by (simp_all add: A_def quiet_fields)
  have C: "quiet w C" "gb_sends C = gb_sends st0" "gb_delivered C = gb_delivered st0" "gb_storage C = gb_storage st"
    using A by (simp_all add: C_def quiet_fields) (simp add: A_def)
  have "gbt_exec ops hash (Expire (length (gb_timers st0))) st = Some (Ret (fire [?exp] w (st\<lparr>gb_timers := gb_timers st0\<rparr>)))"
    using H by (simp add: remove_nth_def)
  note run1 = run_one [OF this]
  have "gbt_exec ops hash (Work w) (fire [?exp] w (st\<lparr>gb_timers := gb_timers st0\<rparr>)) =
        Some (Ret (A\<lparr>gb_releases := gb_releases st0 @ [(tid, w)]\<rparr>))"
    unfolding fire_dequeue [OF qT] using H by (simp add: handle_event_simps on_trace_expired_def Let_def logged_def A_def)
  note run2 = run_append [OF run_one [OF this] run1]
  have "gbt_exec ops hash (Get (length (gb_releases st0))) (A\<lparr>gb_releases := gb_releases st0 @ [(tid, w)]\<rparr>) =
        Some (Ret (A\<lparr>gb_releases := gb_releases st0, gb_firing := gb_firing st0 @ [(td, tid, w)]\<rparr>))"
    using A td by (simp add: mark_get_eq remove_nth_def)
  note run3 = run_append [OF run_one [OF this] run2]
  have "gbt_exec ops hash (Fire (length (gb_firing st0)))
          (A\<lparr>gb_releases := gb_releases st0, gb_firing := gb_firing st0 @ [(td, tid, w)]\<rparr>) =
        Some (Ret (fire [?rel, ?rem] w C))"
    by (simp add: mark_fire_def remove_nth_def C_def)
  note run4 = run_append [OF run_one [OF this] run3]
  have "(fire [?rem] w C)\<lparr>gb_sends := gb_sends st0 @ [td]\<rparr> = fire [?rem] w (C\<lparr>gb_sends := gb_sends st0 @ [td]\<rparr>)"
    by (simp add: fire_def)
  then have "gbt_exec ops hash (Work w) (fire [?rel, ?rem] w C) =
        Some (Ret (fire [?rem] w (C\<lparr>gb_sends := gb_sends st0 @ [td]\<rparr>)))"
    unfolding fire_dequeue [OF C(1)] using C by (simp add: handle_event_simps on_trace_released_def logged_def)
  note run5 = run_append [OF run_one [OF this] run4]
  let ?D = "C\<lparr>gb_sends := gb_sends st0 @ [td], gb_storage := snd (st_delete ops tid (gb_storage st))\<rparr>"
  have qD: "quiet w (C\<lparr>gb_sends := gb_sends st0 @ [td]\<rparr>)" using C by (simp add: quiet_fields)
  have "gbt_exec ops hash (Work w) (fire [?rem] w (C\<lparr>gb_sends := gb_sends st0 @ [td]\<rparr>)) = Some (Ret ?D)"
    unfolding fire_dequeue [OF qD] using C by (simp add: handle_event_simps removed_eq)
  note run6 = run_append [OF run_one [OF this] run5]
  let ?E = "?D\<lparr>gb_sends := gb_sends st0, gb_delivered := gb_delivered st0 @ [td]\<rparr>"
  have "gbt_exec ops hash (Send (length (gb_sends st0))) ?D = Some (Ret ?E)"
    using C by (simp add: remove_nth_def)
  note run7 = run_append [OF run_one [OF this] run6]
  have "ring_wf ?b \<and> \<not> ring_contains tid ?b"
    using H by (auto simp: ring_wf_delete) (simp add: ring_contains_def ring_delete_def split: option.splits)
  moreover have "quiet w ?E" using C(1) by (simp add: quiet_fields)
  moreover have "wk_buffer (gb_workers ?E ! w) = ?b" using w by (simp add: C_def A_def set_buffer_def)
  moreover have "length (gb_workers ?E) = length (gb_workers st)" by (simp add: C_def A_def set_buffer_def)
  moreover have "gb_timers ?E = gb_timers st0" by (simp add: C_def A_def)
  moreover have "stored ops (gb_storage ?E) = (stored ops (gb_storage st0))(tid := [])"
    using H by (simp add: delete_fun)
  moreover have "gb_releases ?E = gb_releases st0" and "gb_firing ?E = gb_firing st0"
    by (simp_all add: C_def)
  ultimately have "released ops tid w td st0 ?E" using H by (simp add: released_def)
  with run7 show ?thesis by auto
qed

end

section \<open>Running labels\<close>

fun exec_all :: "'s storage \<Rightarrow> (trace_id \<Rightarrow> u64) \<Rightarrow> gbt_label list \<Rightarrow> 's gbt \<Rightarrow> 's gbt option" where
  "exec_all ops hash [] st = Some st"
| "exec_all ops hash (l # ls) st =
     (case gbt_exec ops hash l st of Some (Ret st1) \<Rightarrow> exec_all ops hash ls st1 | _ \<Rightarrow> None)"

lemma exec_all_run: "exec_all ops hash ls st = Some st' \<Longrightarrow> gbt_run ops hash ls st st'"
proof (induction ls arbitrary: st)
  case Nil
  then show ?case using run_nil by simp
next
  case (Cons l ls)
  then obtain st1 where "gbt_exec ops hash l st = Some (Ret st1)" "exec_all ops hash ls st1 = Some st'"
    by (auto split: option.splits outcome.splits)
  with Cons.IH run_append [OF _ run_one] show ?case by fastforce
qed

definition named_span :: "trace_id \<Rightarrow> string \<Rightarrow> ot_span" where
  "named_span tid name = empty_span\<lparr>os_trace_id := tid, os_name := name\<rparr>"

definition one_span :: "trace_id \<Rightarrow> string \<Rightarrow> traces" where
  "one_span tid name = [empty_resource\<lparr>res_scopes := [empty_scope\<lparr>scope_items := [named_span tid name]\<rparr>]\<rparr>]"

definition sample_gbt_config :: gbt_config where
  "sample_gbt_config = gbt_default_config\<lparr>gc_num_traces := 2\<rparr>"

text \<open>What an observer sees: the names delivered, what is still under way, the stored resources.\<close>

definition observe :: "trace_id \<Rightarrow> memory_storage gbt \<Rightarrow> string list list \<times> nat \<times> nat" where
  "observe tid st =
     (map (map os_name \<circ> items) (gb_delivered st),
      num_events st + length (gb_timers st) + length (gb_releases st) + length (gb_firing st) + length (gb_sends st),
      length (stored memory_ops (gb_storage st) tid))"

definition sample_run :: "gbt_label list \<Rightarrow> (string list list \<times> nat \<times> nat) option" where
  "sample_run ls =
     (case create_gbt_processor sample_gbt_config of
        Ret (Inr st) \<Rightarrow> map_option (observe (replicate 16 1)) (exec_all memory_ops (\<lambda>_. 0) ls st)
      | _ \<Rightarrow> None)"

definition lost_labels :: "gbt_label list" where
  "lost_labels =
    [StartAll, Receive (one_span (replicate 16 1) ''a''), Work 0, Expire 0, Work 0, Get 0,
     Receive (one_span (replicate 16 1) ''b''), Work 0, Fire 0, Work 0, Work 0, Send 0,
     Expire 0, Work 0, Get 0]"

lemma sample_lost:
  "sample_run lost_labels = Some ([[''a'']], 0, 0)"
  by code_simp

definition twice_labels :: "gbt_label list" where
  "twice_labels =
    [StartAll, Receive (one_span (replicate 16 1) ''a''), Work 0, Expire 0, Work 0,
     Receive (one_span (replicate 16 1) ''b''), Work 0, Expire 0, Work 0, Get 0, Get 0, Fire 0, Fire 0,
     Work 0, Work 0, Work 0, Work 0, Send 0, Send 0]"

lemma sample_twice:
  "sample_run twice_labels = Some ([[''a'', ''b''], [''a'', ''b'']], 0, 0)"
  by code_simp

definition evicted_labels :: "gbt_label list" where
  "evicted_labels =
    [StartAll, Receive (one_span (replicate 16 1) ''a''), Work 0,
     Receive (one_span (replicate 16 2) ''b''), Work 0, Receive (one_span (replicate 16 3) ''c''),
     Receive (one_span (replicate 16 1) ''d''), Work 0, Work 0, Work 0, Work 0,
     Expire 0, Work 0, Get 0, Expire 0, Work 0, Expire 0, Work 0, Get 0, Fire 0, Work 0, Work 0, Send 0,
     Expire 0, Work 0]"

lemma sample_evicted:
  "sample_run evicted_labels = Some ([[''c'']], 0, 0)"
  by code_simp

section \<open>Properties\<close>

lemma create_gbt_new:
  assumes "create_gbt_processor cfg = Ret (Inr st)"
  obtains ws where "new_event_machine (gc_num_workers cfg) (gc_num_traces cfg) = Ret ws"
    and "st = \<lparr>gb_workers = ws, gb_storage = new_memory_storage, gb_running = False, gb_closed = False,
               gb_timers = [], gb_releases = [], gb_firing = [], gb_sends = [], gb_delivered = []\<rparr>"
  using assms
  by (auto simp: create_gbt_processor_def new_group_by_trace_def bind_outcome_Ret_iff split: if_splits)

lemma new_workers_events: "new_workers k n = Ret ws \<Longrightarrow> \<forall>w \<in> set ws. wk_events w = []"
  by (induction k n arbitrary: ws rule: new_workers.induct) (auto simp: bind_outcome_Ret_iff)

lemma new_gbt_prov:
  assumes "create_gbt_processor cfg = Ret (Inr st)"
  shows "gbt_prov memory_ops {} st"
  using assms
proof (cases rule: create_gbt_new)
  case (1 ws)
  then have "\<forall>w \<in> set ws. wk_events w = []"
    using new_workers_events by (auto simp: new_event_machine_def split: if_splits)
  with 1 show ?thesis by (simp add: gbt_prov_def queued_def memory_stored new_memory_storage_def)
qed

text \<open>
  C7: however the workers, timers and goroutines interleave, what the processor delivers at once
  are spans of one trace, in resources that were received.
\<close>

theorem gbt_delivers_one_trace:
  assumes "create_gbt_processor cfg = Ret (Inr st0)" and "gbt_run memory_ops hash ls st0 st"
    and "\<forall>td \<in> set (received ls). \<exists>batch. td \<in> set (split_traces batch)"
    and "t \<in> set (gb_delivered st)"
  shows "(\<exists>tid. \<forall>s \<in> set (items t). os_trace_id s = tid) \<and> set t \<subseteq> set (concat (received ls))"
proof -
  have "\<forall>td \<in> set (received ls). single_trace td" using assms(3) split_single_trace by blast
  then have "gbt_prov memory_ops (set (concat (received ls))) st"
    by (rule mem.prov_run [OF assms(2) new_gbt_prov [OF assms(1)]])
  with assms(4) show ?thesis unfolding gbt_prov_def prov_def by blast
qed

text \<open>
  C27: with at least one worker, at least one trace for each and no empty trace ids, the workers never
  have more ids in flight than \<open>num_traces\<close>, whatever the interleaving.
\<close>

theorem gbt_in_flight_bounded:
  assumes "create_gbt_processor cfg = Ret (Inr st0)" and "gbt_run memory_ops hash ls st0 st"
    and "0 < gc_num_workers cfg" and "gc_num_workers cfg \<le> gc_num_traces cfg"
    and "\<forall>td \<in> set (received ls). get_trace_id td \<noteq> Inr empty_trace_id"
  shows "int (in_flight st) \<le> gc_num_traces cfg"
  using assms(1)
proof (cases rule: create_gbt_new)
  case (1 ws)
  let ?k = "gc_num_workers cfg" and ?n = "gc_num_traces cfg div gc_num_workers cfg"
  have n: "gc_num_traces cfg sdiv ?k = ?n" using assms(3,4) by (simp add: signed_divide_int_def)
  have pos: "0 < ?n" using assms(3,4) by (simp add: pos_imp_zdiv_pos_iff)
  from 1(1) n have "new_workers (nat ?k) ?n = Ret ws"
    using assms(3) by (simp add: new_event_machine_def)
  then have "length ws = nat ?k" and "\<forall>w \<in> set ws. ring_wf (wk_buffer w) \<and> rb_size (wk_buffer w) = ?n \<and> wk_events w = []"
    using new_workers_bounded [OF pos, of "nat ?k"] by auto
  then have "gbt_bounded (nat ?k) ?n st0" by (simp add: 1 gbt_bounded_def rings_def queued_def)
  then have "gbt_bounded (nat ?k) ?n st" by (rule mem.bounded_run [OF assms(2) _ assms(5)])
  then have "int (in_flight st) \<le> int (nat ?k * nat ?n)"
    by (simp only: of_nat_le_iff bounded_in_flight)
  also have "\<dots> = ?k * ?n" using assms(3) pos by simp
  also have "\<dots> \<le> gc_num_traces cfg" using assms(3) by (metis minus_mod_eq_mult_div pos_mod_sign diff_le_eq le_add_same_cancel1)
  finally show ?thesis .
qed

text \<open>
  In the undisturbed schedule - a worker that is idle and has a free slot handles the batches of a
  trace one by one, then its timer, then the goroutines it starts - the batches are delivered together,
  once, in the order of their arrival, and nothing of the trace is left.  In other schedules a
  batch may be lost or delivered twice (\<open>gbt_late_batches\<close>).
\<close>

lemma gbt_trace_released:
  assumes "quiet w st" and "routes hash tid w st" and "ring_wf (wk_buffer (gb_workers st ! w))"
    and "\<not> ring_contains tid (wk_buffer (gb_workers st ! w))"
    and "last (window (wk_buffer (gb_workers st ! w))) = empty_trace_id" and "tid \<noteq> empty_trace_id"
    and "stored memory_ops (gb_storage st) tid = []"
    and "\<forall>b \<in> set (td # tds). get_trace_id b = Inr tid"
  shows "\<exists>st'. gbt_run memory_ops hash
             (concat (map (\<lambda>b. [Receive b, Work w]) (td # tds)) @
              [Expire (length (gb_timers st)), Work w, Get (length (gb_releases st)),
               Fire (length (gb_firing st)), Work w, Work w, Send (length (gb_sends st))]) st st' \<and>
           gb_delivered st' = gb_delivered st @ [concat (td # tds)] \<and>
           stored memory_ops (gb_storage st') = (stored memory_ops (gb_storage st))(tid := []) \<and>
           \<not> ring_contains tid (wk_buffer (gb_workers st' ! w)) \<and> quiet w st' \<and>
           gb_timers st' = gb_timers st \<and> gb_releases st' = gb_releases st \<and> gb_firing st' = gb_firing st"
proof -
  obtain st1 where 1: "gbt_run memory_ops hash [Receive td, Work w] st st1" "holds memory_ops tid w td st st1"
    using mem.first_batch [of w st hash tid td] assms by auto
  obtain st2 where 2: "gbt_run memory_ops hash (concat (map (\<lambda>b. [Receive b, Work w]) tds)) st1 st2"
      "holds memory_ops tid w (td @ concat tds) st st2"
    using mem.more_batches [OF 1(2) assms(2)] assms(8) by auto
  have "td @ concat tds \<noteq> []" using assms(8) by (auto simp: get_trace_id_def)
  from mem.release [OF 2(2) this] obtain st3 where
    3: "gbt_run memory_ops hash [Expire (length (gb_timers st)), Work w, Get (length (gb_releases st)),
          Fire (length (gb_firing st)), Work w, Work w, Send (length (gb_sends st))] st2 st3"
      "released memory_ops tid w (td @ concat tds) st st3"
    by blast
  from run_append [OF 3(1) run_append [OF 2(1) 1(1)]] 3(2) show ?thesis
    by (intro exI [of _ st3]) (simp add: released_def)
qed

lemma received_labels:
  "received lost_labels = [one_span (replicate 16 1) ''a'', one_span (replicate 16 1) ''b'']"
  "received twice_labels = [one_span (replicate 16 1) ''a'', one_span (replicate 16 1) ''b'']"
  "received evicted_labels = [one_span (replicate 16 1) ''a'', one_span (replicate 16 2) ''b'',
     one_span (replicate 16 3) ''c'', one_span (replicate 16 1) ''d'']"
  by (simp_all add: received_def lost_labels_def twice_labels_def evicted_labels_def)

text \<open>
  Spans can be lost and delivered twice.  A batch that is stored between the snapshot of
  \<open>markAsReleased\<close> and the removal is deleted with it, one that comes between an eviction and its
  removal is too, and two expiries whose goroutines both read the storage before it is emptied
  deliver the same spans twice; in each run nothing is under way or stored at the end.
\<close>

lemma gbt_late_batches:
  "(sample_run lost_labels = Some ([[''a'']], 0, 0) \<and>
      received lost_labels = [one_span (replicate 16 1) ''a'', one_span (replicate 16 1) ''b'']) \<and>
   (sample_run evicted_labels = Some ([[''c'']], 0, 0) \<and>
      received evicted_labels = [one_span (replicate 16 1) ''a'', one_span (replicate 16 2) ''b'',
                     one_span (replicate 16 3) ''c'', one_span (replicate 16 1) ''d'']) \<and>
   (sample_run twice_labels = Some ([[''a'', ''b''], [''a'', ''b'']], 0, 0) \<and>
      received twice_labels = [one_span (replicate 16 1) ''a'', one_span (replicate 16 1) ''b''])"
  using sample_lost sample_evicted sample_twice by (simp add: received_labels)

text \<open>
  A configuration with more workers than traces is accepted, and the first trace that reaches
  a worker of it stops the process with a division by zero.
\<close>

lemma gbt_too_few_traces:
  assumes "0 \<le> gc_num_traces cfg" and "gc_num_traces cfg < gc_num_workers cfg"
    and "\<not> gc_store_on_disk cfg" and "\<not> gc_discard_orphans cfg" and "w < nat (gc_num_workers cfg)"
  shows "\<exists>st. create_gbt_processor cfg = Ret (Inr st) \<and>
           handle_event (gbt_callbacks memory_ops) (mk_event TraceReceived (TracesWithID tid td)) w st = Panic"
proof -
  have "new_workers k 0 = Ret (replicate k \<lparr>wk_buffer = \<lparr>rb_index = -1, rb_size = 0, rb_ids = [],
          rb_id_to_index = Map.empty\<rparr>, wk_events = []\<rparr>)" for k
    by (induction k) (simp_all add: new_ring_buffer_def)
  moreover have "gc_num_traces cfg sdiv gc_num_workers cfg = 0"
    using assms(1,2) by (simp add: signed_divide_int_def div_pos_pos_trivial)
  ultimately show ?thesis
    using assms
    by (simp add: create_gbt_processor_def new_group_by_trace_def new_event_machine_def handle_event_simps
        on_trace_received_def ring_contains_def ring_put_def logged_def)
qed

section \<open>Witnesses\<close>

lemma gbt_too_few_traces_witness:
  "\<exists>st. create_gbt_processor (gbt_default_config\<lparr>gc_num_traces := 1, gc_num_workers := 2\<rparr>) = Ret (Inr st) \<and>
     handle_event (gbt_callbacks memory_ops)
       (mk_event TraceReceived (TracesWithID (replicate 16 1) (one_span (replicate 16 1) ''a''))) 1 st = Panic"
  by (rule gbt_too_few_traces) (simp_all add: gbt_default_config_def)


lemma sample_run_run:
  assumes "sample_run ls = Some (names, n, m)"
  obtains st0 st where "create_gbt_processor sample_gbt_config = Ret (Inr st0)"
    and "gbt_run memory_ops (\<lambda>_. 0) ls st0 st" and "map (map os_name \<circ> items) (gb_delivered st) = names"
  using assms
  by (auto simp: sample_run_def observe_def split: outcome.splits sum.splits dest!: exec_all_run)

lemma split_one_span: "split_traces (one_span tid name) = [one_span tid name]"
  by (simp add: split_traces_def split_batch_groups one_span_def empty_resource_def empty_scope_def batch_of_def)

lemma one_span_trace_id [simp]: "get_trace_id (one_span tid name) = Inr tid"
  by (simp add: one_span_def get_trace_id_def named_span_def)

lemma sample_id: "replicate 16 1 \<noteq> empty_trace_id"
  by (simp add: empty_trace_id_def numeral_eq_Suc)

theorem gbt_delivers_one_trace_witness:
  "\<exists>ls st0 st. create_gbt_processor sample_gbt_config = Ret (Inr st0) \<and>
     gbt_run memory_ops (\<lambda>_. 0) ls st0 st \<and> length (gb_delivered st) = 2 \<and>
     (\<exists>tid. list_all (\<lambda>s. os_trace_id s = tid) (items (gb_delivered st ! 0)))"
proof -
  obtain st0 st where st: "create_gbt_processor sample_gbt_config = Ret (Inr st0)"
    "gbt_run memory_ops (\<lambda>_. 0) twice_labels st0 st" "map (map os_name \<circ> items) (gb_delivered st) = [[''a'', ''b''], [''a'', ''b'']]"
    using sample_run_run [OF sample_twice] .
  then have len: "length (gb_delivered st) = 2" by (metis length_map length_Cons list.size(3) numeral_2_eq_2)
  have "\<forall>td \<in> set (received twice_labels). \<exists>batch. td \<in> set (split_traces batch)"
    by (metis received_labels(2) split_one_span list.set_intros(1) empty_iff insert_iff list.set(1) list.simps(15))
  then have "\<exists>tid. \<forall>s \<in> set (items (gb_delivered st ! 0)). os_trace_id s = tid"
    using gbt_delivers_one_trace [OF st(1,2), of "gb_delivered st ! 0"] len by simp
  with st len show ?thesis by (auto simp: list_all_iff)
qed

theorem gbt_in_flight_bounded_witness:
  "\<exists>ls st0 st. create_gbt_processor sample_gbt_config = Ret (Inr st0) \<and>
     gbt_run memory_ops (\<lambda>_. 0) ls st0 st \<and> length (received ls) = 2 \<and> int (in_flight st) \<le> 2"
proof -
  obtain st0 st where st: "create_gbt_processor sample_gbt_config = Ret (Inr st0)" "gbt_run memory_ops (\<lambda>_. 0) twice_labels st0 st"
    using sample_run_run [OF sample_twice] .
  have "int (in_flight st) \<le> gc_num_traces sample_gbt_config"
    by (rule gbt_in_flight_bounded [OF st])
       (simp_all add: sample_gbt_config_def gbt_default_config_def received_labels sample_id)
  with st received_labels(2) show ?thesis by (intro exI conjI) (auto simp: sample_gbt_config_def)
qed

lemma gbt_trace_released_witness:
  "\<exists>st st' ls. create_gbt_processor sample_gbt_config = Ret (Inr st) \<and>
     gbt_run memory_ops (\<lambda>_. 0) ls (snd (gbt_start memory_ops st)) st' \<and>
     gb_delivered st' = [one_span (replicate 16 1) ''a'' @ one_span (replicate 16 1) ''b'']"
proof -
  obtain r where r: "new_ring_buffer 2 = Ret r" "ring_wf r" using ring_wf_new [of 2] by auto
  define st where "st = \<lparr>gb_workers = [\<lparr>wk_buffer = r, wk_events = []\<rparr>], gb_storage = new_memory_storage,
    gb_running = False, gb_closed = False, gb_timers = [], gb_releases = [], gb_firing = [],
    gb_sends = [], gb_delivered = []\<rparr>"
  have create: "create_gbt_processor sample_gbt_config = Ret (Inr st)"
    by (simp add: create_gbt_processor_def sample_gbt_config_def gbt_default_config_def new_group_by_trace_def
        new_event_machine_def r(1) st_def signed_divide_int_def)
  let ?s = "snd (gbt_start memory_ops st)"
  have s: "quiet 0 ?s" "routes (\<lambda>_. 0) (replicate 16 1) 0 ?s" "ring_wf (wk_buffer (gb_workers ?s ! 0))"
    "gb_delivered ?s = []" "wk_buffer (gb_workers ?s ! 0) = r"
    "stored memory_ops (gb_storage ?s) (replicate 16 1) = []"
    using r(2) by (simp_all add: gbt_start_def quiet_def routes_def st_def ms_start_def memory_stored new_memory_storage_def)
  have "window r = replicate 2 empty_trace_id" using window_new [OF r(1)] by simp
  then have "last (window r) = empty_trace_id" "\<not> ring_contains (replicate 16 1) r"
    using r(2) sample_id by (simp_all add: numeral_2_eq_2 ring_wf_contains window_set [symmetric])
  with s gbt_trace_released [OF s(1-3), of "one_span (replicate 16 1) ''a''" "[one_span (replicate 16 1) ''b'']"] sample_id
  have "\<exists>ls st'. gbt_run memory_ops (\<lambda>_. 0) ls ?s st' \<and>
      gb_delivered st' = [one_span (replicate 16 1) ''a'' @ one_span (replicate 16 1) ''b'']"
    by auto
  with create show ?thesis by blast
qed


end
