(* ===== verification/GoFloat.thy ===== *)
theory GoFloat
  imports Prelude Complex_Main
begin

text \<open>
  The arithmetic of Go's \<open>float64\<close> the sources use, on the IEEE bit patterns: the value of a
  finite number is a rational, an operation is the exact result rounded to the nearest number,
  ties to even.  \<open>math/big\<close>'s floating point numbers of a given precision round the same way,
  with no bound on the exponent.
\<close>

section \<open>Bit patterns\<close>

definition f_neg :: "float64 \<Rightarrow> bool" where
  "f_neg x = bit x 63"

definition f_mag :: "float64 \<Rightarrow> int" where
  "f_mag x = uint x mod 2 ^ 63"

definition inf_mag :: int where "inf_mag = 2047 * 2 ^ 52"

definition f_nan :: "float64 \<Rightarrow> bool" where "f_nan x = (inf_mag < f_mag x)"
definition f_inf :: "float64 \<Rightarrow> bool" where "f_inf x = (f_mag x = inf_mag)"
definition f_zero :: "float64 \<Rightarrow> bool" where "f_zero x = (f_mag x = 0)"

definition of_mag :: "bool \<Rightarrow> int \<Rightarrow> float64" where
  "of_mag neg m = (if neg then 2 ^ 63 else 0) + of_int m"

definition nan64 :: float64 where "nan64 = 0x7FF8000000000001"

text \<open>A magnitude below the smallest normal number counts multiples of the least number.\<close>

definition mag_value :: "int \<Rightarrow> rat" where
  "mag_value m =
     (let e = m div 2 ^ 52; f = m mod 2 ^ 52
      in if e = 0 then of_int f * 2 powi (- 1074)
         else of_int (2 ^ 52 + f) * 2 powi (e - 1075))"

definition f_value :: "float64 \<Rightarrow> rat" where
  "f_value x = (if f_neg x then - mag_value (f_mag x) else mag_value (f_mag x))"

section \<open>Rounding\<close>

definition round_half_even :: "rat \<Rightarrow> int" where
  "round_half_even q =
     (let n = \<lfloor>q\<rfloor>; r = q - of_int n
      in if r < 1 / 2 \<or> r = 1 / 2 \<and> even n then n else n + 1)"

fun ilog2 :: "int \<Rightarrow> int" where
  "ilog2 n = (if n < 2 then 0 else 1 + ilog2 (n div 2))"

declare ilog2.simps [simp del]

text \<open>The exponent of the leading bit of a positive rational.\<close>

definition log2_rat :: "rat \<Rightarrow> int" where
  "log2_rat q =
     (let (n, d) = quotient_of q; k = ilog2 n - ilog2 d
      in if 2 powi k \<le> q then k else k - 1)"

text \<open>Rounding to \<open>p\<close> significant bits, but not below the exponent \<open>lo\<close>: mantissa and exponent.\<close>

definition round_sig :: "nat \<Rightarrow> int \<Rightarrow> rat \<Rightarrow> int \<times> int" where
  "round_sig p lo q =
     (let e = max (log2_rat q - int p + 1) lo in (round_half_even (q / 2 powi e), e))"

text \<open>The magnitude of the number nearest to \<open>q\<close>; from the overflow threshold on it is infinity.\<close>

definition round_mag :: "rat \<Rightarrow> int" where
  "round_mag q =
     (if q \<le> 0 then 0
      else let (m, e) = round_sig 53 (- 1074) q
           in min inf_mag ((e + 1074) * 2 ^ 52 + m))"

definition f_round :: "bool \<Rightarrow> rat \<Rightarrow> float64" where
  "f_round neg q = of_mag neg (round_mag q)"

section \<open>Operations\<close>

definition f_of_int :: "int \<Rightarrow> float64" where
  "f_of_int i = f_round (i < 0) (of_int \<bar>i\<bar>)"

definition f_mul :: "float64 \<Rightarrow> float64 \<Rightarrow> float64" where
  "f_mul x y =
     (if f_nan x \<or> f_nan y \<or> f_inf x \<and> f_zero y \<or> f_zero x \<and> f_inf y then nan64
      else if f_inf x \<or> f_inf y then of_mag (f_neg x \<noteq> f_neg y) inf_mag
      else f_round (f_neg x \<noteq> f_neg y) (mag_value (f_mag x) * mag_value (f_mag y)))"

definition f_div :: "float64 \<Rightarrow> float64 \<Rightarrow> float64" where
  "f_div x y =
     (if f_nan x \<or> f_nan y \<or> f_inf x \<and> f_inf y \<or> f_zero x \<and> f_zero y then nan64
      else if f_inf x \<or> f_zero y then of_mag (f_neg x \<noteq> f_neg y) inf_mag
      else if f_inf y then of_mag (f_neg x \<noteq> f_neg y) 0
      else f_round (f_neg x \<noteq> f_neg y) (mag_value (f_mag x) / mag_value (f_mag y)))"

definition f_add :: "float64 \<Rightarrow> float64 \<Rightarrow> float64" where
  "f_add x y =
     (if f_nan x \<or> f_nan y \<or> f_inf x \<and> f_inf y \<and> f_neg x \<noteq> f_neg y then nan64
      else if f_inf x then x
      else if f_inf y then y
      else let r = f_value x + f_value y
           in if r = 0 then of_mag (f_neg x \<and> f_neg y) 0 else f_round (r < 0) \<bar>r\<bar>)"

definition f_sub :: "float64 \<Rightarrow> float64 \<Rightarrow> float64" where
  "f_sub x y = f_add x (y XOR 2 ^ 63)"

definition f_lt :: "float64 \<Rightarrow> float64 \<Rightarrow> bool" where
  "f_lt x y \<longleftrightarrow> \<not> f_nan x \<and> \<not> f_nan y \<and> f_value x < f_value y"

text \<open>The conversion to \<open>int64\<close> truncates; out of range it gives the least integer, as on amd64.\<close>

definition f_to_int :: "float64 \<Rightarrow> int" where
  "f_to_int x =
     (let t = (if f_neg x then - \<lfloor>mag_value (f_mag x)\<rfloor> else \<lfloor>mag_value (f_mag x)\<rfloor>)
      in if f_nan x \<or> f_inf x \<or> t < - (2 ^ 63) \<or> 2 ^ 63 \<le> t then - (2 ^ 63) else t)"

section \<open>Rounding is monotone\<close>

lemma ilog2_bounds: "0 < n \<Longrightarrow> 0 \<le> ilog2 n \<and> 2 ^ nat (ilog2 n) \<le> n \<and> n < 2 ^ Suc (nat (ilog2 n))"
proof (induction n rule: ilog2.induct)
  case (1 n)
  show ?case
  proof (cases "n < 2")
    case True
    with 1 show ?thesis by (subst (1 2 3) ilog2.simps) auto
  next
    case False
    then have "ilog2 n = 1 + ilog2 (n div 2)" by (subst ilog2.simps) simp
    moreover have "0 \<le> ilog2 (n div 2) \<and> 2 ^ nat (ilog2 (n div 2)) \<le> n div 2 \<and> n div 2 < 2 ^ Suc (nat (ilog2 (n div 2)))"
      using 1 False by simp
    moreover define p where "p = (2::int) ^ nat (ilog2 (n div 2))"
    ultimately have "0 \<le> ilog2 n" "2 ^ nat (ilog2 n) = 2 * p" and "p \<le> n div 2" "n div 2 < 2 * p"
      by (simp_all add: nat_add_distrib)
    then show ?thesis by auto
  qed
qed

lemma log2_rat_bounds:
  assumes "0 < q"
  shows "2 powi log2_rat q \<le> q" and "q < 2 powi (log2_rat q + 1)"
proof -
  obtain n d where nd: "quotient_of q = (n, d)" by fastforce
  then have d: "0 < d" and q: "q = of_int n / of_int d"
    using quotient_of_denom_pos quotient_of_div by auto
  with assms have n: "0 < n" by (simp add: zero_less_divide_iff)
  let ?a = "nat (ilog2 n)" and ?b = "nat (ilog2 d)"
  define k where "k = ilog2 n - ilog2 d"
  have of_int_bounds: "2 ^ nat (ilog2 i) \<le> (of_int i :: rat)" "(of_int i :: rat) < 2 ^ Suc (nat (ilog2 i))"
    if "0 < i" for i
  proof -
    have "rat_of_int (2 ^ nat (ilog2 i)) \<le> of_int i" and "rat_of_int i < of_int (2 ^ Suc (nat (ilog2 i)))"
      using ilog2_bounds [OF that] by (simp_all only: of_int_le_iff of_int_less_iff)
    then show "2 ^ nat (ilog2 i) \<le> (of_int i :: rat)" "(of_int i :: rat) < 2 ^ Suc (nat (ilog2 i))"
      by simp_all
  qed
  have "2 ^ ?a / 2 ^ Suc ?b < q" and "q < 2 ^ Suc ?a / 2 ^ ?b"
    using of_int_bounds [OF n] of_int_bounds [OF d] n d unfolding q by (intro frac_less2 frac_less; simp)+
  moreover have "2 ^ ?a = (2::rat) powi ilog2 n" "2 ^ ?b = (2::rat) powi ilog2 d"
    using ilog2_bounds [OF n] ilog2_bounds [OF d] by (simp_all add: power_int_nonneg_exp)
  ultimately have lo: "2 powi (k - 1) \<le> q" and hi: "q < 2 powi (k + 1)"
    by (simp_all add: k_def power_int_diff power_int_add mult.commute)
  then show "2 powi log2_rat q \<le> q" and "q < 2 powi (log2_rat q + 1)"
    by (auto simp: log2_rat_def nd Let_def k_def [symmetric] not_le)
qed

lemma log2_rat_mono:
  assumes "0 < q" and "q \<le> q'"
  shows "log2_rat q \<le> log2_rat q'"
proof (rule ccontr)
  assume "\<not> ?thesis"
  then have "(2::rat) powi (log2_rat q' + 1) \<le> 2 powi log2_rat q" by (intro power_int_increasing) auto
  with log2_rat_bounds(1) [OF assms(1)] log2_rat_bounds(2) [of q'] assms show False by linarith
qed

lemma round_half_even_mono: "q \<le> q' \<Longrightarrow> round_half_even q \<le> round_half_even q'"
proof -
  assume le: "q \<le> q'"
  then have fl: "\<lfloor>q\<rfloor> \<le> \<lfloor>q'\<rfloor>" by (rule floor_mono)
  show ?thesis
  proof (cases "\<lfloor>q\<rfloor> = \<lfloor>q'\<rfloor>")
    case True
    with le show ?thesis by (auto simp: round_half_even_def Let_def)
  next
    case False
    with fl show ?thesis by (auto simp: round_half_even_def Let_def)
  qed
qed

lemma round_half_even_int [simp]: "round_half_even (of_int i) = i"
  by (simp add: round_half_even_def)

lemma round_half_even_bounds:
  "of_int a \<le> q \<Longrightarrow> a \<le> round_half_even q" "q \<le> of_int b \<Longrightarrow> round_half_even q \<le> b"
  using round_half_even_mono [of "of_int a" q] round_half_even_mono [of q "of_int b"] by simp_all

text \<open>The two parts of a rounded number, when the exponent is that of the leading bit or \<open>lo\<close>.\<close>

lemma round_sig_parts:
  assumes "0 < q" and "round_sig p lo q = (m, e)" and "0 < p"
  shows "lo \<le> e" and "0 \<le> m" and "m \<le> 2 ^ p" and "lo < e \<Longrightarrow> 2 ^ (p - 1) \<le> m"
    and "e = max (log2_rat q - int p + 1) lo" and "m = round_half_even (q / 2 powi e)"
proof -
  show e: "e = max (log2_rat q - int p + 1) lo" and m: "m = round_half_even (q / 2 powi e)"
    using assms(2) by (auto simp: round_sig_def Let_def)
  from e show "lo \<le> e" by simp
  have "0 \<le> q / 2 powi e" using assms(1) by simp
  then show "0 \<le> m" unfolding m using round_half_even_bounds(1) [of 0] by simp
  have "q \<le> 2 powi (int p + e)"
  proof -
    have "q \<le> 2 powi (log2_rat q + 1)" using log2_rat_bounds(2) [OF assms(1)] by simp
    also have "\<dots> \<le> 2 powi (int p + e)" using e by (intro power_int_increasing) auto
    finally show ?thesis .
  qed
  then have "q / 2 powi e \<le> of_int (2 ^ p)" by (simp add: power_int_add field_simps)
  then show "m \<le> 2 ^ p" unfolding m by (rule round_half_even_bounds)
  assume "lo < e"
  then have "log2_rat q = int (p - 1) + e" using e assms(3) by auto
  with log2_rat_bounds(1) [OF assms(1)] have "of_int (2 ^ (p - 1)) \<le> q / 2 powi e"
    by (simp add: power_int_add field_simps)
  then show "2 ^ (p - 1) \<le> m" unfolding m by (rule round_half_even_bounds)
qed

lemma round_sig_mono:
  assumes "0 < q" and "q \<le> q'" and "0 < p" and "round_sig p lo q = (m, e)" and "round_sig p lo q' = (m', e')"
  shows "e = e' \<and> m \<le> m' \<or> e < e' \<and> m \<le> 2 ^ p \<and> 2 ^ (p - 1) \<le> m'"
proof -
  have q': "0 < q'" using assms(1,2) by simp
  note P = round_sig_parts [OF assms(1,4,3)] and P' = round_sig_parts [OF q' assms(5,3)]
  have "e \<le> e'" using log2_rat_mono [OF assms(1,2)] P(5) P'(5) by simp
  then consider "e = e'" | "e < e'" by linarith
  then show ?thesis
  proof cases
    case 1
    have "q / 2 powi e \<le> q' / 2 powi e" using assms(2) by (simp add: divide_right_mono)
    with 1 P(6) P'(6) show ?thesis by (simp add: round_half_even_mono)
  next
    case 2
    with P(1,3) P'(4) show ?thesis by simp
  qed
qed

text \<open>
  The magnitude of the number nearest to \<open>q\<close> for any format: \<open>p\<close> bits of fraction, least exponent
  \<open>lo\<close>, infinity \<open>hi\<close>.
\<close>

definition round_val :: "nat \<Rightarrow> int \<Rightarrow> int \<Rightarrow> rat \<Rightarrow> int" where
  "round_val p lo hi q =
     (if q \<le> 0 then 0
      else let (m, e) = round_sig (Suc p) lo q in min hi ((e - lo) * 2 ^ p + m))"

lemma round_val_bounds:
  assumes "0 \<le> hi"
  shows "0 \<le> round_val p lo hi q" and "round_val p lo hi q \<le> hi"
proof -
  have "0 \<le> (e - lo) * 2 ^ p + m" if "0 < q" "round_sig (Suc p) lo q = (m, e)" for m e
    using round_sig_parts(1,2) [OF that] by simp
  then show "0 \<le> round_val p lo hi q" "round_val p lo hi q \<le> hi"
    using assms by (auto simp: round_val_def Let_def split: prod.split)
qed

lemma round_val_mono:
  assumes "q \<le> q'" and "0 \<le> hi"
  shows "round_val p lo hi q \<le> round_val p lo hi q'"
proof (cases "0 < q")
  case True
  with assms have q': "0 < q'" by simp
  obtain m e m' e' where r: "round_sig (Suc p) lo q = (m, e)" "round_sig (Suc p) lo q' = (m', e')"
    by fastforce
  have "(e - lo) * 2 ^ p + m \<le> (e' - lo) * 2 ^ p + m'"
  proof (cases "e = e'")
    case True
    then show ?thesis using round_sig_mono [OF \<open>0 < q\<close> assms(1) _ r] by auto
  next
    case False
    then have *: "e + 1 \<le> e'" "m \<le> 2 * 2 ^ p" "2 ^ p \<le> m'"
      using round_sig_mono [OF True assms(1) _ r] by auto
    then have "(e + 1 - lo) * 2 ^ p \<le> (e' - lo) * 2 ^ p" by (intro mult_right_mono) simp_all
    with * show ?thesis by (simp add: algebra_simps)
  qed
  then have "min hi ((e - lo) * 2 ^ p + m) \<le> min hi ((e' - lo) * 2 ^ p + m')"
    by (rule min.mono [OF order_refl])
  then show ?thesis using True q' by (simp add: round_val_def r del: min.absorb1 min.absorb2)
next
  case False
  then show ?thesis using round_val_bounds(1) [OF assms(2)] by (simp add: round_val_def)
qed

lemma round_mag_val: "round_mag q = round_val 52 (- 1074) inf_mag q"
  by (simp add: round_mag_def round_val_def)

lemma round_mag_mono: "q \<le> q' \<Longrightarrow> round_mag q \<le> round_mag q'"
  unfolding round_mag_val by (rule round_val_mono) (simp_all add: inf_mag_def)

lemma round_mag_bounds: "0 \<le> round_mag q \<and> round_mag q \<le> inf_mag"
  unfolding round_mag_val using round_val_bounds [of inf_mag] by (simp add: inf_mag_def)

section \<open>Magnitudes\<close>

text \<open>The value of a magnitude for any format.\<close>

definition mag_val :: "nat \<Rightarrow> int \<Rightarrow> int \<Rightarrow> rat" where
  "mag_val p lo m =
     (let e = m div 2 ^ p; f = m mod 2 ^ p
      in if e = 0 then of_int f * 2 powi lo
         else of_int (2 ^ p + f) * 2 powi (e + lo - 1))"

lemma mag_val_nonneg: "0 \<le> m \<Longrightarrow> 0 \<le> mag_val p lo m"
  by (simp add: mag_val_def Let_def pos_imp_zdiv_nonneg_iff)

lemma mag_val_mono:
  assumes "0 \<le> m" and "m \<le> m'"
  shows "mag_val p lo m \<le> mag_val p lo m'"
proof -
  let ?P = "2 ^ p :: int"
  let ?e = "m div ?P" and ?e' = "m' div ?P" and ?f = "m mod ?P" and ?f' = "m' mod ?P"
  have e0: "0 \<le> ?e" using assms(1) by (simp add: pos_imp_zdiv_nonneg_iff)
  have ee: "?e \<le> ?e'" using assms(2) by (rule zdiv_mono1) simp
  have f: "0 \<le> ?f" "?f < ?P" "0 \<le> ?f'" by simp_all
  show ?thesis
  proof (cases "?e = ?e'")
    case True
    with assms(2) have "?f \<le> ?f'" by (metis add_le_cancel_left div_mult_mod_eq)
    with True show ?thesis by (auto simp: mag_val_def Let_def intro: mult_right_mono)
  next
    case False
    with ee have lt: "?e + 1 \<le> ?e'" by simp
    have top: "mag_val p lo m' = of_int (?P + ?f') * 2 powi (?e' + lo - 1)"
      using lt e0 by (simp add: mag_val_def Let_def)
    have step: "of_int (2 * ?P) * 2 powi (i - 1) = of_int ?P * (2 :: rat) powi i" for i
      using power_int_add_1 [of "2 :: rat" "i - 1"] by (simp add: algebra_simps)
    have "mag_val p lo m \<le> of_int (2 * ?P) * 2 powi (?e + lo - 1)"
    proof (cases "?e = 0")
      case True
      then have "mag_val p lo m = of_int ?f * 2 powi lo" by (simp add: mag_val_def)
      also have "\<dots> \<le> of_int ?P * 2 powi lo"
        using f(2) by (intro mult_right_mono) (simp_all only: of_int_le_iff less_imp_le zero_le_power_int zero_le_numeral)
      also have "\<dots> = of_int (2 * ?P) * 2 powi (?e + lo - 1)" using True step [of lo] by simp
      finally show ?thesis .
    next
      case False
      then have "mag_val p lo m = of_int (?P + ?f) * 2 powi (?e + lo - 1)" by (simp add: mag_val_def Let_def)
      also have "\<dots> \<le> of_int (2 * ?P) * 2 powi (?e + lo - 1)"
        using less_imp_le [OF f(2)] by (intro mult_right_mono) (simp_all del: of_int_power of_int_add of_int_mult)
      finally show ?thesis .
    qed
    also have "\<dots> = of_int ?P * 2 powi (?e + lo)" by (rule step)
    also have "\<dots> \<le> of_int (?P + ?f') * 2 powi (?e' + lo - 1)"
      using lt f by (intro mult_mono power_int_increasing) (simp_all del: of_int_power of_int_add)
    finally show ?thesis using top by simp
  qed
qed

lemma mag_value_val: "mag_value m = mag_val 52 (- 1074) m"
proof -
  have "i + - 1074 - 1 = i - 1075" for i :: int by simp
  then show ?thesis by (simp only: mag_value_def mag_val_def)
qed

lemma mag_value_nonneg: "0 \<le> m \<Longrightarrow> 0 \<le> mag_value m"
  unfolding mag_value_val by (rule mag_val_nonneg)

lemma mag_value_mono: "0 \<le> m \<Longrightarrow> m \<le> m' \<Longrightarrow> mag_value m \<le> mag_value m'"
  unfolding mag_value_val by (rule mag_val_mono)

lemma of_mag_parts:
  assumes "0 \<le> m" and "m < 2 ^ 63"
  shows "f_mag (of_mag neg m) = m" and "f_neg (of_mag neg m) = neg"
proof -
  have u: "uint (of_mag neg m) = (if neg then 2 ^ 63 else 0) + m"
    using assms by (auto simp: of_mag_def uint_word_ariths uint_word_of_int mod_pos_pos_trivial take_bit_int_eq_self)
  then show "f_mag (of_mag neg m) = m" using assms by (simp add: f_mag_def)
  have "bit (of_mag neg m) 63 \<longleftrightarrow> bit (uint (of_mag neg m)) 63" by (simp add: bit_uint_iff)
  also have "\<dots> \<longleftrightarrow> odd (uint (of_mag neg m) div 2 ^ 63)" by (rule bit_iff_odd)
  also have "\<dots> \<longleftrightarrow> neg" using u assms by auto
  finally show "f_neg (of_mag neg m) = neg" by (simp add: f_neg_def)
qed

end
