(* ===== verification/TailBatcher.thy ===== *)
theory TailBatcher
  imports RingBuffer
begin

text \<open>
  \<open>processor/tailsamplingprocessor/internal/idbatcher/id_batcher.go\<close>: the pipeline of id batches
  that delays a sampling decision.  An added id goes through a channel to the batch being built;
  closing that batch pushes it into a pipe of a fixed number of batches and takes out the oldest.
  The capacity of the id channel, which delays a sender, is not modelled.
\<close>

section \<open>The contract of the interface\<close>

text \<open>
  What the processor relies on: the ids inside, in the order they were added, grow by an addition
  at the end and shrink by a taken batch at the front.
\<close>

locale id_batcher =
  fixes add :: "trace_id \<Rightarrow> 'b \<Rightarrow> 'b outcome"
    and take_first :: "'b \<Rightarrow> ((trace_id list \<times> bool) \<times> 'b) option"
    and idle :: "'b \<Rightarrow> 'b option" \<comment> \<open>a step of the batcher's own\<close>
    and ids :: "'b \<Rightarrow> trace_id list"
  assumes add_ids: "add k b = Ret b' \<Longrightarrow> ids b' = ids b @ [k]"
    and take_ids: "take_first b = Some ((batch, mr), b') \<Longrightarrow> ids b = batch @ ids b'"
    and idle_ids: "idle b = Some b' \<Longrightarrow> ids b' = ids b"

datatype batcher_op = Add trace_id | TakeFirst | Idle

context id_batcher
begin

fun run_ops :: "batcher_op list \<Rightarrow> 'b \<Rightarrow> trace_id list list \<Rightarrow> (trace_id list list \<times> 'b) option" where
  "run_ops [] b taken = Some (taken, b)"
| "run_ops (Add k # ops) b taken =
     (case add k b of Ret b1 \<Rightarrow> run_ops ops b1 taken | Panic \<Rightarrow> None)"
| "run_ops (TakeFirst # ops) b taken =
     (case take_first b of Some ((batch, mr), b1) \<Rightarrow> run_ops ops b1 (taken @ [batch]) | None \<Rightarrow> None)"
| "run_ops (Idle # ops) b taken =
     (case idle b of Some b1 \<Rightarrow> run_ops ops b1 taken | None \<Rightarrow> None)"

lemma run_ops_fifo:
  "run_ops ops b taken = Some (taken', b') \<Longrightarrow>
     concat taken' @ ids b' = concat taken @ ids b @ concat (map (\<lambda>x. case x of Add k \<Rightarrow> [k] | _ \<Rightarrow> []) ops)"
proof (induction ops b taken rule: run_ops.induct)
  case (2 k ops b taken)
  then show ?case by (auto split: outcome.splits dest: add_ids)
next
  case (3 ops b taken)
  then show ?case by (auto split: option.splits prod.splits dest!: take_ids)
next
  case (4 ops b taken)
  then show ?case by (auto split: option.splits dest: idle_ids)
qed simp

end

section \<open>The batcher\<close>

record batcher =
  bt_pending :: "trace_id list" \<comment> \<open>\<open>pendingIds\<close>\<close>
  bt_batches :: "trace_id list list" \<comment> \<open>\<open>batches\<close>\<close>
  bt_current :: "trace_id list"
  bt_stopped :: bool

definition new_batcher :: "nat \<Rightarrow> nat \<Rightarrow> string + batcher" where
  "new_batcher num_batches channel_size =
     (if num_batches < 1 then Inl ''invalid number of batches, it must be greater than zero''
      else if channel_size < 1 then Inl ''invalid batch channel size, it must be greater than zero''
      else Inr \<lparr>bt_pending = [], bt_batches = replicate num_batches [], bt_current = [], bt_stopped = False\<rparr>)"

text \<open>The goroutine that fills the current batch takes one id off the channel.\<close>

definition bt_pump :: "batcher \<Rightarrow> batcher option" where
  "bt_pump b =
     (case bt_pending b of
        [] \<Rightarrow> None
      | k # ks \<Rightarrow> Some (b\<lparr>bt_pending := ks, bt_current := bt_current b @ [k]\<rparr>))"

text \<open>Sending on a closed channel panics.\<close>

definition add_to_current_batch :: "trace_id \<Rightarrow> batcher \<Rightarrow> batcher outcome" where
  "add_to_current_batch k b =
     (if bt_stopped b then Panic else Ret (b\<lparr>bt_pending := bt_pending b @ [k]\<rparr>))"

text \<open>Receiving from an empty channel that is not closed blocks (\<open>None\<close>).\<close>

definition close_current_and_take_first_batch :: "batcher \<Rightarrow> ((trace_id list \<times> bool) \<times> batcher) option" where
  "close_current_and_take_first_batch b =
     (case bt_batches b of
        batch # rest \<Rightarrow>
          Some ((batch, True),
            (if \<not> bt_stopped b then b\<lparr>bt_batches := rest @ [bt_current b], bt_current := []\<rparr>
             else b\<lparr>bt_batches := rest\<rparr>))
      | [] \<Rightarrow>
          if bt_stopped b then Some ((bt_current b, False), b\<lparr>bt_current := []\<rparr>) else None)"

text \<open>\<open>Stop\<close> closes the id channel, waits until the goroutine has drained it, then closes the pipe.\<close>

definition bt_stop :: "batcher \<Rightarrow> batcher outcome" where
  "bt_stop b =
     (if bt_stopped b then Panic
      else Ret (b\<lparr>bt_pending := [], bt_current := bt_current b @ bt_pending b, bt_stopped := True\<rparr>))"

definition bt_ids :: "batcher \<Rightarrow> trace_id list" where
  "bt_ids b = concat (bt_batches b) @ bt_current b @ bt_pending b"

lemma bt_stop_ids: "bt_stop b = Ret b' \<Longrightarrow> bt_ids b' = bt_ids b"
  by (auto simp: bt_stop_def bt_ids_def split: if_splits)

lemma new_batcher_ids: "new_batcher n c = Inr b \<Longrightarrow> bt_ids b = [] \<and> length (bt_batches b) = n \<and> \<not> bt_stopped b"
  by (auto simp: new_batcher_def bt_ids_def split: if_splits)

text \<open>A stopped batcher has no pending ids.\<close>

definition bt_ok :: "batcher \<Rightarrow> bool" where
  "bt_ok b \<longleftrightarrow> (bt_stopped b \<longrightarrow> bt_pending b = [])"

lemma take_ids_ok:
  assumes "close_current_and_take_first_batch b = Some ((batch, mr), b')"
  shows "bt_ids b = batch @ bt_ids b'" and "bt_ok b \<Longrightarrow> bt_ok b'" and "bt_stopped b' = bt_stopped b"
    and "\<not> bt_stopped b \<Longrightarrow> length (bt_batches b') = length (bt_batches b)"
  using assms
  by (auto simp: close_current_and_take_first_batch_def bt_ids_def bt_ok_def split: list.splits if_splits)

interpretation tb: id_batcher add_to_current_batch close_current_and_take_first_batch bt_pump bt_ids
proof unfold_locales
  show "bt_ids b' = bt_ids b @ [k]" if "add_to_current_batch k b = Ret b'" for k b b'
    using that by (auto simp: add_to_current_batch_def bt_ids_def split: if_splits)
  show "bt_ids b = batch @ bt_ids b'" if "close_current_and_take_first_batch b = Some ((batch, mr), b')"
    for b batch mr b'
    using that by (rule take_ids_ok)
  show "bt_ids b' = bt_ids b" if "bt_pump b = Some b'" for b b'
    using that by (auto simp: bt_pump_def bt_ids_def split: list.splits)
qed

section \<open>The delay\<close>

fun take_many :: "nat \<Rightarrow> batcher \<Rightarrow> (trace_id list list \<times> batcher) option" where
  "take_many 0 b = Some ([], b)"
| "take_many (Suc n) b =
     (case close_current_and_take_first_batch b of
        Some ((batch, mr), b1) \<Rightarrow> map_option (\<lambda>(taken, b2). (batch # taken, b2)) (take_many n b1)
      | None \<Rightarrow> None)"

lemma take_many_pipe:
  assumes "\<not> bt_stopped b" and "n \<le> length (bt_batches b)"
  shows "\<exists>b'. take_many n b = Some (take n (bt_batches b), b') \<and> \<not> bt_stopped b' \<and>
     bt_batches b' = (if n = 0 then bt_batches b
                      else drop n (bt_batches b) @ bt_current b # replicate (n - 1) []) \<and>
     bt_pending b' = bt_pending b \<and> bt_current b' = (if n = 0 then bt_current b else [])"
  using assms
proof (induction n arbitrary: b)
  case (Suc n)
  then obtain batch rest where q: "bt_batches b = batch # rest" by (cases "bt_batches b") auto
  let ?b1 = "b\<lparr>bt_batches := rest @ [bt_current b], bt_current := []\<rparr>"
  have one: "close_current_and_take_first_batch b = Some ((batch, True), ?b1)"
    using q Suc.prems by (simp add: close_current_and_take_first_batch_def)
  have len: "n \<le> length rest" using Suc.prems q by simp
  obtain b' where b': "take_many n ?b1 = Some (take n (rest @ [bt_current b]), b')" "\<not> bt_stopped b'"
    "bt_batches b' = (if n = 0 then rest @ [bt_current b]
                      else drop n (rest @ [bt_current b]) @ [] # replicate (n - 1) [])"
    "bt_pending b' = bt_pending b" "bt_current b' = []"
    using Suc.IH [of ?b1] Suc.prems(1) len by fastforce
  have "take n (rest @ [bt_current b]) = take n rest" using len by simp
  with b' one q len show ?case
    by (cases n) (auto simp flip: replicate_Suc)
qed simp

lemma take_many_snoc:
  "take_many m x = Some (xs, x') \<Longrightarrow> close_current_and_take_first_batch x' = Some ((y, mr), x'') \<Longrightarrow>
   take_many (Suc m) x = Some (xs @ [y], x'')"
proof (induction m arbitrary: x xs)
  case (Suc m)
  from Suc.prems(1) obtain y0 mr0 x1 xs1 where s: "close_current_and_take_first_batch x = Some ((y0, mr0), x1)"
    "take_many m x1 = Some (xs1, x')" "xs = y0 # xs1"
    by (auto split: option.splits)
  from Suc.IH [OF s(2) Suc.prems(2)] have "take_many (Suc m) x1 = Some (xs1 @ [y], x'')" .
  with s show ?case by (simp only: take_many.simps(2) [of "Suc m"]) simp
qed auto

lemma add_open:
  "\<not> bt_stopped b \<Longrightarrow> add_to_current_batch k b = Ret (b\<lparr>bt_pending := bt_pending b @ [k]\<rparr>)"
  by (simp add: add_to_current_batch_def)

lemma pump_cons:
  "bt_pending b = k # ks \<Longrightarrow> bt_pump b = Some (b\<lparr>bt_pending := ks, bt_current := bt_current b @ [k]\<rparr>)"
  by (simp add: bt_pump_def)

lemma take_open:
  "\<not> bt_stopped b \<Longrightarrow> bt_batches b = batch # rest \<Longrightarrow> close_current_and_take_first_batch b =
     Some ((batch, True), b\<lparr>bt_batches := rest @ [bt_current b], bt_current := []\<rparr>)"
  by (simp add: close_current_and_take_first_batch_def)

lemma pump_keeps:
  "bt_pump b = Some b' \<Longrightarrow> bt_batches b' = bt_batches b \<and> bt_stopped b' = bt_stopped b"
  by (auto simp: bt_pump_def split: list.splits)

lemma run_ops_length:
  "tb.run_ops ops b taken = Some (taken', b') \<Longrightarrow> \<not> bt_stopped b \<Longrightarrow>
   length (bt_batches b') = length (bt_batches b) \<and> \<not> bt_stopped b'"
proof (induction ops b taken rule: tb.run_ops.induct)
  case (2 k ops b taken)
  let ?b1 = "b\<lparr>bt_pending := bt_pending b @ [k]\<rparr>"
  have a: "add_to_current_batch k b = Ret ?b1" using 2(3) by (rule add_open)
  with 2(2) have "tb.run_ops ops ?b1 taken = Some (taken', b')" by (simp add: tb.run_ops.simps)
  from 2(1) [OF a this] 2(3) show ?case by simp
next
  case (3 ops b taken)
  from 3(2) obtain batch mr b1 where t: "close_current_and_take_first_batch b = Some ((batch, mr), b1)"
    and r: "tb.run_ops ops b1 (taken @ [batch]) = Some (taken', b')"
    by (auto simp: tb.run_ops.simps split: option.splits)
  show ?case using 3(1) [OF t refl refl r] take_ids_ok(3,4) [OF t] 3(3) by simp
next
  case (4 ops b taken)
  from 4(2) obtain b1 where t: "bt_pump b = Some b1" and r: "tb.run_ops ops b1 taken = Some (taken', b')"
    by (auto simp: tb.run_ops.simps split: option.splits)
  from 4(1) [OF t r] pump_keeps [OF t] 4(3) show ?case by simp
qed (simp add: tb.run_ops.simps)

section \<open>Properties\<close>

text \<open>
  Whatever the order of additions, takes and steps of the batcher's goroutine, the batches
  taken are the ids added, each in exactly one batch and in the order of their addition; and an id
  in the batch being built comes out after exactly as many further batches as the pipe holds.
\<close>

lemma batcher_delays:
  assumes "new_batcher n c = Inr b" and "tb.run_ops ops b [] = Some (taken, b')"
  shows "concat taken @ bt_ids b' = concat (map (\<lambda>x. case x of Add k \<Rightarrow> [k] | _ \<Rightarrow> []) ops) \<and>
    length (bt_batches b') = n \<and>
    (\<exists>b''. take_many (Suc n) b' = Some (bt_batches b' @ [bt_current b'], b''))"
proof (intro conjI)
  show "concat taken @ bt_ids b' = concat (map (\<lambda>x. case x of Add k \<Rightarrow> [k] | _ \<Rightarrow> []) ops)"
    using tb.run_ops_fifo [OF assms(2)] new_batcher_ids [OF assms(1)] by simp
  have open_: "length (bt_batches b') = n \<and> \<not> bt_stopped b'"
    using run_ops_length [OF assms(2)] new_batcher_ids [OF assms(1)] by simp
  then show "length (bt_batches b') = n" by simp
  obtain x where x: "take_many n b' = Some (bt_batches b', x)" "\<not> bt_stopped x"
    "bt_batches x = (if n = 0 then bt_batches b' else bt_current b' # replicate (n - 1) [])"
    using take_many_pipe [of b' n] open_ by auto
  have "n \<noteq> 0" using assms(1) by (auto simp: new_batcher_def split: if_splits)
  then obtain x' where "close_current_and_take_first_batch x = Some ((bt_current b', True), x')"
    using x by (auto simp: close_current_and_take_first_batch_def)
  from take_many_snoc [OF x(1) this]
  show "\<exists>b''. take_many (Suc n) b' = Some (bt_batches b' @ [bt_current b'], b'')" by blast
qed

definition sample_ops :: "batcher_op list" where
  "sample_ops = [Add (replicate 16 1), Idle, TakeFirst, Add (replicate 16 2), TakeFirst, Idle, TakeFirst]"

lemma batcher_delays_witness:
  "\<exists>b b' taken. new_batcher 2 1 = Inr b \<and> tb.run_ops sample_ops b [] = Some (taken, b') \<and>
     taken = [[], [], [replicate 16 1]] \<and> bt_ids b' = [replicate 16 2]"
proof -
  obtain b where b: "new_batcher 2 1 = Inr b" by (simp add: new_batcher_def)
  then have "map_option fst (tb.run_ops sample_ops b []) = Some [[], [], [replicate 16 1]]"
    by (auto simp: new_batcher_def sample_ops_def tb.run_ops.simps add_open pump_cons
        take_open numeral_2_eq_2)
  then obtain b' where run: "tb.run_ops sample_ops b [] = Some ([[], [], [replicate 16 1]], b')" by auto
  with batcher_delays [OF b run] have "bt_ids b' = [replicate 16 2]" by (simp add: sample_ops_def)
  with b run show ?thesis by blast
qed

end
