(* ===== verification/TailPolicies.thy ===== *)
theory TailPolicies
  imports Pdata GoFloat TailBatcher
begin

text \<open>
  \<open>processor/tailsamplingprocessor/internal/sampling\<close>: the policies that judge a whole trace.
  A policy evaluator is a value of one datatype; evaluating it returns the decision and the
  evaluator with its counters and caches as the call leaves them.  The regular expression
  engine, the least-recently-used cache and the trace state parser are third-party packages and
  parameters of the model; the logging calls are left out.
\<close>

section \<open>Trace data and decisions (policy.go)\<close>

datatype decision =
    Unspecified | Pending | Sampled | NotSampled | Dropped | DecisionError | InvertSampled | InvertNotSampled

text \<open>The two times of \<open>TraceData\<close> feed metrics only.\<close>

record trace_data =
  td_decisions :: "decision list"
  td_span_count :: i64
  td_received :: traces
  td_final :: decision

section \<open>Searching the spans (util.go)\<close>

text \<open>The callbacks keep state of their own (\<open>'s\<close>): a cache, the times seen so far.\<close>

fun check_spans :: "(ot_span \<Rightarrow> 's \<Rightarrow> bool \<times> 's) \<Rightarrow> ot_span list \<Rightarrow> 's \<Rightarrow> bool \<times> 's" where
  "check_spans check [] s = (False, s)"
| "check_spans check (sp # spans) s =
     (case check sp s of (True, s1) \<Rightarrow> (True, s1) | (False, s1) \<Rightarrow> check_spans check spans s1)"

fun hasInstrumentationLibrarySpanWithCondition ::
  "ot_span scoped list \<Rightarrow> (ot_span \<Rightarrow> 's \<Rightarrow> bool \<times> 's) \<Rightarrow> 's \<Rightarrow> bool \<times> 's" where
  "hasInstrumentationLibrarySpanWithCondition [] check s = (False, s)"
| "hasInstrumentationLibrarySpanWithCondition (ils # ilss) check s =
     (case check_spans check (scope_items ils) s of
        (True, s1) \<Rightarrow> (True, s1)
      | (False, s1) \<Rightarrow> hasInstrumentationLibrarySpanWithCondition ilss check s1)"

fun hasSpanWithCondition :: "traces \<Rightarrow> (ot_span \<Rightarrow> 's \<Rightarrow> bool \<times> 's) \<Rightarrow> 's \<Rightarrow> decision \<times> 's" where
  "hasSpanWithCondition [] check s = (NotSampled, s)"
| "hasSpanWithCondition (rs # td) check s =
     (case hasInstrumentationLibrarySpanWithCondition (res_scopes rs) check s of
        (True, s1) \<Rightarrow> (Sampled, s1)
      | (False, s1) \<Rightarrow> hasSpanWithCondition td check s1)"

fun hasResourceOrSpanWithCondition ::
  "traces \<Rightarrow> (attrs \<Rightarrow> 's \<Rightarrow> bool \<times> 's) \<Rightarrow> (ot_span \<Rightarrow> 's \<Rightarrow> bool \<times> 's) \<Rightarrow> 's \<Rightarrow> decision \<times> 's" where
  "hasResourceOrSpanWithCondition [] on_res on_span s = (NotSampled, s)"
| "hasResourceOrSpanWithCondition (rs # td) on_res on_span s =
     (case on_res (res_attrs rs) s of
        (True, s1) \<Rightarrow> (Sampled, s1)
      | (False, s1) \<Rightarrow>
          (case hasInstrumentationLibrarySpanWithCondition (res_scopes rs) on_span s1 of
             (True, s2) \<Rightarrow> (Sampled, s2)
           | (False, s2) \<Rightarrow> hasResourceOrSpanWithCondition td on_res on_span s2))"

fun invert_check_spans :: "(ot_span \<Rightarrow> 's \<Rightarrow> bool \<times> 's) \<Rightarrow> ot_span list \<Rightarrow> 's \<Rightarrow> bool \<times> 's" where
  "invert_check_spans check [] s = (True, s)"
| "invert_check_spans check (sp # spans) s =
     (case check sp s of (False, s1) \<Rightarrow> (False, s1) | (True, s1) \<Rightarrow> invert_check_spans check spans s1)"

fun invertHasInstrumentationLibrarySpanWithCondition ::
  "ot_span scoped list \<Rightarrow> (ot_span \<Rightarrow> 's \<Rightarrow> bool \<times> 's) \<Rightarrow> 's \<Rightarrow> bool \<times> 's" where
  "invertHasInstrumentationLibrarySpanWithCondition [] check s = (True, s)"
| "invertHasInstrumentationLibrarySpanWithCondition (ils # ilss) check s =
     (case invert_check_spans check (scope_items ils) s of
        (False, s1) \<Rightarrow> (False, s1)
      | (True, s1) \<Rightarrow> invertHasInstrumentationLibrarySpanWithCondition ilss check s1)"

fun invertHasResourceOrSpanWithCondition ::
  "traces \<Rightarrow> (attrs \<Rightarrow> 's \<Rightarrow> bool \<times> 's) \<Rightarrow> (ot_span \<Rightarrow> 's \<Rightarrow> bool \<times> 's) \<Rightarrow> 's \<Rightarrow> decision \<times> 's" where
  "invertHasResourceOrSpanWithCondition [] on_res on_span s = (InvertSampled, s)"
| "invertHasResourceOrSpanWithCondition (rs # td) on_res on_span s =
     (case on_res (res_attrs rs) s of
        (False, s1) \<Rightarrow> (InvertNotSampled, s1)
      | (True, s1) \<Rightarrow>
          (case invertHasInstrumentationLibrarySpanWithCondition (res_scopes rs) on_span s1 of
             (False, s2) \<Rightarrow> (InvertNotSampled, s2)
           | (True, s2) \<Rightarrow> invertHasResourceOrSpanWithCondition td on_res on_span s2))"

text \<open>A callback without state.\<close>

definition pure_check :: "('a \<Rightarrow> bool) \<Rightarrow> 'a \<Rightarrow> 's \<Rightarrow> bool \<times> 's" where
  "pure_check p x s = (p x, s)"

section \<open>The packages the policies use\<close>

text \<open>
  \<open>rx_valid\<close> and \<open>rx_match\<close> are \<open>regexp\<close>'s compilation and \<open>MatchString\<close> of a pattern;
  \<open>ts_parse\<close> is \<open>ParseTraceState\<close> (\<open>None\<close> its error) with the \<open>Get\<close> of its result; the cache
  operations are those of \<open>groupcache/lru\<close> on boolean values, where \<open>Get\<close> reorders the cache.
\<close>

record 'c sampling_libs =
  rx_valid :: "string \<Rightarrow> bool"
  rx_match :: "string \<Rightarrow> string \<Rightarrow> bool"
  ts_parse :: "string \<Rightarrow> (string \<Rightarrow> string) option"
  lru_new :: "int \<Rightarrow> 'c"
  lru_get :: "'c \<Rightarrow> string \<Rightarrow> bool option \<times> 'c"
  lru_add :: "'c \<Rightarrow> string \<Rightarrow> bool \<Rightarrow> 'c"

section \<open>Evaluators\<close>

datatype 'c matcher =
    ExactMatch "string list" \<comment> \<open>the keys of \<open>valuesMap\<close>\<close>
  | RegexMatch "string list" 'c \<comment> \<open>\<open>filterList\<close>, \<open>matchedAttrs\<close>\<close>

text \<open>The policies that judge on their own, and those that ask subpolicies.\<close>

datatype 'c single_policy =
    AlwaysSample
  | Latency i64 \<comment> \<open>\<open>thresholdMs\<close>\<close>
  | NumericAttribute string i64 i64 \<comment> \<open>\<open>key\<close>, \<open>minValue\<close>, \<open>maxValue\<close>\<close>
  | Probabilistic u64 string \<comment> \<open>\<open>threshold\<close>, \<open>hashSalt\<close>\<close>
  | StringAttribute string "'c matcher" bool \<comment> \<open>\<open>key\<close>, \<open>matcher\<close>, \<open>invertMatch\<close>\<close>
  | StatusCode "status_code list"
  | RateLimiting i64 i64 i64 \<comment> \<open>\<open>currentSecond\<close>, \<open>spansInCurrentSecond\<close>, \<open>spansPerSecond\<close>\<close>
  | SpanCount i32 i32 \<comment> \<open>\<open>minSpans\<close>, \<open>maxSpans\<close>\<close>
  | TraceState string "string list" \<comment> \<open>\<open>key\<close>, the keys of \<open>valuesMap\<close>\<close>
  | BooleanAttribute string bool

datatype 'c evaluator =
    Single "'c single_policy"
  | AndPolicy "'c evaluator list"
  | CompositePolicy "('c evaluator \<times> i64 \<times> i64) list" i64 i64
      \<comment> \<open>evaluator, \<open>allocatedSPS\<close> and \<open>sampledSPS\<close> of each subpolicy; \<open>maxTotalSPS\<close>, \<open>currentSecond\<close>\<close>

section \<open>Constructors\<close>

datatype policy_error = NoStatusCode | UnknownStatusCode string | UnknownPolicyType string

definition defaultHashSalt :: string where "defaultHashSalt = ''default-hash-seed''"
definition defaultCacheSize :: int where "defaultCacheSize = 128"

text \<open>
  \<open>big.Float\<close> holds \<open>MaxUint64\<close> in 64 bits of mantissa and rounds the product to as many; \<open>Uint64\<close>
  truncates and saturates.  \<open>big.NewFloat\<close> panics for a NaN.
\<close>

definition calculateThreshold :: "float64 \<Rightarrow> u64 outcome" where
  "calculateThreshold ratio =
     (if f_nan ratio then Panic
      else if f_neg ratio \<or> f_zero ratio then Ret 0
      else if f_inf ratio then Ret (of_int (2 ^ 64 - 1))
      else let (m, e) = round_sig 64 (- 4096) (of_int (2 ^ 64 - 1) * mag_value (f_mag ratio))
           in Ret (of_int (min (2 ^ 64 - 1) \<lfloor>of_int m * (2::rat) powi e\<rfloor>)))"

definition NewProbabilisticSampler :: "string \<Rightarrow> float64 \<Rightarrow> 'c single_policy outcome" where
  "NewProbabilisticSampler hashSalt samplingPercentage =
     (let salt = (if hashSalt = [] then defaultHashSalt else hashSalt)
      in bind_outcome (calculateThreshold (f_div samplingPercentage (f_of_int 100)))
           (\<lambda>threshold. Ret (Probabilistic threshold salt)))"

text \<open>\<open>hash/fnv\<close>: the 64-bit FNV-1a hash.\<close>

definition fnv64a_write :: "u64 \<Rightarrow> byte list \<Rightarrow> u64" where
  "fnv64a_write h bs = fold (\<lambda>b h. (h XOR ucast b) * 1099511628211) bs h"

definition string_bytes :: "string \<Rightarrow> byte list" where
  "string_bytes s = map (\<lambda>c. word_of_int (of_char c)) s"

definition hashTraceID :: "string \<Rightarrow> byte list \<Rightarrow> u64" where
  "hashTraceID salt b = fnv64a_write (fnv64a_write 14695981039346656037 (string_bytes salt)) b"

fun status_codes :: "string list \<Rightarrow> policy_error + status_code list" where
  "status_codes [] = Inr []"
| "status_codes (s # ss) =
     (let code = (if s = ''OK'' then Some StatusOk else if s = ''ERROR'' then Some StatusError
                  else if s = ''UNSET'' then Some StatusUnset else None)
      in case code of
           None \<Rightarrow> Inl (UnknownStatusCode s)
         | Some c \<Rightarrow> (case status_codes ss of Inl e \<Rightarrow> Inl e | Inr cs \<Rightarrow> Inr (c # cs)))"

definition NewStatusCodeFilter :: "string list \<Rightarrow> policy_error + 'c single_policy" where
  "NewStatusCodeFilter statusCodeString =
     (if statusCodeString = [] then Inl NoStatusCode
      else case status_codes statusCodeString of Inl e \<Rightarrow> Inl e | Inr cs \<Rightarrow> Inr (StatusCode cs))"

text \<open>\<open>regexp.MustCompile\<close> panics for a pattern that does not compile.\<close>

definition addFilters :: "'c sampling_libs \<Rightarrow> string list \<Rightarrow> string list outcome" where
  "addFilters libs exprs = (if list_all (rx_valid libs) exprs then Ret exprs else Panic)"

definition NewStringAttributeFilter ::
  "'c sampling_libs \<Rightarrow> string \<Rightarrow> string list \<Rightarrow> bool \<Rightarrow> int \<Rightarrow> bool \<Rightarrow> 'c single_policy outcome" where
  "NewStringAttributeFilter libs key vals regexMatchEnabled evictSize invertMatch =
     (if regexMatchEnabled then
        (let evict = (if evictSize \<le> 0 then defaultCacheSize else evictSize)
         in bind_outcome (addFilters libs vals)
              (\<lambda>filterList. Ret (StringAttribute key (RegexMatch filterList (lru_new libs evict)) invertMatch)))
      else Ret (StringAttribute key (ExactMatch [v \<leftarrow> vals. v \<noteq> []]) invertMatch))"

definition NewTraceStateFilter :: "string \<Rightarrow> string list \<Rightarrow> 'c single_policy" where
  "NewTraceStateFilter key vals =
     TraceState key [v \<leftarrow> vals. v \<noteq> [] \<and> length key + length v < 256]"

text \<open>The remaining constructors fill in the fields; a rate limiter's counters start at zero.\<close>

definition NewRateLimiting :: "i64 \<Rightarrow> 'c single_policy" where
  "NewRateLimiting spansPerSecond = RateLimiting 0 0 spansPerSecond"

definition NewComposite :: "i64 \<Rightarrow> ('c evaluator \<times> i64) list \<Rightarrow> 'c evaluator" where
  "NewComposite maxTotalSpansPerSecond subPolicyParams =
     CompositePolicy (map (\<lambda>(ev, maxSPS). (ev, maxSPS, 0)) subPolicyParams) maxTotalSpansPerSecond 0"

section \<open>Attribute values\<close>

text \<open>The getters of a \<open>pcommon.Value\<close> return the zero value when it holds another type.\<close>

definition val_str :: "attr_val \<Rightarrow> string" where
  "val_str v = (case v of AStr s \<Rightarrow> s | _ \<Rightarrow> [])"

definition val_int :: "attr_val \<Rightarrow> i64" where
  "val_int v = (case v of AInt i \<Rightarrow> i | _ \<Rightarrow> 0)"

definition val_bool :: "attr_val \<Rightarrow> bool" where
  "val_bool v = (case v of ABool b \<Rightarrow> b | _ \<Rightarrow> False)"

section \<open>The single policies\<close>

text \<open>
  Times are nanoseconds of the epoch as an \<open>int64\<close>; \<open>Sub\<close> saturates, \<open>Milliseconds\<close> truncates.
\<close>

definition time_sub :: "timestamp \<Rightarrow> timestamp \<Rightarrow> int" where
  "time_sub t u = max (- (2 ^ 63)) (min (2 ^ 63 - 1) (sint t - sint u))"

definition milliseconds :: "int \<Rightarrow> int" where
  "milliseconds d = (if d < 0 then - (- d div 1000000) else d div 1000000)"

definition latency_check :: "i64 \<Rightarrow> ot_span \<Rightarrow> timestamp \<times> timestamp \<Rightarrow> bool \<times> timestamp \<times> timestamp" where
  "latency_check thresholdMs sp = (\<lambda>(minTime, maxTime).
     let minTime1 = (if minTime = 0 \<or> os_start sp < minTime then os_start sp else minTime);
         maxTime1 = (if maxTime = 0 \<or> maxTime < os_end sp then os_end sp else maxTime)
     in (sint thresholdMs \<le> milliseconds (time_sub maxTime1 minTime1), minTime1, maxTime1))"

definition latency_evaluate :: "i64 \<Rightarrow> trace_data \<Rightarrow> decision" where
  "latency_evaluate thresholdMs traceData =
     fst (hasSpanWithCondition (td_received traceData) (latency_check thresholdMs) (0, 0))"

definition numeric_evaluate :: "string \<Rightarrow> i64 \<Rightarrow> i64 \<Rightarrow> trace_data \<Rightarrow> decision" where
  "numeric_evaluate key minValue maxValue tr =
     fst (hasSpanWithCondition (td_received tr)
       (pure_check (\<lambda>sp. case os_attrs sp key of
           Some v \<Rightarrow> minValue \<le>s val_int v \<and> val_int v \<le>s maxValue
         | None \<Rightarrow> False)) ())"

definition probabilistic_evaluate :: "u64 \<Rightarrow> string \<Rightarrow> trace_id \<Rightarrow> decision" where
  "probabilistic_evaluate threshold salt traceID =
     (if hashTraceID salt traceID \<le> threshold then Sampled else NotSampled)"

text \<open>The regular expressions are tried in order; the answer is cached.\<close>

definition match_value :: "'c sampling_libs \<Rightarrow> string \<Rightarrow> 'c matcher \<Rightarrow> bool \<times> 'c matcher" where
  "match_value libs toMatch m =
     (case m of
        ExactMatch vals \<Rightarrow> (toMatch \<in> set vals, m)
      | RegexMatch filterList cache \<Rightarrow>
          (case lru_get libs cache toMatch of
             (Some v, cache1) \<Rightarrow> (v, RegexMatch filterList cache1)
           | (None, cache1) \<Rightarrow>
               (let res = list_ex (\<lambda>r. rx_match libs r toMatch) filterList
                in (res, RegexMatch filterList (lru_add libs cache1 toMatch res)))))"

definition string_on_resource :: "'c sampling_libs \<Rightarrow> string \<Rightarrow> attrs \<Rightarrow> 'c matcher \<Rightarrow> bool \<times> 'c matcher" where
  "string_on_resource libs key a m =
     (case a key of Some v \<Rightarrow> match_value libs (val_str v) m | None \<Rightarrow> (False, m))"

definition string_on_span :: "'c sampling_libs \<Rightarrow> string \<Rightarrow> ot_span \<Rightarrow> 'c matcher \<Rightarrow> bool \<times> 'c matcher" where
  "string_on_span libs key sp m =
     (case os_attrs sp key of
        Some v \<Rightarrow> if val_str v \<noteq> [] then match_value libs (val_str v) m else (False, m)
      | None \<Rightarrow> (False, m))"

definition negate :: "('a \<Rightarrow> 's \<Rightarrow> bool \<times> 's) \<Rightarrow> 'a \<Rightarrow> 's \<Rightarrow> bool \<times> 's" where
  "negate check x s = (case check x s of (b, s1) \<Rightarrow> (\<not> b, s1))"

definition string_evaluate ::
  "'c sampling_libs \<Rightarrow> string \<Rightarrow> 'c matcher \<Rightarrow> bool \<Rightarrow> trace_data \<Rightarrow> decision \<times> 'c matcher" where
  "string_evaluate libs key m invertMatch tr =
     (if invertMatch then
        invertHasResourceOrSpanWithCondition (td_received tr)
          (negate (string_on_resource libs key)) (negate (string_on_span libs key)) m
      else
        hasResourceOrSpanWithCondition (td_received tr)
          (string_on_resource libs key) (string_on_span libs key) m)"

definition status_evaluate :: "status_code list \<Rightarrow> trace_data \<Rightarrow> decision" where
  "status_evaluate statusCodes tr =
     fst (hasSpanWithCondition (td_received tr) (pure_check (\<lambda>sp. os_status sp \<in> set statusCodes)) ())"

text \<open>\<open>int(int32)\<close> extends the sign.\<close>

definition span_count_evaluate :: "i32 \<Rightarrow> i32 \<Rightarrow> trace_data \<Rightarrow> decision" where
  "span_count_evaluate minSpans maxSpans traceData =
     (let n = sint (td_span_count traceData)
      in if maxSpans = 0 \<and> sint minSpans \<le> n then Sampled
         else if sint minSpans \<le> n \<and> n \<le> sint maxSpans then Sampled
         else NotSampled)"

definition trace_state_evaluate :: "'c sampling_libs \<Rightarrow> string \<Rightarrow> string list \<Rightarrow> trace_data \<Rightarrow> decision" where
  "trace_state_evaluate libs key vals tr =
     fst (hasSpanWithCondition (td_received tr)
       (pure_check (\<lambda>sp. case ts_parse libs (os_trace_state sp) of
           None \<Rightarrow> False
         | Some get \<Rightarrow> get key \<in> set vals)) ())"

definition boolean_evaluate :: "string \<Rightarrow> bool \<Rightarrow> trace_data \<Rightarrow> decision" where
  "boolean_evaluate key value tr =
     (let holds = (\<lambda>a. case a key of Some v \<Rightarrow> val_bool v = value | None \<Rightarrow> False)
      in fst (hasResourceOrSpanWithCondition (td_received tr) (pure_check holds)
                (pure_check (\<lambda>sp. holds (os_attrs sp))) ()))"

definition rate_limiting_evaluate :: "i64 \<Rightarrow> i64 \<Rightarrow> i64 \<Rightarrow> i64 \<Rightarrow> trace_data \<Rightarrow> decision \<times> i64 \<times> i64" where
  "rate_limiting_evaluate now currentSecond spansInCurrentSecond spansPerSecond tr =
     (let inSecond = (if currentSecond \<noteq> now then 0 else spansInCurrentSecond);
          ifSampled = inSecond + td_span_count tr
      in if ifSampled <s spansPerSecond then (Sampled, now, ifSampled)
         else (NotSampled, now, inSecond))"

section \<open>Evaluate\<close>

text \<open>
  An evaluator reads the clock at most once, at its own place in the tree of policies: \<open>clock p\<close> is the
  Unix second read by the evaluator at the path \<open>p\<close>.
\<close>

type_synonym clock = "nat list \<Rightarrow> i64"

definition sub_clock :: "nat \<Rightarrow> clock \<Rightarrow> clock" where
  "sub_clock i clock p = clock (i # p)"

definition evaluate_single :: "'c sampling_libs \<Rightarrow> i64 \<Rightarrow> trace_id \<Rightarrow> trace_data \<Rightarrow> 'c single_policy \<Rightarrow>
    (go_error + decision) \<times> 'c single_policy" where
  "evaluate_single libs now traceID tr p =
     (case p of
        AlwaysSample \<Rightarrow> (Inr Sampled, p)
      | Latency ms \<Rightarrow> (Inr (latency_evaluate ms tr), p)
      | NumericAttribute key lo hi \<Rightarrow> (Inr (numeric_evaluate key lo hi tr), p)
      | Probabilistic threshold salt \<Rightarrow> (Inr (probabilistic_evaluate threshold salt traceID), p)
      | StringAttribute key m invert \<Rightarrow>
          (case string_evaluate libs key m invert tr of (d, m1) \<Rightarrow> (Inr d, StringAttribute key m1 invert))
      | StatusCode codes \<Rightarrow> (Inr (status_evaluate codes tr), p)
      | RateLimiting sec spans perSec \<Rightarrow>
          (case rate_limiting_evaluate now sec spans perSec tr of
             (d, sec1, spans1) \<Rightarrow> (Inr d, RateLimiting sec1 spans1 perSec))
      | SpanCount lo hi \<Rightarrow> (Inr (span_count_evaluate lo hi tr), p)
      | TraceState key vals \<Rightarrow> (Inr (trace_state_evaluate libs key vals tr), p)
      | BooleanAttribute key v \<Rightarrow> (Inr (boolean_evaluate key v tr), p))"

definition reset_counters :: "('c evaluator \<times> i64 \<times> i64) list \<Rightarrow> ('c evaluator \<times> i64 \<times> i64) list" where
  "reset_counters subs = map (\<lambda>(ev, alloc, sampled). (ev, alloc, 0)) subs"

lemma subpolicies_size: "size_list (\<lambda>(ev, _). size ev) subs \<le> size_list (size_prod size (\<lambda>x. 0)) subs"
  by (rule size_list_pointwise) auto

lemma reset_counters_size:
  "size_list (\<lambda>(ev, _). size ev) (reset_counters subs) = size_list (\<lambda>(ev, _). size ev) subs"
  by (simp add: reset_counters_def comp_def case_prod_unfold)

text \<open>
  \<open>Evaluate\<close>, with the loops of \<open>And\<close> and of \<open>Composite\<close> over their subpolicies from the \<open>i\<close>-th one on.
\<close>

function evaluate :: "'c sampling_libs \<Rightarrow> clock \<Rightarrow> trace_id \<Rightarrow> trace_data \<Rightarrow> 'c evaluator \<Rightarrow>
    (go_error + decision) \<times> 'c evaluator"
  and and_loop :: "'c sampling_libs \<Rightarrow> clock \<Rightarrow> trace_id \<Rightarrow> trace_data \<Rightarrow> nat \<Rightarrow> 'c evaluator list \<Rightarrow>
    (go_error + decision) \<times> 'c evaluator list"
  and composite_loop :: "'c sampling_libs \<Rightarrow> clock \<Rightarrow> trace_id \<Rightarrow> trace_data \<Rightarrow> i64 \<Rightarrow> nat \<Rightarrow>
    ('c evaluator \<times> i64 \<times> i64) list \<Rightarrow> (go_error + decision) \<times> ('c evaluator \<times> i64 \<times> i64) list" where
  "evaluate libs clock traceID tr (Single p) =
     (case evaluate_single libs (clock []) traceID tr p of (r, p1) \<Rightarrow> (r, Single p1))"
| "evaluate libs clock traceID tr (AndPolicy subs) =
     (case and_loop libs clock traceID tr 0 subs of (r, subs1) \<Rightarrow> (r, AndPolicy subs1))"
| "evaluate libs clock traceID tr (CompositePolicy subs maxTotal sec) =
     (let now = clock [];
          subs0 = (if sec \<noteq> now then reset_counters subs else subs)
      in case composite_loop libs clock traceID tr maxTotal 0 subs0 of
           (r, subs1) \<Rightarrow> (r, CompositePolicy subs1 maxTotal now))"
| "and_loop libs clock traceID tr i [] = (Inr Sampled, [])"
| "and_loop libs clock traceID tr i (sub # subs) =
     (case evaluate libs (sub_clock i clock) traceID tr sub of
        (Inl e, sub1) \<Rightarrow> (Inl e, sub1 # subs)
      | (Inr d, sub1) \<Rightarrow>
          if d = NotSampled \<or> d = InvertNotSampled then (Inr NotSampled, sub1 # subs)
          else case and_loop libs clock traceID tr (Suc i) subs of (r, subs1) \<Rightarrow> (r, sub1 # subs1))"
| "composite_loop libs clock traceID tr maxTotal i [] = (Inr NotSampled, [])"
| "composite_loop libs clock traceID tr maxTotal i ((ev, alloc, sampled) # subs) =
     (case evaluate libs (sub_clock i clock) traceID tr ev of
        (Inl e, ev1) \<Rightarrow> (Inl e, (ev1, alloc, sampled) # subs)
      | (Inr d, ev1) \<Rightarrow>
          if d = Sampled \<or> d = InvertSampled then
            (let ifSampled = sampled + td_span_count tr
             in if ifSampled \<le>s alloc \<and> ifSampled \<le>s maxTotal
                then (Inr Sampled, (ev1, alloc, ifSampled) # subs)
                else (Inr NotSampled, (ev1, alloc, sampled) # subs))
          else case composite_loop libs clock traceID tr maxTotal (Suc i) subs of
                 (r, subs1) \<Rightarrow> (r, (ev1, alloc, sampled) # subs1))"
  by pat_completeness auto

termination
  by (relation "measure (\<lambda>x. case x of
        Inl (libs, clock, traceID, tr, ev) \<Rightarrow> size ev
      | Inr (Inl (libs, clock, traceID, tr, i, subs)) \<Rightarrow> size_list size subs
      | Inr (Inr (libs, clock, traceID, tr, maxTotal, i, subs)) \<Rightarrow> size_list (\<lambda>(ev, _). size ev) subs)")
    (auto simp: reset_counters_size less_Suc_eq_le subpolicies_size)

text \<open>\<open>OnDroppedSpans\<close> of \<open>And\<close> and \<open>Composite\<close> always samples; nothing in the processor calls it.\<close>

definition OnDroppedSpans :: "trace_id \<Rightarrow> trace_data \<Rightarrow> go_error + decision" where
  "OnDroppedSpans traceID tr = Inr Sampled"

section \<open>Searching: general lemmas\<close>

lemma check_spans_append:
  "check_spans check (xs @ ys) s =
     (case check_spans check xs s of (True, s1) \<Rightarrow> (True, s1) | (False, s1) \<Rightarrow> check_spans check ys s1)"
  by (induction check xs s rule: check_spans.induct) (auto split: prod.splits bool.splits)

lemma has_scope_items:
  "hasInstrumentationLibrarySpanWithCondition ilss check s = check_spans check (concat (map scope_items ilss)) s"
  by (induction ilss check s rule: hasInstrumentationLibrarySpanWithCondition.induct)
    (auto simp: check_spans_append split: prod.splits bool.splits)

text \<open>The nested loops are one scan of the trace's spans.\<close>

lemma has_span_items:
  "hasSpanWithCondition td check s =
     map_prod (\<lambda>b. if b then Sampled else NotSampled) id (check_spans check (items td) s)"
  by (induction td check s rule: hasSpanWithCondition.induct)
    (auto simp: has_scope_items items_def check_spans_append split: prod.splits bool.splits)

lemma check_spans_pure: "check_spans (pure_check p) xs s = (list_ex p xs, s)"
  by (induction xs) (auto simp: pure_check_def split: bool.splits)

lemma has_span_pure:
  "fst (hasSpanWithCondition td (pure_check p) s) = (if list_ex p (items td) then Sampled else NotSampled)"
  by (simp add: has_span_items check_spans_pure)

lemma has_span_decision: "fst (hasSpanWithCondition td check s) \<in> {Sampled, NotSampled}"
  by (cases "check_spans check (items td) s") (simp add: has_span_items)

lemma has_resource_decision: "fst (hasResourceOrSpanWithCondition td f g s) \<in> {Sampled, NotSampled}"
  by (induction td f g s rule: hasResourceOrSpanWithCondition.induct) (auto split: prod.splits bool.splits)

lemma invert_resource_decision:
  "fst (invertHasResourceOrSpanWithCondition td f g s) \<in> {InvertSampled, InvertNotSampled}"
  by (induction td f g s rule: invertHasResourceOrSpanWithCondition.induct) (auto split: prod.splits bool.splits)

text \<open>A search for the negation, inverted, is the search.\<close>

lemma invert_check_spans_negate:
  "invert_check_spans (negate check) xs s = map_prod Not id (check_spans check xs s)"
  by (induction xs arbitrary: s) (auto simp: negate_def split: prod.splits bool.splits)

lemma invert_scope_negate:
  "invertHasInstrumentationLibrarySpanWithCondition ilss (negate check) s =
     map_prod Not id (hasInstrumentationLibrarySpanWithCondition ilss check s)"
  by (induction ilss arbitrary: s) (auto simp: invert_check_spans_negate split: prod.splits bool.splits)

lemma invert_resource_negate:
  "invertHasResourceOrSpanWithCondition td (negate f) (negate g) s =
     map_prod (\<lambda>d. if d = Sampled then InvertNotSampled else InvertSampled) id
       (hasResourceOrSpanWithCondition td f g s)"
  by (induction td arbitrary: s) (auto simp: invert_scope_negate negate_def split: prod.splits bool.splits)

section \<open>The decisions of a policy\<close>

text \<open>An evaluator without its counters, clocks and caches.\<close>

definition erase_matcher :: "'c matcher \<Rightarrow> unit matcher" where
  "erase_matcher m = (case m of ExactMatch vs \<Rightarrow> ExactMatch vs | RegexMatch rs c \<Rightarrow> RegexMatch rs ())"

definition erase_single :: "'c single_policy \<Rightarrow> unit single_policy" where
  "erase_single p =
     (case p of
        AlwaysSample \<Rightarrow> AlwaysSample
      | Latency ms \<Rightarrow> Latency ms
      | NumericAttribute key lo hi \<Rightarrow> NumericAttribute key lo hi
      | Probabilistic threshold salt \<Rightarrow> Probabilistic threshold salt
      | StringAttribute key m invert \<Rightarrow> StringAttribute key (erase_matcher m) invert
      | StatusCode codes \<Rightarrow> StatusCode codes
      | RateLimiting sec spans perSec \<Rightarrow> RateLimiting 0 0 perSec
      | SpanCount lo hi \<Rightarrow> SpanCount lo hi
      | TraceState key vals \<Rightarrow> TraceState key vals
      | BooleanAttribute key v \<Rightarrow> BooleanAttribute key v)"

fun erase :: "'c evaluator \<Rightarrow> unit evaluator" where
  "erase (Single p) = Single (erase_single p)"
| "erase (AndPolicy subs) = AndPolicy (map erase subs)"
| "erase (CompositePolicy subs maxTotal sec) =
     CompositePolicy (map (\<lambda>(ev, alloc, sampled). (erase ev, alloc, 0)) subs) maxTotal 0"

lemma match_value_erase: "erase_matcher (snd (match_value libs v m)) = erase_matcher m"
  by (auto simp: match_value_def erase_matcher_def Let_def split: matcher.splits prod.splits option.splits)

text \<open>What a callback keeps of its state, a search keeps.\<close>

lemma check_spans_keeps:
  assumes "\<And>x s. h (snd (g x s)) = h s"
  shows "h (snd (check_spans g xs s)) = h s"
proof (induction xs arbitrary: s)
  case (Cons x xs)
  then show ?case using assms [of x s] by (auto split: prod.splits bool.splits)
qed simp

lemma has_resource_keeps:
  assumes "\<And>a s. h (snd (f a s)) = h s" and "\<And>x s. h (snd (g x s)) = h s"
  shows "h (snd (hasResourceOrSpanWithCondition td f g s)) = h s"
proof (induction td arbitrary: s)
  case (Cons rs td)
  obtain b s1 where f: "f (res_attrs rs) s = (b, s1)" by fastforce
  obtain b2 s2 where g: "check_spans g (concat (map scope_items (res_scopes rs))) s1 = (b2, s2)" by fastforce
  have "h s1 = h s" using assms(1) [of "res_attrs rs" s] f by simp
  moreover have "h s2 = h s1"
    using check_spans_keeps [of h g "concat (map scope_items (res_scopes rs))" s1] assms(2) g by simp
  ultimately show ?case using Cons.IH f g by (cases b; cases b2) (simp_all add: has_scope_items)
qed simp

lemma string_callbacks_erase:
  "erase_matcher (snd (string_on_resource libs key a m)) = erase_matcher m"
  "erase_matcher (snd (string_on_span libs key sp m)) = erase_matcher m"
  by (auto simp: string_on_resource_def string_on_span_def match_value_erase split: option.splits)

lemma string_evaluate_erase: "erase_matcher (snd (string_evaluate libs key m invert tr)) = erase_matcher m"
  by (simp add: string_evaluate_def invert_resource_negate snd_map_prod has_resource_keeps string_callbacks_erase)

lemma string_evaluate_decision:
  "fst (string_evaluate libs key m invert tr) \<in> {Sampled, NotSampled, InvertSampled, InvertNotSampled}"
  using has_resource_decision [of "td_received tr" "string_on_resource libs key" "string_on_span libs key" m]
    invert_resource_decision [of "td_received tr" "negate (string_on_resource libs key)"
      "negate (string_on_span libs key)" m]
  by (cases invert) (simp_all add: string_evaluate_def, blast+)

lemma single_decision:
  "\<exists>d. fst (evaluate_single libs now traceID tr p) = Inr d \<and> d \<in> {Sampled, NotSampled, InvertSampled, InvertNotSampled}"
proof (cases p)
  case (StringAttribute key m invert)
  then show ?thesis using string_evaluate_decision [of libs key m invert tr]
    by (auto simp: evaluate_single_def split: prod.splits)
next
  case (RateLimiting sec spans perSec)
  then show ?thesis by (auto simp: evaluate_single_def rate_limiting_evaluate_def Let_def split: prod.splits)
next
  case (BooleanAttribute key v)
  let ?holds = "\<lambda>a. case a key of Some w \<Rightarrow> val_bool w = v | None \<Rightarrow> False"
  show ?thesis
    using BooleanAttribute has_resource_decision [of "td_received tr" "pure_check ?holds"
        "pure_check (\<lambda>sp. ?holds (os_attrs sp))" "()"]
    by (simp add: evaluate_single_def boolean_evaluate_def Let_def) blast
qed (auto simp: evaluate_single_def latency_evaluate_def numeric_evaluate_def has_span_pure has_span_items
    probabilistic_evaluate_def status_evaluate_def span_count_evaluate_def trace_state_evaluate_def Let_def
    split: prod.splits)

lemma single_erase: "erase_single (snd (evaluate_single libs now traceID tr p)) = erase_single p"
proof (cases p)
  case (StringAttribute key m invert)
  then show ?thesis using string_evaluate_erase [of libs key m invert tr]
    by (auto simp: evaluate_single_def erase_single_def split: prod.splits)
next
  case (RateLimiting sec spans perSec)
  then show ?thesis by (auto simp: evaluate_single_def erase_single_def split: prod.splits)
qed (auto simp: evaluate_single_def)


lemma evaluate_decisions:
  "\<exists>d. fst (evaluate libs clock traceID tr ev) = Inr d \<and> d \<in> {Sampled, NotSampled, InvertSampled, InvertNotSampled}"
  "\<exists>d. fst (and_loop libs clock traceID tr i subs) = Inr d \<and> d \<in> {Sampled, NotSampled}"
  "\<exists>d. fst (composite_loop libs clock traceID tr maxTotal i csubs) = Inr d \<and> d \<in> {Sampled, NotSampled}"
proof (induction libs clock traceID tr ev and libs clock traceID tr i subs
    and libs clock traceID tr maxTotal i csubs rule: evaluate_and_loop_composite_loop.induct)
  case (1 libs clock traceID tr p)
  show ?case using single_decision [of libs "clock []" traceID tr p] by (auto split: prod.splits)
next
  case (2 libs clock traceID tr subs)
  then show ?case by (auto split: prod.splits)
next
  case (3 libs clock traceID tr subs maxTotal sec)
  from 3 [OF refl refl] show ?case by (auto simp: Let_def split: prod.splits)
next
  case (5 libs clock traceID tr i sub subs)
  then show ?case
    by (cases "evaluate libs (sub_clock i clock) traceID tr sub") (auto split: prod.splits sum.splits)
next
  case (7 libs clock traceID tr maxTotal i ev alloc sampled subs)
  then show ?case
    by (cases "evaluate libs (sub_clock i clock) traceID tr ev") (auto simp: Let_def split: prod.splits sum.splits)
qed auto

lemma evaluate_erase:
  "erase (snd (evaluate libs clock traceID tr ev)) = erase ev"
  "map erase (snd (and_loop libs clock traceID tr i subs)) = map erase subs"
  "map (\<lambda>(ev, alloc, sampled). (erase ev, alloc)) (snd (composite_loop libs clock traceID tr maxTotal i csubs)) =
   map (\<lambda>(ev, alloc, sampled). (erase ev, alloc)) csubs"
proof (induction libs clock traceID tr ev and libs clock traceID tr i subs
    and libs clock traceID tr maxTotal i csubs rule: evaluate_and_loop_composite_loop.induct)
  case (1 libs clock traceID tr p)
  show ?case using single_erase [of libs "clock []" traceID tr p] by (auto split: prod.splits)
next
  case (2 libs clock traceID tr subs)
  then show ?case by (auto split: prod.splits)
next
  case (3 libs clock traceID tr subs maxTotal sec)
  have pairs: "map (\<lambda>(ev, alloc, sampled). (erase ev, alloc, 0 :: i64)) xs =
      map (\<lambda>(e, a). (e, a, 0)) (map (\<lambda>(ev, alloc, sampled). (erase ev, alloc)) xs)" for xs
    by (simp add: comp_def case_prod_unfold)
  have "map (\<lambda>(ev, alloc, sampled). (erase ev, alloc)) (reset_counters subs) =
      map (\<lambda>(ev, alloc, sampled). (erase ev, alloc)) subs"
    by (simp add: reset_counters_def comp_def case_prod_unfold)
  with 3 [OF refl refl] show ?case unfolding evaluate.simps Let_def
    by (auto simp: pairs simp del: map_map split: prod.splits if_splits)
next
  case (5 libs clock traceID tr i sub subs)
  then show ?case
    by (cases "evaluate libs (sub_clock i clock) traceID tr sub") (auto split: prod.splits sum.splits)
next
  case (7 libs clock traceID tr maxTotal i ev alloc sampled subs)
  then show ?case
    by (cases "evaluate libs (sub_clock i clock) traceID tr ev") (auto simp: Let_def split: prod.splits sum.splits)
qed auto

text \<open>
  No policy, however nested, reports an error; it decides to sample or not, plainly or inverted,
  and it changes nothing of itself but counters, clock readings and caches.
\<close>

lemma policy_decision_type:
  "(\<exists>d. fst (evaluate libs clock traceID tr ev) = Inr d \<and>
      d \<in> {Sampled, NotSampled, InvertSampled, InvertNotSampled}) \<and>
   erase (snd (evaluate libs clock traceID tr ev)) = erase ev"
  using evaluate_decisions(1) evaluate_erase(1) by blast

section \<open>What nested policies decide\<close>

text \<open>Whether the policy at place \<open>i\<close> of another refuses or accepts a trace.\<close>

definition sub_refuses :: "'c sampling_libs \<Rightarrow> clock \<Rightarrow> trace_id \<Rightarrow> trace_data \<Rightarrow> nat \<Rightarrow> 'c evaluator \<Rightarrow> bool" where
  "sub_refuses libs clock traceID tr i ev \<longleftrightarrow>
     fst (evaluate libs (sub_clock i clock) traceID tr ev) \<in> {Inr NotSampled, Inr InvertNotSampled}"

definition sub_accepts :: "'c sampling_libs \<Rightarrow> clock \<Rightarrow> trace_id \<Rightarrow> trace_data \<Rightarrow> nat \<Rightarrow> 'c evaluator \<Rightarrow> bool" where
  "sub_accepts libs clock traceID tr i ev \<longleftrightarrow>
     fst (evaluate libs (sub_clock i clock) traceID tr ev) \<in> {Inr Sampled, Inr InvertSampled}"

text \<open>
  The policies of another after a trace: those up to the first at which to stop have evaluated it, the
  others are as they were.
\<close>

definition asked :: "'c sampling_libs \<Rightarrow> clock \<Rightarrow> trace_id \<Rightarrow> trace_data \<Rightarrow> (nat \<Rightarrow> 'c evaluator \<Rightarrow> bool) \<Rightarrow> nat \<Rightarrow>
    'c evaluator list \<Rightarrow> 'c evaluator list" where
  "asked libs clock traceID tr stop i evs =
     (let xs = List.enumerate i evs;
          n = Suc (length (takeWhile (\<lambda>(j, ev). \<not> stop j ev) xs))
      in map (\<lambda>(j, ev). snd (evaluate libs (sub_clock j clock) traceID tr ev)) (take n xs) @ drop n evs)"

lemma asked_simps [simp]:
  "asked libs clock traceID tr stop i [] = []"
  "asked libs clock traceID tr stop i (ev # evs) =
     snd (evaluate libs (sub_clock i clock) traceID tr ev) #
     (if stop i ev then evs else asked libs clock traceID tr stop (Suc i) evs)"
  by (simp_all add: asked_def Let_def)

lemma and_loop_decides:
  "and_loop libs clock traceID tr i subs =
     (Inr (if list_ex (\<lambda>(j, ev). sub_refuses libs clock traceID tr j ev) (List.enumerate i subs) then NotSampled else Sampled),
      asked libs clock traceID tr (sub_refuses libs clock traceID tr) i subs)"
proof (induction subs arbitrary: i)
  case (Cons sub subs)
  obtain d ev1 where e: "evaluate libs (sub_clock i clock) traceID tr sub = (Inr d, ev1)"
    using evaluate_decisions(1) [of libs "sub_clock i clock" traceID tr sub]
    by (cases "evaluate libs (sub_clock i clock) traceID tr sub") auto
  then have "sub_refuses libs clock traceID tr i sub \<longleftrightarrow> d = NotSampled \<or> d = InvertNotSampled" by (simp add: sub_refuses_def)
  then show ?case using Cons.IH [of "Suc i"] e by simp
qed simp

text \<open>The first subpolicy that accepts, with its place, and whether the trace fits into what is left of its rates.\<close>

definition first_accepting ::
    "'c sampling_libs \<Rightarrow> clock \<Rightarrow> trace_id \<Rightarrow> trace_data \<Rightarrow> nat \<Rightarrow> ('c evaluator \<times> i64 \<times> i64) list \<Rightarrow>
     (nat \<times> 'c evaluator \<times> i64 \<times> i64) option" where
  "first_accepting libs clock traceID tr i subs =
     find (\<lambda>(j, ev, alloc, sampled). sub_accepts libs clock traceID tr j ev) (List.enumerate i subs)"

fun fits :: "i64 \<Rightarrow> i64 \<Rightarrow> nat \<times> 'c evaluator \<times> i64 \<times> i64 \<Rightarrow> bool" where
  "fits maxTotal n (j, ev, alloc, sampled) \<longleftrightarrow> sampled + n \<le>s alloc \<and> sampled + n \<le>s maxTotal"

text \<open>The place of the subpolicy a trace is counted for, if it is sampled.\<close>

definition charged ::
    "'c sampling_libs \<Rightarrow> clock \<Rightarrow> trace_id \<Rightarrow> trace_data \<Rightarrow> i64 \<Rightarrow> nat \<Rightarrow> ('c evaluator \<times> i64 \<times> i64) list \<Rightarrow> nat option" where
  "charged libs clock traceID tr maxTotal i subs =
     (case first_accepting libs clock traceID tr i subs of
        None \<Rightarrow> None
      | Some x \<Rightarrow> if fits maxTotal (td_span_count tr) x then Some (fst x) else None)"

lemma charged_from: "charged libs clock traceID tr maxTotal i subs = Some j \<Longrightarrow> i \<le> j"
  by (auto simp: charged_def first_accepting_def find_Some_iff nth_enumerate_eq split: option.splits if_splits)

lemma charged_Cons:
  "charged libs clock traceID tr maxTotal i ((ev, alloc, sampled) # subs) =
     (if sub_accepts libs clock traceID tr i ev
      then if fits maxTotal (td_span_count tr) (i, ev, alloc, sampled) then Some i else None
      else charged libs clock traceID tr maxTotal (Suc i) subs)"
  by (simp add: charged_def first_accepting_def del: fits.simps)

lemma composite_loop_decides:
  "fst (composite_loop libs clock traceID tr maxTotal i subs) =
     Inr (if charged libs clock traceID tr maxTotal i subs = None then NotSampled else Sampled) \<and>
   map snd (snd (composite_loop libs clock traceID tr maxTotal i subs)) =
     map (\<lambda>(j, ev, alloc, sampled).
       (alloc, if charged libs clock traceID tr maxTotal i subs = Some j then sampled + td_span_count tr else sampled))
       (List.enumerate i subs) \<and>
   map fst (snd (composite_loop libs clock traceID tr maxTotal i subs)) =
     asked libs clock traceID tr (sub_accepts libs clock traceID tr) i (map fst subs)"
proof (induction subs arbitrary: i)
  case Nil
  show ?case by (simp add: charged_def first_accepting_def)
next
  case (Cons sub subs)
  obtain ev alloc sampled where sub: "sub = (ev, alloc, sampled)" by (cases sub)
  obtain d ev1 where e: "evaluate libs (sub_clock i clock) traceID tr ev = (Inr d, ev1)"
    using evaluate_decisions(1) [of libs "sub_clock i clock" traceID tr ev]
    by (cases "evaluate libs (sub_clock i clock) traceID tr ev") auto
  have acc: "sub_accepts libs clock traceID tr i ev \<longleftrightarrow> d = Sampled \<or> d = InvertSampled" by (simp add: sub_accepts_def e)
  have same: "map snd xs = map (\<lambda>(j, ev, alloc, sampled). (alloc, if Some i = Some j then sampled + td_span_count tr else sampled))
      (List.enumerate m xs)" if "i < m" for m and xs :: "('a evaluator \<times> i64 \<times> i64) list"
    using that
  proof (induction xs arbitrary: m)
    case (Cons x xs)
    from Cons.IH [of "Suc m"] Cons.prems show ?case by (cases x) simp
  qed simp
  have none: "map snd xs = map (\<lambda>(j, ev, alloc, sampled). (alloc, sampled)) (List.enumerate m xs)"
    for xs :: "('a evaluator \<times> i64 \<times> i64) list" and m
    by (induction xs arbitrary: m) auto
  show ?case
  proof (cases "d = Sampled \<or> d = InvertSampled")
    case True
    then show ?thesis using acc e same [of "Suc i" subs] none [of subs "Suc i"]
      by (cases "fits maxTotal (td_span_count tr) (i, ev, alloc, sampled)") (simp_all add: sub charged_Cons Let_def)
  next
    case False
    then show ?thesis using Cons.IH [of "Suc i"] acc e charged_from [of libs clock traceID tr maxTotal "Suc i" subs i]
      by (auto simp: sub charged_Cons split: prod.splits)
  qed
qed

text \<open>
  C22: an \<open>And\<close> samples a trace unless one of its policies refuses it.  A \<open>Composite\<close> asks its policies
  in order until the first that accepts, and samples the trace exactly when the spans this one has let
  through in the current second, with those of the trace, are at most its allocation and at most the
  total; then its counter, and no other, grows by the spans of the trace.  A new second starts all
  counters again.  The policies after the one that refuses or accepts are not asked: they keep their state.
\<close>

theorem nested_policies_decide:
  "evaluate libs clock traceID tr (AndPolicy ands) =
     (Inr (if list_ex (\<lambda>(j, ev). sub_refuses libs clock traceID tr j ev) (List.enumerate 0 ands) then NotSampled else Sampled),
      AndPolicy (asked libs clock traceID tr (sub_refuses libs clock traceID tr) 0 ands)) \<and>
   (let now = clock [];
        subs0 = map (\<lambda>(ev, alloc, sampled). (ev, alloc, if sec = now then sampled else 0)) subs;
        chosen = charged libs clock traceID tr maxTotal 0 subs0
    in \<exists>subs'. evaluate libs clock traceID tr (CompositePolicy subs maxTotal sec) =
         (Inr (if chosen = None then NotSampled else Sampled), CompositePolicy subs' maxTotal now) \<and>
       map fst subs' = asked libs clock traceID tr (sub_accepts libs clock traceID tr) 0 (map fst subs) \<and>
       map snd subs' =
         map (\<lambda>(j, ev, alloc, sampled). (alloc, if chosen = Some j then sampled + td_span_count tr else sampled))
           (List.enumerate 0 subs0))"
proof -
  let ?now = "clock []"
  let ?subs0 = "map (\<lambda>(ev, alloc, sampled). (ev, alloc, if sec = ?now then sampled else 0)) subs"
  have s0: "(if sec \<noteq> ?now then reset_counters subs else subs) = ?subs0"
    by (auto simp: reset_counters_def map_idI)
  have f0: "map fst ?subs0 = map fst subs" by auto
  obtain r subs' where c: "composite_loop libs clock traceID tr maxTotal 0 ?subs0 = (r, subs')" by (rule prod.exhaust)
  have ev: "evaluate libs clock traceID tr (CompositePolicy subs maxTotal sec) = (r, CompositePolicy subs' maxTotal ?now)"
    unfolding evaluate.simps Let_def s0 c by simp
  note d = composite_loop_decides [of libs clock traceID tr maxTotal 0 ?subs0, unfolded c f0 fst_conv snd_conv]
  have comp: "evaluate libs clock traceID tr (CompositePolicy subs maxTotal sec) =
      (Inr (if charged libs clock traceID tr maxTotal 0 ?subs0 = None then NotSampled else Sampled), CompositePolicy subs' maxTotal ?now)"
    unfolding ev conjunct1 [OF d] by (rule refl)
  have ands: "evaluate libs clock traceID tr (AndPolicy ands) =
     (Inr (if list_ex (\<lambda>(j, ev). sub_refuses libs clock traceID tr j ev) (List.enumerate 0 ands) then NotSampled else Sampled),
      AndPolicy (asked libs clock traceID tr (sub_refuses libs clock traceID tr) 0 ands))"
    unfolding evaluate.simps(2) and_loop_decides by simp
  show ?thesis unfolding Let_def
    by (intro conjI exI [of _ subs'] ands comp conjunct2 [OF conjunct2 [OF d]] conjunct1 [OF conjunct2 [OF d]])
qed

end
