(* ===== verification/TailFilters.thy ===== *)
theory TailFilters
  imports TailPolicies
begin

text \<open>
  What the latency policy, the string filter with its cache and the probabilistic policy decide.
\<close>

section \<open>Latency\<close>

lemma milliseconds_mono: "d \<le> d' \<Longrightarrow> milliseconds d \<le> milliseconds d'"
proof -
  assume le: "d \<le> d'"
  consider "0 \<le> d" | "d < 0" "0 \<le> d'" | "d' < 0" using le by linarith
  then show ?thesis
  proof cases
    case 1
    with le show ?thesis by (simp add: milliseconds_def zdiv_mono1)
  next
    case 2
    then have "0 \<le> - d div 1000000" "0 \<le> d' div 1000000" by (simp_all add: div_int_pos_iff)
    with 2 show ?thesis by (simp add: milliseconds_def)
  next
    case 3
    with le have "- d' div 1000000 \<le> - d div 1000000" by (intro zdiv_mono1) auto
    with 3 le show ?thesis by (simp add: milliseconds_def)
  qed
qed

lemma time_sub_small:
  "uint t < 2 ^ 63 \<Longrightarrow> uint u < 2 ^ 63 \<Longrightarrow> time_sub t u = uint t - uint u"
proof -
  assume t: "uint t < 2 ^ 63" and u: "uint u < 2 ^ 63"
  have s: "sint w = uint w" if "uint w < 2 ^ 63" for w :: timestamp
  proof -
    have "- (2 ^ 63) \<le> uint w" by (rule order_trans [OF _ uint_ge_0]) simp
    then have "signed_take_bit 63 (uint w) = uint w" using that by (rule signed_take_bit_int_eq_self)
    then show ?thesis by (simp add: sint_uint)
  qed
  have "uint t - uint u \<le> 2 ^ 63 - 1" using t uint_ge_0 [of u] by linarith
  moreover have "- (2 ^ 63) \<le> uint t - uint u" using u uint_ge_0 [of t] by linarith
  ultimately show ?thesis using s [OF t] s [OF u] by (simp add: time_sub_def)
qed


definition plausible_times :: "ot_span \<Rightarrow> bool" where
  "plausible_times sp \<longleftrightarrow> 0 < uint (os_start sp) \<and> uint (os_start sp) < 2 ^ 63 \<and> uint (os_end sp) < 2 ^ 63"

lemma uint_less_max_min:
  "uint (max a b) = max (uint a) (uint b)" "uint (min a b) = min (uint a) (uint b)" for a b :: timestamp
  by (auto simp: max_def min_def word_le_def)

lemma latency_check_plausible:
  assumes "plausible_times sp" and "uint mx < 2 ^ 63" and "mn \<noteq> 0" and "uint mn < 2 ^ 63"
  shows "latency_check ms sp (mn, mx) =
     (sint ms \<le> milliseconds (uint (max (os_end sp) mx) - uint (min (os_start sp) mn)),
      min (os_start sp) mn, max (os_end sp) mx)"
proof -
  have "(if mn = 0 \<or> os_start sp < mn then os_start sp else mn) = min (os_start sp) mn"
    using assms(3) by (auto simp: min_def)
  moreover have "(if mx = 0 \<or> mx < os_end sp then os_end sp else mx) = max (os_end sp) mx"
    by (auto simp: max_def not_less word_gt_0)
  moreover have "uint (max (os_end sp) mx) < 2 ^ 63" "uint (min (os_start sp) mn) < 2 ^ 63"
    using assms by (auto simp: uint_less_max_min plausible_times_def)
  ultimately show ?thesis by (simp add: latency_check_def Let_def time_sub_small)
qed

lemma fold_max_ge: "mx \<le> fold max xs mx" for mx :: "'a :: linorder"
proof (induction xs arbitrary: mx)
  case (Cons x xs)
  have "mx \<le> max x mx" by simp
  also have "\<dots> \<le> fold max xs (max x mx)" by (rule Cons.IH)
  finally show ?case by simp
qed simp

lemma fold_min_le: "fold min xs mn \<le> mn" for mn :: "'a :: linorder"
proof (induction xs arbitrary: mn)
  case (Cons x xs)
  have "fold min xs (min x mn) \<le> min x mn" by (rule Cons.IH)
  also have "\<dots> \<le> mn" by simp
  finally show ?case by simp
qed simp

lemma duration_grows:
  "uint mx - uint mn \<le> uint (fold max xs mx) - uint (fold min ys mn)" for mx mn :: timestamp
  using fold_max_ge [of mx xs] fold_min_le [of ys mn] by (simp add: word_le_def diff_mono)

lemma latency_scan:
  assumes "list_all plausible_times xs" and "uint mx < 2 ^ 63" and "mn \<noteq> 0" and "uint mn < 2 ^ 63"
    and "milliseconds (uint mx - uint mn) < sint ms"
  shows "fst (check_spans (latency_check ms) xs (mn, mx)) \<longleftrightarrow>
     sint ms \<le> milliseconds (uint (fold max (map os_end xs) mx) - uint (fold min (map os_start xs) mn))"
  using assms
proof (induction xs arbitrary: mx mn)
  case (Cons x xs)
  let ?mx = "max (os_end x) mx" and ?mn = "min (os_start x) mn"
  from Cons.prems have px: "plausible_times x" and pxs: "list_all plausible_times xs" by simp_all
  have mx: "uint ?mx < 2 ^ 63" and mn: "uint ?mn < 2 ^ 63" "?mn \<noteq> 0"
    using px Cons.prems by (auto simp: uint_less_max_min plausible_times_def min_def)
  note step = latency_check_plausible [OF px Cons.prems(2-4)]
  show ?case
  proof (cases "sint ms \<le> milliseconds (uint ?mx - uint ?mn)")
    case True
    have "uint ?mx - uint ?mn \<le> uint (fold max (map os_end xs) ?mx) - uint (fold min (map os_start xs) ?mn)"
      by (rule duration_grows)
    then have "sint ms \<le> milliseconds (uint (fold max (map os_end xs) ?mx) - uint (fold min (map os_start xs) ?mn))"
      using True milliseconds_mono order_trans by blast
    with True step show ?thesis by simp
  next
    case False
    with step Cons.IH [OF pxs mx mn(2,1)] show ?thesis by simp
  qed
qed simp

text \<open>
  When the spans carry real times (a start that is not the zero that stands for an unset one,
  nothing beyond the range of \<open>int64\<close>), the running comparison of the latency policy is the comparison
  of the threshold with the duration of the whole trace, from its first start to its last end.
\<close>

lemma latency_whole_trace:
  assumes "list_all plausible_times (items (td_received tr))"
  shows "latency_evaluate ms tr =
    (if items (td_received tr) \<noteq> [] \<and>
        sint ms \<le> milliseconds (uint (Max (os_end ` set (items (td_received tr)))) -
                                  uint (Min (os_start ` set (items (td_received tr)))))
     then Sampled else NotSampled)"
proof (cases "items (td_received tr)")
  case Nil
  then show ?thesis by (simp add: latency_evaluate_def has_span_items)
next
  case (Cons x xs)
  with assms have px: "plausible_times x" and pxs: "list_all plausible_times xs" by simp_all
  have mx: "uint (os_end x) < 2 ^ 63" and mn: "os_start x \<noteq> 0" "uint (os_start x) < 2 ^ 63"
    using px by (auto simp: plausible_times_def)
  have first: "latency_check ms x (0, 0) =
      (sint ms \<le> milliseconds (uint (os_end x) - uint (os_start x)), os_start x, os_end x)"
    using mx mn by (simp add: latency_check_def Let_def time_sub_small)
  have overall: "fold max (map os_end xs) (os_end x) = Max (os_end ` set (x # xs))"
    "fold min (map os_start xs) (os_start x) = Min (os_start ` set (x # xs))"
    using Max.set_eq_fold [of "os_end x" "map os_end xs"] Min.set_eq_fold [of "os_start x" "map os_start xs"]
    by simp_all
  have "fst (check_spans (latency_check ms) (x # xs) (0, 0)) \<longleftrightarrow>
      sint ms \<le> milliseconds (uint (fold max (map os_end xs) (os_end x)) - uint (fold min (map os_start xs) (os_start x)))"
  proof (cases "sint ms \<le> milliseconds (uint (os_end x) - uint (os_start x))")
    case True
    have "milliseconds (uint (os_end x) - uint (os_start x)) \<le>
        milliseconds (uint (fold max (map os_end xs) (os_end x)) - uint (fold min (map os_start xs) (os_start x)))"
      by (rule milliseconds_mono) (rule duration_grows)
    with True first show ?thesis by simp
  next
    case False
    with first latency_scan [OF pxs mx mn] show ?thesis by simp
  qed
  then show ?thesis unfolding overall
    by (simp add: latency_evaluate_def has_span_items Cons)
qed

definition sample_span :: "timestamp \<Rightarrow> timestamp \<Rightarrow> ot_span" where
  "sample_span t u = empty_span\<lparr>os_start := t, os_end := u\<rparr>"

definition sample_trace :: "ot_span list \<Rightarrow> trace_data" where
  "sample_trace sps =
     \<lparr>td_decisions = [Pending], td_span_count = of_nat (length sps),
      td_received = [\<lparr>res_attrs = Map.empty, res_scopes = [\<lparr>scope_name = [], scope_version = [], scope_items = sps\<rparr>]\<rparr>],
      td_final = Unspecified\<rparr>"

lemma items_sample_trace [simp]: "items (td_received (sample_trace sps)) = sps"
  by (simp add: sample_trace_def items_def)

lemma latency_whole_trace_witness:
  "latency_evaluate 7 (sample_trace [sample_span 5000000 8000000, sample_span 2000000 9000000]) = Sampled \<and>
   latency_evaluate 8 (sample_trace [sample_span 5000000 8000000, sample_span 2000000 9000000]) = NotSampled"
proof -
  let ?sps = "[sample_span 5000000 8000000, sample_span 2000000 9000000]"
  have "list_all plausible_times (items (td_received (sample_trace ?sps)))"
    by (simp add: plausible_times_def sample_span_def)
  note l = latency_whole_trace [OF this]
  have "Max (os_end ` set ?sps) = 9000000" "Min (os_start ` set ?sps) = 2000000"
    by (simp_all add: sample_span_def)
  then show ?thesis using l by (simp add: milliseconds_def)
qed


section \<open>The string filter and its cache\<close>

text \<open>What the code relies on: a cache answers with the value last added for the key, if with any.\<close>

definition lru_lawful :: "'c sampling_libs \<Rightarrow> ('c \<Rightarrow> string \<rightharpoonup> bool) \<Rightarrow> bool" where
  "lru_lawful libs contents \<longleftrightarrow>
     (\<forall>n. contents (lru_new libs n) = Map.empty) \<and>
     (\<forall>c k. fst (lru_get libs c k) = contents c k \<and> contents (snd (lru_get libs c k)) \<subseteq>\<^sub>m contents c) \<and>
     (\<forall>c k v. contents (lru_add libs c k v) \<subseteq>\<^sub>m (contents c)(k \<mapsto> v))"

definition plain_match :: "'c sampling_libs \<Rightarrow> 'c matcher \<Rightarrow> string \<Rightarrow> bool" where
  "plain_match libs m k =
     (case m of ExactMatch vals \<Rightarrow> k \<in> set vals | RegexMatch rs c \<Rightarrow> \<exists>r \<in> set rs. rx_match libs r k)"

text \<open>Every answer in the cache is that of the expressions.\<close>

definition matcher_ok :: "'c sampling_libs \<Rightarrow> ('c \<Rightarrow> string \<rightharpoonup> bool) \<Rightarrow> 'c matcher \<Rightarrow> bool" where
  "matcher_ok libs contents m \<longleftrightarrow>
     (case m of ExactMatch vals \<Rightarrow> True
      | RegexMatch rs c \<Rightarrow> \<forall>k v. contents c k = Some v \<longrightarrow> v = plain_match libs m k)"

lemma plain_match_erase: "erase_matcher m' = erase_matcher m \<Longrightarrow> plain_match libs m' = plain_match libs m"
  by (auto simp: plain_match_def erase_matcher_def fun_eq_iff split: matcher.splits)

lemma match_value_ok:
  assumes law: "lru_lawful libs contents" and ok: "matcher_ok libs contents m"
  shows "fst (match_value libs k m) = plain_match libs m k" and "matcher_ok libs contents (snd (match_value libs k m))"
proof -
  have "fst (match_value libs k m) = plain_match libs m k \<and> matcher_ok libs contents (snd (match_value libs k m))"
  proof (cases m)
    case (ExactMatch vals)
    then show ?thesis by (simp add: match_value_def plain_match_def matcher_ok_def)
  next
    case (RegexMatch rs c)
    obtain r c1 where g: "lru_get libs c k = (r, c1)" by fastforce
    with law have r: "r = contents c k" and le: "contents c1 \<subseteq>\<^sub>m contents c"
      unfolding lru_lawful_def by (metis fst_conv snd_conv)+
    have c: "v = list_ex (\<lambda>r. rx_match libs r k') rs" if "contents c k' = Some v" for k' v
      using ok that by (auto simp: RegexMatch matcher_ok_def plain_match_def list_ex_iff)
    have c1: "v = list_ex (\<lambda>r. rx_match libs r k') rs" if "contents c1 k' = Some v" for k' v
      using c le that by (metis map_le_def domI)
    have add: "contents (lru_add libs c1 k b) \<subseteq>\<^sub>m (contents c1)(k \<mapsto> b)" for b
      using law by (simp add: lru_lawful_def)
    let ?b = "list_ex (\<lambda>r. rx_match libs r k) rs"
    have c2: "v = list_ex (\<lambda>r. rx_match libs r k') rs" if "contents (lru_add libs c1 k ?b) k' = Some v" for k' v
    proof -
      have "((contents c1)(k \<mapsto> ?b)) k' = Some v" using add [of ?b] that by (metis map_le_def domI)
      then show ?thesis using c1 by (auto split: if_splits)
    qed
    show ?thesis
    proof (cases r)
      case None
      with g c2 show ?thesis
        by (auto simp: match_value_def RegexMatch plain_match_def matcher_ok_def list_ex_iff Let_def)
    next
      case (Some v)
      then have ck: "contents c k = Some v" using r by simp
      have "match_value libs k m = (v, RegexMatch rs c1)" using g Some by (simp add: match_value_def RegexMatch)
      then show ?thesis using c [OF ck] c1
        by (auto simp: RegexMatch plain_match_def matcher_ok_def list_ex_iff Let_def)
    qed
  qed
  then show "fst (match_value libs k m) = plain_match libs m k"
    and "matcher_ok libs contents (snd (match_value libs k m))" by simp_all
qed

text \<open>A search whose callbacks answer a fixed predicate while an invariant of their state holds.\<close>

lemma check_spans_spec:
  assumes g: "\<And>x s. I s \<Longrightarrow> fst (g x s) = q x \<and> I (snd (g x s))" and "I s"
  shows "fst (check_spans g xs s) = list_ex q xs \<and> I (snd (check_spans g xs s))"
  using assms(2)
proof (induction xs arbitrary: s)
  case (Cons x xs)
  obtain b s1 where e: "g x s = (b, s1)" by fastforce
  with g [OF Cons.prems, of x] have "b = q x" "I s1" by simp_all
  with e Cons.IH [of s1] show ?case by (cases b) auto
qed simp

lemma has_resource_spec:
  assumes f: "\<And>a s. I s \<Longrightarrow> fst (f a s) = p a \<and> I (snd (f a s))"
    and g: "\<And>x s. I s \<Longrightarrow> fst (g x s) = q x \<and> I (snd (g x s))" and "I s"
  shows "fst (hasResourceOrSpanWithCondition td f g s) =
      (if list_ex (\<lambda>rs. p (res_attrs rs)) td \<or> list_ex q (items td) then Sampled else NotSampled) \<and>
    I (snd (hasResourceOrSpanWithCondition td f g s))"
  using assms(3)
proof (induction td arbitrary: s)
  case (Cons rs td)
  let ?sps = "concat (map scope_items (res_scopes rs))"
  obtain b s1 where e: "f (res_attrs rs) s = (b, s1)" by fastforce
  with f [OF Cons.prems, of "res_attrs rs"] have b: "b = p (res_attrs rs)" "I s1" by simp_all
  obtain b2 s2 where e2: "check_spans g ?sps s1 = (b2, s2)" by fastforce
  with check_spans_spec [of I g q, OF g b(2), of ?sps] have b2: "b2 = list_ex q ?sps" "I s2" by simp_all
  show ?case using e e2 b b2 Cons.IH [of s2]
    by (cases b; cases b2) (auto simp: has_scope_items items_def)
qed simp

text \<open>The answer of the filter: some resource, or some span by a non-empty value, matches.\<close>

definition string_hit :: "(string \<Rightarrow> bool) \<Rightarrow> string \<Rightarrow> traces \<Rightarrow> bool" where
  "string_hit matches key td \<longleftrightarrow>
     (\<exists>rs \<in> set td. \<exists>v. res_attrs rs key = Some v \<and> matches (val_str v)) \<or>
     (\<exists>sp \<in> set (items td). \<exists>v. os_attrs sp key = Some v \<and> val_str v \<noteq> [] \<and> matches (val_str v))"

definition string_spec :: "(string \<Rightarrow> bool) \<Rightarrow> string \<Rightarrow> bool \<Rightarrow> traces \<Rightarrow> decision" where
  "string_spec matches key invert td =
     (if invert then (if string_hit matches key td then InvertNotSampled else InvertSampled)
      else (if string_hit matches key td then Sampled else NotSampled))"

lemma string_evaluate_spec:
  assumes law: "lru_lawful libs contents" and "matcher_ok libs contents m"
  shows "fst (string_evaluate libs key m invert tr) = string_spec (plain_match libs m) key invert (td_received tr)"
    and "matcher_ok libs contents (snd (string_evaluate libs key m invert tr))"
proof -
  let ?I = "\<lambda>m'. matcher_ok libs contents m' \<and> erase_matcher m' = erase_matcher m"
  let ?M = "plain_match libs m"
  have vals: "fst (match_value libs k m') = ?M k \<and> ?I (snd (match_value libs k m'))" if "?I m'" for k m'
    using match_value_ok [OF law] that match_value_erase [of libs k m'] plain_match_erase [of m' m libs] by auto
  have "fst (string_on_resource libs key a m') = (case a key of Some v \<Rightarrow> ?M (val_str v) | None \<Rightarrow> False) \<and>
      ?I (snd (string_on_resource libs key a m'))" if "?I m'" for a m'
    using vals [OF that] that by (auto simp: string_on_resource_def split: option.split)
  moreover have "fst (string_on_span libs key sp m') =
      (case os_attrs sp key of Some v \<Rightarrow> val_str v \<noteq> [] \<and> ?M (val_str v) | None \<Rightarrow> False) \<and>
      ?I (snd (string_on_span libs key sp m'))" if "?I m'" for sp m'
    using vals [OF that] that by (auto simp: string_on_span_def split: option.split)
  moreover have "?I m" using assms(2) by simp
  ultimately have "fst (hasResourceOrSpanWithCondition (td_received tr) (string_on_resource libs key)
        (string_on_span libs key) m) = (if string_hit ?M key (td_received tr) then Sampled else NotSampled) \<and>
      ?I (snd (hasResourceOrSpanWithCondition (td_received tr) (string_on_resource libs key)
        (string_on_span libs key) m))"
    using has_resource_spec [of ?I "string_on_resource libs key"
        "\<lambda>a. case a key of Some v \<Rightarrow> ?M (val_str v) | None \<Rightarrow> False" "string_on_span libs key"
        "\<lambda>sp. case os_attrs sp key of Some v \<Rightarrow> val_str v \<noteq> [] \<and> ?M (val_str v) | None \<Rightarrow> False" m "td_received tr"]
    by (simp add: string_hit_def list_ex_iff split: option.splits) blast
  then show "fst (string_evaluate libs key m invert tr) = string_spec ?M key invert (td_received tr)"
    and "matcher_ok libs contents (snd (string_evaluate libs key m invert tr))"
    by (auto simp: string_evaluate_def string_spec_def invert_resource_negate)
qed

text \<open>One filter judging one trace after another.\<close>

fun string_run :: "'c sampling_libs \<Rightarrow> string \<Rightarrow> 'c matcher \<Rightarrow> bool \<Rightarrow> trace_data list \<Rightarrow> decision list" where
  "string_run libs key m invert [] = []"
| "string_run libs key m invert (tr # trs) =
     (case string_evaluate libs key m invert tr of (d, m1) \<Rightarrow> d # string_run libs key m1 invert trs)"

lemma string_run_spec:
  assumes law: "lru_lawful libs contents" and "matcher_ok libs contents m"
  shows "string_run libs key m invert trs =
    map (\<lambda>tr. string_spec (plain_match libs m) key invert (td_received tr)) trs"
  using assms(2)
proof (induction trs arbitrary: m)
  case (Cons tr trs)
  obtain d m1 where e: "string_evaluate libs key m invert tr = (d, m1)" by fastforce
  then have "plain_match libs m1 = plain_match libs m"
    using string_evaluate_erase [of libs key m invert tr] by (auto intro: plain_match_erase)
  with e Cons.IH [of m1] string_evaluate_spec [OF law Cons.prems, of key invert tr] show ?case by simp
qed simp


text \<open>
  A string filter made by its constructor judges every trace of a sequence by its values alone -
  equality with a non-empty value, or a match of one of the expressions - whatever its cache has
  kept or forgotten on the way; inverting the filter inverts exactly the answer.
\<close>

lemma string_filter_spec:
  assumes "NewStringAttributeFilter libs key vals regex evictSize invert = Ret (StringAttribute key' m invert')"
    and "lru_lawful libs contents"
  shows "string_run libs key' m invert' trs =
    map (\<lambda>tr. string_spec
      (\<lambda>s. if regex then list_ex (\<lambda>r. rx_match libs r s) vals else s \<noteq> [] \<and> s \<in> set vals)
      key invert (td_received tr)) trs"
proof -
  from assms(1) have kv: "key' = key" "invert' = invert"
    by (auto simp: NewStringAttributeFilter_def addFilters_def bind_outcome_Ret_iff Let_def split: if_splits)
  have m: "matcher_ok libs contents m"
    "plain_match libs m = (\<lambda>s. if regex then list_ex (\<lambda>r. rx_match libs r s) vals else s \<noteq> [] \<and> s \<in> set vals)"
    using assms by (auto simp: NewStringAttributeFilter_def addFilters_def bind_outcome_Ret_iff Let_def
        matcher_ok_def plain_match_def lru_lawful_def list_ex_iff fun_eq_iff split: if_splits)
  show ?thesis unfolding kv string_run_spec [OF assms(2) m(1)] m(2) ..
qed

text \<open>
  Libraries for evaluation: expressions that are plain substrings, a cache that forgets its oldest
  entries, and a trace state of one member \<open>k=v\<close> with keys of one byte.
\<close>

definition sample_libs :: "(nat \<times> (string \<times> bool) list) sampling_libs" where
  "sample_libs =
     \<lparr>rx_valid = (\<lambda>r. r \<noteq> ''(''), rx_match = (\<lambda>r s. contains_str s r),
      ts_parse = (\<lambda>s. if length s < 3 then None else Some (\<lambda>k. if k = take 1 s then drop 2 s else [])),
      lru_new = (\<lambda>n. (nat n, [])),
      lru_get = (\<lambda>c k. (map_of (snd c) k, c)),
      lru_add = (\<lambda>c k v. (fst c, take (fst c) ((k, v) # snd c)))\<rparr>"

lemma map_of_take: "map_of (take n xs) \<subseteq>\<^sub>m map_of xs"
proof -
  have "map_of xs = map_of (drop n xs) ++ map_of (take n xs)"
    by (metis append_take_drop_id map_of_append)
  then show ?thesis by simp
qed

lemma sample_libs_lawful: "lru_lawful sample_libs (\<lambda>c. map_of (snd c))"
proof -
  have "map_of (take n ((k, v) # xs)) \<subseteq>\<^sub>m (map_of xs)(k \<mapsto> v)" for n k v and xs :: "(string \<times> bool) list"
    using map_of_take [of n "(k, v) # xs"] by simp
  then show ?thesis by (simp add: lru_lawful_def sample_libs_def)
qed

definition tagged_span :: "string \<Rightarrow> ot_span" where
  "tagged_span v = empty_span\<lparr>os_attrs := [''user'' \<mapsto> AStr v]\<rparr>"

lemma string_filter_spec_witness:
  "\<exists>m. NewStringAttributeFilter sample_libs ''user'' [''acme''] True 1 False = Ret (StringAttribute ''user'' m False) \<and>
     string_run sample_libs ''user'' m False
       (map (\<lambda>v. sample_trace [tagged_span v]) [''acme-1'', ''other'', ''acme-1'', ''acme'']) =
       [Sampled, NotSampled, Sampled, Sampled]"
proof -
  obtain m where m: "NewStringAttributeFilter sample_libs ''user'' [''acme''] True 1 False =
      Ret (StringAttribute ''user'' m False)"
    by (simp add: NewStringAttributeFilter_def addFilters_def sample_libs_def)
  have h: "string_spec (\<lambda>s. list_ex (\<lambda>r. rx_match sample_libs r s) [''acme'']) ''user'' False
      (td_received (sample_trace [tagged_span v])) =
      (if v \<noteq> [] \<and> contains_str v ''acme'' then Sampled else NotSampled)" for v
    by (auto simp: string_spec_def string_hit_def tagged_span_def val_str_def sample_libs_def sample_trace_def items_def)
  have run: "string_run sample_libs ''user'' m False (map (\<lambda>v. sample_trace [tagged_span v]) vs) =
      map (\<lambda>v. if v \<noteq> [] \<and> contains_str v ''acme'' then Sampled else NotSampled) vs" for vs
    unfolding string_filter_spec [OF m sample_libs_lawful] map_map comp_def by (simp only: if_True h)
  have "map (\<lambda>v. if v \<noteq> [] \<and> contains_str v ''acme'' then Sampled else NotSampled)
      [''acme-1'', ''other'', ''acme-1'', ''acme''] = [Sampled, NotSampled, Sampled, Sampled]"
    by (simp add: contains_str_def has_prefix_def)
  with run have "string_run sample_libs ''user'' m False
      (map (\<lambda>v. sample_trace [tagged_span v]) [''acme-1'', ''other'', ''acme-1'', ''acme'']) =
      [Sampled, NotSampled, Sampled, Sampled]" by (rule trans)
  with m show ?thesis by blast
qed

section \<open>Probabilistic sampling\<close>

lemma threshold_floor_mono:
  assumes "0 < q" and "q \<le> q'" and "round_sig 64 lo q = (m, e)" and "round_sig 64 lo q' = (m', e')"
  shows "of_int m * (2::rat) powi e \<le> of_int m' * 2 powi e'"
proof -
  from assms(1,2) have q': "0 < q'" by simp
  have m: "0 \<le> m" using round_sig_parts(2) [OF assms(1,3)] by simp
  consider "e = e'" "m \<le> m'" | "e < e'" "m \<le> 2 ^ 64" "2 ^ 63 \<le> m'"
    using round_sig_mono [OF assms(1,2) _ assms(3,4)] by auto
  then show ?thesis
  proof cases
    case 1
    then show ?thesis by (simp add: mult_right_mono)
  next
    case 2
    have "of_int m * (2::rat) powi e \<le> of_int (2 ^ 64) * 2 powi e"
      using 2(2) by (intro mult_right_mono) (simp_all only: of_int_le_iff zero_le_power_int zero_le_numeral)
    also have "\<dots> = of_int (2 ^ 63) * 2 powi (e + 1)" using power_int_add_1 [of "2 :: rat" e] by simp
    also have "\<dots> \<le> of_int m' * 2 powi e'"
      using 2(1,3) m by (intro mult_mono power_int_increasing) (simp_all del: of_int_power)
    finally show ?thesis .
  qed
qed

definition threshold_value :: "rat \<Rightarrow> int" where
  "threshold_value q =
     (let (m, e) = round_sig 64 (- 4096) (of_int (2 ^ 64 - 1) * q)
      in min (2 ^ 64 - 1) \<lfloor>of_int m * (2::rat) powi e\<rfloor>)"

lemma threshold_value_mono:
  assumes "0 < q" and "q \<le> q'"
  shows "threshold_value q \<le> threshold_value q'" and "0 \<le> threshold_value q" and "threshold_value q' \<le> 2 ^ 64 - 1"
proof -
  let ?c = "of_int (2 ^ 64 - 1) :: rat"
  obtain m e m' e' where r: "round_sig 64 (- 4096) (?c * q) = (m, e)" "round_sig 64 (- 4096) (?c * q') = (m', e')"
    by fastforce
  have pos: "0 < ?c * q" and le: "?c * q \<le> ?c * q'" using assms by (simp_all add: mult_left_mono)
  have "\<lfloor>of_int m * (2::rat) powi e\<rfloor> \<le> \<lfloor>of_int m' * (2::rat) powi e'\<rfloor>"
    using threshold_floor_mono [OF pos le r] by (rule floor_mono)
  then show "threshold_value q \<le> threshold_value q'"
    unfolding threshold_value_def r Let_def prod.case by (rule min.mono [OF order_refl])
  have "0 \<le> of_int m * (2::rat) powi e" using round_sig_parts(2) [OF pos r(1)] by simp
  then have "0 \<le> \<lfloor>of_int m * (2::rat) powi e\<rfloor>" by simp
  then show "0 \<le> threshold_value q" unfolding threshold_value_def r Let_def prod.case by simp
  show "threshold_value q' \<le> 2 ^ 64 - 1" unfolding threshold_value_def r Let_def prod.case by (rule min.cobounded1)
qed

lemma threshold_value_one: "threshold_value 1 = 2 ^ 64 - 1"
  by code_simp

lemma f_mag_range: "0 \<le> f_mag x \<and> f_mag x < 2 ^ 63"
  by (simp add: f_mag_def)

definition hundred_mag :: int where "hundred_mag = 1029 * 2 ^ 52 + 9 * 2 ^ 48"

lemma hundred_parts: "f_neg (f_of_int 100) = False \<and> f_mag (f_of_int 100) = hundred_mag \<and> mag_value hundred_mag = 100"
  by code_simp

text \<open>The magnitude of a percentage over 100.\<close>

definition ratio_mag :: "float64 \<Rightarrow> int" where
  "ratio_mag p = (if f_inf p then inf_mag else round_mag (mag_value (f_mag p) / 100))"

lemma ratio_mag_range: "0 \<le> ratio_mag p \<and> ratio_mag p \<le> inf_mag"
  using round_mag_bounds by (simp add: ratio_mag_def inf_mag_def)

lemma ratio_parts:
  assumes "\<not> f_nan p"
  shows "f_mag (f_div p (f_of_int 100)) = ratio_mag p" and "f_neg (f_div p (f_of_int 100)) = f_neg p"
proof -
  have h: "\<not> f_nan (f_of_int 100)" "\<not> f_inf (f_of_int 100)" "\<not> f_zero (f_of_int 100)"
    using hundred_parts by (simp_all add: f_nan_def f_inf_def f_zero_def inf_mag_def hundred_mag_def)
  have "f_div p (f_of_int 100) = of_mag (f_neg p) (ratio_mag p)"
    using assms h hundred_parts by (simp add: f_div_def ratio_mag_def f_round_def)
  moreover have "0 \<le> ratio_mag p" "ratio_mag p < 2 ^ 63"
    using ratio_mag_range [of p] by (auto simp: inf_mag_def)
  ultimately show "f_mag (f_div p (f_of_int 100)) = ratio_mag p" and "f_neg (f_div p (f_of_int 100)) = f_neg p"
    by (simp_all add: of_mag_parts)
qed

lemma mag_value_pos: "0 < m \<Longrightarrow> 0 < mag_value m"
proof -
  assume m: "0 < m"
  show ?thesis
  proof (cases "m div 2 ^ 52 = 0")
    case True
    then have "m mod 2 ^ 52 = m" by (metis add_0 div_mult_mod_eq mult_zero_left)
    with m True show ?thesis by (simp add: mag_value_def)
  next
    case False
    have "0 \<le> m mod 2 ^ 52" by simp
    then have "0 < 2 ^ 52 + m mod 2 ^ 52" by (rule add_pos_nonneg [rotated]) simp
    then have "0 < (of_int (2 ^ 52 + m mod 2 ^ 52) :: rat)" by (simp only: of_int_0_less_iff)
    with False show ?thesis by (simp only: mag_value_def Let_def if_False) simp
  qed
qed

lemma inf_value: "1 \<le> mag_value inf_mag"
proof -
  have "mag_value (1023 * 2 ^ 52) = 1" by code_simp
  moreover have "mag_value (1023 * 2 ^ 52) \<le> mag_value inf_mag"
    by (rule mag_value_mono) (simp_all add: inf_mag_def)
  ultimately show ?thesis by simp
qed

lemma calculateThreshold_value:
  assumes "\<not> f_nan r" and "\<not> f_neg r" and "\<not> f_zero r"
  shows "calculateThreshold r = Ret (of_int (threshold_value (mag_value (f_mag r))))"
proof (cases "f_inf r")
  case True
  have "threshold_value 1 \<le> threshold_value (mag_value inf_mag)"
    and "threshold_value (mag_value inf_mag) \<le> 2 ^ 64 - 1"
    using threshold_value_mono [of 1 "mag_value inf_mag"] inf_value by auto
  then have "threshold_value (mag_value (f_mag r)) = 2 ^ 64 - 1"
    using True by (simp add: threshold_value_one f_inf_def)
  with True assms show ?thesis by (simp add: calculateThreshold_def)
next
  case False
  with assms show ?thesis
    by (simp add: calculateThreshold_def threshold_value_def Let_def split: prod.splits)
qed

lemma probabilistic_threshold:
  assumes "NewProbabilisticSampler salt p = Ret (Probabilistic t s)"
  shows "\<not> f_nan p" and "s = (if salt = [] then defaultHashSalt else salt)"
    and "t = (if f_neg p \<or> ratio_mag p = 0 then 0 else of_int (threshold_value (mag_value (ratio_mag p))))"
proof -
  from assms have c: "calculateThreshold (f_div p (f_of_int 100)) = Ret t"
    and s: "s = (if salt = [] then defaultHashSalt else salt)"
    by (auto simp: NewProbabilisticSampler_def bind_outcome_Ret_iff Let_def)
  show nan: "\<not> f_nan p"
  proof
    assume "f_nan p"
    then have "f_div p (f_of_int 100) = nan64" by (simp add: f_div_def)
    moreover have "f_nan nan64" by code_simp
    ultimately show False using c by (simp add: calculateThreshold_def)
  qed
  show "s = (if salt = [] then defaultHashSalt else salt)" by (rule s)
  note r = ratio_parts [OF nan]
  have "\<not> f_nan (f_div p (f_of_int 100))" using r ratio_mag_range [of p] by (simp add: f_nan_def)
  then show "t = (if f_neg p \<or> ratio_mag p = 0 then 0 else of_int (threshold_value (mag_value (ratio_mag p))))"
    using c r calculateThreshold_value [of "f_div p (f_of_int 100)"]
    by (auto simp: f_zero_def calculateThreshold_def)
qed

lemma ratio_mag_above:
  assumes q: "0 < q" "q \<le> mag_value (round_mag (v / 100))" and v: "0 < v" "v \<le> f_value p"
  shows "\<not> f_neg p" and "0 < ratio_mag p"
    and "threshold_value q \<le> threshold_value (mag_value (ratio_mag p))"
proof -
  have "0 \<le> mag_value (f_mag p)" by (rule mag_value_nonneg) (simp add: f_mag_range)
  with v show neg: "\<not> f_neg p" by (auto simp: f_value_def)
  have le: "round_mag (v / 100) \<le> ratio_mag p"
  proof (cases "f_inf p")
    case True
    then show ?thesis using round_mag_bounds by (simp add: ratio_mag_def)
  next
    case False
    have "v / 100 \<le> mag_value (f_mag p) / 100" using v neg by (simp add: f_value_def divide_right_mono)
    with False show ?thesis by (simp add: ratio_mag_def round_mag_mono)
  qed
  have r0: "0 \<le> round_mag (v / 100)" using round_mag_bounds by simp
  have le': "q \<le> mag_value (ratio_mag p)" using q(2) mag_value_mono [OF r0 le] by simp
  with q(1) have "ratio_mag p \<noteq> 0" by (auto simp: mag_value_def)
  then show "0 < ratio_mag p" using ratio_mag_range [of p] by simp
  show "threshold_value q \<le> threshold_value (mag_value (ratio_mag p))"
    using threshold_value_mono(1) [OF q(1) le'] .
qed

lemma ratio_mag_nested:
  assumes "\<not> f_neg p" "0 < ratio_mag p" "\<not> f_inf p" "f_value p \<le> f_value p'"
  shows "\<not> f_neg p'" and "0 < ratio_mag p'"
    and "(of_int (threshold_value (mag_value (ratio_mag p))) :: u64) \<le>
         of_int (threshold_value (mag_value (ratio_mag p')))"
proof -
  have rp: "ratio_mag p = round_mag (mag_value (f_mag p) / 100)" using assms(3) by (simp add: ratio_mag_def)
  have "0 \<le> mag_value (f_mag p)" by (rule mag_value_nonneg) (simp add: f_mag_range)
  moreover have "mag_value (f_mag p) \<noteq> 0" using assms(2) rp by (auto simp: round_mag_def)
  ultimately have v: "0 < mag_value (f_mag p)" by simp
  have vp: "mag_value (f_mag p) \<le> f_value p'" using assms(1,4) by (simp add: f_value_def)
  have q: "0 < mag_value (ratio_mag p)" using assms(2) by (rule mag_value_pos)
  note pos = ratio_mag_above [OF q _ v vp, unfolded rp, OF order_refl, folded rp]
  show "\<not> f_neg p'" and pos': "0 < ratio_mag p'" using pos by blast+
  have "threshold_value (mag_value (ratio_mag p)) \<le> threshold_value (mag_value (ratio_mag p'))"
    "0 \<le> threshold_value (mag_value (ratio_mag p))" "threshold_value (mag_value (ratio_mag p')) \<le> 2 ^ 64 - 1"
    using pos(3) pos' threshold_value_mono [OF q order_refl] threshold_value_mono(3) [OF mag_value_pos order_refl]
    by auto
  then show "(of_int (threshold_value (mag_value (ratio_mag p))) :: u64) \<le>
      of_int (threshold_value (mag_value (ratio_mag p')))"
    by (simp add: word_le_def uint_word_of_int mod_pos_pos_trivial)
qed

text \<open>
  With the same salt a lower percentage samples a subset of the traces of a higher one, and from 100
  on every trace is sampled - for any two percentages, whatever their rounding.
\<close>

lemma percentages_nested:
  assumes "NewProbabilisticSampler salt p = Ret (Probabilistic t s)"
    and "NewProbabilisticSampler salt p' = Ret (Probabilistic t' s')"
    and "\<not> f_inf p" and "f_value p \<le> f_value p'"
  shows "(probabilistic_evaluate t s traceID = Sampled \<longrightarrow> probabilistic_evaluate t' s' traceID = Sampled) \<and>
    (100 \<le> f_value p' \<longrightarrow> probabilistic_evaluate t' s' traceID = Sampled)"
proof -
  note P = probabilistic_threshold [OF assms(1)] and P' = probabilistic_threshold [OF assms(2)]
  have salt: "s' = s" using P(2) P'(2) by simp
  have "t \<le> t'"
  proof (cases "f_neg p \<or> ratio_mag p = 0")
    case True
    with P(3) show ?thesis by simp
  next
    case False
    then have "\<not> f_neg p" "0 < ratio_mag p" using ratio_mag_range [of p] by auto
    with ratio_mag_nested [OF this assms(3,4)] P(3) P'(3) show ?thesis by simp
  qed
  moreover have "t' = of_int (2 ^ 64 - 1)" if v: "100 \<le> f_value p'"
  proof -
    have one: "mag_value (round_mag (100 / 100)) = 1" by code_simp
    note pos = ratio_mag_above [of 1 100, OF _ _ _ v]
    have "threshold_value (mag_value (ratio_mag p')) \<le> 2 ^ 64 - 1"
      using pos(2) one threshold_value_mono(3) [OF mag_value_pos order_refl] by auto
    then have "threshold_value (mag_value (ratio_mag p')) = 2 ^ 64 - 1"
      using pos(3) one by (simp add: threshold_value_one)
    with P'(3) pos(1,2) one show ?thesis by simp
  qed
  moreover have "h \<le> of_int (2 ^ 64 - 1)" for h :: u64
    using uint_lt2p [of h] by (simp add: word_le_def)
  ultimately show ?thesis by (auto simp: probabilistic_evaluate_def salt simp del: of_int_diff intro: order_trans)
qed

lemma percentages_nested_witness:
  "\<exists>t t'. NewProbabilisticSampler ''x'' 0x4039000000000000 = Ret (Probabilistic t ''x'' :: unit single_policy) \<and>
     NewProbabilisticSampler ''x'' 0x4049000000000000 = Ret (Probabilistic t' ''x'' :: unit single_policy) \<and>
     probabilistic_evaluate t ''x'' [2] = Sampled \<and> probabilistic_evaluate t' ''x'' [2] = Sampled"
proof -
  have p: "NewProbabilisticSampler ''x'' 0x4039000000000000 = Ret (Probabilistic 4611686018427387903 ''x'' :: unit single_policy)"
    by code_simp
  have p': "NewProbabilisticSampler ''x'' 0x4049000000000000 = Ret (Probabilistic 9223372036854775807 ''x'' :: unit single_policy)"
    by code_simp
  have "\<not> f_inf 0x4039000000000000" and "f_value 0x4039000000000000 \<le> f_value 0x4049000000000000"
    by code_simp+
  moreover have "probabilistic_evaluate 4611686018427387903 ''x'' [2] = Sampled" by code_simp
  ultimately show ?thesis using percentages_nested [OF p p'] p p' by blast
qed

end
