(* ===== verification/TailLimits.thy ===== *)
theory TailLimits
  imports TailFilters
begin

text \<open>
  The policies that count: the rate limiter over a sequence of traces and the counters of a
  composite policy.
\<close>

section \<open>Rate limiting\<close>

text \<open>One rate limiter judging traces of given span counts at given seconds.\<close>

fun rate_run :: "i64 \<Rightarrow> i64 \<times> i64 \<Rightarrow> (i64 \<times> trace_data) list \<Rightarrow> decision list" where
  "rate_run perSec st [] = []"
| "rate_run perSec (sec, spans) ((now, tr) # evs) =
     (case rate_limiting_evaluate now sec spans perSec tr of
        (d, sec1, spans1) \<Rightarrow> d # rate_run perSec (sec1, spans1) evs)"

definition sampled_in :: "i64 \<Rightarrow> ((i64 \<times> trace_data) \<times> decision) list \<Rightarrow> int" where
  "sampled_in s xs = sum_list (map (\<lambda>((now, tr), d). if now = s \<and> d = Sampled then sint (td_span_count tr) else 0) xs)"

lemma sint_add_small:
  fixes a b :: i64
  assumes "0 \<le> sint a" "sint a < 2 ^ 62" "0 \<le> sint b" "sint b < 2 ^ 62"
  shows "sint (a + b) = sint a + sint b"
proof -
  have "- (2 ^ 63) \<le> sint a + sint b" and "sint a + sint b < 2 ^ 63" using assms by simp_all
  then have "signed_take_bit 63 (sint a + sint b) = sint a + sint b" by (rule signed_take_bit_int_eq_self)
  then show ?thesis by (simp add: signed_eq_0_iff sint_word_ariths(1))
qed

lemma rate_run_bound:
  assumes "0 < sint perSec" "sint perSec \<le> 2 ^ 62"
    and "list_all (\<lambda>(now, tr). 0 \<le> sint (td_span_count tr) \<and> sint (td_span_count tr) < 2 ^ 62) evs"
    and "sorted (map (sint \<circ> fst) evs)" and "list_all (\<lambda>(now, tr). sint sec \<le> sint now) evs"
    and "0 \<le> sint spans" "sint spans < sint perSec"
  shows "(if s = sec then sint spans else 0) + sampled_in s (zip evs (rate_run perSec (sec, spans) evs)) < sint perSec"
  using assms(3-)
proof (induction evs arbitrary: sec spans)
  case Nil
  with assms(1) show ?case by (simp add: sampled_in_def)
next
  case (Cons ev evs)
  obtain now tr where ev: "ev = (now, tr)" by fastforce
  define k where "k = (if sec \<noteq> now then 0 else spans)"
  have k: "0 \<le> sint k" "sint k < sint perSec" using Cons.prems(4,5) assms(1) by (auto simp: k_def)
  have n: "0 \<le> sint (td_span_count tr)" "sint (td_span_count tr) < 2 ^ 62" using Cons.prems(1) ev by auto
  have add: "sint (k + td_span_count tr) = sint k + sint (td_span_count tr)"
    using k n assms(2) by (intro sint_add_small) auto
  have evs: "list_all (\<lambda>(now, tr). 0 \<le> sint (td_span_count tr) \<and> sint (td_span_count tr) < 2 ^ 62) evs"
    "sorted (map (sint \<circ> fst) evs)" "list_all (\<lambda>(now', tr). sint now \<le> sint now') evs"
    using Cons.prems(1,2) ev by (auto simp: list_all_iff comp_def)
  have past: "sampled_in s (zip evs ds) = 0" if "s = sec" "sec \<noteq> now" for ds
  proof -
    have "sint sec < sint now" using Cons.prems(3) that ev by (auto simp: order_less_le signed_word_eqI)
    with evs(3) have "list_all (\<lambda>(now', tr). now' \<noteq> sec) evs" by (auto simp: list_all_iff)
    then have "list_all (\<lambda>((now', tr), d). now' \<noteq> sec) (zip evs ds)"
      by (auto simp: list_all_iff dest!: set_zip_leftD)
    with that(1) have z: "map (\<lambda>((now, tr), d). if now = s \<and> d = Sampled then sint (td_span_count tr) else 0) (zip evs ds) =
        map (\<lambda>_. 0) (zip evs ds)"
      by (auto simp: list_all_iff)
    show ?thesis unfolding sampled_in_def z by (rule sum_list_0)
  qed
  show ?case
  proof (cases "k + td_span_count tr <s perSec")
    case True
    then have b: "0 \<le> sint (k + td_span_count tr)" "sint (k + td_span_count tr) < sint perSec"
      using k n add by (simp_all add: word_sless_alt)
    have "rate_run perSec (sec, spans) (ev # evs) = Sampled # rate_run perSec (now, k + td_span_count tr) evs"
      using True ev by (auto simp: rate_limiting_evaluate_def Let_def k_def)
    moreover note Cons.IH [OF evs b]
    ultimately show ?thesis using ev past k n add b Cons.prems(5) assms(1)
      by (cases "s = sec"; cases "s = now") (auto simp: sampled_in_def k_def)
  next
    case False
    have "rate_run perSec (sec, spans) (ev # evs) = NotSampled # rate_run perSec (now, k) evs"
      using False ev by (auto simp: rate_limiting_evaluate_def Let_def k_def)
    moreover note Cons.IH [OF evs k]
    ultimately show ?thesis using ev past k Cons.prems(5) assms(1)
      by (cases "s = sec"; cases "s = now") (auto simp: sampled_in_def k_def)
  qed
qed


text \<open>
  Within any one second a rate limiter lets through fewer spans than its limit, however the traces
  are spread over the seconds - and refuses a trace of exactly the limit, even as the first of its second.
\<close>

lemma rate_limit_per_second:
  assumes "NewRateLimiting perSec = (RateLimiting sec spans perSec' :: 'c single_policy)"
    and "0 < sint perSec" "sint perSec \<le> 2 ^ 62"
    and "list_all (\<lambda>(now, tr). 0 \<le> sint (td_span_count tr) \<and> sint (td_span_count tr) < 2 ^ 62) evs"
    and "sorted (map (sint \<circ> fst) evs)" and "list_all (\<lambda>(now, tr). 0 \<le> sint now) evs"
  shows "sampled_in s (zip evs (rate_run perSec' (sec, spans) evs)) < sint perSec \<and>
    (td_span_count tr = perSec \<longrightarrow> rate_run perSec' (sec, spans) [(now, tr)] = [NotSampled])"
proof -
  from assms(1) have init: "sec = 0" "spans = 0" "perSec' = perSec" by (simp_all add: NewRateLimiting_def)
  have "(if s = sec then sint spans else 0) + sampled_in s (zip evs (rate_run perSec (sec, spans) evs)) < sint perSec"
    by (rule rate_run_bound) (use assms init in simp_all)
  moreover have "(if s = sec then sint spans else 0) = 0" using init by simp
  ultimately show ?thesis using init by (simp add: rate_limiting_evaluate_def Let_def)
qed

lemma rate_limit_per_second_witness:
  "\<exists>evs. rate_run 5 (0, 0) evs = [Sampled, Sampled, NotSampled, Sampled] \<and>
     sampled_in 1 (zip evs (rate_run 5 (0, 0) evs)) = 4 \<and>
     sampled_in 1 (zip evs (rate_run 5 (0, 0) evs)) < 5"
proof -
  let ?t = "sample_trace [empty_span, empty_span]"
  let ?evs = "[(1, ?t), (1, ?t), (1, ?t), (2, ?t)] :: (i64 \<times> trace_data) list"
  have c: "td_span_count ?t = 2" by (simp add: sample_trace_def)
  have "sampled_in 1 (zip ?evs (rate_run 5 (0, 0) ?evs)) < sint (5 :: i64)"
    using rate_limit_per_second [of 5 0 0 5 ?evs 1 ?t 0] c by (simp add: NewRateLimiting_def)
  moreover have "rate_run 5 (0, 0) ?evs = [Sampled, Sampled, NotSampled, Sampled]"
    using c by (simp add: rate_limiting_evaluate_def word_sless_alt)
  ultimately show ?thesis using c by (intro exI [of _ ?evs]) (simp add: sampled_in_def)
qed

section \<open>Composite policies\<close>

text \<open>The counter of a subpolicy respects its allocation and the composite's total.\<close>

definition subpolicy_ok :: "i64 \<Rightarrow> 'c evaluator \<times> i64 \<times> i64 \<Rightarrow> bool" where
  "subpolicy_ok maxTotal = (\<lambda>(ev, alloc, sampled).
     0 \<le> sint sampled \<and> sint sampled \<le> sint alloc \<and> sint sampled \<le> sint maxTotal \<and>
     sint alloc < 2 ^ 62 \<and> sint maxTotal < 2 ^ 62)"

definition total_sampled :: "('c evaluator \<times> i64 \<times> i64) list \<Rightarrow> int" where
  "total_sampled subs = sum_list (map (\<lambda>(ev, alloc, sampled). sint sampled) subs)"

lemma composite_loop_counters:
  assumes "0 \<le> sint (td_span_count tr)" and "sint (td_span_count tr) < 2 ^ 62"
    and "list_all (subpolicy_ok maxTotal) subs"
    and "composite_loop libs clock traceID tr maxTotal i subs = (r, subs')"
  shows "list_all (subpolicy_ok maxTotal) subs' \<and>
    total_sampled subs' = total_sampled subs + (if r = Inr Sampled then sint (td_span_count tr) else 0)"
  using assms(3,4)
proof (induction subs arbitrary: i r subs')
  case Nil
  then show ?case by auto
next
  case (Cons sub subs)
  obtain ev alloc sampled where sub: "sub = (ev, alloc, sampled)" by (cases sub)
  obtain d ev1 where e: "evaluate libs (sub_clock i clock) traceID tr ev = (Inr d, ev1)"
    using evaluate_decisions(1) [of libs "sub_clock i clock" traceID tr ev]
    by (cases "evaluate libs (sub_clock i clock) traceID tr ev") auto
  have ok: "subpolicy_ok maxTotal sub" "list_all (subpolicy_ok maxTotal) subs" using Cons.prems by simp_all
  show ?case
  proof (cases "d = Sampled \<or> d = InvertSampled")
    case True
    have add: "sint (sampled + td_span_count tr) = sint sampled + sint (td_span_count tr)"
      using ok(1) sub assms(1,2) by (intro sint_add_small) (auto simp: subpolicy_ok_def)
    show ?thesis using Cons.prems(2) True e ok sub add assms(1)
      by (auto simp: Let_def total_sampled_def subpolicy_ok_def word_sle_eq split: if_splits)
  next
    case False
    obtain r1 subs1 where l: "composite_loop libs clock traceID tr maxTotal (Suc i) subs = (r1, subs1)" by fastforce
    with Cons.IH [OF ok(2) l] Cons.prems(2) False e ok(1) sub show ?thesis
      by (auto simp: total_sampled_def subpolicy_ok_def)
  qed
qed

lemma reset_counters_ok:
  "list_all (subpolicy_ok maxTotal) subs \<Longrightarrow>
   list_all (subpolicy_ok maxTotal) (reset_counters subs) \<and> total_sampled (reset_counters subs) = 0"
  by (induction subs) (auto simp: reset_counters_def total_sampled_def subpolicy_ok_def)

text \<open>
  A composite policy counts what it samples: after each judgement the counters of its subpolicies
  add up to the spans sampled since the second began, each within the subpolicy's own
  allocation and within the total.  Nothing bounds their sum by the total, as the witness shows.
\<close>

lemma composite_accounting:
  assumes "list_all (subpolicy_ok maxTotal) subs"
    and "0 \<le> sint (td_span_count tr)" and "sint (td_span_count tr) < 2 ^ 62"
    and "evaluate libs clock traceID tr (CompositePolicy subs maxTotal sec) = (r, CompositePolicy subs' maxTotal' sec')"
  shows "sec' = clock [] \<and> maxTotal' = maxTotal \<and> list_all (subpolicy_ok maxTotal) subs' \<and>
    total_sampled subs' =
      (if sec = clock [] then total_sampled subs else 0) + (if r = Inr Sampled then sint (td_span_count tr) else 0)"
proof -
  let ?subs0 = "if sec \<noteq> clock [] then reset_counters subs else subs"
  have "list_all (subpolicy_ok maxTotal) ?subs0" using assms(1) reset_counters_ok by auto
  moreover have "composite_loop libs clock traceID tr maxTotal 0 ?subs0 = (r, subs')"
    using assms(4) by (auto simp: Let_def split: prod.splits)
  ultimately have "list_all (subpolicy_ok maxTotal) subs' \<and>
      total_sampled subs' = total_sampled ?subs0 + (if r = Inr Sampled then sint (td_span_count tr) else 0)"
    by (intro composite_loop_counters assms)
  moreover have "total_sampled ?subs0 = (if sec = clock [] then total_sampled subs else 0)"
    using assms(1) reset_counters_ok by auto
  ultimately show ?thesis using assms(4) by (auto simp: Let_def split: prod.splits)
qed

text \<open>
  Two subpolicies of the whole rate each, a trace with an error and one without: 4 spans of a total of 2.
\<close>

definition sample_composite :: "(nat \<times> (string \<times> bool) list) evaluator" where
  "sample_composite = NewComposite 2 [(Single (StatusCode [StatusError]), 2), (Single AlwaysSample, 2)]"

definition error_span :: ot_span where
  "error_span = empty_span\<lparr>os_status := StatusError\<rparr>"

lemma composite_accounting_witness:
  "\<exists>c1 subs2. evaluate sample_libs (\<lambda>p. 9) [] (sample_trace [error_span, error_span]) sample_composite = (Inr Sampled, c1) \<and>
     evaluate sample_libs (\<lambda>p. 9) [] (sample_trace [empty_span, empty_span]) c1 = (Inr Sampled, CompositePolicy subs2 2 9) \<and>
     total_sampled subs2 = 4"
proof -
  define subs1 :: "((nat \<times> (string \<times> bool) list) evaluator \<times> i64 \<times> i64) list"
    where "subs1 = [(Single (StatusCode [StatusError]), 2, 2), (Single AlwaysSample, 2, 0)]"
  define subs2 :: "((nat \<times> (string \<times> bool) list) evaluator \<times> i64 \<times> i64) list"
    where "subs2 = [(Single (StatusCode [StatusError]), 2, 2), (Single AlwaysSample, 2, 2)]"
  have n: "td_span_count (sample_trace [a, b]) = 2" for a b by (simp add: sample_trace_def)
  have e1: "evaluate sample_libs (\<lambda>p. 9) [] (sample_trace [error_span, error_span]) sample_composite =
      (Inr Sampled, CompositePolicy subs1 2 9)"
    by (simp add: sample_composite_def NewComposite_def evaluate_single_def status_evaluate_def has_span_pure
        error_span_def n subs1_def reset_counters_def)
  have e2: "evaluate sample_libs (\<lambda>p. 9) [] (sample_trace [empty_span, empty_span]) (CompositePolicy subs1 2 9) =
      (Inr Sampled, CompositePolicy subs2 2 9)"
    by (simp add: evaluate_single_def status_evaluate_def has_span_pure empty_span_def n subs1_def subs2_def)
  have "list_all (subpolicy_ok 2) subs1" by (simp add: subs1_def subpolicy_ok_def)
  from composite_accounting [OF this _ _ e2] have "total_sampled subs2 = total_sampled subs1 + 2"
    by (simp add: n)
  moreover have "total_sampled subs1 = 2" by (simp add: subs1_def total_sampled_def)
  ultimately show ?thesis using e1 e2 by auto
qed

end
