(* ===== verification/TailConfig.thy ===== *)
theory TailConfig
  imports TailLimits
begin

text \<open>
  The configuration of the tail sampling processor and the construction of its policies from it:
  \<open>config.go\<close>, \<open>and_helper.go\<close>, \<open>composite_helper.go\<close> and \<open>getPolicyEvaluator\<close> of \<open>processor.go\<close>
  (\<open>processor/tailsamplingprocessor\<close>).  Decoding a configuration file into these records is not
  modelled; a field that is not set has its zero value.
\<close>

section \<open>Configuration\<close>

record numeric_attribute_cfg =
  na_key :: string
  na_min_value :: i64
  na_max_value :: i64

record probabilistic_cfg =
  pb_hash_salt :: string
  pb_sampling_percentage :: float64

record string_attribute_cfg =
  sa_key :: string
  sa_values :: "string list"
  sa_enabled_regex_matching :: bool
  sa_cache_max_size :: i64
  sa_invert_match :: bool

record span_count_cfg =
  sc_min_spans :: i32
  sc_max_spans :: i32

record trace_state_cfg =
  ts_key :: string
  ts_values :: "string list"

record boolean_attribute_cfg =
  ba_key :: string
  ba_value :: bool

record shared_policy_cfg =
  pc_name :: string
  pc_type :: string
  pc_threshold_ms :: i64 \<comment> \<open>\<open>LatencyCfg\<close>\<close>
  pc_numeric_attribute :: numeric_attribute_cfg
  pc_probabilistic :: probabilistic_cfg
  pc_status_codes :: "string list" \<comment> \<open>\<open>StatusCodeCfg\<close>\<close>
  pc_string_attribute :: string_attribute_cfg
  pc_spans_per_second :: i64 \<comment> \<open>\<open>RateLimitingCfg\<close>\<close>
  pc_span_count :: span_count_cfg
  pc_trace_state :: trace_state_cfg
  pc_boolean_attribute :: boolean_attribute_cfg

text \<open>\<open>AndCfg\<close> holds the configurations of its subpolicies; the embedding structs extend the shared record.\<close>

type_synonym and_cfg = "shared_policy_cfg list"

record composite_sub_policy_cfg = shared_policy_cfg +
  cs_and :: and_cfg

record rate_allocation_cfg =
  ra_policy :: string
  ra_percent :: i64

record composite_cfg =
  cc_max_total_spans_per_second :: i64
  cc_policy_order :: "string list"
  cc_sub_policy :: "composite_sub_policy_cfg list"
  cc_rate_allocation :: "rate_allocation_cfg list"

record policy_cfg = shared_policy_cfg +
  pl_composite :: composite_cfg
  pl_and :: and_cfg

section \<open>Constructing the policies\<close>

definition getSharedPolicyEvaluator ::
  "'c sampling_libs \<Rightarrow> 'a shared_policy_cfg_scheme \<Rightarrow> (policy_error + 'c evaluator) outcome" where
  "getSharedPolicyEvaluator libs cfg =
     (let single = (\<lambda>p. Ret (Inr (Single p))); panicking = (\<lambda>m. bind_outcome m (\<lambda>p. Ret (Inr (Single p))))
      in if pc_type cfg = ''always_sample'' then single AlwaysSample
         else if pc_type cfg = ''latency'' then single (Latency (pc_threshold_ms cfg))
         else if pc_type cfg = ''numeric_attribute'' then
           (let c = pc_numeric_attribute cfg
            in single (NumericAttribute (na_key c) (na_min_value c) (na_max_value c)))
         else if pc_type cfg = ''probabilistic'' then
           (let c = pc_probabilistic cfg
            in panicking (NewProbabilisticSampler (pb_hash_salt c) (pb_sampling_percentage c)))
         else if pc_type cfg = ''string_attribute'' then
           (let c = pc_string_attribute cfg
            in panicking (NewStringAttributeFilter libs (sa_key c) (sa_values c) (sa_enabled_regex_matching c)
                 (sint (sa_cache_max_size c)) (sa_invert_match c)))
         else if pc_type cfg = ''status_code'' then
           (case NewStatusCodeFilter (pc_status_codes cfg) of
              Inl e \<Rightarrow> Ret (Inl e)
            | Inr p \<Rightarrow> single p)
         else if pc_type cfg = ''rate_limiting'' then single (NewRateLimiting (pc_spans_per_second cfg))
         else if pc_type cfg = ''span_count'' then
           (let c = pc_span_count cfg in single (SpanCount (sc_min_spans c) (sc_max_spans c)))
         else if pc_type cfg = ''trace_state'' then
           (let c = pc_trace_state cfg in single (NewTraceStateFilter (ts_key c) (ts_values c)))
         else if pc_type cfg = ''boolean_attribute'' then
           (let c = pc_boolean_attribute cfg in single (BooleanAttribute (ba_key c) (ba_value c)))
         else Ret (Inl (UnknownPolicyType (pc_type cfg))))"

text \<open>The loops over the subpolicies stop at the first error.\<close>

fun and_evaluators :: "'c sampling_libs \<Rightarrow> and_cfg \<Rightarrow> (policy_error + 'c evaluator list) outcome" where
  "and_evaluators libs [] = Ret (Inr [])"
| "and_evaluators libs (cfg # cfgs) =
     bind_outcome (getSharedPolicyEvaluator libs cfg) (\<lambda>r. case r of
       Inl e \<Rightarrow> Ret (Inl e)
     | Inr ev \<Rightarrow> bind_outcome (and_evaluators libs cfgs) (\<lambda>rs. case rs of
         Inl e \<Rightarrow> Ret (Inl e)
       | Inr evs \<Rightarrow> Ret (Inr (ev # evs))))"

definition getNewAndPolicy :: "'c sampling_libs \<Rightarrow> and_cfg \<Rightarrow> (policy_error + 'c evaluator) outcome" where
  "getNewAndPolicy libs cfg =
     bind_outcome (and_evaluators libs cfg) (\<lambda>r. case r of
       Inl e \<Rightarrow> Ret (Inl e)
     | Inr evs \<Rightarrow> Ret (Inr (AndPolicy evs)))"

definition getCompositeSubPolicyEvaluator ::
  "'c sampling_libs \<Rightarrow> composite_sub_policy_cfg \<Rightarrow> (policy_error + 'c evaluator) outcome" where
  "getCompositeSubPolicyEvaluator libs cfg =
     (if pc_type cfg = ''and'' then getNewAndPolicy libs (cs_and cfg) else getSharedPolicyEvaluator libs cfg)"

text \<open>The rates are \<open>float64\<close> values; a name allocated twice keeps its last rate.\<close>

definition getRateAllocationMap :: "composite_cfg \<Rightarrow> string \<rightharpoonup> float64" where
  "getRateAllocationMap config =
     (let maxTotalSPS = f_of_int (sint (cc_max_total_spans_per_second config));
          defaultSPS = f_div maxTotalSPS (f_of_int (int (length (cc_sub_policy config))))
      in fold (\<lambda>rAlloc m. m(ra_policy rAlloc \<mapsto>
                 (if 0 <s ra_percent rAlloc
                  then f_mul (f_div (f_of_int (sint (ra_percent rAlloc))) (f_of_int 100)) maxTotalSPS
                  else defaultSPS)))
           (cc_rate_allocation config) Map.empty)"

text \<open>A missing name reads as zero.\<close>

definition allocated_rate :: "(string \<rightharpoonup> float64) \<Rightarrow> string \<Rightarrow> i64" where
  "allocated_rate rates name = of_int (f_to_int (case rates name of Some r \<Rightarrow> r | None \<Rightarrow> 0))"

fun composite_params :: "'c sampling_libs \<Rightarrow> (string \<rightharpoonup> float64) \<Rightarrow> composite_sub_policy_cfg list \<Rightarrow>
    (policy_error + ('c evaluator \<times> i64) list) outcome" where
  "composite_params libs rates [] = Ret (Inr [])"
| "composite_params libs rates (cfg # cfgs) =
     bind_outcome (getCompositeSubPolicyEvaluator libs cfg) (\<lambda>r. case r of
       Inl e \<Rightarrow> Ret (Inl e)
     | Inr ev \<Rightarrow> bind_outcome (composite_params libs rates cfgs) (\<lambda>rs. case rs of
         Inl e \<Rightarrow> Ret (Inl e)
       | Inr ps \<Rightarrow> Ret (Inr ((ev, allocated_rate rates (pc_name cfg)) # ps))))"

definition getNewCompositePolicy :: "'c sampling_libs \<Rightarrow> composite_cfg \<Rightarrow> (policy_error + 'c evaluator) outcome" where
  "getNewCompositePolicy libs config =
     bind_outcome (composite_params libs (getRateAllocationMap config) (cc_sub_policy config)) (\<lambda>r. case r of
       Inl e \<Rightarrow> Ret (Inl e)
     | Inr ps \<Rightarrow> Ret (Inr (NewComposite (cc_max_total_spans_per_second config) ps)))"

definition getPolicyEvaluator :: "'c sampling_libs \<Rightarrow> policy_cfg \<Rightarrow> (policy_error + 'c evaluator) outcome" where
  "getPolicyEvaluator libs cfg =
     (if pc_type cfg = ''composite'' then getNewCompositePolicy libs (pl_composite cfg)
      else if pc_type cfg = ''and'' then getNewAndPolicy libs (pl_and cfg)
      else getSharedPolicyEvaluator libs cfg)"

section \<open>When a policy is constructed\<close>

text \<open>The types of a policy that is not made of others.\<close>

definition single_types :: "string list" where
  "single_types = [''always_sample'', ''latency'', ''numeric_attribute'', ''probabilistic'', ''string_attribute'',
     ''status_code'', ''rate_limiting'', ''span_count'', ''trace_state'', ''boolean_attribute'']"

definition shared_cfg_panics :: "'c sampling_libs \<Rightarrow> 'a shared_policy_cfg_scheme \<Rightarrow> bool" where
  "shared_cfg_panics libs cfg \<longleftrightarrow>
     pc_type cfg = ''probabilistic'' \<and> f_nan (pb_sampling_percentage (pc_probabilistic cfg)) \<or>
     pc_type cfg = ''string_attribute'' \<and> sa_enabled_regex_matching (pc_string_attribute cfg) \<and>
       \<not> list_all (rx_valid libs) (sa_values (pc_string_attribute cfg))"

definition shared_cfg_error :: "'a shared_policy_cfg_scheme \<Rightarrow> bool" where
  "shared_cfg_error cfg \<longleftrightarrow>
     pc_type cfg \<notin> set single_types \<or>
     pc_type cfg = ''status_code'' \<and>
       (pc_status_codes cfg = [] \<or> \<not> list_all (\<lambda>s. s \<in> {''OK'', ''ERROR'', ''UNSET''}) (pc_status_codes cfg))"

lemma status_codes_ok:
  "(\<exists>cs. status_codes ss = Inr cs) \<longleftrightarrow> list_all (\<lambda>s. s \<in> {''OK'', ''ERROR'', ''UNSET''}) ss"
  by (induction ss) (auto simp: Let_def split: sum.splits)

lemma NewStatusCodeFilter_ok:
  "(\<exists>p. NewStatusCodeFilter ss = Inr p) \<longleftrightarrow> ss \<noteq> [] \<and> list_all (\<lambda>s. s \<in> {''OK'', ''ERROR'', ''UNSET''}) ss"
  using status_codes_ok [of ss] by (auto simp: NewStatusCodeFilter_def split: sum.splits)

lemma NewProbabilisticSampler_panics: "NewProbabilisticSampler salt p = Panic \<longleftrightarrow> f_nan p"
proof
  assume "f_nan p"
  then have "f_div p (f_of_int 100) = nan64" by (simp add: f_div_def)
  moreover have "f_nan nan64" by code_simp
  ultimately show "NewProbabilisticSampler salt p = Panic"
    by (simp add: NewProbabilisticSampler_def calculateThreshold_def Let_def)
next
  assume p: "NewProbabilisticSampler salt p = Panic"
  show "f_nan p"
  proof (rule ccontr)
    assume n: "\<not> f_nan p"
    then have "\<not> f_nan (f_div p (f_of_int 100))"
      using ratio_parts(1) [OF n] ratio_mag_range [of p] by (simp add: f_nan_def)
    then have "\<exists>t. calculateThreshold (f_div p (f_of_int 100)) = Ret t"
      by (auto simp: calculateThreshold_def Let_def split: prod.splits)
    with p show False by (auto simp: NewProbabilisticSampler_def Let_def)
  qed
qed

lemma NewStringAttributeFilter_panics:
  "NewStringAttributeFilter libs key vs regex n iv = Panic \<longleftrightarrow> regex \<and> \<not> list_all (rx_valid libs) vs"
  by (auto simp: NewStringAttributeFilter_def addFilters_def Let_def)

lemma bind_outcome_Panic_iff: "bind_outcome m f = Panic \<longleftrightarrow> m = Panic \<or> (\<exists>x. m = Ret x \<and> f x = Panic)"
  by (cases m) auto

lemma shared_cases:
  "getSharedPolicyEvaluator libs cfg = Panic \<longleftrightarrow> shared_cfg_panics libs cfg"
  "(\<exists>e. getSharedPolicyEvaluator libs cfg = Ret (Inl e)) \<longleftrightarrow> shared_cfg_error cfg"
proof -
  show "getSharedPolicyEvaluator libs cfg = Panic \<longleftrightarrow> shared_cfg_panics libs cfg"
    by (auto simp: getSharedPolicyEvaluator_def Let_def shared_cfg_panics_def bind_outcome_Panic_iff
        NewProbabilisticSampler_panics NewStringAttributeFilter_panics split: sum.splits)
  have "(\<exists>e. NewStatusCodeFilter (pc_status_codes cfg) = (Inl e :: policy_error + 'a single_policy)) \<longleftrightarrow>
      (pc_status_codes cfg = [] \<or> \<not> list_all (\<lambda>s. s \<in> {''OK'', ''ERROR'', ''UNSET''}) (pc_status_codes cfg))"
    using NewStatusCodeFilter_ok [of "pc_status_codes cfg", where 'a = 'a]
    by (cases "NewStatusCodeFilter (pc_status_codes cfg) :: policy_error + 'a single_policy") auto
  then show "(\<exists>e. getSharedPolicyEvaluator libs cfg = Ret (Inl e)) \<longleftrightarrow> shared_cfg_error cfg"
    by (auto simp: getSharedPolicyEvaluator_def Let_def shared_cfg_error_def single_types_def bind_outcome_Ret_iff
        split: sum.splits)
qed

definition shared_cfg_ok :: "'c sampling_libs \<Rightarrow> 'a shared_policy_cfg_scheme \<Rightarrow> bool" where
  "shared_cfg_ok libs cfg \<longleftrightarrow> \<not> shared_cfg_panics libs cfg \<and> \<not> shared_cfg_error cfg"

definition sub_cfg_ok :: "'c sampling_libs \<Rightarrow> composite_sub_policy_cfg \<Rightarrow> bool" where
  "sub_cfg_ok libs cfg \<longleftrightarrow>
     (if pc_type cfg = ''and'' then list_all (shared_cfg_ok libs) (cs_and cfg) else shared_cfg_ok libs cfg)"

definition policy_cfg_ok :: "'c sampling_libs \<Rightarrow> policy_cfg \<Rightarrow> bool" where
  "policy_cfg_ok libs cfg \<longleftrightarrow>
     (if pc_type cfg = ''composite'' then list_all (sub_cfg_ok libs) (cc_sub_policy (pl_composite cfg))
      else if pc_type cfg = ''and'' then list_all (shared_cfg_ok libs) (pl_and cfg)
      else shared_cfg_ok libs cfg)"

definition built :: "('e + 'a) outcome \<Rightarrow> bool" where
  "built m \<longleftrightarrow> (\<exists>x. m = Ret (Inr x))"

lemma built_bind:
  "built (bind_outcome m (\<lambda>r. case r of Inl e \<Rightarrow> Ret (Inl e) | Inr x \<Rightarrow> f x)) \<longleftrightarrow>
     (\<exists>x. m = Ret (Inr x) \<and> built (f x))"
  by (cases m) (auto simp: built_def split: sum.splits)

lemma built_Ret [simp]: "built (Ret (Inr x))"
  by (simp add: built_def)

lemma built_shared: "built (getSharedPolicyEvaluator libs cfg) \<longleftrightarrow> shared_cfg_ok libs cfg"
proof (cases "getSharedPolicyEvaluator libs cfg")
  case (Ret r)
  then show ?thesis using shared_cases [of libs cfg] by (cases r) (auto simp: built_def shared_cfg_ok_def)
next
  case Panic
  then show ?thesis using shared_cases(1) [of libs cfg] by (auto simp: built_def shared_cfg_ok_def)
qed

lemma built_and_evaluators: "built (and_evaluators libs cfgs) \<longleftrightarrow> list_all (shared_cfg_ok libs) cfgs"
  by (induction cfgs) (auto simp: built_bind built_shared [symmetric] simp flip: built_def)

lemma built_and: "built (getNewAndPolicy libs cfgs) \<longleftrightarrow> list_all (shared_cfg_ok libs) cfgs"
  by (simp add: getNewAndPolicy_def built_bind built_and_evaluators [symmetric]) (simp add: built_def)

lemma built_sub: "built (getCompositeSubPolicyEvaluator libs cfg) \<longleftrightarrow> sub_cfg_ok libs cfg"
  by (simp add: getCompositeSubPolicyEvaluator_def sub_cfg_ok_def built_and built_shared)

lemma built_params: "built (composite_params libs rates cfgs) \<longleftrightarrow> list_all (sub_cfg_ok libs) cfgs"
  by (induction cfgs) (auto simp: built_bind built_sub [symmetric] simp flip: built_def)

text \<open>
  C32: a policy is constructed exactly when its type is known, its status codes are, its expressions
  compile and its percentage is a number - of every subpolicy, and an and-policy or a composite
  inside an and-policy is of an unknown type.  Otherwise the processor does not start: an error, or a panic.
\<close>

theorem policy_built_iff:
  "(\<exists>ev. getPolicyEvaluator libs cfg = Ret (Inr ev)) \<longleftrightarrow> policy_cfg_ok libs cfg"
proof -
  have "built (getNewCompositePolicy libs config) \<longleftrightarrow> list_all (sub_cfg_ok libs) (cc_sub_policy config)" for config
    by (simp add: getNewCompositePolicy_def built_bind built_params [of _ "getRateAllocationMap config", symmetric])
      (simp add: built_def)
  then show ?thesis unfolding built_def [symmetric]
    by (simp add: getPolicyEvaluator_def policy_cfg_ok_def built_and built_shared)
qed

section \<open>Subpolicies without an allocation\<close>

lemma bind_sum_iff:
  "bind_outcome m (\<lambda>r. case r of Inl e \<Rightarrow> Ret (Inl e) | Inr x \<Rightarrow> f x) = Ret (Inr y) \<longleftrightarrow>
     (\<exists>x. m = Ret (Inr x) \<and> f x = Ret (Inr y))"
  by (cases m) (auto split: sum.splits)

lemma composite_params_unallocated:
  "composite_params libs rates cfgs = Ret (Inr ps) \<Longrightarrow> (\<And>cfg. cfg \<in> set cfgs \<Longrightarrow> rates (pc_name cfg) = None) \<Longrightarrow>
   list_all (\<lambda>(ev, alloc). alloc = 0) ps"
proof (induction cfgs arbitrary: ps)
  case (Cons cfg cfgs)
  have f0: "f_to_int 0 = 0"
    by (simp add: f_to_int_def f_mag_def mag_value_def f_nan_def f_inf_def inf_mag_def)
  have zero: "allocated_rate rates (pc_name cfg) = 0"
    using Cons.prems(2) [of cfg] by (simp add: allocated_rate_def f0)
  from Cons.prems(1) obtain ev qs where "composite_params libs rates cfgs = Ret (Inr qs)"
    and ps: "ps = (ev, 0) # qs"
    unfolding composite_params.simps bind_sum_iff zero by blast
  from Cons.IH [OF this(1)] Cons.prems(2) show ?case unfolding ps by simp
qed simp

lemma unallocated_loop:
  assumes "0 < sint (td_span_count tr)" and "list_all (\<lambda>(ev, alloc, sampled). alloc = 0 \<and> sampled = 0) subs"
  shows "fst (composite_loop libs clock traceID tr maxTotal i subs) \<noteq> Inr Sampled"
  using assms(2)
proof (induction subs arbitrary: i)
  case (Cons sub subs)
  obtain ev where sub: "sub = (ev, 0, 0)" using Cons.prems by (cases sub) auto
  have "\<not> td_span_count tr \<le>s 0" using assms(1) by (simp add: word_sle_eq)
  with sub Cons.prems Cons.IH [of "Suc i"] show ?case
    by (cases "evaluate libs (sub_clock i clock) traceID tr ev";
        cases "composite_loop libs clock traceID tr maxTotal (Suc i) subs")
      (auto simp: Let_def split: prod.splits sum.splits if_splits)
qed simp

text \<open>A composite policy with no allocation for the names of its subpolicies samples no trace.\<close>

lemma unallocated_samples_nothing:
  assumes "getNewCompositePolicy libs config = Ret (Inr ev)" and "0 < sint (td_span_count tr)"
    and "\<And>cfg. cfg \<in> set (cc_sub_policy config) \<Longrightarrow> getRateAllocationMap config (pc_name cfg) = None"
  shows "fst (evaluate libs clock traceID tr ev) \<noteq> Inr Sampled"
proof -
  obtain ps where ps: "composite_params libs (getRateAllocationMap config) (cc_sub_policy config) = Ret (Inr ps)"
    and ev: "ev = NewComposite (cc_max_total_spans_per_second config) ps"
    using assms(1) by (auto simp: getNewCompositePolicy_def bind_sum_iff)
  let ?subs = "map (\<lambda>(ev, maxSPS). (ev, maxSPS, 0 :: i64)) ps"
  have "list_all (\<lambda>(ev, alloc, sampled). alloc = 0 \<and> sampled = 0) ?subs"
    using composite_params_unallocated [OF ps assms(3)] by (auto simp: list_all_iff)
  moreover have "reset_counters ?subs = ?subs" by (simp add: reset_counters_def comp_def case_prod_unfold)
  ultimately have "fst (composite_loop libs clock traceID tr (cc_max_total_spans_per_second config) 0 ?subs) \<noteq> Inr Sampled"
    using unallocated_loop [OF assms(2)] by blast
  with \<open>reset_counters ?subs = ?subs\<close> show ?thesis
    by (auto simp: ev NewComposite_def Let_def split: prod.splits)
qed


end
