(* ===== verification/TailSampling.thy ===== *)
theory TailSampling
  imports TailConfig
begin

text \<open>
  \<open>processor/tailsamplingprocessor/processor.go\<close>: the tail sampling processor.  A call of
  \<open>ConsumeTraces\<close> runs on the caller's goroutine, the decisions on the ticker's; they
  meet in the map of traces and in the objects it points to.  The state holds these objects in a
  store, so that a goroutine keeps the object it has looked up when the map forgets it, and the
  steps of the two are separate operations that interleave freely.  Metrics, logging and the
  capacity of the batcher's id channel are left out.
\<close>

section \<open>State\<close>

text \<open>
  \<open>tp_in_flight\<close> are the groups of spans whose goroutines are between the lookup of the trace and the
  locked section that stores them; \<open>tp_deciding\<close> is the rest of the batch the ticker works on,
  and \<open>tp_judged\<close> the trace it has judged and not yet taken, with the matching policy.
  \<open>tp_sent\<close> is what the next consumer was given, with the policy whose context came along.
\<close>

record 'c tail_state =
  tp_policies :: "(string \<times> 'c evaluator) list"
  tp_store :: "trace_data list"
  tp_id_to_trace :: "trace_id \<rightharpoonup> nat"
  tp_num_traces :: u64
  tp_batcher :: batcher
  tp_delete :: "trace_id list" \<comment> \<open>\<open>deleteChan\<close>\<close>
  tp_capacity :: nat \<comment> \<open>of \<open>deleteChan\<close>\<close>
  tp_ticking :: bool
  tp_in_flight :: "(nat \<times> ot_span ot_resource \<times> ot_span list) list"
  tp_deciding :: "trace_id list"
  tp_judged :: "(nat \<times> decision \<times> string option) option"
  tp_sent :: "(string option \<times> traces) list"

section \<open>Construction\<close>

record tail_cfg =
  tc_decision_wait :: i64 \<comment> \<open>nanoseconds\<close>
  tc_num_traces :: u64
  tc_expected_new_traces_per_sec :: u64
  tc_policies :: "policy_cfg list"

definition createDefaultConfig :: tail_cfg where
  "createDefaultConfig =
     \<lparr>tc_decision_wait = 30 * 1000000000, tc_num_traces = 50000, tc_expected_new_traces_per_sec = 0, tc_policies = []\<rparr>"

datatype tail_error = NilNextConsumer | BatcherError string | TagError | PolicyError policy_error

text \<open>\<open>Duration.Seconds\<close>: the whole seconds and the rest, both truncated towards zero.\<close>

definition duration_seconds :: "i64 \<Rightarrow> float64" where
  "duration_seconds d =
     (let n = sint d; sec = sgn n * (\<bar>n\<bar> div 1000000000); nsec = sgn n * (\<bar>n\<bar> mod 1000000000)
      in f_add (f_of_int sec) (f_div (f_of_int nsec) (f_of_int 1000000000)))"

text \<open>\<open>make\<close> of a channel panics when its buffer cannot be addressed (48 bits on amd64).\<close>

definition makechan_ok :: "u64 \<Rightarrow> int \<Rightarrow> bool" where
  "makechan_ok n elem_size \<longleftrightarrow> uint n * elem_size \<le> 2 ^ 48 - 96"

text \<open>
  \<open>tag_ok\<close> is the check of \<open>opencensus\<close>'s \<open>tag.New\<close> on the value of a tag.
\<close>

fun new_policies :: "'c sampling_libs \<Rightarrow> (string \<Rightarrow> bool) \<Rightarrow> policy_cfg list \<Rightarrow>
    (tail_error + (string \<times> 'c evaluator) list) outcome" where
  "new_policies libs tag_ok [] = Ret (Inr [])"
| "new_policies libs tag_ok (cfg # cfgs) =
     (if \<not> tag_ok (pc_name cfg) then Ret (Inl TagError)
      else bind_outcome (getPolicyEvaluator libs cfg) (\<lambda>r. case r of
             Inl e \<Rightarrow> Ret (Inl (PolicyError e))
           | Inr ev \<Rightarrow> bind_outcome (new_policies libs tag_ok cfgs) (\<lambda>rs. case rs of
               Inl e \<Rightarrow> Ret (Inl e)
             | Inr ps \<Rightarrow> Ret (Inr ((pc_name cfg, ev) # ps)))))"

definition newTracesProcessor :: "'c sampling_libs \<Rightarrow> (string \<Rightarrow> bool) \<Rightarrow> nat \<Rightarrow> bool \<Rightarrow> tail_cfg \<Rightarrow>
    (tail_error + 'c tail_state) outcome" where
  "newTracesProcessor libs tag_ok num_cpu next_consumer cfg =
     (if \<not> next_consumer then Ret (Inl NilNextConsumer)
      else let num_batches = (of_int (f_to_int (duration_seconds (tc_decision_wait cfg))) :: u64)
           in if 1 \<le> num_batches \<and> \<not> makechan_ok num_batches 24 then Panic
              else case new_batcher (unat num_batches) (2 * num_cpu) of
                Inl e \<Rightarrow> Ret (Inl (BatcherError e))
              | Inr b \<Rightarrow> bind_outcome (new_policies libs tag_ok (tc_policies cfg)) (\<lambda>r. case r of
                  Inl e \<Rightarrow> Ret (Inl e)
                | Inr ps \<Rightarrow>
                    if \<not> makechan_ok (tc_num_traces cfg) 16 then Panic
                    else Ret (Inr \<lparr>tp_policies = ps, tp_store = [], tp_id_to_trace = Map.empty, tp_num_traces = 0,
                           tp_batcher = b, tp_delete = [], tp_capacity = unat (tc_num_traces cfg), tp_ticking = False,
                           tp_in_flight = [], tp_deciding = [], tp_judged = None, tp_sent = []\<rparr>)))"

section \<open>Arriving spans\<close>

definition appendToTraces :: "traces \<Rightarrow> ot_span ot_resource \<Rightarrow> ot_span list \<Rightarrow> traces" where
  "appendToTraces dest rss spans =
     dest @ [empty_resource\<lparr>res_attrs := res_attrs rss, res_scopes := [empty_scope\<lparr>scope_items := spans\<rparr>]\<rparr>]"

definition new_trace_data :: "nat \<Rightarrow> nat \<Rightarrow> trace_data" where
  "new_trace_data lenPolicies lenSpans =
     \<lparr>td_decisions = replicate lenPolicies Pending, td_span_count = of_nat lenSpans, td_received = [],
      td_final = Unspecified\<rparr>"

definition dropTrace :: "trace_id \<Rightarrow> 'c tail_state \<Rightarrow> 'c tail_state" where
  "dropTrace k st =
     (case tp_id_to_trace st k of
        Some a \<Rightarrow> st\<lparr>tp_id_to_trace := (tp_id_to_trace st)(k := None), tp_num_traces := tp_num_traces st - 1\<rparr>
      | None \<Rightarrow> st)"

text \<open>
  The loop that sends the new id on the delete channel: while the channel is full, the oldest id is
  received and its trace dropped.  On a channel without capacity it waits for ever (\<open>None\<close>).
\<close>

fun delete_loop :: "trace_id \<Rightarrow> trace_id list \<Rightarrow> 'c tail_state \<Rightarrow> 'c tail_state option" where
  "delete_loop k [] st = (if 0 < tp_capacity st then Some (st\<lparr>tp_delete := [k]\<rparr>) else None)"
| "delete_loop k (k1 # ks) st =
     (if length (k1 # ks) < tp_capacity st then Some (st\<lparr>tp_delete := k1 # ks @ [k]\<rparr>)
      else delete_loop k ks (dropTrace k1 st))"

text \<open>
  The part of \<open>processTraces\<close> for one trace id before the locked section, as one step: the states between
  storing the trace, counting it and the end of the loop on the delete channel, in which the map
  and the counter are ahead of the channel, are not seen by other goroutines here.
\<close>

definition arrive :: "trace_id \<Rightarrow> ot_span ot_resource \<Rightarrow> ot_span list \<Rightarrow> 'c tail_state \<Rightarrow> 'c tail_state outcome option" where
  "arrive k rss spans st =
     (case tp_id_to_trace st k of
        Some a \<Rightarrow>
          Some (Ret (st\<lparr>tp_store := (tp_store st)[a := (tp_store st ! a)
                           \<lparr>td_span_count := td_span_count (tp_store st ! a) + of_nat (length spans)\<rparr>],
                         tp_in_flight := tp_in_flight st @ [(a, rss, spans)]\<rparr>))
      | None \<Rightarrow>
          (case add_to_current_batch k (tp_batcher st) of
             Panic \<Rightarrow> Some Panic
           | Ret b \<Rightarrow>
               let a = length (tp_store st);
                   st1 = st\<lparr>tp_store := tp_store st @ [new_trace_data (length (tp_policies st)) (length spans)],
                            tp_id_to_trace := (tp_id_to_trace st)(k \<mapsto> a), tp_batcher := b,
                            tp_num_traces := tp_num_traces st + 1\<rparr>
               in case delete_loop k (tp_delete st) st1 of
                    None \<Rightarrow> None
                  | Some st2 \<Rightarrow> Some (Ret (st2\<lparr>tp_in_flight := tp_in_flight st2 @ [(a, rss, spans)]\<rparr>))))"

text \<open>The locked section: the final decision of the trace tells what becomes of the spans.\<close>

definition append_spans :: "nat \<times> ot_span ot_resource \<times> ot_span list \<Rightarrow> 'c tail_state \<Rightarrow> 'c tail_state" where
  "append_spans = (\<lambda>(a, rss, spans) st.
     let td = tp_store st ! a
     in if td_final td = Unspecified then
          st\<lparr>tp_store := (tp_store st)[a := td\<lparr>td_received := appendToTraces (td_received td) rss spans\<rparr>]\<rparr>
        else if td_final td = Sampled then st\<lparr>tp_sent := tp_sent st @ [(None, appendToTraces [] rss spans)]\<rparr>
        else st)"

definition in_flight_done :: "nat \<Rightarrow> 'c tail_state \<Rightarrow> 'c tail_state option" where
  "in_flight_done i st =
     (if i < length (tp_in_flight st)
      then Some (append_spans (tp_in_flight st ! i)
        (st\<lparr>tp_in_flight := take i (tp_in_flight st) @ drop (Suc i) (tp_in_flight st)\<rparr>))
      else None)"

section \<open>Decisions\<close>

definition record_decision ::
  "go_error + decision \<Rightarrow> nat \<Rightarrow> (decision \<Rightarrow> bool) \<times> decision list \<Rightarrow> (decision \<Rightarrow> bool) \<times> decision list" where
  "record_decision r i = (\<lambda>(seen, ds).
     case r of
       Inl e \<Rightarrow> (seen(DecisionError := True), ds[i := NotSampled])
     | Inr d \<Rightarrow>
         if d = Sampled \<or> d = NotSampled then (seen(d := True), ds[i := d])
         else if d = InvertSampled then (seen(d := True), ds[i := Sampled])
         else if d = InvertNotSampled then (seen(d := True), ds[i := NotSampled])
         else (seen, ds))"

fun judge_loop :: "'c sampling_libs \<Rightarrow> clock \<Rightarrow> trace_id \<Rightarrow> trace_data \<Rightarrow> nat \<Rightarrow> (string \<times> 'c evaluator) list \<Rightarrow>
    (decision \<Rightarrow> bool) \<times> decision list \<Rightarrow> ((decision \<Rightarrow> bool) \<times> decision list) \<times> (string \<times> 'c evaluator) list" where
  "judge_loop libs clock k tr i [] acc = (acc, [])"
| "judge_loop libs clock k tr i ((name, ev) # ps) acc =
     (case evaluate libs (sub_clock i clock) k tr ev of
        (r, ev1) \<Rightarrow> (case judge_loop libs clock k tr (Suc i) ps (record_decision r i acc) of
           (acc1, ps1) \<Rightarrow> (acc1, (name, ev1) # ps1)))"

definition final_decision :: "(decision \<Rightarrow> bool) \<Rightarrow> decision" where
  "final_decision seen =
     (if seen InvertNotSampled then NotSampled
      else if seen Sampled then Sampled
      else if seen InvertSampled \<and> \<not> seen NotSampled then Sampled
      else NotSampled)"

text \<open>The decision, the matching policy, the decisions of the policies and the policies afterwards.\<close>

definition makeDecision :: "'c sampling_libs \<Rightarrow> clock \<Rightarrow> trace_id \<Rightarrow> trace_data \<Rightarrow> (string \<times> 'c evaluator) list \<Rightarrow>
    decision \<times> string option \<times> decision list \<times> (string \<times> 'c evaluator) list" where
  "makeDecision libs clock k tr policies =
     (case judge_loop libs clock k tr 0 policies (\<lambda>d. False, td_decisions tr) of
        ((seen, ds), ps) \<Rightarrow>
          let final = final_decision seen;
              matching = (if final = Sampled then (case policies of p # _ \<Rightarrow> Some (fst p) | [] \<Rightarrow> None) else None)
          in (final, matching, ds, ps))"

text \<open>
  \<open>samplingPolicyOnTick\<close>, for the next id of the batch: the lookup and the judgement, then the locked section
  that takes the spans, and the hand-over.
\<close>

definition tick :: "'c tail_state \<Rightarrow> 'c tail_state option" where
  "tick st =
     (if \<not> tp_ticking st \<or> tp_deciding st \<noteq> [] \<or> tp_judged st \<noteq> None then None
      else case close_current_and_take_first_batch (tp_batcher st) of
        None \<Rightarrow> None
      | Some ((batch, mr), b) \<Rightarrow> Some (st\<lparr>tp_batcher := b, tp_deciding := batch\<rparr>))"

definition judge :: "'c sampling_libs \<Rightarrow> clock \<Rightarrow> 'c tail_state \<Rightarrow> 'c tail_state option" where
  "judge libs clock st =
     (if tp_judged st \<noteq> None then None
      else case tp_deciding st of
        [] \<Rightarrow> None
      | k # ks \<Rightarrow>
          (case tp_id_to_trace st k of
             None \<Rightarrow> Some (st\<lparr>tp_deciding := ks\<rparr>)
           | Some a \<Rightarrow>
               (case makeDecision libs clock k (tp_store st ! a) (tp_policies st) of
                  (final, matching, ds, ps) \<Rightarrow>
                    Some (st\<lparr>tp_deciding := ks, tp_policies := ps, tp_judged := Some (a, final, matching),
                      tp_store := (tp_store st)[a := (tp_store st ! a)\<lparr>td_decisions := ds\<rparr>]\<rparr>))))"

definition take_spans :: "'c tail_state \<Rightarrow> 'c tail_state option" where
  "take_spans st =
     (case tp_judged st of
        None \<Rightarrow> None
      | Some (a, final, matching) \<Rightarrow>
          (let td = tp_store st ! a;
               st1 = st\<lparr>tp_judged := None, tp_store := (tp_store st)[a := td\<lparr>td_final := final, td_received := []\<rparr>]\<rparr>
           in Some (if final = Sampled then st1\<lparr>tp_sent := tp_sent st @ [(matching, td_received td)]\<rparr> else st1)))"

section \<open>Operations and runs\<close>

text \<open>
  \<open>Shutdown\<close> stops the batcher, then the ticker; \<open>Pump\<close> is the batcher's own goroutine.
\<close>

datatype tail_op =
    Arrive trace_id "ot_span ot_resource" "ot_span list"
  | Append nat
  | Pump
  | StartTicker
  | Tick
  | Judge clock
  | Take
  | StopBatcher
  | StopTicker

text \<open>\<open>None\<close> when the operation cannot go on in the state.\<close>

definition exec_op :: "'c sampling_libs \<Rightarrow> tail_op \<Rightarrow> 'c tail_state \<Rightarrow> 'c tail_state outcome option" where
  "exec_op libs op st =
     (case op of
        Arrive k rss spans \<Rightarrow> arrive k rss spans st
      | Append i \<Rightarrow> map_option Ret (in_flight_done i st)
      | Pump \<Rightarrow> map_option (\<lambda>b. Ret (st\<lparr>tp_batcher := b\<rparr>)) (bt_pump (tp_batcher st))
      | StartTicker \<Rightarrow> Some (Ret (st\<lparr>tp_ticking := True\<rparr>))
      | Tick \<Rightarrow> map_option Ret (tick st)
      | Judge clock \<Rightarrow> map_option Ret (judge libs clock st)
      | Take \<Rightarrow> map_option Ret (take_spans st)
      | StopBatcher \<Rightarrow> Some (bind_outcome (bt_stop (tp_batcher st)) (\<lambda>b. Ret (st\<lparr>tp_batcher := b\<rparr>)))
      | StopTicker \<Rightarrow> Some (Ret (st\<lparr>tp_ticking := False\<rparr>)))"

inductive reaches :: "'c sampling_libs \<Rightarrow> 'c tail_state \<Rightarrow> tail_op list \<Rightarrow> 'c tail_state \<Rightarrow> bool"
  for libs :: "'c sampling_libs" and st0 :: "'c tail_state" where
  reaches_refl: "reaches libs st0 [] st0"
| reaches_step: "reaches libs st0 ops st \<Longrightarrow> exec_op libs op st = Some (Ret st') \<Longrightarrow> reaches libs st0 (ops @ [op]) st'"

fun tail_run :: "'c sampling_libs \<Rightarrow> tail_op list \<Rightarrow> 'c tail_state \<Rightarrow> 'c tail_state outcome option" where
  "tail_run libs [] st = Some (Ret st)"
| "tail_run libs (op # ops) st =
     (case exec_op libs op st of
        Some (Ret st1) \<Rightarrow> tail_run libs ops st1
      | r \<Rightarrow> r)"

section \<open>ConsumeTraces\<close>

text \<open>
  The spans of a resource by trace id.  Ranging over the Go map visits the groups in any order:
  \<open>visit\<close> gives it.
\<close>

definition groupSpansByTraceKey :: "ot_span ot_resource \<Rightarrow> (trace_id \<times> ot_span list) list" where
  "groupSpansByTraceKey rss = group_by os_trace_id (\<lambda>s. s) (concat (map scope_items (res_scopes rss))) []"

fun process_groups :: "ot_span ot_resource \<Rightarrow> (trace_id \<times> ot_span list) list \<Rightarrow> 'c tail_state \<Rightarrow> 'c tail_state outcome option" where
  "process_groups rss [] st = Some (Ret st)"
| "process_groups rss ((k, spans) # gs) st =
     (case arrive k rss spans st of
        Some (Ret st1) \<Rightarrow>
          (case in_flight_done (length (tp_in_flight st1) - 1) st1 of
             Some st2 \<Rightarrow> process_groups rss gs st2
           | None \<Rightarrow> None)
      | r \<Rightarrow> r)"

definition processTraces :: "((trace_id \<times> ot_span list) list \<Rightarrow> (trace_id \<times> ot_span list) list) \<Rightarrow>
    ot_span ot_resource \<Rightarrow> 'c tail_state \<Rightarrow> 'c tail_state outcome option" where
  "processTraces visit rss st = process_groups rss (visit (groupSpansByTraceKey rss)) st"

fun ConsumeTraces :: "((trace_id \<times> ot_span list) list \<Rightarrow> (trace_id \<times> ot_span list) list) \<Rightarrow>
    traces \<Rightarrow> 'c tail_state \<Rightarrow> 'c tail_state outcome option" where
  "ConsumeTraces visit [] st = Some (Ret st)"
| "ConsumeTraces visit (rss # td) st =
     (case processTraces visit rss st of
        Some (Ret st1) \<Rightarrow> ConsumeTraces visit td st1
      | r \<Rightarrow> r)"

section \<open>What the steps leave alone\<close>

lemma dropTrace_frame:
  "\<exists>m n. dropTrace k st = st\<lparr>tp_id_to_trace := m, tp_num_traces := n\<rparr>"
proof (cases "tp_id_to_trace st k")
  case None
  then have "dropTrace k st = st\<lparr>tp_id_to_trace := tp_id_to_trace st, tp_num_traces := tp_num_traces st\<rparr>"
    by (simp add: dropTrace_def)
  then show ?thesis by blast
qed (auto simp: dropTrace_def)

lemma delete_loop_frame:
  "delete_loop k q st = Some st' \<Longrightarrow> \<exists>m n q'. st' = st\<lparr>tp_id_to_trace := m, tp_num_traces := n, tp_delete := q'\<rparr>"
proof (induction k q st rule: delete_loop.induct)
  case (1 k st)
  then have "st' = st\<lparr>tp_id_to_trace := tp_id_to_trace st, tp_num_traces := tp_num_traces st, tp_delete := [k]\<rparr>"
    by (auto split: if_splits)
  then show ?case by blast
next
  case (2 k k1 ks st)
  show ?case
  proof (cases "length (k1 # ks) < tp_capacity st")
    case True
    with 2(2) have "st' = st\<lparr>tp_id_to_trace := tp_id_to_trace st, tp_num_traces := tp_num_traces st, tp_delete := k1 # ks @ [k]\<rparr>"
      by auto
    then show ?thesis by blast
  next
    case False
    obtain m n where d: "dropTrace k1 st = st\<lparr>tp_id_to_trace := m, tp_num_traces := n\<rparr>" using dropTrace_frame by blast
    from False 2 obtain m' n' q' where "st' = dropTrace k1 st\<lparr>tp_id_to_trace := m', tp_num_traces := n', tp_delete := q'\<rparr>"
      by auto
    then have "st' = st\<lparr>tp_id_to_trace := m', tp_num_traces := n', tp_delete := q'\<rparr>" by (simp add: d)
    then show ?thesis by blast
  qed
qed

text \<open>The queue of ids is the domain of the map: what the loop drops it drops from both.\<close>

lemma delete_loop_map:
  assumes "delete_loop k q st = Some st'" and "distinct (k # q)" and "set (k # q) = dom (tp_id_to_trace st)"
    and "tp_num_traces st = of_nat (Suc (length q))" and "length q \<le> tp_capacity st"
  shows "distinct (tp_delete st') \<and> set (tp_delete st') = dom (tp_id_to_trace st') \<and>
    length (tp_delete st') \<le> tp_capacity st' \<and> tp_num_traces st' = of_nat (length (tp_delete st')) \<and>
    tp_id_to_trace st' \<subseteq>\<^sub>m tp_id_to_trace st \<and> tp_id_to_trace st' k = tp_id_to_trace st k \<and>
    (length q < tp_capacity st \<longrightarrow> tp_id_to_trace st' = tp_id_to_trace st \<and> tp_delete st' = q @ [k])"
  using assms
proof (induction k q st rule: delete_loop.induct)
  case (1 k st)
  then show ?case by (auto split: if_splits)
next
  case (2 k k1 ks st)
  show ?case
  proof (cases "length (k1 # ks) < tp_capacity st")
    case True
    with 2(2) have st': "st' = st\<lparr>tp_delete := k1 # ks @ [k]\<rparr>" by simp
    have "distinct (k1 # ks @ [k])" using 2(3) by auto
    moreover have "set (k1 # ks @ [k]) = dom (tp_id_to_trace st)" unfolding 2(4) [symmetric] by auto
    ultimately show ?thesis using True 2(5) unfolding st' by simp
  next
    case False
    then have rec: "delete_loop k ks (dropTrace k1 st) = Some st'" using 2(2) by simp
    obtain a where a: "tp_id_to_trace st k1 = Some a" using 2(4) by auto
    have d: "dropTrace k1 st = st\<lparr>tp_id_to_trace := (tp_id_to_trace st)(k1 := None), tp_num_traces := tp_num_traces st - 1\<rparr>"
      using a by (simp add: dropTrace_def)
    have dm: "tp_id_to_trace (dropTrace k1 st) = (tp_id_to_trace st)(k1 := None)" by (simp add: d)
    have k: "distinct (k # ks)" "k \<noteq> k1" using 2(3) by auto
    have "set (k # ks) = set (k # k1 # ks) - {k1}" using 2(3) by auto
    then have "set (k # ks) = dom (tp_id_to_trace (dropTrace k1 st))"
      by (simp only: dm 2(4) dom_fun_upd simp_thms if_True)
    moreover have "tp_num_traces (dropTrace k1 st) = of_nat (Suc (length ks))" using 2(5) by (simp add: d)
    moreover have "length ks \<le> tp_capacity (dropTrace k1 st)" using 2(6) by (simp add: d)
    ultimately have ih: "distinct (tp_delete st') \<and> set (tp_delete st') = dom (tp_id_to_trace st') \<and>
      length (tp_delete st') \<le> tp_capacity st' \<and> tp_num_traces st' = of_nat (length (tp_delete st')) \<and>
      tp_id_to_trace st' \<subseteq>\<^sub>m tp_id_to_trace (dropTrace k1 st) \<and>
      tp_id_to_trace st' k = tp_id_to_trace (dropTrace k1 st) k"
      using 2(1) [OF False rec k(1)] by blast
    then have le: "tp_id_to_trace st' \<subseteq>\<^sub>m (tp_id_to_trace st)(k1 := None)"
      and at: "tp_id_to_trace st' k = tp_id_to_trace (dropTrace k1 st) k" unfolding dm by blast+
    have "tp_id_to_trace st' \<subseteq>\<^sub>m tp_id_to_trace st" by (rule map_le_trans [OF le upd_None_map_le])
    moreover have "tp_id_to_trace st' k = tp_id_to_trace st k" using at k(2) unfolding dm by simp
    moreover have "\<not> length (k1 # ks) < tp_capacity st" using False by simp
    ultimately show ?thesis using ih by blast
  qed
qed

text \<open>The two ways a lookup ends.\<close>

lemma arrive_cases:
  assumes "arrive k rss spans st = Some (Ret st')"
  obtains (known) a where "tp_id_to_trace st k = Some a"
    and "st' = st\<lparr>tp_store := (tp_store st)[a := (tp_store st ! a)
            \<lparr>td_span_count := td_span_count (tp_store st ! a) + of_nat (length spans)\<rparr>],
          tp_in_flight := tp_in_flight st @ [(a, rss, spans)]\<rparr>"
  | (fresh) b m n q where "tp_id_to_trace st k = None" and "add_to_current_batch k (tp_batcher st) = Ret b"
    and "delete_loop k (tp_delete st) (st\<lparr>tp_store := tp_store st @ [new_trace_data (length (tp_policies st)) (length spans)],
            tp_id_to_trace := (tp_id_to_trace st)(k \<mapsto> length (tp_store st)), tp_batcher := b,
            tp_num_traces := tp_num_traces st + 1\<rparr>) =
          Some (st\<lparr>tp_store := tp_store st @ [new_trace_data (length (tp_policies st)) (length spans)],
            tp_id_to_trace := m, tp_num_traces := n, tp_batcher := b, tp_delete := q\<rparr>)"
    and "st' = st\<lparr>tp_store := tp_store st @ [new_trace_data (length (tp_policies st)) (length spans)],
          tp_id_to_trace := m, tp_num_traces := n, tp_batcher := b, tp_delete := q,
          tp_in_flight := tp_in_flight st @ [(length (tp_store st), rss, spans)]\<rparr>"
proof (cases "tp_id_to_trace st k")
  case (Some a)
  with assms show ?thesis by (intro known) (auto simp: arrive_def)
next
  case None
  let ?st1 = "\<lambda>b. st\<lparr>tp_store := tp_store st @ [new_trace_data (length (tp_policies st)) (length spans)],
            tp_id_to_trace := (tp_id_to_trace st)(k \<mapsto> length (tp_store st)), tp_batcher := b,
            tp_num_traces := tp_num_traces st + 1\<rparr>"
  from None assms obtain b st2 where b: "add_to_current_batch k (tp_batcher st) = Ret b"
    and st2: "delete_loop k (tp_delete st) (?st1 b) = Some st2"
    and st': "st' = st2\<lparr>tp_in_flight := tp_in_flight st2 @ [(length (tp_store st), rss, spans)]\<rparr>"
    by (auto simp: arrive_def Let_def split: outcome.splits option.splits)
  from delete_loop_frame [OF st2] obtain m n q
    where e: "st2 = (?st1 b)\<lparr>tp_id_to_trace := m, tp_num_traces := n, tp_delete := q\<rparr>" by blast
  show ?thesis by (rule fresh [OF None b, where m = m and n = n and q = q]) (use st2 st' e in simp_all)
qed

lemma judge_cases:
  assumes "judge libs clock st = Some st'"
  obtains (gone) k ks where "tp_judged st = None" and "tp_deciding st = k # ks" and "tp_id_to_trace st k = None"
    and "st' = st\<lparr>tp_deciding := ks\<rparr>"
  | (judged) k ks a final matching ds ps where "tp_judged st = None" and "tp_deciding st = k # ks"
    and "tp_id_to_trace st k = Some a"
    and "makeDecision libs clock k (tp_store st ! a) (tp_policies st) = (final, matching, ds, ps)"
    and "st' = st\<lparr>tp_deciding := ks, tp_policies := ps, tp_judged := Some (a, final, matching),
          tp_store := (tp_store st)[a := (tp_store st ! a)\<lparr>td_decisions := ds\<rparr>]\<rparr>"
proof -
  from assms have j: "tp_judged st = None" unfolding judge_def by (cases "tp_judged st") simp_all
  from assms j obtain k ks where d: "tp_deciding st = k # ks" by (cases "tp_deciding st") (auto simp: judge_def)
  show ?thesis
  proof (cases "tp_id_to_trace st k")
    case None
    with assms j d show ?thesis by (intro gone) (auto simp: judge_def)
  next
    case (Some a)
    obtain final matching ds ps where m: "makeDecision libs clock k (tp_store st ! a) (tp_policies st) = (final, matching, ds, ps)"
      by (metis prod_cases4)
    with assms j d Some show ?thesis by (intro judged [OF j d Some m]) (auto simp: judge_def)
  qed
qed

lemma take_cases:
  assumes "take_spans st = Some st'"
  obtains a final matching where "tp_judged st = Some (a, final, matching)"
    and "st' = (let st1 = st\<lparr>tp_judged := None,
            tp_store := (tp_store st)[a := (tp_store st ! a)\<lparr>td_final := final, td_received := []\<rparr>]\<rparr>
      in if final = Sampled then st1\<lparr>tp_sent := tp_sent st @ [(matching, td_received (tp_store st ! a))]\<rparr> else st1)"
proof -
  from assms obtain a final matching where j: "tp_judged st = Some (a, final, matching)"
    by (auto simp: take_spans_def split: option.splits)
  with assms show ?thesis by (intro that [OF j]) (auto simp: take_spans_def Let_def)
qed

lemma append_cases:
  assumes "in_flight_done i st = Some st'"
  obtains a rss spans where "i < length (tp_in_flight st)" and "tp_in_flight st ! i = (a, rss, spans)"
    and "st' = append_spans (a, rss, spans)
          (st\<lparr>tp_in_flight := take i (tp_in_flight st) @ drop (Suc i) (tp_in_flight st)\<rparr>)"
proof -
  obtain a rss spans where x: "tp_in_flight st ! i = (a, rss, spans)" by (cases "tp_in_flight st ! i")
  have i: "i < length (tp_in_flight st)" using assms by (simp add: in_flight_done_def split: if_splits)
  show ?thesis by (rule that [OF i x]) (use assms i x in \<open>auto simp: in_flight_done_def\<close>)
qed

section \<open>One judgement\<close>

definition plain :: "decision \<Rightarrow> decision" where
  "plain d = (if d = Sampled \<or> d = InvertSampled then Sampled else NotSampled)"

text \<open>The answers of the policies, in order.\<close>

fun policy_answers :: "'c sampling_libs \<Rightarrow> clock \<Rightarrow> trace_id \<Rightarrow> trace_data \<Rightarrow> nat \<Rightarrow> (string \<times> 'c evaluator) list \<Rightarrow>
    decision list" where
  "policy_answers libs clock k tr i [] = []"
| "policy_answers libs clock k tr i ((name, ev) # ps) =
     (case fst (evaluate libs (sub_clock i clock) k tr ev) of Inr d \<Rightarrow> d | Inl e \<Rightarrow> DecisionError) #
     policy_answers libs clock k tr (Suc i) ps"

lemma record_answer:
  "d \<in> {Sampled, NotSampled, InvertSampled, InvertNotSampled} \<Longrightarrow>
   record_decision (Inr d) i (seen, ds) = (seen(d := True), ds[i := plain d])"
  by (auto simp: record_decision_def plain_def)

lemma take_update_append: "i < length ds \<Longrightarrow> take (Suc i) (ds[i := x]) = take i ds @ [x]"
  by (simp add: take_Suc_conv_app_nth)

lemma judge_loop_answers:
  assumes "length ds = i + length ps" and "judge_loop libs clock k tr i ps (seen, ds) = (acc, ps')"
  shows "fst acc = (\<lambda>d. seen d \<or> d \<in> set (policy_answers libs clock k tr i ps)) \<and>
    snd acc = take i ds @ map plain (policy_answers libs clock k tr i ps) \<and>
    map fst ps' = map fst ps \<and> map (erase \<circ> snd) ps' = map (erase \<circ> snd) ps"
  using assms
proof (induction ps arbitrary: i seen ds acc ps')
  case Nil
  then show ?case by auto
next
  case (Cons p ps)
  obtain name ev where p: "p = (name, ev)" by fastforce
  obtain d ev1 where e: "evaluate libs (sub_clock i clock) k tr ev = (Inr d, ev1)"
    and d: "d \<in> {Sampled, NotSampled, InvertSampled, InvertNotSampled}"
    using evaluate_decisions(1) [of libs "sub_clock i clock" k tr ev]
    by (cases "evaluate libs (sub_clock i clock) k tr ev") auto
  have er: "erase ev1 = erase ev" using evaluate_erase(1) [of libs "sub_clock i clock" k tr ev] e by simp
  obtain acc1 ps1 where l: "judge_loop libs clock k tr (Suc i) ps (seen(d := True), ds[i := plain d]) = (acc1, ps1)"
    by fastforce
  have len: "length (ds[i := plain d]) = Suc i + length ps" and i: "i < length ds" using Cons.prems(1) by simp_all
  have "acc = acc1" "ps' = (name, ev1) # ps1"
    using Cons.prems(2) p e l record_answer [OF d, of i seen ds] by auto
  with Cons.IH [OF len l] p e er take_update_append [OF i] show ?case by (auto simp: fun_eq_iff)
qed

lemma policy_answers_kinds:
  "set (policy_answers libs clock k tr i ps) \<subseteq> {Sampled, NotSampled, InvertSampled, InvertNotSampled}"
proof (induction ps arbitrary: i)
  case (Cons p ps)
  obtain name ev where p: "p = (name, ev)" by fastforce
  with Cons.IH [of "Suc i"] evaluate_decisions(1) [of libs "sub_clock i clock" k tr ev] show ?case by auto
qed simp

text \<open>
  C28: the decision on a trace: an inverted refusal by any policy wins; else one plain acceptance
  is enough; else an inverted acceptance, unless some policy refused.  Each policy's answer is
  recorded at its place.  The spans go out with the context of the first policy of the configuration,
  whichever accepted.
\<close>

theorem decision_precedence:
  assumes "length (td_decisions tr) = length policies"
    and "makeDecision libs clock k tr policies = (final, matching, ds, ps)"
  shows "(let R = set (policy_answers libs clock k tr 0 policies)
      in final = (if InvertNotSampled \<in> R then NotSampled else if Sampled \<in> R then Sampled
                  else if InvertSampled \<in> R \<and> NotSampled \<notin> R then Sampled else NotSampled)) \<and>
    ds = map plain (policy_answers libs clock k tr 0 policies) \<and>
    matching = (if final = Sampled then Some (fst (hd policies)) else None)"
proof -
  obtain acc ps1 where l: "judge_loop libs clock k tr 0 policies (\<lambda>d. False, td_decisions tr) = (acc, ps1)" by fastforce
  have len: "length (td_decisions tr) = 0 + length policies" using assms(1) by simp
  note a = judge_loop_answers [OF len l]
  have "policies \<noteq> []" if "set (policy_answers libs clock k tr 0 policies) \<noteq> {}" using that by auto
  with a l assms(2) show ?thesis
    by (cases acc; cases policies) (auto simp: makeDecision_def final_decision_def Let_def)
qed

theorem decision_precedence_witness:
  "\<exists>ds ps. makeDecision sample_libs (\<lambda>p. 7) [] ((sample_trace [error_span])\<lparr>td_decisions := [Pending, Pending]\<rparr>)
       [(''slow'', Single (Latency 100)), (''errors'', Single (StatusCode [StatusError]))] =
       (Sampled, Some ''slow'', ds, ps) \<and> ds = [NotSampled, Sampled]"
proof -
  let ?tr = "(sample_trace [error_span])\<lparr>td_decisions := [Pending, Pending]\<rparr>"
  let ?ps = "[(''slow'', Single (Latency 100)), (''errors'', Single (StatusCode [StatusError]))]"
  obtain final matching ds ps where m: "makeDecision sample_libs (\<lambda>p. 7) [] ?tr ?ps = (final, matching, ds, ps)"
    by (metis prod_cases4)
  have it: "items (td_received ?tr) = [error_span]" by (simp add: sample_trace_def items_def)
  have answers: "policy_answers sample_libs (\<lambda>p. 7) [] ?tr 0 ?ps = [NotSampled, Sampled]"
    using it by (simp add: evaluate_single_def latency_evaluate_def latency_check_def status_evaluate_def has_span_pure
        has_span_items pure_check_def error_span_def empty_span_def milliseconds_def time_sub_def Let_def)
  have "length (td_decisions ?tr) = length ?ps" by simp
  from decision_precedence [OF this m] answers m show ?thesis by (simp add: plain_def)
qed

section \<open>The invariant of the state\<close>

definition judged_ok :: "trace_data \<Rightarrow> nat \<Rightarrow> bool" where
  "judged_ok td n \<longleftrightarrow> length (td_decisions td) = n \<and> set (td_decisions td) \<subseteq> {Sampled, NotSampled}"

text \<open>What holds of one trace's data, with \<open>n\<close> policies.\<close>

definition trace_ok :: "nat \<Rightarrow> trace_data \<Rightarrow> bool" where
  "trace_ok n td \<longleftrightarrow>
     length (td_decisions td) = n \<and> set (td_decisions td) \<subseteq> {Pending, Sampled, NotSampled} \<and>
     td_final td \<in> {Unspecified, Sampled, NotSampled} \<and>
     (td_final td \<noteq> Unspecified \<longrightarrow> judged_ok td n \<and> td_received td = [])"

definition below :: "nat \<Rightarrow> (nat \<times> 'x) list \<Rightarrow> bool" where
  "below n xs \<longleftrightarrow> list_all (\<lambda>x. fst x < n) xs"

definition judged_entry_ok :: "nat \<Rightarrow> trace_data list \<Rightarrow> (nat \<times> decision \<times> string option) option \<Rightarrow> bool" where
  "judged_entry_ok n tds j \<longleftrightarrow>
     (case j of
        None \<Rightarrow> True
      | Some (a, d, m) \<Rightarrow> a < length tds \<and> d \<in> {Sampled, NotSampled} \<and> judged_ok (tds ! a) n)"

definition tail_ok :: "'c tail_state \<Rightarrow> bool" where
  "tail_ok st \<longleftrightarrow>
     distinct (tp_delete st) \<and> set (tp_delete st) = dom (tp_id_to_trace st) \<and>
     length (tp_delete st) \<le> tp_capacity st \<and> tp_num_traces st = of_nat (length (tp_delete st)) \<and>
     (\<forall>a \<in> ran (tp_id_to_trace st). a < length (tp_store st)) \<and>
     below (length (tp_store st)) (tp_in_flight st) \<and>
     list_all (trace_ok (length (tp_policies st))) (tp_store st) \<and>
     judged_entry_ok (length (tp_policies st)) (tp_store st) (tp_judged st) \<and>
     bt_ok (tp_batcher st)"

lemma below_simps [simp]:
  "below n []" "below n (xs @ ys) \<longleftrightarrow> below n xs \<and> below n ys" "below n ((a, y) # xs) \<longleftrightarrow> a < n \<and> below n xs"
  by (simp_all add: below_def)

lemma below_Suc: "below n xs \<Longrightarrow> below (Suc n) xs"
  by (auto simp: below_def list_all_iff)

lemma below_parts: "below n xs \<Longrightarrow> below n (take i xs)" "below n xs \<Longrightarrow> below n (drop i xs)"
  by (auto simp: below_def list_all_iff dest: in_set_takeD in_set_dropD)

lemma below_nth: "below n xs \<Longrightarrow> i < length xs \<Longrightarrow> fst (xs ! i) < n"
  by (simp add: below_def list_all_length)

lemma list_all_update: "list_all P xs \<Longrightarrow> P x \<Longrightarrow> list_all P (xs[i := x])"
  by (auto simp: list_all_iff dest!: set_update_subset_insert [THEN subsetD])

lemma makeDecision_ok:
  assumes "length (td_decisions tr) = length policies"
    and "makeDecision libs clock k tr policies = (final, matching, ds, ps)"
  shows "final \<in> {Sampled, NotSampled}" and "length ds = length policies" and "set ds \<subseteq> {Sampled, NotSampled}"
    and "length ps = length policies" and "map (erase \<circ> snd) ps = map (erase \<circ> snd) policies"
    and "map fst ps = map fst policies"
proof -
  obtain acc ps1 where l: "judge_loop libs clock k tr 0 policies (\<lambda>d. False, td_decisions tr) = (acc, ps1)" by fastforce
  have len: "length (td_decisions tr) = 0 + length policies" using assms(1) by simp
  have n: "length (policy_answers libs clock k tr i ps) = length ps" for i ps
    by (induction ps arbitrary: i) auto
  note a = judge_loop_answers [OF len l]
  have eq: "ps1 = ps" "snd acc = ds" "final = final_decision (fst acc)"
    using assms(2) l by (cases acc; simp add: makeDecision_def Let_def)+
  show "final \<in> {Sampled, NotSampled}" using eq(3) by (auto simp: final_decision_def)
  show "length ds = length policies" "set ds \<subseteq> {Sampled, NotSampled}" using a eq(2) n by (auto simp: plain_def)
  show "map (erase \<circ> snd) ps = map (erase \<circ> snd) policies" "map fst ps = map fst policies" using a eq(1) by simp_all
  then show "length ps = length policies" by (metis length_map)
qed


lemma list_all_nth: "list_all P xs \<Longrightarrow> i < length xs \<Longrightarrow> P (xs ! i)"
  by (simp add: list_all_length)

lemma new_trace_ok: "trace_ok n (new_trace_data n m)"
  by (auto simp: trace_ok_def new_trace_data_def)

lemma add_ok: "add_to_current_batch k b = Ret b' \<Longrightarrow> bt_ok b \<Longrightarrow> bt_ok b'"
  by (auto simp: add_to_current_batch_def bt_ok_def split: if_splits)

lemma arrive_ok:
  assumes ok: "tail_ok st" and "arrive k rss spans st = Some (Ret st')"
  shows "tail_ok st'"
  using assms(2)
proof (cases rule: arrive_cases)
  case (known a)
  have a: "a < length (tp_store st)" using ok known(1) by (auto simp: tail_ok_def ran_def)
  have "trace_ok (length (tp_policies st)) (tp_store st ! a)" using ok a by (auto simp: tail_ok_def list_all_nth)
  with ok a show ?thesis unfolding known(2)
    by (auto simp: tail_ok_def judged_entry_ok_def list_all_update trace_ok_def judged_ok_def nth_list_update
        split: option.splits)
next
  case (fresh b m n q)
  let ?new = "new_trace_data (length (tp_policies st)) (length spans)"
  let ?st1 = "st\<lparr>tp_store := tp_store st @ [?new], tp_id_to_trace := (tp_id_to_trace st)(k \<mapsto> length (tp_store st)),
      tp_batcher := b, tp_num_traces := tp_num_traces st + 1\<rparr>"
  have q: "distinct (k # tp_delete st)" "set (k # tp_delete st) = dom (tp_id_to_trace ?st1)"
    "tp_num_traces ?st1 = of_nat (Suc (length (tp_delete st)))" "length (tp_delete st) \<le> tp_capacity ?st1"
    using ok fresh(1) by (auto simp: tail_ok_def)
  from delete_loop_map [OF fresh(3) q]
  have m: "distinct q" "set q = dom m" "length q \<le> tp_capacity st" "n = of_nat (length q)"
    "m \<subseteq>\<^sub>m (tp_id_to_trace st)(k \<mapsto> length (tp_store st))" by auto
  have "\<forall>a \<in> ran m. a < Suc (length (tp_store st))"
  proof
    fix a assume "a \<in> ran m"
    then obtain k' where "m k' = Some a" by (auto simp: ran_def)
    with m(5) have "((tp_id_to_trace st)(k \<mapsto> length (tp_store st))) k' = Some a" by (metis domI map_le_def)
    with ok show "a < Suc (length (tp_store st))" by (auto simp: tail_ok_def ran_def less_Suc_eq split: if_splits)
  qed
  moreover have "bt_ok b" using add_ok [OF fresh(2)] ok by (simp add: tail_ok_def)
  ultimately show ?thesis using ok m(1-4) unfolding fresh(4)
    by (auto simp: tail_ok_def judged_entry_ok_def new_trace_ok nth_append less_Suc_eq below_Suc split: option.splits)
qed

lemma append_spans_ok:
  assumes ok: "tail_ok st" and "in_flight_done i st = Some st'"
  shows "tail_ok st'"
  using assms(2)
proof (cases rule: append_cases)
  case (1 a rss spans)
  then have a: "a < length (tp_store st)" using ok below_nth by (fastforce simp: tail_ok_def)
  have t: "trace_ok (length (tp_policies st)) (tp_store st ! a)" using ok a by (auto simp: tail_ok_def list_all_nth)
  then show ?thesis using ok a unfolding 1(3)
    by (auto simp: append_spans_def Let_def tail_ok_def judged_entry_ok_def list_all_update trace_ok_def judged_ok_def
        nth_list_update below_parts split: option.splits)
qed

lemma judge_ok:
  assumes ok: "tail_ok st" and "judge libs clock st = Some st'"
  shows "tail_ok st'"
  using assms(2)
proof (cases rule: judge_cases)
  case (gone k ks)
  with ok show ?thesis by (simp add: tail_ok_def)
next
  case (judged k ks a final matching ds ps)
  have a: "a < length (tp_store st)" using ok judged(3) by (auto simp: tail_ok_def ran_def)
  have t: "trace_ok (length (tp_policies st)) (tp_store st ! a)" using ok a by (auto simp: tail_ok_def list_all_nth)
  then have "length (td_decisions (tp_store st ! a)) = length (tp_policies st)" by (simp add: trace_ok_def)
  note md = makeDecision_ok [OF this judged(4)]
  have "trace_ok (length ps) ((tp_store st ! a)\<lparr>td_decisions := ds\<rparr>)"
    using t md by (auto simp: trace_ok_def judged_ok_def)
  with ok a md show ?thesis unfolding judged(5)
    by (auto simp: tail_ok_def judged_entry_ok_def list_all_update judged_ok_def)
qed

lemma take_spans_ok:
  assumes ok: "tail_ok st" and "take_spans st = Some st'"
  shows "tail_ok st'"
  using assms(2)
proof (cases rule: take_cases)
  case (1 a final matching)
  have a: "a < length (tp_store st)" "final \<in> {Sampled, NotSampled}" "judged_ok (tp_store st ! a) (length (tp_policies st))"
    using ok 1(1) by (auto simp: tail_ok_def judged_entry_ok_def)
  have "trace_ok (length (tp_policies st)) ((tp_store st ! a)\<lparr>td_final := final, td_received := []\<rparr>)"
    using a by (auto simp: trace_ok_def judged_ok_def)
  with ok a show ?thesis unfolding 1(2)
    by (auto simp: Let_def tail_ok_def judged_entry_ok_def list_all_update)
qed

lemma exec_op_ok:
  assumes ok: "tail_ok st" and "exec_op libs op st = Some (Ret st')"
  shows "tail_ok st'"
proof (cases op)
  case (Arrive k rss spans)
  with assms show ?thesis by (simp add: exec_op_def arrive_ok)
next
  case (Append i)
  with assms show ?thesis by (auto simp: exec_op_def append_spans_ok)
next
  case Pump
  with assms show ?thesis by (auto simp: exec_op_def tail_ok_def bt_ok_def bt_pump_def split: list.splits)
next
  case StartTicker
  with assms show ?thesis by (auto simp: exec_op_def tail_ok_def)
next
  case Tick
  with assms(2) obtain batch mr b where "close_current_and_take_first_batch (tp_batcher st) = Some ((batch, mr), b)"
    and st': "st' = st\<lparr>tp_batcher := b, tp_deciding := batch\<rparr>"
    by (auto simp: exec_op_def tick_def split: if_splits option.splits)
  with take_ids_ok(2) ok have "bt_ok b" by (auto simp: tail_ok_def)
  with ok show ?thesis unfolding st' by (simp add: tail_ok_def)
next
  case (Judge clock)
  with assms show ?thesis by (auto simp: exec_op_def judge_ok)
next
  case Take
  with assms show ?thesis by (auto simp: exec_op_def take_spans_ok)
next
  case StopBatcher
  with assms show ?thesis
    by (auto simp: exec_op_def tail_ok_def bt_ok_def bt_stop_def bind_outcome_Ret_iff split: if_splits)
next
  case StopTicker
  with assms show ?thesis by (auto simp: exec_op_def tail_ok_def)
qed


lemma new_processor_state:
  assumes "newTracesProcessor libs tag_ok num_cpu nc cfg = Ret (Inr st)"
  shows "\<exists>b ps. st = \<lparr>tp_policies = ps, tp_store = [], tp_id_to_trace = Map.empty, tp_num_traces = 0,
      tp_batcher = b, tp_delete = [], tp_capacity = unat (tc_num_traces cfg), tp_ticking = False,
      tp_in_flight = [], tp_deciding = [], tp_judged = None, tp_sent = []\<rparr> \<and> bt_ids b = [] \<and> \<not> bt_stopped b \<and>
      bt_batches b \<noteq> []"
proof -
  obtain n b where "new_batcher n (2 * num_cpu) = Inr b" and "\<exists>ps. st = \<lparr>tp_policies = ps, tp_store = [], tp_id_to_trace = Map.empty,
      tp_num_traces = 0, tp_batcher = b, tp_delete = [], tp_capacity = unat (tc_num_traces cfg), tp_ticking = False,
      tp_in_flight = [], tp_deciding = [], tp_judged = None, tp_sent = []\<rparr>"
    using assms
    by (auto simp: newTracesProcessor_def Let_def bind_sum_iff split: if_splits sum.splits)
  moreover from this(1) have "bt_ids b = [] \<and> \<not> bt_stopped b \<and> bt_batches b \<noteq> []"
    by (auto simp: new_batcher_def bt_ids_def split: if_splits)
  ultimately show ?thesis by blast
qed

lemma new_processor_ok: "newTracesProcessor libs tag_ok num_cpu nc cfg = Ret (Inr st) \<Longrightarrow> tail_ok st"
  using new_processor_state [of libs tag_ok num_cpu nc cfg st]
  by (auto simp: tail_ok_def judged_entry_ok_def bt_ok_def)

lemma reaches_ok: "reaches libs st0 ops st \<Longrightarrow> tail_ok st0 \<Longrightarrow> tail_ok st"
  by (induction rule: reaches.induct) (auto intro: exec_op_ok)

lemma run_reaches: "reaches libs st0 ops st \<Longrightarrow> tail_run libs ops' st = Some (Ret st') \<Longrightarrow> reaches libs st0 (ops @ ops') st'"
proof (induction ops' arbitrary: ops st)
  case (Cons op ops')
  then obtain st1 where "exec_op libs op st = Some (Ret st1)" "tail_run libs ops' st1 = Some (Ret st')"
    by (auto split: option.splits outcome.splits)
  with Cons.IH [of "ops @ [op]" st1] reaches_step [OF Cons.prems(1)] show ?case by simp
qed simp

lemma exec_op_capacity: "exec_op libs op st = Some (Ret st') \<Longrightarrow> tp_capacity st' = tp_capacity st"
proof (cases op)
  case (Arrive k rss spans)
  assume "exec_op libs op st = Some (Ret st')"
  with Arrive have "arrive k rss spans st = Some (Ret st')" by (simp add: exec_op_def)
  then show ?thesis by (cases rule: arrive_cases) auto
qed (auto simp: exec_op_def in_flight_done_def append_spans_def tick_def judge_def take_spans_def bind_outcome_Ret_iff
    Let_def split: if_splits option.splits list.splits prod.splits)

lemma reaches_capacity: "reaches libs st0 ops st \<Longrightarrow> tp_capacity st = tp_capacity st0"
  by (induction rule: reaches.induct) (auto simp: exec_op_capacity)

end
