(* ===== verification/TailDelivery.thy ===== *)
theory TailDelivery
  imports TailSampling
begin

text \<open>
  What the tail sampling processor does with the spans it is given: none is invented or sent twice, a
  trace is sent whole or not at all, and a decision comes after a fixed number of ticks.
\<close>

text \<open>
  With an arrival as one step, between which and the next the other goroutines run, the map never
  holds more than \<open>num_traces\<close>
  traces, the delete channel holds exactly the ids of the map, each once, so that no id taken
  from it is missing on the map, and the counter of traces is their number; a decided trace holds no spans.
\<close>

lemma traces_bounded:
  assumes "newTracesProcessor libs tag_ok num_cpu nc cfg = Ret (Inr st0)" and "reaches libs st0 ops st"
  shows "card (dom (tp_id_to_trace st)) \<le> unat (tc_num_traces cfg) \<and>
    set (tp_delete st) = dom (tp_id_to_trace st) \<and> distinct (tp_delete st) \<and>
    tp_num_traces st = of_nat (card (dom (tp_id_to_trace st))) \<and>
    list_all (\<lambda>td. td_final td = Unspecified \<or> td_final td \<in> {Sampled, NotSampled} \<and> td_received td = []) (tp_store st)"
proof -
  have ok: "tail_ok st" using reaches_ok [OF assms(2) new_processor_ok [OF assms(1)]] .
  have "tp_capacity st = unat (tc_num_traces cfg)"
    using reaches_capacity [OF assms(2)] new_processor_state [OF assms(1)] by auto
  moreover have "card (dom (tp_id_to_trace st)) = length (tp_delete st)"
    using ok by (metis distinct_card tail_ok_def)
  ultimately show ?thesis using ok by (auto simp: tail_ok_def list_all_iff trace_ok_def)
qed

section \<open>No span is invented or sent twice\<close>

definition arrived_spans :: "tail_op list \<Rightarrow> ot_span list" where
  "arrived_spans ops = concat (map (\<lambda>op. case op of Arrive k rss spans \<Rightarrow> spans | _ \<Rightarrow> []) ops)"

definition sent_spans :: "'c tail_state \<Rightarrow> ot_span list" where
  "sent_spans st = concat (map (\<lambda>(p, td). items td) (tp_sent st))"

definition held_spans :: "'c tail_state \<Rightarrow> ot_span list" where
  "held_spans st = concat (map (\<lambda>td. items (td_received td)) (tp_store st))"

definition flight_spans :: "'c tail_state \<Rightarrow> ot_span list" where
  "flight_spans st = concat (map (\<lambda>(a, rss, spans). spans) (tp_in_flight st))"

definition known_spans :: "'c tail_state \<Rightarrow> ot_span multiset" where
  "known_spans st = mset (sent_spans st) + mset (held_spans st) + mset (flight_spans st)"

lemma items_appendToTraces [simp]: "items (appendToTraces td rss spans) = items td @ spans"
  by (simp add: appendToTraces_def items_def empty_resource_def empty_scope_def)

lemma mset_concat_update:
  "a < length xs \<Longrightarrow> mset (concat (map f (xs[a := x]))) + mset (f (xs ! a)) = mset (concat (map f xs)) + mset (f x)"
proof (induction xs arbitrary: a)
  case (Cons y xs)
  then show ?case by (cases a) (auto simp: ac_simps)
qed simp

lemma mset_concat_remove:
  assumes "i < length xs"
  shows "mset (concat (map f xs)) = mset (f (xs ! i)) + mset (concat (map f (take i xs @ drop (Suc i) xs)))"
proof -
  have "xs = take i xs @ xs ! i # drop (Suc i) xs" using assms by (rule id_take_nth_drop)
  then have "mset (concat (map f xs)) = mset (concat (map f (take i xs @ xs ! i # drop (Suc i) xs)))" by simp
  also have "\<dots> = mset (f (xs ! i)) + mset (concat (map f (take i xs @ drop (Suc i) xs)))" by (simp add: ac_simps)
  finally show ?thesis .
qed

lemma held_update:
  assumes "a < length (tp_store st)"
  shows "mset (concat (map (\<lambda>td. items (td_received td)) ((tp_store st)[a := td]))) + mset (items (td_received (tp_store st ! a))) =
     mset (held_spans st) + mset (items (td_received td))"
  using mset_concat_update [OF assms, of "\<lambda>td. items (td_received td)" td] by (simp add: held_spans_def)


lemma known_simps:
  "known_spans (st\<lparr>tp_batcher := b\<rparr>) = known_spans st" "known_spans (st\<lparr>tp_ticking := t\<rparr>) = known_spans st"
  "known_spans (st\<lparr>tp_batcher := b, tp_deciding := d\<rparr>) = known_spans st"
  "known_spans (st\<lparr>tp_deciding := d\<rparr>) = known_spans st"
  by (simp_all add: known_spans_def sent_spans_def held_spans_def flight_spans_def)

text \<open>Writing a trace's data back with the same spans keeps the spans held.\<close>

lemma held_same:
  assumes "td_received td = td_received (tp_store st ! a)"
  shows "mset (concat (map (\<lambda>td. items (td_received td)) ((tp_store st)[a := td]))) = mset (held_spans st)"
proof (cases "a < length (tp_store st)")
  case True
  from held_update [OF True, of td] assms show ?thesis by simp
qed (simp add: held_spans_def list_update_beyond)

lemma known_arrive:
  assumes "arrive k rss spans st = Some (Ret st')"
  shows "known_spans st' = known_spans st + mset spans"
  using assms
proof (cases rule: arrive_cases)
  case (known a)
  then show ?thesis unfolding known(2)
    by (simp add: known_spans_def sent_spans_def flight_spans_def held_spans_def [of "st\<lparr>tp_store := _, tp_in_flight := _\<rparr>"] held_same)
next
  case (fresh b m n q)
  then show ?thesis unfolding fresh(4)
    by (simp add: known_spans_def sent_spans_def flight_spans_def held_spans_def new_trace_data_def)
qed

lemma known_append:
  assumes ok: "tail_ok st" and "in_flight_done i st = Some st'"
  shows "known_spans st' \<subseteq># known_spans st"
  using assms(2)
proof (cases rule: append_cases)
  case (1 a rss spans)
  have a: "a < length (tp_store st)" using ok 1 below_nth [of _ _ i] by (fastforce simp: tail_ok_def)
  let ?rest = "take i (tp_in_flight st) @ drop (Suc i) (tp_in_flight st)"
  have fl: "mset (flight_spans st) = mset spans + mset (concat (map (\<lambda>(a, rss, spans). spans) ?rest))"
    using mset_concat_remove [OF 1(1), of "\<lambda>(a, rss, spans). spans"] 1(2) by (simp add: flight_spans_def)
  let ?td = "tp_store st ! a"
  have "mset (concat (map (\<lambda>td. items (td_received td))
      ((tp_store st)[a := ?td\<lparr>td_received := appendToTraces (td_received ?td) rss spans\<rparr>]))) =
      mset (held_spans st) + mset spans"
    using held_update [OF a, of "?td\<lparr>td_received := appendToTraces (td_received ?td) rss spans\<rparr>"] by simp
  then show ?thesis unfolding 1(3) using fl
    by (auto simp: append_spans_def Let_def known_spans_def sent_spans_def held_spans_def flight_spans_def ac_simps
        appendToTraces_def items_def empty_resource_def empty_scope_def)
qed

lemma known_judge:
  assumes "judge libs clock st = Some st'"
  shows "known_spans st' = known_spans st"
  using assms
proof (cases rule: judge_cases)
  case (gone k ks)
  then show ?thesis by (simp add: known_simps)
next
  case (judged k ks a final matching ds ps)
  then show ?thesis
    using held_same [of "(tp_store st ! a)\<lparr>td_decisions := ds\<rparr>" st a]
    by (simp add: known_spans_def sent_spans_def flight_spans_def held_spans_def)
qed

lemma known_take:
  assumes ok: "tail_ok st" and "take_spans st = Some st'"
  shows "known_spans st' \<subseteq># known_spans st"
  using assms(2)
proof (cases rule: take_cases)
  case (1 a final matching)
  have a: "a < length (tp_store st)" using ok 1(1) by (auto simp: tail_ok_def judged_entry_ok_def)
  let ?td = "(tp_store st ! a)\<lparr>td_final := final, td_received := []\<rparr>"
  let ?held = "mset (concat (map (\<lambda>td. items (td_received td)) ((tp_store st)[a := ?td])))"
  have h: "?held + mset (items (td_received (tp_store st ! a))) = mset (held_spans st)"
    using held_update [OF a, of ?td] by simp
  have "known_spans st' = mset (sent_spans st) + ?held + mset (flight_spans st) +
      (if final = Sampled then mset (items (td_received (tp_store st ! a))) else {#})"
    unfolding 1(2) by (simp add: Let_def known_spans_def sent_spans_def held_spans_def flight_spans_def ac_simps)
  moreover have "known_spans st = mset (sent_spans st) + (?held + mset (items (td_received (tp_store st ! a)))) + mset (flight_spans st)"
    unfolding h by (simp add: known_spans_def)
  ultimately show ?thesis by (simp add: ac_simps)
qed

lemma known_step:
  assumes ok: "tail_ok st" and "exec_op libs op st = Some (Ret st')"
  shows "known_spans st' \<subseteq># known_spans st + mset (arrived_spans [op])"
proof (cases op)
  case (Arrive k rss spans)
  with assms show ?thesis by (simp add: exec_op_def arrived_spans_def known_arrive)
next
  case (Append i)
  with assms known_append [OF ok] show ?thesis by (auto simp: exec_op_def arrived_spans_def)
next
  case (Judge clock)
  with assms known_judge show ?thesis by (fastforce simp: exec_op_def arrived_spans_def)
next
  case Take
  with assms known_take [OF ok] show ?thesis by (auto simp: exec_op_def arrived_spans_def)
qed (use assms in \<open>auto simp: exec_op_def arrived_spans_def known_simps tick_def bind_outcome_Ret_iff
    split: if_splits option.splits\<close>)

lemma known_bounded: "reaches libs st0 ops st \<Longrightarrow> tail_ok st0 \<Longrightarrow> known_spans st \<subseteq># known_spans st0 + mset (arrived_spans ops)"
proof (induction rule: reaches.induct)
  case (reaches_step ops st op st')
  have "known_spans st' \<subseteq># known_spans st + mset (arrived_spans [op])"
    using known_step reaches_ok reaches_step by blast
  also have "\<dots> \<subseteq># known_spans st0 + mset (arrived_spans ops) + mset (arrived_spans [op])"
    using reaches_step.IH reaches_step.prems by simp
  finally show ?case by (simp add: arrived_spans_def ac_simps)
qed (simp add: arrived_spans_def)

section \<open>Whole traces\<close>

text \<open>Arrivals as \<open>processTraces\<close> makes them: the spans of a group have the group's trace id.\<close>

definition well_keyed :: "tail_op list \<Rightarrow> bool" where
  "well_keyed ops = list_all (\<lambda>op. case op of Arrive k rss spans \<Rightarrow> list_all (\<lambda>s. os_trace_id s = k) spans | _ \<Rightarrow> True) ops"

definition arrived_ids :: "tail_op list \<Rightarrow> trace_id set" where
  "arrived_ids ops = set (concat (map (\<lambda>op. case op of Arrive k rss spans \<Rightarrow> [k] | _ \<Rightarrow> []) ops))"

definition of_trace :: "trace_id \<Rightarrow> ot_span list \<Rightarrow> ot_span multiset" where
  "of_trace k spans = filter_mset (\<lambda>s. os_trace_id s = k) (mset spans)"

definition flight_to :: "nat \<Rightarrow> (nat \<times> ot_span ot_resource \<times> ot_span list) list \<Rightarrow> ot_span multiset" where
  "flight_to a fl = mset (concat (map (\<lambda>(b, rss, spans). if b = a then spans else []) fl))"

text \<open>
  The spans \<open>A\<close> of a trace that have arrived, those sent (\<open>S\<close>) and those in flight (\<open>F\<close>), by the
  state of the trace's data.
\<close>

definition whole :: "trace_data \<Rightarrow> ot_span multiset \<Rightarrow> ot_span multiset \<Rightarrow> ot_span multiset \<Rightarrow> bool" where
  "whole td A S F \<longleftrightarrow>
     (if td_final td = Unspecified then S = {#} \<and> mset (items (td_received td)) + F = A
      else if td_final td = Sampled then S + F = A
      else S = {#})"

definition whole_inv :: "tail_op list \<Rightarrow> 'c tail_state \<Rightarrow> bool" where
  "whole_inv ops st \<longleftrightarrow>
     dom (tp_id_to_trace st) = arrived_ids ops \<and>
     (\<forall>k k' a. tp_id_to_trace st k = Some a \<longrightarrow> tp_id_to_trace st k' = Some a \<longrightarrow> k = k') \<and>
     (\<forall>k a. tp_id_to_trace st k = Some a \<longrightarrow>
        whole (tp_store st ! a) (of_trace k (arrived_spans ops)) (of_trace k (sent_spans st)) (flight_to a (tp_in_flight st))) \<and>
     (\<forall>a rss spans. (a, rss, spans) \<in> set (tp_in_flight st) \<longrightarrow>
        (\<exists>k. tp_id_to_trace st k = Some a \<and> list_all (\<lambda>s. os_trace_id s = k) spans))"

text \<open>An id waits for its decision at most once, and only while it is undecided.\<close>

definition waiting_inv :: "'c tail_state \<Rightarrow> bool" where
  "waiting_inv st \<longleftrightarrow>
     distinct (bt_ids (tp_batcher st) @ tp_deciding st) \<and>
     (\<forall>k \<in> set (bt_ids (tp_batcher st) @ tp_deciding st).
        \<exists>a. tp_id_to_trace st k = Some a \<and> td_final (tp_store st ! a) = Unspecified \<and>
            (\<forall>d m. tp_judged st \<noteq> Some (a, d, m))) \<and>
     (\<forall>a d m. tp_judged st = Some (a, d, m) \<longrightarrow>
        td_final (tp_store st ! a) = Unspecified \<and> (\<exists>k. tp_id_to_trace st k = Some a))"

lemma of_trace_simps [simp]:
  "of_trace k [] = {#}" "of_trace k (xs @ ys) = of_trace k xs + of_trace k ys"
  by (simp_all add: of_trace_def)

lemma of_trace_all: "list_all (\<lambda>s. os_trace_id s = k) spans \<Longrightarrow> of_trace k spans = mset spans"
  by (induction spans) (auto simp: of_trace_def)

lemma of_trace_other: "list_all (\<lambda>s. os_trace_id s = k') spans \<Longrightarrow> k \<noteq> k' \<Longrightarrow> of_trace k spans = {#}"
  by (induction spans) (auto simp: of_trace_def)

lemma flight_to_simps [simp]:
  "flight_to a [] = {#}" "flight_to a (xs @ ys) = flight_to a xs + flight_to a ys"
  "flight_to a [(b, rss, spans)] = (if b = a then mset spans else {#})"
  by (simp_all add: flight_to_def)

lemma flight_to_remove:
  assumes "i < length fl" and "fl ! i = (b, rss, spans)"
  shows "flight_to a fl = (if b = a then mset spans else {#}) + flight_to a (take i fl @ drop (Suc i) fl)"
  using mset_concat_remove [OF assms(1), of "\<lambda>(b, rss, spans). if b = a then spans else []"] assms(2)
  by (simp add: flight_to_def split: if_splits)

lemma flight_to_above: "below n fl \<Longrightarrow> n \<le> a \<Longrightarrow> flight_to a fl = {#}"
  by (induction fl) (auto simp: below_def flight_to_def)

lemma arrived_snoc:
  "arrived_spans (ops @ [op]) = arrived_spans ops @ (case op of Arrive k rss spans \<Rightarrow> spans | _ \<Rightarrow> [])"
  "arrived_ids (ops @ [op]) = arrived_ids ops \<union> (case op of Arrive k rss spans \<Rightarrow> {k} | _ \<Rightarrow> {})"
  "well_keyed (ops @ [op]) \<longleftrightarrow> well_keyed ops \<and> well_keyed [op]"
  by (auto simp: arrived_spans_def arrived_ids_def well_keyed_def split: tail_op.splits)

lemma of_trace_absent: "well_keyed ops \<Longrightarrow> k \<notin> arrived_ids ops \<Longrightarrow> of_trace k (arrived_spans ops) = {#}"
proof (induction ops rule: rev_induct)
  case (snoc op ops)
  then show ?case by (cases op) (auto simp: arrived_snoc well_keyed_def of_trace_other)
qed (simp add: arrived_spans_def)

lemma sent_arrived:
  assumes "known_spans st \<subseteq># mset (arrived_spans ops)"
  shows "of_trace k (sent_spans st) \<subseteq># of_trace k (arrived_spans ops)"
proof -
  have "mset (sent_spans st) \<subseteq># known_spans st" by (simp add: known_spans_def add.assoc)
  then have "mset (sent_spans st) \<subseteq># mset (arrived_spans ops)" using assms by (rule subset_mset.order_trans)
  then show ?thesis unfolding of_trace_def by (rule multiset_filter_mono)
qed


lemma final_update: "td_final td = td_final (xs ! b) \<Longrightarrow> td_final (xs[b := td] ! a) = td_final (xs ! a)"
  by (cases "b < length xs") (auto simp: nth_list_update list_update_beyond)

lemma tick_cases:
  assumes "tick st = Some st'"
  obtains batch mr b where "close_current_and_take_first_batch (tp_batcher st) = Some ((batch, mr), b)"
    and "tp_deciding st = []" and "tp_judged st = None" and "st' = st\<lparr>tp_batcher := b, tp_deciding := batch\<rparr>"
  using assms
  by (cases "tp_judged st"; cases "tp_deciding st"; cases "close_current_and_take_first_batch (tp_batcher st)")
    (auto simp: tick_def split: if_splits)

lemma flight_keyed:
  assumes "whole_inv ops st" and "(a, rss, spans) \<in> set (tp_in_flight st)"
  obtains k where "tp_id_to_trace st k = Some a" and "list_all (\<lambda>s. os_trace_id s = k) spans"
  using assms unfolding whole_inv_def by blast

lemma whole_arrive:
  assumes ok: "tail_ok st" and inv: "whole_inv ops st" "waiting_inv st"
    and known_bound: "known_spans st \<subseteq># mset (arrived_spans ops)"
    and keyed: "well_keyed ops" "list_all (\<lambda>s. os_trace_id s = k) spans"
    and room: "card (insert k (arrived_ids ops)) \<le> tp_capacity st"
    and step: "arrive k rss spans st = Some (Ret st')"
  shows "whole_inv (ops @ [Arrive k rss spans]) st' \<and> waiting_inv st'"
  using step
proof (cases rule: arrive_cases)
  case (known a)
  have a: "a < length (tp_store st)" using ok known(1) by (auto simp: tail_ok_def ran_def)
  let ?td = "(tp_store st ! a)\<lparr>td_span_count := td_span_count (tp_store st ! a) + of_nat (length spans)\<rparr>"
  have only: "k' = k" if "tp_id_to_trace st k' = Some a" for k'
    using inv(1) that known(1) by (auto simp: whole_inv_def)
  have store: "td_final ((tp_store st)[a := ?td] ! b) = td_final (tp_store st ! b)"
    "td_received ((tp_store st)[a := ?td] ! b) = td_received (tp_store st ! b)" for b
    using a by (auto simp: nth_list_update)
  have "whole ((tp_store st)[a := ?td] ! b) (of_trace k' (arrived_spans ops @ spans)) (of_trace k' (sent_spans st))
      (flight_to b (tp_in_flight st @ [(a, rss, spans)]))" if m: "tp_id_to_trace st k' = Some b" for k' b
  proof -
    have w: "whole (tp_store st ! b) (of_trace k' (arrived_spans ops)) (of_trace k' (sent_spans st)) (flight_to b (tp_in_flight st))"
      using inv(1) m by (simp add: whole_inv_def)
    show ?thesis
    proof (cases "k' = k")
      case True
      with m known(1) have "b = a" by simp
      with w True keyed(2) store show ?thesis by (auto simp: whole_def of_trace_all ac_simps)
    next
      case False
      with m only have "b \<noteq> a" by blast
      with w False keyed(2) store show ?thesis by (auto simp: whole_def of_trace_other)
    qed
  qed
  moreover have "(\<exists>k'. tp_id_to_trace st k' = Some b \<and> list_all (\<lambda>s. os_trace_id s = k') sps)"
    if "(b, r, sps) \<in> set (tp_in_flight st @ [(a, rss, spans)])" for b r sps
    using that inv(1) known(1) keyed(2) by (auto simp: whole_inv_def)
  moreover have "dom (tp_id_to_trace st) = arrived_ids (ops @ [Arrive k rss spans])"
    using inv(1) known(1) by (auto simp: whole_inv_def arrived_snoc)
  ultimately have "whole_inv (ops @ [Arrive k rss spans]) st'"
    using inv(1) unfolding known(2) by (auto simp: whole_inv_def arrived_snoc sent_spans_def)
  moreover have "waiting_inv st'"
    using inv(2) store(1) unfolding known(2) waiting_inv_def by simp
  ultimately show ?thesis ..
next
  case (fresh b m n q)
  let ?new = "new_trace_data (length (tp_policies st)) (length spans)" and ?a = "length (tp_store st)"
  let ?st1 = "st\<lparr>tp_store := tp_store st @ [?new], tp_id_to_trace := (tp_id_to_trace st)(k \<mapsto> ?a),
      tp_batcher := b, tp_num_traces := tp_num_traces st + 1\<rparr>"
  have dom: "dom (tp_id_to_trace st) = arrived_ids ops" using inv(1) by (simp add: whole_inv_def)
  have new: "k \<notin> arrived_ids ops" using fresh(1) dom by auto
  have "card (arrived_ids ops) = length (tp_delete st)" using ok dom by (metis distinct_card tail_ok_def)
  moreover have "finite (arrived_ids ops)" unfolding arrived_ids_def by (rule finite_set)
  ultimately have space: "length (tp_delete st) < tp_capacity st" using room new by simp
  have q: "distinct (k # tp_delete st)" "set (k # tp_delete st) = dom (tp_id_to_trace ?st1)"
    "tp_num_traces ?st1 = of_nat (Suc (length (tp_delete st)))" "length (tp_delete st) \<le> tp_capacity ?st1"
    using ok fresh(1) by (auto simp: tail_ok_def)
  have m: "m = (tp_id_to_trace st)(k \<mapsto> ?a)" using delete_loop_map [OF fresh(3) q] space by auto
  have addr: "c < ?a" if "tp_id_to_trace st k' = Some c" for k' c
    using ok that by (auto simp: tail_ok_def ran_def)
  have sent: "of_trace k (sent_spans st) = {#}"
    using sent_arrived [OF known_bound, of k] of_trace_absent [OF keyed(1) new] by simp
  have fl: "flight_to ?a (tp_in_flight st) = {#}" using ok by (auto simp: tail_ok_def intro: flight_to_above)
  have "whole ((tp_store st @ [?new]) ! c) (of_trace k' (arrived_spans ops @ spans)) (of_trace k' (sent_spans st))
      (flight_to c (tp_in_flight st @ [(?a, rss, spans)]))" if mc: "m k' = Some c" for k' c
  proof (cases "k' = k")
    case True
    with mc m have "c = ?a" by simp
    with True sent fl of_trace_absent [OF keyed(1) new] keyed(2) show ?thesis
      by (simp add: whole_def new_trace_data_def of_trace_all)
  next
    case False
    with mc m have c: "tp_id_to_trace st k' = Some c" by simp
    then have "c < ?a" by (rule addr)
    with c False keyed(2) inv(1) show ?thesis
      by (simp add: whole_inv_def nth_append of_trace_other)
  qed
  moreover have "\<exists>k'. m k' = Some c \<and> list_all (\<lambda>s. os_trace_id s = k') sps"
    if e: "(c, r, sps) \<in> set (tp_in_flight st @ [(?a, rss, spans)])" for c r sps
  proof (cases "(c, r, sps) \<in> set (tp_in_flight st)")
    case True
    then obtain k' where "tp_id_to_trace st k' = Some c" "list_all (\<lambda>s. os_trace_id s = k') sps"
      using flight_keyed [OF inv(1)] by metis
    moreover from this fresh(1) have "k' \<noteq> k" by auto
    ultimately show ?thesis using m by auto
  next
    case False
    with e keyed(2) m show ?thesis by auto
  qed
  moreover have "dom m = arrived_ids (ops @ [Arrive k rss spans])" using dom m by (auto simp: arrived_snoc)
  moreover have "k1 = k2" if "m k1 = Some c" "m k2 = Some c" for k1 k2 c
    using that m inv(1) addr by (auto simp: whole_inv_def split: if_splits)
  ultimately have "whole_inv (ops @ [Arrive k rss spans]) st'"
    unfolding fresh(4) by (simp add: whole_inv_def arrived_snoc sent_spans_def)
  moreover have "waiting_inv st'"
  proof -
    have ids: "bt_ids b = bt_ids (tp_batcher st) @ [k]" using tb.add_ids fresh(2) by blast
    have W: "distinct (bt_ids (tp_batcher st) @ tp_deciding st)"
      "\<And>k'. k' \<in> set (bt_ids (tp_batcher st) @ tp_deciding st) \<Longrightarrow> \<exists>a. tp_id_to_trace st k' = Some a \<and>
        td_final (tp_store st ! a) = Unspecified \<and> (\<forall>d m. tp_judged st \<noteq> Some (a, d, m))"
      "\<And>a d m. tp_judged st = Some (a, d, m) \<Longrightarrow> td_final (tp_store st ! a) = Unspecified \<and> (\<exists>k. tp_id_to_trace st k = Some a)"
      using inv(2) by (auto simp: waiting_inv_def)
    have notin: "k \<notin> set (bt_ids (tp_batcher st) @ tp_deciding st)" using W(2) fresh(1) by fastforce
    have "\<exists>a. m k' = Some a \<and> td_final ((tp_store st @ [?new]) ! a) = Unspecified \<and> (\<forall>d m. tp_judged st \<noteq> Some (a, d, m))"
      if "k' \<in> set (bt_ids b @ tp_deciding st)" for k'
    proof (cases "k' = k")
      case True
      have "\<forall>d m. tp_judged st \<noteq> Some (?a, d, m)" using W(3) addr by blast
      then show ?thesis using True m by (auto simp: new_trace_data_def)
    next
      case False
      with that ids W(2) [of k'] obtain c where "tp_id_to_trace st k' = Some c" "td_final (tp_store st ! c) = Unspecified"
        "\<forall>d m. tp_judged st \<noteq> Some (c, d, m)" by auto
      with False m addr [of k' c] show ?thesis by (auto simp: nth_append)
    qed
    moreover have "distinct (bt_ids b @ tp_deciding st)" using W(1) notin ids by auto
    moreover have "td_final ((tp_store st @ [?new]) ! c) = Unspecified \<and> (\<exists>k'. m k' = Some c)"
      if "tp_judged st = Some (c, d, mm)" for c d mm
    proof -
      from W(3) [OF that] obtain k' where k': "tp_id_to_trace st k' = Some c" "td_final (tp_store st ! c) = Unspecified" by auto
      then have "k' \<noteq> k" using fresh(1) by auto
      with k' m addr [OF k'(1)] show ?thesis by (auto simp: nth_append)
    qed
    ultimately show ?thesis unfolding fresh(4) waiting_inv_def by simp
  qed
  ultimately show ?thesis ..
qed


lemma whole_inv_snoc:
  assumes "arrived_spans [op] = []" and "arrived_ids [op] = {}"
  shows "whole_inv (ops @ [op]) st = whole_inv ops st"
proof -
  have "arrived_spans (ops @ [op]) = arrived_spans ops" "arrived_ids (ops @ [op]) = arrived_ids ops"
    using assms by (simp_all add: arrived_spans_def arrived_ids_def)
  then show ?thesis by (simp add: whole_inv_def)
qed

lemma whole_append:
  assumes ok: "tail_ok st" and inv: "whole_inv ops st" "waiting_inv st"
    and step: "in_flight_done i st = Some st'"
  shows "whole_inv ops st' \<and> waiting_inv st'"
  using step
proof (cases rule: append_cases)
  case (1 a rss spans)
  let ?rest = "take i (tp_in_flight st) @ drop (Suc i) (tp_in_flight st)" and ?td = "tp_store st ! a"
  have "(a, rss, spans) \<in> set (tp_in_flight st)" using 1(1,2) by (metis nth_mem)
  then obtain k where k: "tp_id_to_trace st k = Some a" and keyed: "list_all (\<lambda>s. os_trace_id s = k) spans"
    using flight_keyed [OF inv(1)] by metis
  have a: "a < length (tp_store st)" using ok k by (auto simp: tail_ok_def ran_def)
  have final: "td_final ?td \<in> {Unspecified, Sampled, NotSampled}"
    using ok a by (auto simp: tail_ok_def trace_ok_def dest: list_all_nth)
  have only: "k' = k" if "tp_id_to_trace st k' = Some a" for k' using inv(1) that k by (auto simp: whole_inv_def)
  have rest: "set ?rest \<subseteq> set (tp_in_flight st)" by (auto dest: in_set_takeD in_set_dropD)
  have same: "tp_id_to_trace st' = tp_id_to_trace st" "tp_in_flight st' = ?rest" "tp_batcher st' = tp_batcher st"
    "tp_deciding st' = tp_deciding st" "tp_judged st' = tp_judged st"
    "\<And>b. td_final (tp_store st' ! b) = td_final (tp_store st ! b)"
    using 1(3) a by (auto simp: append_spans_def Let_def nth_list_update)
  have others: "tp_store st' ! b = tp_store st ! b" if "b \<noteq> a" for b
    using 1(3) that by (auto simp: append_spans_def Let_def)
  have sent: "of_trace k' (sent_spans st') = of_trace k' (sent_spans st) +
      (if td_final ?td = Sampled \<and> k' = k then mset spans else {#})" for k'
    using 1(3) keyed
    by (auto simp: append_spans_def Let_def sent_spans_def of_trace_all of_trace_other)
  have received: "td_received (tp_store st' ! a) =
      (if td_final ?td = Unspecified then appendToTraces (td_received ?td) rss spans else td_received ?td)"
    using 1(3) a by (auto simp: append_spans_def Let_def)
  have "whole (tp_store st' ! b) (of_trace k' (arrived_spans ops)) (of_trace k' (sent_spans st')) (flight_to b ?rest)"
    if m: "tp_id_to_trace st k' = Some b" for k' b
  proof -
    have w: "whole (tp_store st ! b) (of_trace k' (arrived_spans ops)) (of_trace k' (sent_spans st)) (flight_to b (tp_in_flight st))"
      using inv(1) m by (simp add: whole_inv_def)
    have fl: "flight_to b (tp_in_flight st) = (if a = b then mset spans else {#}) + flight_to b ?rest"
      by (rule flight_to_remove [OF 1(1,2)])
    show ?thesis
    proof (cases "b = a")
      case True
      with m only have "k' = k" by blast
      with True w fl sent [of k'] same(6) [of a] received final show ?thesis
        by (auto simp: whole_def ac_simps split: if_splits)
    next
      case False
      with m k have "k' \<noteq> k" by auto
      with False w fl sent [of k'] others show ?thesis by (auto simp: whole_def)
    qed
  qed
  then have "whole_inv ops st'" using inv(1) rest unfolding whole_inv_def same by blast
  moreover have "waiting_inv st'" using inv(2) unfolding waiting_inv_def same .
  ultimately show ?thesis ..
qed

lemma whole_judge:
  assumes ok: "tail_ok st" and inv: "whole_inv ops st" "waiting_inv st"
    and step: "judge libs clock st = Some st'"
  shows "whole_inv ops st' \<and> waiting_inv st'"
  using step
proof (cases rule: judge_cases)
  case (gone k ks)
  with inv(2) show ?thesis by (auto simp: waiting_inv_def)
next
  case (judged k ks a final matching ds ps)
  have a: "a < length (tp_store st)" using ok judged(3) by (auto simp: tail_ok_def ran_def)
  let ?store = "(tp_store st)[a := (tp_store st ! a)\<lparr>td_decisions := ds\<rparr>]"
  have store: "td_final (?store ! b) = td_final (tp_store st ! b)" "td_received (?store ! b) = td_received (tp_store st ! b)" for b
    using a by (auto simp: nth_list_update)
  have "whole (?store ! b) A S F = whole (tp_store st ! b) A S F" for b A S F by (simp add: whole_def store)
  then have "whole_inv ops st'" using inv(1) unfolding judged(5) by (simp add: whole_inv_def sent_spans_def)
  moreover have "waiting_inv st'"
  proof -
    have W: "distinct (bt_ids (tp_batcher st) @ k # ks)"
      "\<And>k'. k' \<in> set (bt_ids (tp_batcher st) @ k # ks) \<Longrightarrow> \<exists>a. tp_id_to_trace st k' = Some a \<and> td_final (tp_store st ! a) = Unspecified"
      using inv(2) judged(2) by (auto simp: waiting_inv_def)
    have "\<exists>b. tp_id_to_trace st k' = Some b \<and> td_final (?store ! b) = Unspecified \<and>
        (\<forall>d m. Some (a, final, matching) \<noteq> Some (b, d, m))" if k': "k' \<in> set (bt_ids (tp_batcher st) @ ks)" for k'
    proof -
      obtain b where b: "tp_id_to_trace st k' = Some b" "td_final (tp_store st ! b) = Unspecified"
        using W(2) [of k'] k' by auto
      have "k' \<noteq> k" using W(1) k' by auto
      then have "b \<noteq> a" using inv(1) b(1) judged(3) unfolding whole_inv_def by blast
      with b store show ?thesis by auto
    qed
    moreover have "td_final (tp_store st ! a) = Unspecified" using W(2) [of k] judged(3) by auto
    ultimately show ?thesis using W(1) judged(3) store(1) unfolding judged(5) waiting_inv_def by auto
  qed
  ultimately show ?thesis ..
qed

lemma whole_take:
  assumes ok: "tail_ok st" and inv: "whole_inv ops st" "waiting_inv st"
    and step: "take_spans st = Some st'"
  shows "whole_inv ops st' \<and> waiting_inv st'"
  using step
proof (cases rule: take_cases)
  case (1 a final matching)
  have a: "a < length (tp_store st)" "final \<in> {Sampled, NotSampled}"
    using ok 1(1) by (auto simp: tail_ok_def judged_entry_ok_def)
  let ?td = "tp_store st ! a"
  have undecided: "td_final ?td = Unspecified" using inv(2) 1(1) by (auto simp: waiting_inv_def)
  obtain k where k: "tp_id_to_trace st k = Some a" using inv(2) 1(1) by (auto simp: waiting_inv_def)
  have w: "of_trace k (sent_spans st) = {#}"
    "mset (items (td_received ?td)) + flight_to a (tp_in_flight st) = of_trace k (arrived_spans ops)"
    using inv(1) k undecided by (auto simp: whole_inv_def whole_def)
  have keyed: "list_all (\<lambda>s. os_trace_id s = k) (items (td_received ?td))"
  proof -
    have "mset (items (td_received ?td)) \<subseteq># of_trace k (arrived_spans ops)" using w(2) by (metis mset_subset_eq_add_left)
    then show ?thesis by (auto simp: list_all_iff of_trace_def dest!: mset_subset_eqD)
  qed
  have same: "tp_id_to_trace st' = tp_id_to_trace st" "tp_in_flight st' = tp_in_flight st" "tp_batcher st' = tp_batcher st"
    "tp_deciding st' = tp_deciding st" "tp_judged st' = None"
    unfolding 1(2) by (simp_all add: Let_def)
  have store: "tp_store st' ! a = ?td\<lparr>td_final := final, td_received := []\<rparr>" "\<And>b. b \<noteq> a \<Longrightarrow> tp_store st' ! b = tp_store st ! b"
    unfolding 1(2) using a(1) by (simp_all add: Let_def)
  have sent: "of_trace k' (sent_spans st') = of_trace k' (sent_spans st) +
      (if final = Sampled \<and> k' = k then mset (items (td_received ?td)) else {#})" for k'
    unfolding 1(2) using keyed by (auto simp: Let_def sent_spans_def of_trace_all of_trace_other)
  have "whole (tp_store st' ! b) (of_trace k' (arrived_spans ops)) (of_trace k' (sent_spans st')) (flight_to b (tp_in_flight st))"
    if m: "tp_id_to_trace st k' = Some b" for k' b
  proof (cases "b = a")
    case True
    have "k' = k" using inv(1) m k True unfolding whole_inv_def by blast
    with True w sent [of k'] store(1) a(2) show ?thesis by (auto simp: whole_def)
  next
    case False
    with m k have "k' \<noteq> k" by auto
    with False m inv(1) sent [of k'] store(2) [of b] show ?thesis by (simp add: whole_inv_def)
  qed
  then have "whole_inv ops st'" using inv(1) unfolding whole_inv_def same by blast
  moreover have "waiting_inv st'"
  proof -
    have "\<exists>b. tp_id_to_trace st k' = Some b \<and> td_final (tp_store st' ! b) = Unspecified"
      if "k' \<in> set (bt_ids (tp_batcher st) @ tp_deciding st)" for k'
    proof -
      from that inv(2) obtain b where "tp_id_to_trace st k' = Some b" "td_final (tp_store st ! b) = Unspecified"
        "\<forall>d m. tp_judged st \<noteq> Some (b, d, m)" unfolding waiting_inv_def by blast
      moreover from this(3) 1(1) have "b \<noteq> a" by auto
      ultimately show ?thesis using store(2) by auto
    qed
    with inv(2) show ?thesis unfolding waiting_inv_def same by auto
  qed
  ultimately show ?thesis ..
qed

text \<open>A step of the batcher that hands ids over or keeps them.\<close>

lemma waiting_moves:
  assumes "waiting_inv st" and "mset (bt_ids b @ d) = mset (bt_ids (tp_batcher st) @ tp_deciding st)"
    and "tp_id_to_trace st' = tp_id_to_trace st" "tp_store st' = tp_store st" "tp_judged st' = tp_judged st"
    and "tp_batcher st' = b" "tp_deciding st' = d"
  shows "waiting_inv st'"
proof -
  have "distinct (bt_ids b @ d) = distinct (bt_ids (tp_batcher st) @ tp_deciding st)"
    using assms(2) by (rule mset_eq_imp_distinct_iff)
  moreover have "set (bt_ids b @ d) = set (bt_ids (tp_batcher st) @ tp_deciding st)"
    using assms(2) by (rule mset_eq_setD)
  ultimately show ?thesis using assms(1) unfolding waiting_inv_def assms(3-7) by blast
qed

lemma whole_step:
  assumes ok: "tail_ok st" and inv: "whole_inv ops st" "waiting_inv st"
    and known_bound: "known_spans st \<subseteq># mset (arrived_spans ops)"
    and keyed: "well_keyed (ops @ [op])" and room: "card (arrived_ids (ops @ [op])) \<le> tp_capacity st"
    and step: "exec_op libs op st = Some (Ret st')"
  shows "whole_inv (ops @ [op]) st' \<and> waiting_inv st'"
proof -
  have quiet: "whole_inv (ops @ [op]) st' = whole_inv ops st'" if "\<And>k rss spans. op \<noteq> Arrive k rss spans"
    using that by (intro whole_inv_snoc; cases op) (auto simp: arrived_spans_def arrived_ids_def)
  show ?thesis
  proof (cases op)
    case (Arrive k rss spans)
    have "list_all (\<lambda>s. os_trace_id s = k) spans" "well_keyed ops"
      using keyed Arrive by (auto simp: arrived_snoc well_keyed_def)
    moreover have "card (insert k (arrived_ids ops)) \<le> tp_capacity st" using room Arrive by (simp add: arrived_snoc)
    ultimately show ?thesis
      using whole_arrive [OF ok inv known_bound] step Arrive by (simp add: exec_op_def)
  next
    case (Append i)
    with step whole_append [OF ok inv] quiet show ?thesis by (auto simp: exec_op_def)
  next
    case Pump
    with step obtain b where b: "bt_pump (tp_batcher st) = Some b" "st' = st\<lparr>tp_batcher := b\<rparr>" by (auto simp: exec_op_def)
    have "waiting_inv st'" by (rule waiting_moves [OF inv(2), of b "tp_deciding st"]) (simp_all add: b tb.idle_ids [OF b(1)])
    moreover have "whole_inv ops st'" using inv(1) unfolding b(2) by (simp add: whole_inv_def sent_spans_def)
    ultimately show ?thesis using quiet Pump by simp
  next
    case StartTicker
    with step have "st' = st\<lparr>tp_ticking := True\<rparr>" by (simp add: exec_op_def)
    with inv quiet StartTicker show ?thesis by (simp add: whole_inv_def waiting_inv_def sent_spans_def)
  next
    case Tick
    with step obtain batch mr b where b: "close_current_and_take_first_batch (tp_batcher st) = Some ((batch, mr), b)"
      and d: "tp_deciding st = []" and st': "st' = st\<lparr>tp_batcher := b, tp_deciding := batch\<rparr>"
      by (auto simp: exec_op_def elim: tick_cases)
    have "waiting_inv st'"
      by (rule waiting_moves [OF inv(2), of b batch]) (simp_all add: st' d tb.take_ids [OF b] ac_simps)
    moreover have "whole_inv ops st'" using inv(1) unfolding st' by (simp add: whole_inv_def sent_spans_def)
    ultimately show ?thesis using quiet Tick by simp
  next
    case (Judge clock)
    with step whole_judge [OF ok inv] quiet show ?thesis by (auto simp: exec_op_def)
  next
    case Take
    with step whole_take [OF ok inv] quiet show ?thesis by (auto simp: exec_op_def)
  next
    case StopBatcher
    with step obtain b where b: "bt_stop (tp_batcher st) = Ret b" "st' = st\<lparr>tp_batcher := b\<rparr>"
      by (auto simp: exec_op_def bind_outcome_Ret_iff)
    have "waiting_inv st'" by (rule waiting_moves [OF inv(2), of b "tp_deciding st"]) (simp_all add: b bt_stop_ids [OF b(1)])
    moreover have "whole_inv ops st'" using inv(1) unfolding b(2) by (simp add: whole_inv_def sent_spans_def)
    ultimately show ?thesis using quiet StopBatcher by simp
  next
    case StopTicker
    with step have "st' = st\<lparr>tp_ticking := False\<rparr>" by (simp add: exec_op_def)
    with inv quiet StopTicker show ?thesis by (simp add: whole_inv_def waiting_inv_def sent_spans_def)
  qed
qed


lemma arrived_mono: "card (arrived_ids ops) \<le> card (arrived_ids (ops @ ops'))"
  unfolding arrived_ids_def by (rule card_mono) (simp_all only: finite_set, auto)

lemma reaches_whole:
  assumes "reaches libs st0 ops st" and "tail_ok st0" and "known_spans st0 = {#}"
    and "whole_inv [] st0" "waiting_inv st0"
    and "well_keyed ops" and "card (arrived_ids ops) \<le> tp_capacity st0"
  shows "whole_inv ops st \<and> waiting_inv st"
  using assms
proof (induction rule: reaches.induct)
  case (reaches_step ops st op st')
  have keyed: "well_keyed ops" using reaches_step.prems(5) by (simp add: arrived_snoc)
  have room: "card (arrived_ids ops) \<le> tp_capacity st0"
    using arrived_mono [of ops "[op]"] reaches_step.prems(6) by simp
  have inv: "whole_inv ops st" "waiting_inv st" using reaches_step.IH reaches_step.prems(1-4) keyed room by simp_all
  have "known_spans st \<subseteq># mset (arrived_spans ops)"
    using known_bounded [OF reaches_step.hyps(1) reaches_step.prems(1)] reaches_step.prems(2) by simp
  moreover have "card (arrived_ids (ops @ [op])) \<le> tp_capacity st"
    using reaches_step.prems(6) reaches_capacity [OF reaches_step.hyps(1)] by simp
  ultimately show ?case
    using whole_step [OF reaches_ok [OF reaches_step.hyps(1) reaches_step.prems(1)] inv _ reaches_step.prems(5) _ reaches_step.hyps(2)]
    by blast
qed simp

lemma new_processor_whole:
  assumes "newTracesProcessor libs tag_ok num_cpu nc cfg = Ret (Inr st)"
  shows "known_spans st = {#} \<and> whole_inv [] st \<and> waiting_inv st \<and> tp_capacity st = unat (tc_num_traces cfg)"
  using new_processor_state [OF assms]
  by (auto simp: known_spans_def sent_spans_def held_spans_def flight_spans_def whole_inv_def waiting_inv_def arrived_ids_def)

text \<open>
  In any order of arrivals, ticks and decisions of any number of goroutines, the spans sent on are
  spans that arrived, each at most once.
\<close>

lemma sent_once:
  assumes "newTracesProcessor libs tag_ok num_cpu nc cfg = Ret (Inr st0)" and "reaches libs st0 ops st"
  shows "mset (sent_spans st) \<subseteq># mset (arrived_spans ops)"
proof -
  have "known_spans st \<subseteq># mset (arrived_spans ops)"
    using known_bounded [OF assms(2) new_processor_ok [OF assms(1)]] new_processor_whole [OF assms(1)] by simp
  moreover have "mset (sent_spans st) \<subseteq># known_spans st" by (simp add: known_spans_def add.assoc)
  ultimately show ?thesis by (meson subset_mset.order_trans)
qed

text \<open>
  C9: when no more traces arrive than the processor keeps, a trace is sent whole or not at all: once no spans
  of it are between the lookup and the locked section, a sampled trace has sent exactly
  the spans that arrived - before its decision, or late - and any other trace has sent none.
\<close>

theorem whole_traces:
  assumes "newTracesProcessor libs tag_ok num_cpu nc cfg = Ret (Inr st0)" and "reaches libs st0 ops st"
    and "well_keyed ops" and "card (arrived_ids ops) \<le> unat (tc_num_traces cfg)"
    and "tp_id_to_trace st k = Some a" and "flight_to a (tp_in_flight st) = {#}"
  shows "of_trace k (sent_spans st) =
    (if td_final (tp_store st ! a) = Sampled then of_trace k (arrived_spans ops) else {#})"
proof -
  have "whole_inv ops st"
    using reaches_whole [OF assms(2) new_processor_ok [OF assms(1)]] new_processor_whole [OF assms(1)] assms(3,4) by simp
  then have "whole (tp_store st ! a) (of_trace k (arrived_spans ops)) (of_trace k (sent_spans st)) (flight_to a (tp_in_flight st))"
    using assms(5) by (simp add: whole_inv_def)
  with assms(6) show ?thesis by (auto simp: whole_def split: if_splits)
qed

section \<open>ConsumeTraces as a run\<close>

text \<open>One call runs its groups one after the other: each arrives and is stored before the next.\<close>

definition group_ops :: "ot_span ot_resource \<Rightarrow> nat \<Rightarrow> (trace_id \<times> ot_span list) list \<Rightarrow> tail_op list" where
  "group_ops rss n gs = concat (map (\<lambda>(k, spans). [Arrive k rss spans, Append n]) gs)"

lemma arrive_in_flight: "arrive k rss spans st = Some (Ret st') \<Longrightarrow> length (tp_in_flight st') = Suc (length (tp_in_flight st))"
  by (erule arrive_cases) simp_all

lemma append_in_flight: "in_flight_done i st = Some st' \<Longrightarrow> Suc (length (tp_in_flight st')) = length (tp_in_flight st)"
  by (erule append_cases) (auto simp: append_spans_def Let_def)

lemma process_groups_run:
  "process_groups rss gs st = tail_run libs (group_ops rss (length (tp_in_flight st)) gs) st"
proof (induction rss gs st rule: process_groups.induct)
  case (2 rss k spans gs st)
  show ?case
  proof (cases "arrive k rss spans st")
    case None
    then show ?thesis by (simp add: group_ops_def exec_op_def)
  next
    case (Some r)
    show ?thesis
    proof (cases r)
      case Panic
      with Some show ?thesis by (simp add: group_ops_def exec_op_def)
    next
      case (Ret st1)
      have n: "length (tp_in_flight st1) - 1 = length (tp_in_flight st)"
        using arrive_in_flight Some Ret by fastforce
      show ?thesis
      proof (cases "in_flight_done (length (tp_in_flight st)) st1")
        case None
        with Some Ret n show ?thesis by (simp add: group_ops_def exec_op_def)
      next
        case s2: (Some st2)
        have "length (tp_in_flight st2) = length (tp_in_flight st)"
          using append_in_flight [OF s2] arrive_in_flight [of k rss spans st st1] Some Ret by simp
        with 2(1) [of "Ret st1" st1 st2] Some Ret n s2 show ?thesis by (simp add: group_ops_def exec_op_def)
      qed
    qed
  qed
qed (simp add: group_ops_def)

lemma group_ops_arrivals:
  "arrived_spans (group_ops rss n gs) = concat (map snd gs)" "arrived_ids (group_ops rss n gs) = fst ` set gs"
  "well_keyed (group_ops rss n gs) \<longleftrightarrow> list_all (\<lambda>(k, spans). list_all (\<lambda>s. os_trace_id s = k) spans) gs"
  by (induction gs) (auto simp: group_ops_def arrived_spans_def arrived_ids_def well_keyed_def)

text \<open>
  A call of \<open>processTraces\<close>, whatever the order in which it visits its map, is a run of arrivals
  and locked sections in which every span of the resource arrives once, with the spans of its own trace.
\<close>

lemma process_traces_run:
  assumes "mset (visit (groupSpansByTraceKey rss)) = mset (groupSpansByTraceKey rss)"
  shows "\<exists>ops. (\<forall>libs. processTraces visit rss st = tail_run libs ops st) \<and> well_keyed ops \<and>
    mset (arrived_spans ops) = mset (items [rss]) \<and> arrived_ids ops = os_trace_id ` set (items [rss])"
proof -
  let ?gs = "visit (groupSpansByTraceKey rss)" and ?spans = "concat (map scope_items (res_scopes rss))"
  let ?ops = "group_ops rss (length (tp_in_flight st)) ?gs"
  have items: "items [rss] = ?spans" by (simp add: items_def)
  have gs: "set ?gs = set (groupSpansByTraceKey rss)" using assms by (rule mset_eq_setD)
  have member: "(k, sps) \<in> set ?gs \<longleftrightarrow> sps = [s \<leftarrow> ?spans. os_trace_id s = k] \<and> sps \<noteq> []" for k sps
    unfolding gs by (simp add: groupSpansByTraceKey_def group_by_member)
  have "list_all (\<lambda>(k, spans). list_all (\<lambda>s. os_trace_id s = k) spans) ?gs"
    by (auto simp: list_all_iff member)
  then have "well_keyed ?ops" by (simp add: group_ops_arrivals)
  moreover have "mset (arrived_spans ?ops) = mset (items [rss])"
    using mset_concat_visit [OF assms, of snd] group_by_mset [of os_trace_id "\<lambda>s. s" ?spans "[]"]
    by (simp add: group_ops_arrivals items groupSpansByTraceKey_def)
  moreover have "arrived_ids ?ops = os_trace_id ` set (items [rss])"
  proof -
    have "k \<in> fst ` set ?gs \<longleftrightarrow> k \<in> os_trace_id ` set ?spans" for k
    proof -
      have "k \<in> fst ` set ?gs \<longleftrightarrow> (\<exists>sps. (k, sps) \<in> set ?gs)" by force
      also have "\<dots> \<longleftrightarrow> [s \<leftarrow> ?spans. os_trace_id s = k] \<noteq> []" by (simp only: member simp_thms)
      also have "\<dots> \<longleftrightarrow> k \<in> os_trace_id ` set ?spans" unfolding filter_empty_conv by blast
      finally show ?thesis .
    qed
    then have "fst ` set ?gs = os_trace_id ` set ?spans" by blast
    then show ?thesis unfolding group_ops_arrivals items .
  qed
  moreover have "\<forall>libs. processTraces visit rss st = tail_run libs ?ops st"
    by (simp add: processTraces_def process_groups_run)
  ultimately show ?thesis by blast
qed


section \<open>Every trace is decided\<close>

text \<open>
  Where the trace \<open>k\<close> with data \<open>a\<close> is, \<open>n\<close> ticks before its judgement: in the batch being built, in
  the pipe, or with the ticker.
\<close>

definition decided :: "trace_id \<Rightarrow> nat \<Rightarrow> 'c tail_state \<Rightarrow> bool" where
  "decided k a st \<longleftrightarrow> tp_id_to_trace st k \<noteq> Some a \<or> td_final (tp_store st ! a) \<noteq> Unspecified"

definition ticks_left :: "trace_id \<Rightarrow> nat \<Rightarrow> nat \<Rightarrow> 'c tail_state \<Rightarrow> bool" where
  "ticks_left k a n st \<longleftrightarrow>
     decided k a st \<or>
     (case n of
        0 \<Rightarrow> k \<in> set (tp_deciding st) \<or> (\<exists>d m. tp_judged st = Some (a, d, m))
      | Suc i \<Rightarrow> i < length (bt_batches (tp_batcher st)) \<and> k \<in> set (bt_batches (tp_batcher st) ! i) \<or>
                 i = length (bt_batches (tp_batcher st)) \<and> k \<in> set (bt_current (tp_batcher st)))"

definition is_tick :: "tail_op \<Rightarrow> bool" where
  "is_tick op = (case op of Tick \<Rightarrow> True | _ \<Rightarrow> False)"

lemma decided_step:
  assumes ok: "tail_ok st" and "a < length (tp_store st)" and "decided k a st" and "exec_op libs op st = Some (Ret st')"
  shows "decided k a st'"
proof (cases op)
  case (Arrive k' rss spans)
  with assms(4) have "arrive k' rss spans st = Some (Ret st')" by (simp add: exec_op_def)
  then show ?thesis
  proof (cases rule: arrive_cases)
    case (known b)
    with assms(3) show ?thesis by (auto simp: decided_def final_update)
  next
    case (fresh b m n q)
    let ?st1 = "st\<lparr>tp_store := tp_store st @ [new_trace_data (length (tp_policies st)) (length spans)],
        tp_id_to_trace := (tp_id_to_trace st)(k' \<mapsto> length (tp_store st)), tp_batcher := b,
        tp_num_traces := tp_num_traces st + 1\<rparr>"
    have q: "distinct (k' # tp_delete st)" "set (k' # tp_delete st) = dom (tp_id_to_trace ?st1)"
      "tp_num_traces ?st1 = of_nat (Suc (length (tp_delete st)))" "length (tp_delete st) \<le> tp_capacity ?st1"
      using ok fresh(1) by (auto simp: tail_ok_def)
    have le: "m \<subseteq>\<^sub>m (tp_id_to_trace st)(k' \<mapsto> length (tp_store st))" using delete_loop_map [OF fresh(3) q] by simp
    have "tp_id_to_trace st k = Some a" if mk: "m k = Some a"
    proof -
      have "((tp_id_to_trace st)(k' \<mapsto> length (tp_store st))) k = Some a" using le mk by (metis domI map_le_def)
      with assms(2) show ?thesis by (auto split: if_splits)
    qed
    with assms(2,3) show ?thesis unfolding fresh(4) by (auto simp: decided_def nth_append)
  qed
next
  case (Append i)
  with assms(4) have "in_flight_done i st = Some st'" by (auto simp: exec_op_def)
  then show ?thesis
  proof (cases rule: append_cases)
    case (1 b rss spans)
    with assms(2,3) show ?thesis by (auto simp: decided_def append_spans_def Let_def final_update)
  qed
next
  case (Judge clock)
  with assms(4) have "judge libs clock st = Some st'" by (auto simp: exec_op_def)
  then show ?thesis
  proof (cases rule: judge_cases)
    case (judged k' ks b final matching ds ps)
    with assms(3) show ?thesis by (auto simp: decided_def final_update)
  qed (use assms(3) in \<open>simp add: decided_def\<close>)
next
  case Take
  with assms(4) have "take_spans st = Some st'" by (auto simp: exec_op_def)
  then show ?thesis
  proof (cases rule: take_cases)
    case (1 b final matching)
    with ok have "final \<noteq> Unspecified" by (auto simp: tail_ok_def judged_entry_ok_def)
    with 1 assms(2,3) show ?thesis by (cases "b = a") (auto simp: decided_def Let_def)
  qed
qed (use assms(3,4) in \<open>auto simp: exec_op_def decided_def tick_def bind_outcome_Ret_iff split: if_splits option.splits\<close>)

lemma exec_op_store: "exec_op libs op st = Some (Ret st') \<Longrightarrow> length (tp_store st) \<le> length (tp_store st')"
proof (cases op)
  case (Arrive k rss spans)
  assume "exec_op libs op st = Some (Ret st')"
  with Arrive have "arrive k rss spans st = Some (Ret st')" by (simp add: exec_op_def)
  then show ?thesis by (cases rule: arrive_cases) auto
qed (auto simp: exec_op_def in_flight_done_def append_spans_def tick_def judge_def take_spans_def bind_outcome_Ret_iff
    Let_def split: if_splits option.splits list.splits prod.splits)

lemma ticks_left_tick:
  assumes "tick st = Some st'" and "\<not> bt_stopped (tp_batcher st)" and "ticks_left k a n st"
  shows "ticks_left k a (n - 1) st'"
proof -
  from assms(1) obtain batch mr b where b: "close_current_and_take_first_batch (tp_batcher st) = Some ((batch, mr), b)"
    and d: "tp_deciding st = []" "tp_judged st = None" and st': "st' = st\<lparr>tp_batcher := b, tp_deciding := batch\<rparr>"
    by (rule tick_cases)
  obtain rest where q: "bt_batches (tp_batcher st) = batch # rest"
    and b': "b = (tp_batcher st)\<lparr>bt_batches := rest @ [bt_current (tp_batcher st)], bt_current := []\<rparr>"
    using b assms(2) by (auto simp: close_current_and_take_first_batch_def split: list.splits)
  have dec: "decided k a st' = decided k a st" by (simp add: st' decided_def)
  show ?thesis
  proof (cases "decided k a st")
    case False
    with assms(3) d obtain i where n: "n = Suc i" and
      "i < Suc (length rest) \<and> k \<in> set ((batch # rest) ! i) \<or> i = Suc (length rest) \<and> k \<in> set (bt_current (tp_batcher st))"
      by (auto simp: ticks_left_def q split: nat.splits)
    then show ?thesis
      by (cases i) (auto simp: ticks_left_def st' b' nth_append)
  qed (simp add: ticks_left_def dec)
qed

lemma ticks_left_step:
  assumes ok: "tail_ok st" and a: "a < length (tp_store st)" and left: "ticks_left k a n st"
    and step: "exec_op libs op st = Some (Ret st')" and run: "\<not> bt_stopped (tp_batcher st')"
  shows "ticks_left k a (if is_tick op then n - 1 else n) st'"
proof (cases "decided k a st")
  case True
  with decided_step [OF ok a _ step] show ?thesis by (simp add: ticks_left_def)
next
  case False
  then have on: "tp_id_to_trace st k = Some a" "td_final (tp_store st ! a) = Unspecified" by (auto simp: decided_def)
  show ?thesis
  proof (cases op)
    case (Arrive k' rss spans)
    with step have "arrive k' rss spans st = Some (Ret st')" by (simp add: exec_op_def)
    then show ?thesis
    proof (cases rule: arrive_cases)
      case (known b)
      with left Arrive show ?thesis by (auto simp: ticks_left_def decided_def is_tick_def final_update split: nat.splits)
    next
      case (fresh b m n' q)
      have "bt_batches b = bt_batches (tp_batcher st)" "bt_current b = bt_current (tp_batcher st)"
        using fresh(2) by (auto simp: add_to_current_batch_def split: if_splits)
      with left False Arrive show ?thesis unfolding fresh(4) by (auto simp: ticks_left_def is_tick_def split: nat.splits)
    qed
  next
    case (Append i)
    with step have "in_flight_done i st = Some st'" by (auto simp: exec_op_def)
    then show ?thesis
    proof (cases rule: append_cases)
      case (1 b rss spans)
      have same: "tp_batcher st' = tp_batcher st" "tp_deciding st' = tp_deciding st" "tp_judged st' = tp_judged st"
        using 1(3) by (auto simp: append_spans_def Let_def)
      with left False Append show ?thesis by (simp add: ticks_left_def is_tick_def split: nat.splits)
    qed
  next
    case Pump
    with step obtain b where b: "bt_pump (tp_batcher st) = Some b" "st' = st\<lparr>tp_batcher := b\<rparr>" by (auto simp: exec_op_def)
    then have "bt_batches b = bt_batches (tp_batcher st)" "set (bt_current (tp_batcher st)) \<subseteq> set (bt_current b)"
      by (auto simp: bt_pump_def split: list.splits)
    with left False Pump b show ?thesis by (auto simp: ticks_left_def is_tick_def decided_def split: nat.splits)
  next
    case Tick
    with step have t: "tick st = Some st'" by (auto simp: exec_op_def)
    then have "bt_stopped (tp_batcher st') = bt_stopped (tp_batcher st)"
      by (auto simp: tick_def dest: take_ids_ok(3) split: if_splits option.splits)
    with ticks_left_tick [OF t _ left] run Tick show ?thesis by (simp add: is_tick_def)
  next
    case (Judge clock)
    with step have "judge libs clock st = Some st'" by (auto simp: exec_op_def)
    then show ?thesis
    proof (cases rule: judge_cases)
      case (gone k' ks)
      with left False on Judge show ?thesis by (auto simp: ticks_left_def is_tick_def split: nat.splits)
    next
      case (judged k' ks b final matching ds ps)
      then show ?thesis using left False on Judge
        by (cases "k' = k") (auto simp: ticks_left_def is_tick_def split: nat.splits)
    qed
  next
    case Take
    with step have "take_spans st = Some st'" by (auto simp: exec_op_def)
    then show ?thesis
    proof (cases rule: take_cases)
      case (1 b final matching)
      have f: "final \<noteq> Unspecified" using ok 1(1) by (auto simp: tail_ok_def judged_entry_ok_def)
      have same: "tp_batcher st' = tp_batcher st" "tp_deciding st' = tp_deciding st"
        unfolding 1(2) by (simp_all add: Let_def)
      have "decided k a st'" if "b = a" unfolding 1(2) using that a f by (simp add: decided_def Let_def)
      with 1(1) left False same Take show ?thesis by (auto simp: ticks_left_def is_tick_def split: nat.splits)
    qed
  qed (use left step False in \<open>auto simp: exec_op_def ticks_left_def decided_def is_tick_def bind_outcome_Ret_iff
      bt_stop_def split: nat.splits if_splits\<close>)
qed

lemma stopped_stays:
  assumes "exec_op libs op st = Some (Ret st')" and "bt_stopped (tp_batcher st)"
  shows "bt_stopped (tp_batcher st')"
proof (cases op)
  case (Arrive k rss spans)
  with assms(1) have "arrive k rss spans st = Some (Ret st')" by (simp add: exec_op_def)
  then show ?thesis using assms(2) by (cases rule: arrive_cases) (auto simp: add_to_current_batch_def)
next
  case Pump
  with assms show ?thesis by (auto simp: exec_op_def dest: pump_keeps)
next
  case Tick
  with assms show ?thesis by (auto simp: exec_op_def tick_def dest: take_ids_ok(3) split: if_splits option.splits)
next
  case StopBatcher
  with assms show ?thesis by (simp add: exec_op_def bt_stop_def)
qed (use assms in \<open>auto simp: exec_op_def in_flight_done_def append_spans_def judge_def take_spans_def
    Let_def split: if_splits option.splits list.splits prod.splits\<close>)

lemma ticks_left_run:
  assumes "reaches libs st ops st'" and "tail_ok st" and "a < length (tp_store st)" and "ticks_left k a n st"
    and "\<not> bt_stopped (tp_batcher st')"
  shows "ticks_left k a (n - length (filter is_tick ops)) st' \<and> a < length (tp_store st')"
  using assms
proof (induction rule: reaches.induct)
  case (reaches_step ops st1 op st')
  have run: "\<not> bt_stopped (tp_batcher st1)" using stopped_stays [OF reaches_step.hyps(2)] reaches_step.prems(4) by blast
  have ih: "ticks_left k a (n - length (filter is_tick ops)) st1" "a < length (tp_store st1)"
    using reaches_step.IH reaches_step.prems run by blast+
  have "tail_ok st1" using reaches_ok reaches_step by blast
  from ticks_left_step [OF this ih(2,1) reaches_step.hyps(2) reaches_step.prems(4)]
    exec_op_store [OF reaches_step.hyps(2)] ih(2)
  show ?case by (auto split: if_splits)
qed simp

text \<open>
  C21: while the processor runs, a trace in the batch being built is judged after as many ticks as the pipe
  has batches and one more, and its decision is taken before the tick after that -
  whatever arrives in the meantime, unless the trace has been dropped for new ones.
\<close>

theorem trace_decided_in_time:
  assumes "newTracesProcessor libs tag_ok num_cpu nc cfg = Ret (Inr st0)" and "reaches libs st0 ops0 st"
    and "tp_id_to_trace st k = Some a" and "k \<in> set (bt_current (tp_batcher st))"
    and "reaches libs st ops st'" and "\<not> bt_stopped (tp_batcher st')"
    and "length (bt_batches (tp_batcher st)) + 1 \<le> length (filter is_tick ops)"
    and "tp_deciding st' = []" and "tp_judged st' = None"
  shows "tp_id_to_trace st' k \<noteq> Some a \<or> td_final (tp_store st' ! a) \<in> {Sampled, NotSampled}"
proof -
  have ok: "tail_ok st" using reaches_ok [OF assms(2) new_processor_ok [OF assms(1)]] .
  have ok': "tail_ok st'" using reaches_ok [OF assms(5) ok] .
  have a: "a < length (tp_store st)" using ok assms(3) by (auto simp: tail_ok_def ran_def)
  have "ticks_left k a (length (bt_batches (tp_batcher st)) + 1) st" using assms(4) by (simp add: ticks_left_def)
  from ticks_left_run [OF assms(5) ok a this assms(6)]
  have "ticks_left k a 0 st'" "a < length (tp_store st')" using assms(7) by simp_all
  then have "decided k a st'" using assms(8,9) by (simp add: ticks_left_def)
  moreover have "td_final (tp_store st' ! a) \<in> {Unspecified, Sampled, NotSampled}"
    using ok' \<open>a < length (tp_store st')\<close> by (auto simp: tail_ok_def trace_ok_def dest: list_all_nth)
  ultimately show ?thesis by (auto simp: decided_def)
qed


section \<open>Shutdown\<close>

text \<open>
  \<open>Shutdown\<close> does not flush: once the ticker has stopped and its last batch is through, a trace that
  is undecided stays undecided, and no spans but late ones of traces sampled before are sent on.
\<close>

lemma shutdown_keeps_undecided:
  assumes "tail_ok st" and "\<not> tp_ticking st" and "tp_deciding st = []" and "tp_judged st = None"
    and "reaches libs st ops st'" and "StartTicker \<notin> set ops"
    and "tp_id_to_trace st k = Some a" and "td_final (tp_store st ! a) = Unspecified"
  shows "td_final (tp_store st' ! a) = Unspecified \<and> (\<exists>late. tp_sent st' = tp_sent st @ late \<and> list_all (\<lambda>s. fst s = None) late)"
proof -
  have a: "a < length (tp_store st)" using assms(1,7) by (auto simp: tail_ok_def ran_def)
  have "\<not> tp_ticking st' \<and> tp_deciding st' = [] \<and> tp_judged st' = None \<and> a < length (tp_store st') \<and>
      td_final (tp_store st' ! a) = Unspecified \<and> (\<exists>late. tp_sent st' = tp_sent st @ late \<and> list_all (\<lambda>s. fst s = None) late)"
    using assms(5,6)
  proof (induction rule: reaches.induct)
    case reaches_refl
    with assms(2-4,8) a show ?case by simp
  next
    case (reaches_step ops st1 op st')
    then obtain late where ih: "\<not> tp_ticking st1" "tp_deciding st1 = []" "tp_judged st1 = None" "a < length (tp_store st1)"
      "td_final (tp_store st1 ! a) = Unspecified" "tp_sent st1 = tp_sent st @ late" "list_all (\<lambda>s. fst s = None) late"
      by auto
    show ?case
    proof (cases op)
      case (Arrive k rss spans)
      with reaches_step.hyps(2) have "arrive k rss spans st1 = Some (Ret st')" by (simp add: exec_op_def)
      then show ?thesis using ih by (cases rule: arrive_cases) (auto simp: final_update nth_append)
    next
      case (Append i)
      with reaches_step.hyps(2) have "in_flight_done i st1 = Some st'" by (auto simp: exec_op_def)
      then show ?thesis using ih by (cases rule: append_cases) (auto simp: append_spans_def Let_def final_update)
    qed (use reaches_step.hyps(2) reaches_step.prems ih in
        \<open>auto simp: exec_op_def tick_def judge_def take_spans_def bind_outcome_Ret_iff split: option.splits list.splits\<close>)
  qed
  then show ?thesis by blast
qed

section \<open>A sample run\<close>

definition errors_cfg :: policy_cfg where
  "errors_cfg =
     \<lparr>pc_name = ''errors'', pc_type = ''status_code'', pc_threshold_ms = 0,
      pc_numeric_attribute = \<lparr>na_key = [], na_min_value = 0, na_max_value = 0\<rparr>,
      pc_probabilistic = \<lparr>pb_hash_salt = [], pb_sampling_percentage = 0\<rparr>, pc_status_codes = [''ERROR''],
      pc_string_attribute = \<lparr>sa_key = [], sa_values = [], sa_enabled_regex_matching = False, sa_cache_max_size = 0,
        sa_invert_match = False\<rparr>,
      pc_spans_per_second = 0, pc_span_count = \<lparr>sc_min_spans = 0, sc_max_spans = 0\<rparr>,
      pc_trace_state = \<lparr>ts_key = [], ts_values = []\<rparr>, pc_boolean_attribute = \<lparr>ba_key = [], ba_value = False\<rparr>,
      pl_composite = \<lparr>cc_max_total_spans_per_second = 0, cc_policy_order = [], cc_sub_policy = [], cc_rate_allocation = []\<rparr>,
      pl_and = []\<rparr>"

definition sample_tail_cfg :: tail_cfg where
  "sample_tail_cfg = \<lparr>tc_decision_wait = 1000000000, tc_num_traces = 2, tc_expected_new_traces_per_sec = 0, tc_policies = [errors_cfg]\<rparr>"

definition sample_start :: "(nat \<times> (string \<times> bool) list) tail_state" where
  "sample_start =
     \<lparr>tp_policies = [(''errors'', Single (StatusCode [StatusError]))], tp_store = [], tp_id_to_trace = Map.empty, tp_num_traces = 0,
      tp_batcher = \<lparr>bt_pending = [], bt_batches = [[]], bt_current = [], bt_stopped = False\<rparr>, tp_delete = [],
      tp_capacity = 2, tp_ticking = False, tp_in_flight = [], tp_deciding = [], tp_judged = None, tp_sent = []\<rparr>"

lemma duration_one_second: "f_to_int (duration_seconds 1000000000) = 1"
proof -
  have z: "f_of_int 0 = 0" by (simp add: f_of_int_def f_round_def round_mag_def of_mag_def)
  have zero: "f_mag 0 = 0" "f_neg 0 = False" "mag_value 0 = 0"
    by (simp_all add: f_mag_def f_neg_def mag_value_def)
  have billion: "\<not> f_nan (f_of_int 1000000000) \<and> \<not> f_inf (f_of_int 1000000000) \<and> \<not> f_zero (f_of_int 1000000000) \<and>
      \<not> f_neg (f_of_int 1000000000)" by code_simp
  have one: "\<not> f_nan (f_of_int 1) \<and> \<not> f_inf (f_of_int 1) \<and> \<not> f_neg (f_of_int 1) \<and> mag_value (f_mag (f_of_int 1)) = 1 \<and>
      f_round False 1 = f_of_int 1 \<and> f_to_int (f_of_int 1) = 1" by code_simp
  have "f_div 0 (f_of_int 1000000000) = 0"
    using billion zero by (simp add: f_div_def f_nan_def f_inf_def f_zero_def inf_mag_def f_round_def round_mag_def of_mag_def)
  then have "duration_seconds 1000000000 = f_add (f_of_int 1) 0"
    by (simp add: duration_seconds_def z)
  also have "\<dots> = f_of_int 1"
    using one zero by (simp add: f_add_def f_nan_def f_inf_def inf_mag_def f_value_def Let_def)
  finally show ?thesis using one by simp
qed

lemma sample_start_new:
  "newTracesProcessor sample_libs (\<lambda>t. True) 1 True sample_tail_cfg = Ret (Inr sample_start)"
  by (simp add: duration_one_second newTracesProcessor_def sample_tail_cfg_def new_batcher_def makechan_ok_def errors_cfg_def
        getPolicyEvaluator_def getSharedPolicyEvaluator_def NewStatusCodeFilter_def sample_start_def)

definition id1 :: trace_id where "id1 = replicate 16 1"

definition early_span :: ot_span where "early_span = error_span\<lparr>os_trace_id := id1\<rparr>"
definition late_span :: ot_span where "late_span = empty_span\<lparr>os_trace_id := id1\<rparr>"

definition ops_before :: "tail_op list" where
  "ops_before = [StartTicker, Arrive id1 empty_resource [early_span], Append 0, Pump]"

definition ops_deciding :: "tail_op list" where
  "ops_deciding = [Tick, Tick, Judge (\<lambda>p. 7), Take]"

definition ops_late :: "tail_op list" where
  "ops_late = [Arrive id1 empty_resource [late_span], Append 0]"

definition sample_mid :: "(nat \<times> (string \<times> bool) list) tail_state" where
  "sample_mid = sample_start
     \<lparr>tp_ticking := True, tp_id_to_trace := [id1 \<mapsto> 0], tp_num_traces := 1, tp_delete := [id1],
      tp_store := [(new_trace_data 1 1)\<lparr>td_received := appendToTraces [] empty_resource [early_span]\<rparr>],
      tp_batcher := \<lparr>bt_pending = [], bt_batches = [[]], bt_current = [id1], bt_stopped = False\<rparr>\<rparr>"

definition sample_decided :: "(nat \<times> (string \<times> bool) list) tail_state" where
  "sample_decided = sample_mid
     \<lparr>tp_store := [(new_trace_data 1 1)\<lparr>td_decisions := [Sampled], td_final := Sampled\<rparr>],
      tp_batcher := \<lparr>bt_pending = [], bt_batches = [[]], bt_current = [], bt_stopped = False\<rparr>,
      tp_sent := [(Some ''errors'', appendToTraces [] empty_resource [early_span])]\<rparr>"

lemma run_before: "tail_run sample_libs ops_before sample_start = Some (Ret sample_mid)"
  by (simp add: ops_before_def sample_start_def sample_mid_def exec_op_def arrive_def add_to_current_batch_def
      new_trace_data_def in_flight_done_def append_spans_def bt_pump_def)

lemma run_deciding: "tail_run sample_libs ops_deciding sample_mid = Some (Ret sample_decided)"
  by (simp add: ops_deciding_def sample_start_def sample_mid_def sample_decided_def exec_op_def tick_def judge_def
      take_spans_def close_current_and_take_first_batch_def makeDecision_def record_decision_def final_decision_def
      evaluate_single_def status_evaluate_def pure_check_def early_span_def error_span_def new_trace_data_def
      appendToTraces_def items_def empty_resource_def empty_scope_def)

lemma run_late:
  "\<exists>st. tail_run sample_libs ops_late sample_decided = Some (Ret st) \<and>
     sent_spans st = [early_span, late_span] \<and> tp_id_to_trace st id1 = Some 0 \<and> tp_in_flight st = [] \<and>
     td_final (tp_store st ! 0) = Sampled \<and> tp_delete st = [id1] \<and> tp_num_traces st = 1"
  by (simp add: ops_late_def sample_start_def sample_mid_def sample_decided_def exec_op_def arrive_def
      new_trace_data_def in_flight_done_def append_spans_def sent_spans_def)


lemma sample_reaches:
  "reaches sample_libs sample_start ops_before sample_mid" "reaches sample_libs sample_mid ops_deciding sample_decided"
  "reaches sample_libs sample_start (ops_before @ ops_deciding) sample_decided"
  using run_reaches [OF reaches_refl run_before] run_reaches [OF reaches_refl run_deciding]
    run_reaches [OF run_reaches [OF reaches_refl run_before] run_deciding] by simp_all

lemma sample_late:
  obtains st where "reaches sample_libs sample_start (ops_before @ ops_deciding @ ops_late) st"
    and "sent_spans st = [early_span, late_span]" and "tp_id_to_trace st id1 = Some 0" and "tp_in_flight st = []"
    and "td_final (tp_store st ! 0) = Sampled" and "tp_delete st = [id1]" and "tp_num_traces st = 1"
  using run_late run_reaches [OF sample_reaches(3)] by (metis append_assoc)

lemma sample_ops_facts:
  "well_keyed (ops_before @ ops_deciding @ ops_late)" "arrived_ids (ops_before @ ops_deciding @ ops_late) = {id1}"
  "arrived_spans (ops_before @ ops_deciding @ ops_late) = [early_span, late_span]"
  by (simp_all add: ops_before_def ops_deciding_def ops_late_def well_keyed_def arrived_ids_def arrived_spans_def
      early_span_def late_span_def)

lemma sent_once_witness:
  "\<exists>st ops. reaches sample_libs sample_start ops st \<and> sent_spans st = [early_span, late_span] \<and>
     mset (sent_spans st) \<subseteq># mset (arrived_spans ops)"
proof -
  obtain st where "reaches sample_libs sample_start (ops_before @ ops_deciding @ ops_late) st"
    and "sent_spans st = [early_span, late_span]" by (rule sample_late)
  with sent_once [OF sample_start_new] show ?thesis by blast
qed

theorem whole_traces_witness:
  "\<exists>st ops. reaches sample_libs sample_start ops st \<and> of_trace id1 (sent_spans st) = of_trace id1 (arrived_spans ops) \<and>
     arrived_spans ops = [early_span, late_span]"
proof -
  obtain st where r: "reaches sample_libs sample_start (ops_before @ ops_deciding @ ops_late) st"
    and f: "tp_id_to_trace st id1 = Some 0" "tp_in_flight st = []" "td_final (tp_store st ! 0) = Sampled"
    by (rule sample_late)
  have "card (arrived_ids (ops_before @ ops_deciding @ ops_late)) \<le> unat (tc_num_traces sample_tail_cfg)"
    by (simp add: sample_ops_facts sample_tail_cfg_def)
  from whole_traces [OF sample_start_new r sample_ops_facts(1) this f(1)] f(2,3)
  have "of_trace id1 (sent_spans st) = of_trace id1 (arrived_spans (ops_before @ ops_deciding @ ops_late))" by simp
  with r sample_ops_facts(3) show ?thesis by blast
qed

theorem trace_decided_in_time_witness:
  "\<exists>st st' ops. reaches sample_libs sample_start ops_before st \<and> id1 \<in> set (bt_current (tp_batcher st)) \<and>
     reaches sample_libs st ops st' \<and> length (filter is_tick ops) = 2 \<and> td_final (tp_store st' ! 0) = Sampled"
proof -
  have f: "tp_id_to_trace sample_mid id1 = Some 0" "id1 \<in> set (bt_current (tp_batcher sample_mid))"
    "\<not> bt_stopped (tp_batcher sample_decided)" "tp_id_to_trace sample_decided id1 = Some 0"
    "length (bt_batches (tp_batcher sample_mid)) + 1 \<le> length (filter is_tick ops_deciding)"
    "tp_deciding sample_decided = []" "tp_judged sample_decided = None"
    "length (filter is_tick ops_deciding) = 2" "td_final (tp_store sample_decided ! 0) \<noteq> NotSampled"
    by (simp_all add: sample_mid_def sample_decided_def sample_start_def ops_deciding_def is_tick_def new_trace_data_def)
  have "td_final (tp_store sample_decided ! 0) = Sampled"
    using trace_decided_in_time [OF sample_start_new sample_reaches(1) f(1,2) sample_reaches(2) f(3,5,6,7)] f(4,9) by auto
  with sample_reaches f(2,8) show ?thesis by blast
qed

lemma process_traces_run_witness:
  "\<exists>ops. processTraces rev (empty_resource\<lparr>res_scopes := [empty_scope\<lparr>scope_items := [early_span, empty_span]\<rparr>]\<rparr>) sample_start =
       tail_run sample_libs ops sample_start \<and> mset (arrived_spans ops) = {# early_span, empty_span #}"
proof -
  let ?r = "empty_resource\<lparr>res_scopes := [empty_scope\<lparr>scope_items := [early_span, empty_span]\<rparr>]\<rparr>"
  have "mset (rev (groupSpansByTraceKey ?r)) = mset (groupSpansByTraceKey ?r)" by simp
  from process_traces_run [where visit = rev and rss = ?r and st = sample_start, OF this]
  show ?thesis by (auto simp: items_def)
qed

definition sample_stopped :: "(nat \<times> (string \<times> bool) list) tail_state" where
  "sample_stopped = sample_mid\<lparr>tp_ticking := False\<rparr>"

lemma shutdown_keeps_undecided_witness:
  "\<exists>st'. reaches sample_libs sample_stopped ops_late st' \<and> td_final (tp_store st' ! 0) = Unspecified \<and>
     held_spans st' = [early_span, late_span] \<and> tp_sent st' = []"
proof -
  have "\<exists>st'. tail_run sample_libs ops_late sample_stopped = Some (Ret st') \<and> held_spans st' = [early_span, late_span] \<and> tp_sent st' = []"
    by (simp add: ops_late_def sample_start_def sample_mid_def sample_stopped_def exec_op_def arrive_def
        new_trace_data_def in_flight_done_def append_spans_def held_spans_def)
  then obtain st' where r: "reaches sample_libs sample_stopped ops_late st'"
    and h: "held_spans st' = [early_span, late_span]" "tp_sent st' = []"
    using run_reaches [OF reaches_refl] by (metis append_Nil)
  have ok: "tail_ok sample_stopped"
    using reaches_ok [OF sample_reaches(1) new_processor_ok [OF sample_start_new]]
    by (simp add: sample_stopped_def tail_ok_def)
  have f: "\<not> tp_ticking sample_stopped" "tp_deciding sample_stopped = []" "tp_judged sample_stopped = None"
    "StartTicker \<notin> set ops_late" "tp_id_to_trace sample_stopped id1 = Some 0"
    "td_final (tp_store sample_stopped ! 0) = Unspecified"
    by (simp_all add: sample_stopped_def sample_mid_def sample_start_def ops_late_def new_trace_data_def)
  from shutdown_keeps_undecided [OF ok f(1-3) r f(4-6)] r h show ?thesis by blast
qed

lemma traces_bounded_witness:
  "\<exists>st ops. reaches sample_libs sample_start ops st \<and> tp_delete st = [id1] \<and> dom (tp_id_to_trace st) = {id1} \<and> tp_num_traces st = 1"
proof -
  obtain st where r: "reaches sample_libs sample_start (ops_before @ ops_deciding @ ops_late) st"
    and f: "tp_delete st = [id1]" by (rule sample_late)
  from traces_bounded [OF sample_start_new r]
  have "set (tp_delete st) = dom (tp_id_to_trace st)" "tp_num_traces st = of_nat (card (dom (tp_id_to_trace st)))"
    by blast+
  then have d: "dom (tp_id_to_trace st) = {id1}" unfolding f by simp
  moreover have "tp_num_traces st = 1" using \<open>tp_num_traces st = of_nat (card (dom (tp_id_to_trace st)))\<close> d by simp
  ultimately show ?thesis using r f by blast
qed


end
