(* ===== verification/ConsistentHash.thy ===== *)
theory ConsistentHash
  imports Aes
begin

text \<open>
  \<open>exporter/loadbalancingexporter/consistent_hashing.go\<close> of the bundled contrib module: the ring
  on which the load-balancing exporter places its backends, and the search for the backend of an
  identifier.  The checksum is the IEEE CRC-32 of \<open>hash/crc32\<close>, computed bit by bit.  An index
  out of range of the search is \<open>Panic\<close>; a nil ring is \<open>None\<close>.
\<close>

section \<open>The checksum\<close>

text \<open>\<open>crc32.NewIEEE\<close>, \<open>Write\<close> and \<open>Sum32\<close>, with the reversed polynomial.\<close>

definition crc_bit :: "u32 \<Rightarrow> u32" where
  "crc_bit c = (if bit c 0 then drop_bit 1 c XOR 0xEDB88320 else drop_bit 1 c)"

definition crc_byte :: "byte \<Rightarrow> u32 \<Rightarrow> u32" where
  "crc_byte b c = (crc_bit ^^ 8) (c XOR ucast b)"

definition crc32 :: "byte list \<Rightarrow> u32" where
  "crc32 bs = NOT (fold crc_byte bs (NOT 0))"

section \<open>The ring\<close>

definition maxPositions :: u32 where "maxPositions = 36000"
definition defaultWeight :: nat where "defaultWeight = 100"

record ring_item =
  ri_pos :: u32
  ri_endpoint :: string

type_synonym hash_ring = "ring_item list"

definition positionsFor :: "string \<Rightarrow> nat \<Rightarrow> u32 list" where
  "positionsFor endpoint numPoints =
     map (\<lambda>i. crc32 (bytes_of endpoint @ [word_of_nat i]) mod maxPositions) [0..<numPoints]"

text \<open>The inner loop, over the positions of one endpoint, with the map of the used positions.\<close>

definition place_point ::
    "string \<Rightarrow> u32 \<Rightarrow> (u32 \<Rightarrow> bool) \<times> hash_ring \<Rightarrow> (u32 \<Rightarrow> bool) \<times> hash_ring" where
  "place_point endpoint pos st =
     (if fst st pos then st
      else ((fst st)(pos := True), snd st @ [\<lparr>ri_pos = pos, ri_endpoint = endpoint\<rparr>]))"

definition place_endpoint ::
    "nat \<Rightarrow> string \<Rightarrow> (u32 \<Rightarrow> bool) \<times> hash_ring \<Rightarrow> (u32 \<Rightarrow> bool) \<times> hash_ring" where
  "place_endpoint weight endpoint st = fold (place_point endpoint) (positionsFor endpoint weight) st"

text \<open>
  \<open>sort.Slice\<close> is not stable, but the positions are distinct (\<open>ring_keys\<close> below), so that the
  sorted slice is unique.
\<close>

definition positionsForEndpoints :: "string list \<Rightarrow> nat \<Rightarrow> hash_ring" where
  "positionsForEndpoints endpoints weight =
     sort_key ri_pos (snd (fold (place_endpoint weight) endpoints (\<lambda>_. False, [])))"

definition newHashRing :: "string list \<Rightarrow> hash_ring" where
  "newHashRing endpoints = positionsForEndpoints endpoints defaultWeight"

section \<open>The search\<close>

function bsearch :: "u32 \<Rightarrow> ring_item list \<Rightarrow> ring_item list \<Rightarrow> ring_item outcome" where
  "bsearch pos left right =
     (if left = [] then Panic
      else if ri_pos (last left) = pos then Ret (last left)
      else if right = [] then Panic
      else if ri_pos (hd right) = pos then Ret (hd right)
      else if ri_pos (last right) < pos then Ret (hd left)
      else if ri_pos (last left) < pos then
        (let n = length right in
         if n = 1 then Ret (hd right)
         else bsearch pos (take (n div 2) right) (drop (n div 2) right))
      else
        (let n = length left in
         if n = 1 then Ret (hd left)
         else bsearch pos (take (n div 2) left) (drop (n div 2) left)))"
  by pat_completeness auto
termination
  by (relation "measure (\<lambda>(pos, left, right). length left + length right)")
    (auto simp: length_greater_0_conv [symmetric] simp del: length_greater_0_conv)

declare bsearch.simps [simp del]

definition findEndpoint :: "u32 \<Rightarrow> hash_ring \<Rightarrow> string outcome" where
  "findEndpoint pos ring =
     (let n = length ring in
      if n = 0 then Ret []
      else bind_outcome (bsearch pos (take (n div 2) ring) (drop (n div 2) ring)) (\<lambda>i. Ret (ri_endpoint i)))"

definition endpointFor :: "byte list \<Rightarrow> hash_ring option \<Rightarrow> string outcome" where
  "endpointFor identifier h =
     (case h of
        None \<Rightarrow> Ret []
      | Some ring \<Rightarrow> findEndpoint (crc32 identifier mod maxPositions) ring)"

definition ring_equal :: "hash_ring \<Rightarrow> hash_ring option \<Rightarrow> bool" where
  "ring_equal h candidate =
     (case candidate of
        None \<Rightarrow> False
      | Some c \<Rightarrow>
          length h = length c \<and>
          (\<forall>i < length c. ri_endpoint (h ! i) = ri_endpoint (c ! i) \<and> ri_pos (h ! i) = ri_pos (c ! i)))"

section \<open>The search finds the next item\<close>

text \<open>The item the lookup means: the first one at or after the position, or the first of all.\<close>

definition ring_next :: "u32 \<Rightarrow> hash_ring \<Rightarrow> ring_item" where
  "ring_next pos ring = (case filter (\<lambda>i. pos \<le> ri_pos i) ring of [] \<Rightarrow> hd ring | i # _ \<Rightarrow> i)"

definition ring_sorted :: "hash_ring \<Rightarrow> bool" where
  "ring_sorted = sorted_wrt (\<lambda>i j. ri_pos i < ri_pos j)"

lemma ring_sorted_append:
  "ring_sorted (xs @ ys) \<longleftrightarrow>
     ring_sorted xs \<and> ring_sorted ys \<and> (\<forall>x \<in> set xs. \<forall>y \<in> set ys. ri_pos x < ri_pos y)"
  by (simp add: ring_sorted_def sorted_wrt_append)

lemma ring_sorted_le_last: "ring_sorted xs \<Longrightarrow> x \<in> set xs \<Longrightarrow> ri_pos x \<le> ri_pos (last xs)"
  by (cases xs rule: rev_cases) (auto simp: ring_sorted_append order_less_imp_le)

lemma ring_next_skip:
  assumes "\<And>x. x \<in> set xs \<Longrightarrow> ri_pos x < pos" and "\<exists>y \<in> set ys. pos \<le> ri_pos y"
  shows "ring_next pos (xs @ ys) = ring_next pos ys"
proof -
  have "filter (\<lambda>i. pos \<le> ri_pos i) xs = []" using assms(1) by (auto simp: filter_empty_conv not_le)
  moreover have "filter (\<lambda>i. pos \<le> ri_pos i) ys \<noteq> []" using assms(2) by (auto simp: filter_empty_conv)
  ultimately show ?thesis by (simp add: ring_next_def split: list.split)
qed

lemma ring_next_early:
  assumes "\<exists>x \<in> set xs. pos \<le> ri_pos x"
  shows "ring_next pos (xs @ ys) = ring_next pos xs"
proof -
  have "filter (\<lambda>i. pos \<le> ri_pos i) xs \<noteq> []" using assms by (auto simp: filter_empty_conv)
  then show ?thesis by (auto simp: ring_next_def neq_Nil_conv)
qed

lemma ring_next_hd: "xs \<noteq> [] \<Longrightarrow> pos \<le> ri_pos (hd xs) \<Longrightarrow> ring_next pos xs = hd xs"
  by (cases xs) (simp_all add: ring_next_def)

lemma ring_next_wrap: "\<forall>x \<in> set xs. ri_pos x < pos \<Longrightarrow> ring_next pos xs = hd xs"
  by (auto simp: ring_next_def filter_empty_conv not_le split: list.split)

lemma ring_next_last:
  assumes "ring_sorted xs" "xs \<noteq> []" "ri_pos (last xs) = pos"
  shows "ring_next pos xs = last xs"
proof -
  obtain ys y where xs: "xs = ys @ [y]" using assms(2) by (cases xs rule: rev_cases) auto
  with assms have "ring_next pos (ys @ [y]) = ring_next pos [y]"
    by (intro ring_next_skip) (auto simp: ring_sorted_append)
  with xs assms(3) show ?thesis by (simp add: ring_next_hd)
qed

text \<open>The two halves of a slice with more than one item.\<close>

lemma halves_nonempty:
  assumes "xs \<noteq> []" "length xs \<noteq> 1"
  shows "take (length xs div 2) xs \<noteq> []" "drop (length xs div 2) xs \<noteq> []"
  using assms by (cases xs; cases "tl xs"; auto)+

lemma bsearch_goes_left:
  assumes ne: "left \<noteq> []" "right \<noteq> []" and s: "ring_sorted (left @ right)" and le: "pos \<le> ri_pos (last left)"
    and IH: "length left \<noteq> 1 \<Longrightarrow>
      bsearch pos (take (length left div 2) left) (drop (length left div 2) left) = Ret (ring_next pos left)"
  shows "bsearch pos left right = Ret (ring_next pos (left @ right))"
proof -
  have here: "ring_next pos (left @ right) = ring_next pos left"
    using le ne(1) by (intro ring_next_early bexI [of _ "last left"]) auto
  have sl: "ring_sorted left" and sr: "ring_sorted right" using s by (auto simp: ring_sorted_append)
  have "ri_pos (last left) < ri_pos (hd right)" using s ne by (auto simp: ring_sorted_append)
  then have lt: "pos < ri_pos (hd right)" using le by simp
  moreover have "ri_pos (hd right) \<le> ri_pos (last right)" using ring_sorted_le_last [OF sr] ne(2) by simp
  ultimately have c: "ri_pos (hd right) \<noteq> pos" "\<not> ri_pos (last right) < pos" "\<not> ri_pos (last left) < pos"
    using le by auto
  show ?thesis
  proof (cases "ri_pos (last left) = pos \<or> length left = 1")
    case True
    then have "ring_next pos left = last left"
      using ring_next_last [OF sl ne(1)] le by (auto simp: length_Suc_conv ring_next_hd)
    moreover have "hd left = last left" if "length left = 1" using that by (auto simp: length_Suc_conv)
    ultimately show ?thesis using True c here ne by (subst bsearch.simps) auto
  next
    case False
    with c here IH ne show ?thesis by (subst bsearch.simps) (simp add: Let_def)
  qed
qed

lemma bsearch_goes_right:
  assumes ne: "left \<noteq> []" "right \<noteq> []" and s: "ring_sorted (left @ right)"
    and lt: "ri_pos (last left) < pos" and le: "pos \<le> ri_pos (last right)"
    and IH: "length right \<noteq> 1 \<Longrightarrow>
      bsearch pos (take (length right div 2) right) (drop (length right div 2) right) = Ret (ring_next pos right)"
  shows "bsearch pos left right = Ret (ring_next pos (left @ right))"
proof -
  have "ri_pos x < pos" if "x \<in> set left" for x
    using ring_sorted_le_last [OF _ that] s lt by (force simp: ring_sorted_append)
  then have here: "ring_next pos (left @ right) = ring_next pos right"
    using le ne(2) by (intro ring_next_skip bexI [of _ "last right"]) auto
  show ?thesis
  proof (cases "ri_pos (hd right) = pos \<or> length right = 1")
    case True
    then have "ring_next pos right = hd right"
      using ne(2) le by (auto simp: length_Suc_conv ring_next_hd)
    with True here lt le ne show ?thesis by (subst bsearch.simps) (auto simp: Let_def)
  next
    case False
    with here IH lt le ne show ?thesis by (subst bsearch.simps) (auto simp: Let_def)
  qed
qed

lemma bsearch_wraps:
  assumes ne: "left \<noteq> []" "right \<noteq> []" and s: "ring_sorted (left @ right)" and lt: "ri_pos (last right) < pos"
  shows "bsearch pos left right = Ret (ring_next pos (left @ right))"
proof -
  have "ri_pos x < pos" if "x \<in> set (left @ right)" for x
    using ring_sorted_le_last [OF s that] ne(2) lt by simp
  moreover from this [of "last left"] this [of "hd right"] ne
  have "ri_pos (last left) \<noteq> pos" "ri_pos (hd right) \<noteq> pos" by simp_all
  ultimately show ?thesis using ne lt ring_next_wrap [of "left @ right" pos] by (subst bsearch.simps) simp
qed

lemma bsearch_next:
  "left \<noteq> [] \<Longrightarrow> right \<noteq> [] \<Longrightarrow> ring_sorted (left @ right) \<Longrightarrow>
   bsearch pos left right = Ret (ring_next pos (left @ right))"
proof (induction "length left + length right" arbitrary: left right rule: less_induct)
  case less
  have half: "bsearch pos (take (length xs div 2) xs) (drop (length xs div 2) xs) = Ret (ring_next pos xs)"
    if "length xs < length left + length right" "xs \<noteq> []" "length xs \<noteq> 1" "ring_sorted xs" for xs
    using less.hyps [of "take (length xs div 2) xs" "drop (length xs div 2) xs"] that halves_nonempty [OF that(2,3)]
    by simp
  have "ring_sorted left" "ring_sorted right" using less.prems(3) by (auto simp: ring_sorted_append)
  note halves = half [OF _ less.prems(1) _ this(1)] half [OF _ less.prems(2) _ this(2)]
  consider "pos \<le> ri_pos (last left)" | "ri_pos (last left) < pos" "pos \<le> ri_pos (last right)"
    | "ri_pos (last right) < pos" by force
  then show ?case
  proof cases
    case 1
    then show ?thesis using less.prems halves(1) by (intro bsearch_goes_left) auto
  next
    case 2
    then show ?thesis using less.prems halves(2) by (intro bsearch_goes_right) auto
  next
    case 3
    then show ?thesis using less.prems by (intro bsearch_wraps)
  qed
qed

section \<open>Which backend holds a position\<close>

text \<open>A position belongs to the first endpoint of the list that has it.\<close>

definition ring_owner :: "nat \<Rightarrow> string list \<Rightarrow> u32 \<Rightarrow> string option" where
  "ring_owner weight endpoints pos = find (\<lambda>e. pos \<in> set (positionsFor e weight)) endpoints"

text \<open>The items placed so far, and the map of used positions, against a map of owners.\<close>

definition placed :: "(u32 \<rightharpoonup> string) \<Rightarrow> (u32 \<Rightarrow> bool) \<times> hash_ring \<Rightarrow> bool" where
  "placed own st \<longleftrightarrow>
     distinct (map ri_pos (snd st)) \<and>
     (\<forall>i. i \<in> set (snd st) \<longleftrightarrow> own (ri_pos i) = Some (ri_endpoint i)) \<and>
     (\<forall>p. fst st p \<longleftrightarrow> own p \<noteq> None)"

lemma ring_item_eq: "(i :: ring_item) = \<lparr>ri_pos = p, ri_endpoint = e\<rparr> \<longleftrightarrow> ri_pos i = p \<and> ri_endpoint i = e"
  by (cases i) simp

lemma placed_point:
  assumes "placed own st"
  shows "placed (\<lambda>p. if p = pos \<and> own p = None then Some e else own p) (place_point e pos st)"
proof (cases "own pos")
  case None
  then have "\<not> fst st pos" "pos \<notin> ri_pos ` set (snd st)"
    using assms by (auto simp: placed_def)
  then show ?thesis using assms None
    by (auto simp: placed_def place_point_def ring_item_eq)
next
  case (Some e')
  then have "(\<lambda>p. if p = pos \<and> own p = None then Some e else own p) = own" by (intro ext) auto
  moreover have "fst st pos" using assms Some by (simp add: placed_def)
  ultimately show ?thesis using assms by (simp add: place_point_def)
qed

lemma placed_points:
  "placed own st \<Longrightarrow>
   placed (\<lambda>p. if p \<in> set ps \<and> own p = None then Some e else own p) (fold (place_point e) ps st)"
proof (induction ps arbitrary: own st)
  case (Cons p ps)
  have eq: "(\<lambda>q. if q \<in> set ps \<and> (if q = p \<and> own q = None then Some e else own q) = None then Some e
                else (if q = p \<and> own q = None then Some e else own q)) =
        (\<lambda>q. if q \<in> set (p # ps) \<and> own q = None then Some e else own q)" by auto
  from Cons.IH [OF placed_point [OF Cons.prems, of p e]] show ?case unfolding eq by simp
qed simp

lemma placed_endpoints:
  "placed own st \<Longrightarrow>
   placed (\<lambda>p. case own p of None \<Rightarrow> ring_owner w es p | Some e \<Rightarrow> Some e) (fold (place_endpoint w) es st)"
proof (induction es arbitrary: own st)
  case Nil
  have "(\<lambda>p. case own p of None \<Rightarrow> ring_owner w [] p | Some e \<Rightarrow> Some e) = own"
    by (auto simp: ring_owner_def split: option.split)
  with Nil show ?case by simp
next
  case (Cons e es)
  let ?own = "\<lambda>p. if p \<in> set (positionsFor e w) \<and> own p = None then Some e else own p"
  have eq: "(\<lambda>p. case ?own p of None \<Rightarrow> ring_owner w es p | Some e \<Rightarrow> Some e) =
        (\<lambda>p. case own p of None \<Rightarrow> ring_owner w (e # es) p | Some e \<Rightarrow> Some e)"
    by (auto simp: ring_owner_def split: option.split)
  have "placed ?own (place_endpoint w e st)"
    unfolding place_endpoint_def by (rule placed_points) (rule Cons.prems)
  from Cons.IH [OF this] show ?case unfolding eq by simp
qed

lemma ring_keys:
  shows "ring_sorted (positionsForEndpoints es w)"
    and "i \<in> set (positionsForEndpoints es w) \<longleftrightarrow> ring_owner w es (ri_pos i) = Some (ri_endpoint i)"
proof -
  let ?st = "fold (place_endpoint w) es (\<lambda>_. False, [])"
  have "placed Map.empty (\<lambda>_. False, [])" by (simp add: placed_def)
  from placed_endpoints [OF this, of w es] have p: "placed (ring_owner w es) ?st" by simp
  have "distinct (map ri_pos (sort_key ri_pos (snd ?st)))"
    using p by (simp add: placed_def distinct_map)
  then show "ring_sorted (positionsForEndpoints es w)"
    using sorted_sort_key [of ri_pos "snd ?st"]
    by (simp add: ring_sorted_def positionsForEndpoints_def strict_sorted_iff flip: sorted_wrt_map [of "(<)" ri_pos, simplified])
  show "i \<in> set (positionsForEndpoints es w) \<longleftrightarrow> ring_owner w es (ri_pos i) = Some (ri_endpoint i)"
    using p by (simp add: placed_def positionsForEndpoints_def)
qed

lemma ring_next_spec:
  assumes "ring_sorted r" "r \<noteq> []"
  shows "ring_next pos r \<in> set r"
    and "j \<in> set r \<Longrightarrow> pos \<le> ri_pos j \<Longrightarrow> pos \<le> ri_pos (ring_next pos r) \<and> ri_pos (ring_next pos r) \<le> ri_pos j"
    and "\<forall>i \<in> set r. ri_pos i < pos \<Longrightarrow> j \<in> set r \<Longrightarrow> ri_pos (ring_next pos r) \<le> ri_pos j"
proof -
  let ?f = "filter (\<lambda>i. pos \<le> ri_pos i) r"
  have le: "x \<in> set (a # as) \<Longrightarrow> ring_sorted (a # as) \<Longrightarrow> ri_pos a \<le> ri_pos x" for x a as
    by (auto simp: ring_sorted_def order_less_imp_le)
  have sf: "ring_sorted ?f" using assms(1) by (simp add: ring_sorted_def sorted_wrt_filter)
  show "ring_next pos r \<in> set r"
  proof (cases ?f)
    case Nil
    with assms(2) show ?thesis by (simp add: ring_next_def)
  next
    case (Cons i rest)
    then have "i \<in> set r" by (metis filter_is_subset list.set_intros(1) subsetD)
    with Cons show ?thesis by (simp add: ring_next_def)
  qed
  show "j \<in> set r \<Longrightarrow> pos \<le> ri_pos j \<Longrightarrow> pos \<le> ri_pos (ring_next pos r) \<and> ri_pos (ring_next pos r) \<le> ri_pos j"
  proof -
    assume "j \<in> set r" "pos \<le> ri_pos j"
    then have j: "j \<in> set ?f" by simp
    then obtain i rest where f: "?f = i # rest" by (cases ?f) auto
    moreover have "pos \<le> ri_pos i" using filter_eq_ConsD [OF f] by auto
    ultimately show ?thesis using j sf le [of j i rest] by (simp add: ring_next_def)
  qed
  show "\<forall>i \<in> set r. ri_pos i < pos \<Longrightarrow> j \<in> set r \<Longrightarrow> ri_pos (ring_next pos r) \<le> ri_pos j"
    using assms le [of j "hd r" "tl r"] by (simp add: ring_next_wrap)
qed

lemma ring_sorted_unique:
  "ring_sorted r \<Longrightarrow> i \<in> set r \<Longrightarrow> j \<in> set r \<Longrightarrow> ri_pos i = ri_pos j \<Longrightarrow> i = j"
  by (induction r) (auto simp: ring_sorted_def)

text \<open>A ring that differs only in items of one endpoint leads to the same item or to that endpoint.\<close>

lemma ring_next_extend:
  assumes r: "ring_sorted r" "r \<noteq> []" and r': "ring_sorted r'"
    and new: "\<And>i. i \<in> set r' \<Longrightarrow> ri_endpoint i \<noteq> e \<Longrightarrow> i \<in> set r"
    and kept: "\<And>i. i \<in> set r \<Longrightarrow> \<exists>i' \<in> set r'. ri_pos i' = ri_pos i"
  shows "ri_endpoint (ring_next pos r') = e \<or> ring_next pos r' = ring_next pos r"
proof (rule disjCI)
  let ?n = "ring_next pos r" and ?n' = "ring_next pos r'"
  have r'ne: "r' \<noteq> []" using r(2) kept by fastforce
  note N = ring_next_spec [OF r, where pos = pos] and N' = ring_next_spec [OF r' r'ne, where pos = pos]
  assume "ring_next pos r' \<noteq> ring_next pos r"
  show "ri_endpoint ?n' = e"
  proof (rule ccontr)
    assume "ri_endpoint ?n' \<noteq> e"
    then have in_r: "?n' \<in> set r" using new N'(1) by blast
    obtain i' where i': "i' \<in> set r'" "ri_pos i' = ri_pos ?n" using kept [OF N(1)] by blast
    have "ri_pos ?n' = ri_pos ?n"
    proof (cases "\<exists>j \<in> set r'. pos \<le> ri_pos j")
      case True
      then have "pos \<le> ri_pos ?n'" using N'(2) by blast
      with N(2) [OF in_r] N'(2) [OF i'(1)] i'(2) show ?thesis by simp
    next
      case False
      then have "\<forall>j \<in> set r'. ri_pos j < pos" by (auto simp: not_le)
      moreover from this have "\<forall>j \<in> set r. ri_pos j < pos" using kept by fastforce
      ultimately show ?thesis using N(3) [OF _ in_r] N'(3) [OF _ i'(1)] i'(2) by simp
    qed
    with in_r N(1) r(1) have "?n' = ?n" by (intro ring_sorted_unique)
    with \<open>?n' \<noteq> ?n\<close> show False by simp
  qed
qed

section \<open>A ring of backends is never too small\<close>

text \<open>The checksum is linear, so the first two points of an endpoint differ in a low bit.\<close>

lemma crc_bit_xor: "crc_bit (a XOR b) = crc_bit a XOR crc_bit b"
  by (simp add: crc_bit_def bit_xor_iff drop_bit_xor ac_simps)

lemma crc_bits_xor: "(crc_bit ^^ n) (a XOR b) = (crc_bit ^^ n) a XOR (crc_bit ^^ n) b"
  by (induction n) (simp_all add: crc_bit_xor)

lemma crc_bits_one: "(crc_bit ^^ 8) 1 = 0x77073096"
  by code_simp

lemma bit_1_mod_36000:
  assumes "(x :: u32) mod 36000 = y mod 36000"
  shows "bit x 1 = bit y 1"
proof -
  have "uint x mod 36000 mod 4 = uint y mod 36000 mod 4"
    using arg_cong [OF assms, of uint] by (simp add: uint_mod_distrib)
  then have "uint x mod 4 = uint y mod 4" by (simp add: mod_mod_cancel)
  then have "bit (uint x) 1 = bit (uint y) 1" by (simp add: bit_iff_odd) presburger
  then show ?thesis by (simp add: bit_uint_iff)
qed

lemma crc32_last_bit:
  "crc32 (bs @ [0]) mod maxPositions \<noteq> crc32 (bs @ [1]) mod maxPositions"
proof
  let ?c = "fold crc_byte bs (NOT 0)"
  let ?x = "NOT ((crc_bit ^^ 8) ?c)" and ?y = "NOT ((crc_bit ^^ 8) (?c XOR 1))"
  have flip: "bit ?y 1 \<longleftrightarrow> \<not> bit ?x 1"
    unfolding crc_bits_xor crc_bits_one by (simp add: bit_simps)
  assume "crc32 (bs @ [0]) mod maxPositions = crc32 (bs @ [1]) mod maxPositions"
  then have "?x mod 36000 = ?y mod 36000" by (simp add: crc32_def crc_byte_def maxPositions_def)
  from bit_1_mod_36000 [OF this] flip show False by simp
qed

lemma ring_owner_has: "ring_owner w es p = Some e \<Longrightarrow> e \<in> set es \<and> p \<in> set (positionsFor e w)"
  by (auto simp: ring_owner_def find_Some_iff)

lemma ring_owner_None: "ring_owner w es p = None \<longleftrightarrow> (\<forall>e \<in> set es. p \<notin> set (positionsFor e w))"
  by (auto simp: ring_owner_def find_None_iff)

text \<open>Every endpoint has two different points, so a ring of backends has at least two items.\<close>

lemma ring_has_item:
  assumes "e \<in> set es" "p \<in> set (positionsFor e w)"
  shows "\<exists>i \<in> set (positionsForEndpoints es w). ri_pos i = p"
proof -
  obtain e' where "ring_owner w es p = Some e'" using assms ring_owner_None [of w es p] by fastforce
  then have "\<lparr>ri_pos = p, ri_endpoint = e'\<rparr> \<in> set (positionsForEndpoints es w)" by (simp add: ring_keys(2))
  then show ?thesis by force
qed

lemma first_points:
  "\<exists>p q. p \<noteq> q \<and> p \<in> set (positionsFor e defaultWeight) \<and> q \<in> set (positionsFor e defaultWeight)"
proof -
  let ?p = "\<lambda>i. crc32 (bytes_of e @ [word_of_nat i]) mod maxPositions"
  have "?p i \<in> set (positionsFor e defaultWeight)" if "i < 100" for i :: nat
    using that by (auto simp: positionsFor_def defaultWeight_def)
  from this [of 0] this [of 1] crc32_last_bit [of "bytes_of e"] show ?thesis by auto
qed

lemma ring_size:
  assumes "es \<noteq> []"
  shows "2 \<le> length (newHashRing es)"
proof -
  obtain e where e: "e \<in> set es" using assms by (cases es) auto
  obtain p q where pq: "p \<noteq> q" "p \<in> set (positionsFor e defaultWeight)" "q \<in> set (positionsFor e defaultWeight)"
    using first_points by blast
  obtain i j where ij: "i \<in> set (newHashRing es)" "j \<in> set (newHashRing es)" "i \<noteq> j"
    using ring_has_item [OF e pq(2)] ring_has_item [OF e pq(3)] pq(1) by (auto simp: newHashRing_def)
  then have "card {i, j} \<le> card (set (newHashRing es))" by (intro card_mono) auto
  with ij(3) show ?thesis using card_length [of "newHashRing es"] by simp
qed

lemma newHashRing_Nil [simp]: "newHashRing [] = []"
  by (simp add: newHashRing_def positionsForEndpoints_def)

text \<open>
  The lookup against the ring as a map of positions: it never panics, whatever the backends.
\<close>

definition backend_of :: "byte list \<Rightarrow> string list \<Rightarrow> string" where
  "backend_of identifier endpoints =
     (if endpoints = [] then []
      else ri_endpoint (ring_next (crc32 identifier mod maxPositions) (newHashRing endpoints)))"

lemma endpointFor_ring: "endpointFor identifier (Some (newHashRing es)) = Ret (backend_of identifier es)"
proof (cases "es = []")
  case True
  then show ?thesis by (simp add: endpointFor_def findEndpoint_def backend_of_def)
next
  case False
  let ?r = "newHashRing es" and ?pos = "crc32 identifier mod maxPositions"
  let ?n = "length ?r div 2"
  have n: "2 \<le> length ?r" using ring_size [OF False] .
  then have "take ?n ?r \<noteq> []" "drop ?n ?r \<noteq> []" by (cases ?r; cases "tl ?r"; auto)+
  then have "bsearch ?pos (take ?n ?r) (drop ?n ?r) = Ret (ring_next ?pos ?r)"
    using bsearch_next [of "take ?n ?r" "drop ?n ?r" ?pos] ring_keys(1) [of es defaultWeight]
    by (simp add: newHashRing_def)
  with n False show ?thesis by (auto simp: endpointFor_def findEndpoint_def backend_of_def Let_def)
qed

lemma backend_of_in: "es \<noteq> [] \<Longrightarrow> backend_of identifier es \<in> set es"
proof -
  assume ne: "es \<noteq> []"
  let ?i = "ring_next (crc32 identifier mod maxPositions) (newHashRing es)"
  have "newHashRing es \<noteq> []" using ring_size [OF ne] by auto
  then have "?i \<in> set (newHashRing es)"
    by (intro ring_next_spec(1)) (simp_all add: newHashRing_def ring_keys(1))
  with ne show ?thesis
    by (auto simp: backend_of_def newHashRing_def ring_keys(2) dest: ring_owner_has)
qed

section \<open>What a change of the backends moves\<close>

lemma ring_owner_insert:
  "ring_owner w (es @ e # es') p \<in> {Some e, ring_owner w (es @ es') p}"
  by (induction es) (auto simp: ring_owner_def)

lemma backend_of_insert: "backend_of identifier (es @ e # es') \<in> {e, backend_of identifier (es @ es')}"
proof (cases "es @ es' = []")
  case True
  then show ?thesis using backend_of_in [of "[e]"] by auto
next
  case False
  let ?r = "newHashRing (es @ es')" and ?r' = "newHashRing (es @ e # es')"
    and ?pos = "crc32 identifier mod maxPositions"
  have "ri_endpoint (ring_next ?pos ?r') = e \<or> ring_next ?pos ?r' = ring_next ?pos ?r"
  proof (rule ring_next_extend)
    show "ring_sorted ?r" "ring_sorted ?r'" by (simp_all add: newHashRing_def ring_keys(1))
    show "?r \<noteq> []" using ring_size [OF False] by auto
  next
    fix i assume "i \<in> set ?r'" "ri_endpoint i \<noteq> e"
    then show "i \<in> set ?r"
      using ring_owner_insert [of defaultWeight es e es' "ri_pos i"] by (simp add: newHashRing_def ring_keys(2))
  next
    fix i assume "i \<in> set ?r"
    then have "ring_owner defaultWeight (es @ es') (ri_pos i) = Some (ri_endpoint i)"
      by (simp add: newHashRing_def ring_keys(2))
    then have "ri_endpoint i \<in> set (es @ e # es')" "ri_pos i \<in> set (positionsFor (ri_endpoint i) defaultWeight)"
      by (auto dest: ring_owner_has)
    then show "\<exists>i' \<in> set ?r'. ri_pos i' = ri_pos i" unfolding newHashRing_def by (rule ring_has_item)
  qed
  with False show ?thesis by (auto simp: backend_of_def)
qed

lemma ring_equal_iff: "ring_equal h c \<longleftrightarrow> c = Some h"
proof (cases c)
  case (Some r)
  have "ring_equal h (Some r) \<longleftrightarrow> h = r"
    by (auto simp: ring_equal_def list_eq_iff_nth_eq intro!: ring_item.equality)
  with Some show ?thesis by auto
qed (simp add: ring_equal_def)

section \<open>The lookup as an owner of positions\<close>

text \<open>
  The reference: the positions of the circle that some backend has, in order; the first one at or
  after the checksum, or the first of all, and the backend that owns it.
\<close>

definition used_positions :: "string list \<Rightarrow> u32 list" where
  "used_positions endpoints =
     filter (\<lambda>p. ring_owner defaultWeight endpoints p \<noteq> None) (map word_of_nat [0..<36000])"

definition owner_ahead :: "byte list \<Rightarrow> string list \<Rightarrow> string" where
  "owner_ahead identifier endpoints =
     (let used = used_positions endpoints;
          ahead = filter (\<lambda>p. crc32 identifier mod maxPositions \<le> p) used
      in case ahead @ used of [] \<Rightarrow> [] | p # _ \<Rightarrow> the (ring_owner defaultWeight endpoints p))"

lemma circle_sorted: "n \<le> 36000 \<Longrightarrow> sorted_wrt (<) (map (word_of_nat :: nat \<Rightarrow> u32) [0..<n])"
  by (induction n) (auto simp: sorted_wrt_append word_less_nat_alt unat_of_nat)

lemma used_positions_ring: "used_positions es = map ri_pos (newHashRing es)"
proof (rule sym, rule strict_sorted_equal)
  show "sorted_wrt (<) (used_positions es)"
    unfolding used_positions_def by (intro sorted_wrt_filter circle_sorted) simp
  show "sorted_wrt (<) (map ri_pos (newHashRing es))"
    using ring_keys(1) by (simp add: newHashRing_def ring_sorted_def sorted_wrt_map)
  have small: "p \<in> word_of_nat ` {0..<36000}" if "ring_owner defaultWeight es p = Some e" for p e
  proof -
    have "p \<in> set (positionsFor e defaultWeight)" using ring_owner_has [OF that] by simp
    then have "p < maxPositions" by (auto simp: positionsFor_def maxPositions_def word_mod_less_divisor)
    then have "unat p < 36000" by (simp add: maxPositions_def word_less_nat_alt)
    then show ?thesis by (intro image_eqI [of _ _ "unat p"]) auto
  qed
  show "set (map ri_pos (newHashRing es)) = set (used_positions es)"
  proof (intro set_eqI iffI)
    fix p assume "p \<in> set (map ri_pos (newHashRing es))"
    then obtain i where "i \<in> set (newHashRing es)" "ri_pos i = p" by auto
    with small show "p \<in> set (used_positions es)"
      by (auto simp: used_positions_def newHashRing_def ring_keys(2))
  next
    fix p assume "p \<in> set (used_positions es)"
    then obtain e where "ring_owner defaultWeight es p = Some e" by (auto simp: used_positions_def)
    then show "p \<in> set (map ri_pos (newHashRing es))"
      using ring_owner_has [of defaultWeight es p e] ring_has_item [of e es p defaultWeight]
      by (auto simp: newHashRing_def image_iff)
  qed
qed

lemma backend_of_owner: "backend_of identifier es = owner_ahead identifier es"
proof (cases "es = []")
  case True
  then show ?thesis by (simp add: backend_of_def owner_ahead_def used_positions_ring)
next
  case False
  let ?r = "newHashRing es" and ?pos = "crc32 identifier mod maxPositions"
  have r: "ring_sorted ?r" "?r \<noteq> []" using ring_size [OF False] by (auto simp: newHashRing_def ring_keys(1))
  have "ring_next ?pos ?r \<in> set ?r" by (rule ring_next_spec(1) [OF r])
  then have own: "ring_owner defaultWeight es (ri_pos (ring_next ?pos ?r)) = Some (ri_endpoint (ring_next ?pos ?r))"
    by (simp add: newHashRing_def ring_keys(2))
  have "filter (\<lambda>p. ?pos \<le> p) (map ri_pos ?r) = map ri_pos (filter (\<lambda>i. ?pos \<le> ri_pos i) ?r)"
    by (simp add: filter_map comp_def)
  then have "(case filter (\<lambda>p. ?pos \<le> p) (map ri_pos ?r) @ map ri_pos ?r of
      [] \<Rightarrow> [] | p # _ \<Rightarrow> the (ring_owner defaultWeight es p)) = ri_endpoint (ring_next ?pos ?r)"
    using own r(2) by (auto simp: ring_next_def neq_Nil_conv split: list.splits)
  with False show ?thesis by (simp add: backend_of_def owner_ahead_def used_positions_ring Let_def)
qed

text \<open>
  C4: the lookup of the backend of an identifier returns, for every list of backends and without
  a panic, the owner of the first used position at or after the checksum of the identifier,
  wrapping around at the end of the circle, where a position belongs to the first backend of the
  list that has it.
\<close>

theorem endpoint_lookup:
  "endpointFor identifier (Some (newHashRing endpoints)) = Ret (owner_ahead identifier endpoints)"
  by (simp add: endpointFor_ring backend_of_owner)

text \<open>
  C20: adding a backend, anywhere in the list, moves an identifier to the new backend or leaves it
  where it was; no identifier moves between the backends that were there before.
\<close>

theorem adding_backend_moves_only_to_it:
  "endpointFor identifier (Some (newHashRing (before @ new # after))) = Ret new \<or>
   endpointFor identifier (Some (newHashRing (before @ new # after))) =
     endpointFor identifier (Some (newHashRing (before @ after)))"
  using backend_of_insert [where es = before] by (auto simp: endpointFor_ring)

end
