(* ===== verification/LbResolver.thy ===== *)
theory LbResolver
  imports Prelude "HOL-Library.List_Lexorder" "HOL-Library.Char_ord"
begin

text \<open>
  \<open>exporter/loadbalancingexporter\<close> of the bundled contrib module: \<open>resolver_static.go\<close> and
  \<open>resolver_dns.go\<close>, which find the backends and report them to the callbacks registered with
  \<open>onChange\<close>.  A callback is a function on the state \<open>'s\<close> of who registered it; \<open>'e\<close> is what the
  surroundings decide while it runs.  The answer of a DNS lookup is an argument of the resolution.
  The order of the library on strings is that of their bytes, as in Go.
\<close>

section \<open>Errors of the exporter\<close>

datatype lb_error =
    ErrNoResolver | ErrMultipleResolversProvided | ErrNoEndpoints | ErrNoHostname
  | ErrUnsupportedRoutingKey string | ErrNoExporterFor string | ErrUnexpectedExporterType
  | ErrEmptyResourceSpans | ErrEmptyScopeSpans | ErrEmptySpans | ErrNoServiceName
  | ErrLookup go_error | ErrBackend go_error

section \<open>The static resolver\<close>

type_synonym ('e, 's) on_change = "'e \<Rightarrow> string list \<Rightarrow> 's \<Rightarrow> 's"

record ('e, 's) static_resolver =
  sr_endpoints :: "string list"
  sr_callbacks :: "('e, 's) on_change list"
  sr_once :: bool \<comment> \<open>the state of \<open>once\<close>: done\<close>

definition newStaticResolver :: "string list \<Rightarrow> lb_error + ('e, 's) static_resolver" where
  "newStaticResolver endpoints =
     (if length endpoints = 0 then Inl ErrNoEndpoints
      else Inr \<lparr>sr_endpoints = sort endpoints, sr_callbacks = [], sr_once = False\<rparr>)"

definition static_onChange ::
    "('e, 's) on_change \<Rightarrow> ('e, 's) static_resolver \<Rightarrow> ('e, 's) static_resolver" where
  "static_onChange f r = r\<lparr>sr_callbacks := sr_callbacks r @ [f]\<rparr>"

definition static_resolve ::
    "'e \<Rightarrow> ('e, 's) static_resolver \<Rightarrow> 's \<Rightarrow> string list \<times> ('e, 's) static_resolver \<times> 's" where
  "static_resolve env r s =
     (if sr_once r then (sr_endpoints r, r, s)
      else (sr_endpoints r, r\<lparr>sr_once := True\<rparr>, fold (\<lambda>f. f env (sr_endpoints r)) (sr_callbacks r) s))"

section \<open>Addresses\<close>

record ip_addr =
  ip_bytes :: "byte list"
  ip_zone :: string

text \<open>\<open>net.IP.To4\<close>.\<close>

definition to4 :: "byte list \<Rightarrow> byte list option" where
  "to4 ip =
     (if length ip = 4 then Some ip
      else if length ip = 16 \<and> take 12 ip = replicate 10 0 @ [0xff, 0xff] then Some (drop 12 ip)
      else None)"

fun hex_nat :: "nat \<Rightarrow> string" where
  "hex_nat n = (if n < 16 then [hex_digit n] else hex_nat (n div 16) @ [hex_digit (n mod 16)])"

declare hex_nat.simps [simp del]

definition dotted :: "byte list \<Rightarrow> string" where
  "dotted ip = concat (map (\<lambda>i. (if i = 0 then [] else ''.'') @ show_nat (unat (ip ! i))) [0..<length ip])"

text \<open>
  \<open>net.IP.String\<close> of 16 bytes: the eight groups in hexadecimal, the first of the longest runs of
  two or more zero groups written as two colons.
\<close>

fun ip_groups :: "byte list \<Rightarrow> nat list" where
  "ip_groups (a # b # bs) = (unat a * 256 + unat b) # ip_groups bs"
| "ip_groups _ = []"

function longest_zeros :: "nat \<Rightarrow> nat list \<Rightarrow> nat \<times> nat \<Rightarrow> nat \<times> nat" where
  "longest_zeros i gs best =
     (case gs of
        [] \<Rightarrow> best
      | _ # rest \<Rightarrow>
          (let n = length (takeWhile (\<lambda>g. g = 0) gs) in
           if snd best < n then longest_zeros (i + n + 1) (drop (n + 1) gs) (i, n)
           else longest_zeros (i + 1) rest best))"
  by pat_completeness auto
termination by (relation "measure (\<lambda>(i, gs, best). length gs)") auto

function join_groups :: "nat \<Rightarrow> nat \<Rightarrow> nat \<Rightarrow> nat list \<Rightarrow> string" where
  "join_groups e0 n i gs =
     (case gs of
        [] \<Rightarrow> []
      | g # rest \<Rightarrow>
          if 1 < n \<and> i = e0 then
            ''::'' @ (case drop n gs of
                        [] \<Rightarrow> []
                      | h # rest' \<Rightarrow> hex_nat h @ join_groups e0 n (i + n + 1) rest')
          else (if 0 < i then '':'' else []) @ hex_nat g @ join_groups e0 n (i + 1) rest)"
  by pat_completeness auto
termination
proof (relation "measure (\<lambda>(e0, n, i, gs). length gs)")
  fix n :: nat and gs h :: "nat list" and g x rest' rest assume "gs = g # rest" "drop n gs = x # rest'"
  then have "length gs - n = Suc (length rest')" by (metis length_Cons length_drop)
  then show "((e0, n, i + n + 1, rest'), e0, n, i, gs) \<in> measure (\<lambda>(e0, n, i, gs). length gs)" for e0 i :: nat
    by simp
qed auto

declare longest_zeros.simps [simp del] join_groups.simps [simp del]

definition ip_string :: "byte list \<Rightarrow> string" where
  "ip_string ip =
     (case to4 ip of
        Some v4 \<Rightarrow> dotted v4
      | None \<Rightarrow>
          if length ip = 0 then ''<nil>''
          else if length ip \<noteq> 16 then ''?'' @ hex_encode ip
          else (case longest_zeros 0 (ip_groups ip) (0, 0) of (e0, n) \<Rightarrow> join_groups e0 n 0 (ip_groups ip)))"

text \<open>\<open>net.IPAddr.String\<close>.\<close>

definition addr_string :: "ip_addr \<Rightarrow> string" where
  "addr_string a =
     (let ip = (if length (ip_bytes a) = 0 then [] else ip_string (ip_bytes a)) in
      if ip_zone a \<noteq> [] then ip @ ''%'' @ ip_zone a else ip)"

section \<open>The DNS resolver\<close>

definition second :: i64 where "second = 1000000000"
definition defaultResInterval :: i64 where "defaultResInterval = 5 * second"
definition defaultResTimeout :: i64 where "defaultResTimeout = second"

record ('e, 's) dns_resolver =
  dr_hostname :: string
  dr_port :: string
  dr_interval :: i64
  dr_timeout :: i64
  dr_endpoints :: "string list"
  dr_callbacks :: "('e, 's) on_change list"
  dr_stopped :: bool \<comment> \<open>\<open>stopCh\<close> is closed\<close>

definition newDNSResolver :: "string \<Rightarrow> string \<Rightarrow> i64 \<Rightarrow> i64 \<Rightarrow> lb_error + ('e, 's) dns_resolver" where
  "newDNSResolver hostname port interval timeout =
     (if length hostname = 0 then Inl ErrNoHostname
      else Inr \<lparr>dr_hostname = hostname, dr_port = port,
                dr_interval = (if interval = 0 then defaultResInterval else interval),
                dr_timeout = (if timeout = 0 then defaultResTimeout else timeout),
                dr_endpoints = [], dr_callbacks = [], dr_stopped = False\<rparr>)"

definition dns_onChange :: "('e, 's) on_change \<Rightarrow> ('e, 's) dns_resolver \<Rightarrow> ('e, 's) dns_resolver" where
  "dns_onChange f r = r\<lparr>dr_callbacks := dr_callbacks r @ [f]\<rparr>"

definition dns_backend :: "string \<Rightarrow> ip_addr \<Rightarrow> string" where
  "dns_backend port a =
     (let backend = (if to4 (ip_bytes a) \<noteq> None then addr_string a else ''['' @ addr_string a @ '']'')
      in if port \<noteq> [] then backend @ '':'' @ port else backend)"

fun equalStringSlice :: "string list \<Rightarrow> string list \<Rightarrow> bool" where
  "equalStringSlice source candidate =
     (length source = length candidate \<and> (\<forall>i < length source. source ! i = candidate ! i))"

definition dns_resolve ::
    "go_error + ip_addr list \<Rightarrow> 'e \<Rightarrow> ('e, 's) dns_resolver \<Rightarrow> 's \<Rightarrow>
     (lb_error + string list) \<times> ('e, 's) dns_resolver \<times> 's" where
  "dns_resolve lookup env r s =
     (case lookup of
        Inl err \<Rightarrow> (Inl (ErrLookup err), r, s)
      | Inr addrs \<Rightarrow>
          (let backends = sort (map (dns_backend (dr_port r)) addrs) in
           if equalStringSlice (dr_endpoints r) backends then (Inr (dr_endpoints r), r, s)
           else (Inr backends, r\<lparr>dr_endpoints := backends\<rparr>, fold (\<lambda>f. f env backends) (dr_callbacks r) s)))"

text \<open>
  \<open>start\<close> resolves once, ignoring an error; a tick of the loop resolves again unless the resolver
  was stopped; \<open>shutdown\<close> forgets the callbacks and closes the channel, which panics the second
  time.
\<close>

definition dns_start ::
    "go_error + ip_addr list \<Rightarrow> 'e \<Rightarrow> ('e, 's) dns_resolver \<Rightarrow> 's \<Rightarrow> ('e, 's) dns_resolver \<times> 's" where
  "dns_start lookup env r s = snd (dns_resolve lookup env r s)"

definition dns_tick ::
    "go_error + ip_addr list \<Rightarrow> 'e \<Rightarrow> ('e, 's) dns_resolver \<Rightarrow> 's \<Rightarrow> ('e, 's) dns_resolver \<times> 's" where
  "dns_tick lookup env r s = (if dr_stopped r then (r, s) else snd (dns_resolve lookup env r s))"

definition dns_shutdown :: "('e, 's) dns_resolver \<Rightarrow> ('e, 's) dns_resolver outcome" where
  "dns_shutdown r = (if dr_stopped r then Panic else Ret (r\<lparr>dr_callbacks := [], dr_stopped := True\<rparr>))"

section \<open>Either resolver\<close>

datatype ('e, 's) resolver = StaticResolver "('e, 's) static_resolver" | DNSResolver "('e, 's) dns_resolver"

fun res_onChange :: "('e, 's) on_change \<Rightarrow> ('e, 's) resolver \<Rightarrow> ('e, 's) resolver" where
  "res_onChange f (StaticResolver r) = StaticResolver (static_onChange f r)"
| "res_onChange f (DNSResolver r) = DNSResolver (dns_onChange f r)"

fun res_start ::
    "go_error + ip_addr list \<Rightarrow> 'e \<Rightarrow> ('e, 's) resolver \<Rightarrow> 's \<Rightarrow> ('e, 's) resolver \<times> 's" where
  "res_start lookup env (StaticResolver r) s =
     (case static_resolve env r s of (_, r', s') \<Rightarrow> (StaticResolver r', s'))"
| "res_start lookup env (DNSResolver r) s =
     (case dns_start lookup env r s of (r', s') \<Rightarrow> (DNSResolver r', s'))"

section \<open>What the resolvers report\<close>

lemma equalStringSlice_iff [simp]: "equalStringSlice xs ys \<longleftrightarrow> xs = ys"
  by (auto simp: list_eq_iff_nth_eq)

declare equalStringSlice.simps [simp del]

text \<open>The order of the hostnames in the configuration, or of the addresses of a lookup, is lost.\<close>

lemma sort_mset: "mset xs = mset ys \<Longrightarrow> sort xs = sort (ys :: string list)"
  by (rule properties_for_sort) simp_all

lemma static_order: "mset xs = mset ys \<Longrightarrow> newStaticResolver xs = newStaticResolver ys"
  unfolding newStaticResolver_def using sort_mset [of xs ys] mset_eq_length [of xs ys] by simp

lemma dns_order:
  "mset xs = mset ys \<Longrightarrow> dns_resolve (Inr xs) env r s = dns_resolve (Inr ys) env r s"
proof -
  assume "mset xs = mset ys"
  then have "sort (map (dns_backend p) xs) = sort (map (dns_backend p) ys)" for p
    by (intro sort_mset) simp
  then show ?thesis by (simp add: dns_resolve_def)
qed

lemma sample_addresses:
  "addr_string \<lparr>ip_bytes = [10, 0, 0, 7], ip_zone = []\<rparr> = ''10.0.0.7''"
  "addr_string \<lparr>ip_bytes = replicate 15 0 @ [1], ip_zone = ''eth0''\<rparr> = ''::1%eth0''"
  by code_simp+

end
