(* ===== verification/LoadBalancer.thy ===== *)
theory LoadBalancer
  imports ConsistentHash LbResolver
begin

text \<open>
  \<open>exporter/loadbalancingexporter/loadbalancer.go\<close> of the bundled contrib module: the balancer,
  which keeps the ring of the backends and one exporter for each of them, and follows the
  resolver.  An exporter is an object of the component factory, here a number; \<open>lb_created\<close> are the
  endpoints the objects were created for, and \<open>lb_log\<close> the calls of \<open>Start\<close> that succeeded and of
  \<open>Shutdown\<close>, in order.  What the factory and \<open>Start\<close> answer, and the order in which \<open>range\<close> visits
  the map of the exporters, are decided by the surroundings of an update.
\<close>

section \<open>Configuration\<close>

record otlp_template =
  oc_endpoint :: string

record dns_config =
  dc_hostname :: string
  dc_port :: string
  dc_interval :: i64
  dc_timeout :: i64

record 'o lb_config =
  lc_otlp :: "'o otlp_template_scheme"
  lc_static :: "string list option" \<comment> \<open>\<open>StaticResolver\<close>, nil if absent\<close>
  lc_dns :: "dns_config option"
  lc_routing_key :: string

definition buildExporterConfig :: "('o, 'm) lb_config_scheme \<Rightarrow> string \<Rightarrow> 'o otlp_template_scheme" where
  "buildExporterConfig cfg endpoint = (lc_otlp cfg)\<lparr>oc_endpoint := endpoint\<rparr>"

section \<open>The balancer\<close>

datatype lb_event = Started nat | ShutDown nat

record balancer =
  lb_ring :: "hash_ring option"
  lb_exporters :: "string \<rightharpoonup> nat"
  lb_created :: "string list"
  lb_log :: "lb_event list"
  lb_stopped :: bool

text \<open>What the factory and \<open>Start\<close> answer in each turn of the loop, and how the map is visited.\<close>

record surroundings =
  su_factory :: "nat \<Rightarrow> go_error option"
  su_start :: "nat \<Rightarrow> go_error option"
  su_visit :: "(string \<rightharpoonup> nat) \<Rightarrow> string list"

definition new_balancer :: balancer where
  "new_balancer = \<lparr>lb_ring = None, lb_exporters = Map.empty, lb_created = [], lb_log = [], lb_stopped = False\<rparr>"

definition defaultPort :: string where "defaultPort = ''4317''"

definition endpointWithPort :: "string \<Rightarrow> string" where
  "endpointWithPort endpoint =
     (if \<not> contains_str endpoint '':'' then endpoint @ '':'' @ defaultPort else endpoint)"

text \<open>One turn of the loop of \<open>addMissingExporters\<close>.\<close>

definition add_exporter :: "surroundings \<Rightarrow> nat \<Rightarrow> string \<Rightarrow> balancer \<Rightarrow> balancer" where
  "add_exporter su i ep lb =
     (let endpoint = endpointWithPort ep; x = length (lb_created lb) in
      case lb_exporters lb endpoint of
        Some _ \<Rightarrow> lb
      | None \<Rightarrow>
          if su_factory su i \<noteq> None then lb
          else if su_start su i \<noteq> None then lb\<lparr>lb_created := lb_created lb @ [endpoint]\<rparr>
          else lb\<lparr>lb_created := lb_created lb @ [endpoint], lb_log := lb_log lb @ [Started x],
                  lb_exporters := (lb_exporters lb)(endpoint \<mapsto> x)\<rparr>)"

fun addMissingExporters :: "surroundings \<Rightarrow> nat \<Rightarrow> string list \<Rightarrow> balancer \<Rightarrow> balancer" where
  "addMissingExporters su i [] lb = lb"
| "addMissingExporters su i (ep # eps) lb = addMissingExporters su (Suc i) eps (add_exporter su i ep lb)"

fun endpointFound :: "string \<Rightarrow> string list \<Rightarrow> bool" where
  "endpointFound endpoint [] = False"
| "endpointFound endpoint (candidate # endpoints) =
     (if candidate = endpoint then True else endpointFound endpoint endpoints)"

text \<open>One turn of the loop of \<open>removeExtraExporters\<close>; the error of \<open>Shutdown\<close> is ignored.\<close>

definition remove_exporter :: "string list \<Rightarrow> string \<Rightarrow> balancer \<Rightarrow> balancer" where
  "remove_exporter endpointsWithPort existing lb =
     (case lb_exporters lb existing of
        None \<Rightarrow> lb
      | Some x \<Rightarrow>
          if \<not> endpointFound existing endpointsWithPort
          then lb\<lparr>lb_log := lb_log lb @ [ShutDown x], lb_exporters := (lb_exporters lb)(existing := None)\<rparr>
          else lb)"

definition removeExtraExporters :: "surroundings \<Rightarrow> string list \<Rightarrow> balancer \<Rightarrow> balancer" where
  "removeExtraExporters su endpoints lb =
     fold (remove_exporter (map endpointWithPort endpoints)) (su_visit su (lb_exporters lb)) lb"

definition onBackendChanges :: "surroundings \<Rightarrow> string list \<Rightarrow> balancer \<Rightarrow> balancer" where
  "onBackendChanges su resolved lb =
     (let newRing = newHashRing resolved in
      if \<not> ring_equal newRing (lb_ring lb)
      then removeExtraExporters su resolved (addMissingExporters su 0 resolved (lb\<lparr>lb_ring := Some newRing\<rparr>))
      else lb)"

definition Endpoint :: "byte list \<Rightarrow> balancer \<Rightarrow> string outcome" where
  "Endpoint identifier lb = endpointFor identifier (lb_ring lb)"

definition Exporter :: "string \<Rightarrow> balancer \<Rightarrow> lb_error + nat" where
  "Exporter endpoint lb =
     (case lb_exporters lb (endpointWithPort endpoint) of
        None \<Rightarrow> Inl (ErrNoExporterFor endpoint)
      | Some x \<Rightarrow> Inr x)"

section \<open>The balancer and its resolver\<close>

record load_balancer =
  bal :: balancer
  bal_res :: "(surroundings, balancer) resolver"

definition newLoadBalancer :: "('o, 'm) lb_config_scheme \<Rightarrow> lb_error + load_balancer" where
  "newLoadBalancer cfg =
     (if lc_dns cfg \<noteq> None \<and> lc_static cfg \<noteq> None then Inl ErrMultipleResolversProvided
      else case lc_static cfg of
        Some hostnames \<Rightarrow>
          (case newStaticResolver hostnames of
             Inl err \<Rightarrow> Inl err
           | Inr r \<Rightarrow> Inr \<lparr>bal = new_balancer, bal_res = StaticResolver r\<rparr>)
      | None \<Rightarrow>
          (case lc_dns cfg of
             Some d \<Rightarrow>
               (case newDNSResolver (dc_hostname d) (dc_port d) (dc_interval d) (dc_timeout d) of
                  Inl err \<Rightarrow> Inl err
                | Inr r \<Rightarrow> Inr \<lparr>bal = new_balancer, bal_res = DNSResolver r\<rparr>)
           | None \<Rightarrow> Inl ErrNoResolver))"

text \<open>\<open>Start\<close>: the callback, then the resolver, whose \<open>start\<close> reports no error.\<close>

definition lb_start :: "go_error + ip_addr list \<Rightarrow> surroundings \<Rightarrow> load_balancer \<Rightarrow> load_balancer" where
  "lb_start lookup su lb =
     (case res_start lookup su (res_onChange onBackendChanges (bal_res lb)) (bal lb) of
        (r, b) \<Rightarrow> \<lparr>bal = b, bal_res = r\<rparr>)"

text \<open>A tick of the DNS resolver; a static one has none.\<close>

definition lb_tick :: "go_error + ip_addr list \<Rightarrow> surroundings \<Rightarrow> load_balancer \<Rightarrow> load_balancer" where
  "lb_tick lookup su lb =
     (case bal_res lb of
        StaticResolver _ \<Rightarrow> lb
      | DNSResolver r \<Rightarrow> (case dns_tick lookup su r (bal lb) of (r', b) \<Rightarrow> \<lparr>bal = b, bal_res = DNSResolver r'\<rparr>))"

text \<open>\<open>Shutdown\<close> only sets the flag.\<close>

definition lb_shutdown :: "load_balancer \<Rightarrow> load_balancer" where
  "lb_shutdown lb = lb\<lparr>bal := (bal lb)\<lparr>lb_stopped := True\<rparr>\<rparr>"

section \<open>The exporters of the balancer\<close>

definition running :: "nat \<Rightarrow> balancer \<Rightarrow> bool" where
  "running x lb \<longleftrightarrow> Started x \<in> set (lb_log lb) \<and> ShutDown x \<notin> set (lb_log lb)"

text \<open>
  The map holds exactly the exporters that run, each under the endpoint it was created for, and
  none is started or shut down twice.
\<close>

definition bal_ok :: "balancer \<Rightarrow> bool" where
  "bal_ok lb \<longleftrightarrow>
     (\<forall>k x. lb_exporters lb k = Some x \<longrightarrow> x < length (lb_created lb) \<and> lb_created lb ! x = k) \<and>
     (\<forall>x. running x lb \<longleftrightarrow> x \<in> ran (lb_exporters lb)) \<and>
     (\<forall>x. Started x \<in> set (lb_log lb) \<longrightarrow> x < length (lb_created lb)) \<and>
     (\<forall>x. ShutDown x \<in> set (lb_log lb) \<longrightarrow> Started x \<in> set (lb_log lb)) \<and>
     distinct (lb_log lb) \<and> finite (dom (lb_exporters lb))"

lemma bal_okD:
  assumes "bal_ok lb"
  shows "lb_exporters lb k = Some x \<Longrightarrow> x < length (lb_created lb) \<and> lb_created lb ! x = k"
    and "running x lb \<longleftrightarrow> x \<in> ran (lb_exporters lb)"
    and "finite (dom (lb_exporters lb))" and "distinct (lb_log lb)"
  using assms by (auto simp: bal_ok_def)

lemma bal_ok_new: "bal_ok new_balancer"
  by (simp add: bal_ok_def new_balancer_def running_def)

lemma bal_ok_ring [simp]: "bal_ok (lb\<lparr>lb_ring := r\<rparr>) = bal_ok lb"
  by (simp add: bal_ok_def running_def)

lemma bal_ok_stopped [simp]: "bal_ok (lb\<lparr>lb_stopped := b\<rparr>) = bal_ok lb"
  by (simp add: bal_ok_def running_def)

lemma bal_ok_created: "bal_ok lb \<Longrightarrow> bal_ok (lb\<lparr>lb_created := lb_created lb @ [e]\<rparr>)"
  by (force simp: bal_ok_def running_def nth_append)

lemma bal_ok_started:
  assumes "bal_ok lb" and "lb_exporters lb e = None"
  shows "bal_ok (lb\<lparr>lb_created := lb_created lb @ [e], lb_log := lb_log lb @ [Started (length (lb_created lb))],
                    lb_exporters := (lb_exporters lb)(e \<mapsto> length (lb_created lb))\<rparr>)"
    (is "bal_ok ?lb")
proof -
  let ?x = "length (lb_created lb)"
  have new: "Started ?x \<notin> set (lb_log lb)" "ShutDown ?x \<notin> set (lb_log lb)"
    using assms(1) by (auto simp: bal_ok_def)
  then have run: "running y ?lb \<longleftrightarrow> running y lb \<or> y = ?x" for y
    by (auto simp: running_def)
  with assms have "\<forall>y. running y ?lb \<longleftrightarrow> y \<in> ran (lb_exporters ?lb)"
    by (auto simp: bal_okD(2))
  moreover have "lb_exporters ?lb k = Some y \<longrightarrow> y < length (lb_created ?lb) \<and> lb_created ?lb ! y = k" for k y
    using bal_okD(1) [OF assms(1), of k y] by (auto simp: nth_append)
  ultimately show ?thesis using assms(1) new unfolding bal_ok_def by (auto simp: less_Suc_eq)
qed

lemma bal_ok_shut:
  assumes "bal_ok lb" and "lb_exporters lb e = Some x"
  shows "bal_ok (lb\<lparr>lb_log := lb_log lb @ [ShutDown x], lb_exporters := (lb_exporters lb)(e := None)\<rparr>)"
    (is "bal_ok ?lb")
proof -
  have x: "running x lb" using assms by (auto simp: bal_okD(2) intro: ranI)
  have only: "k = e" if "lb_exporters lb k = Some x" for k
    using bal_okD(1) [OF assms(1) that] bal_okD(1) [OF assms] by simp
  have "running y ?lb \<longleftrightarrow> running y lb \<and> y \<noteq> x" for y by (auto simp: running_def)
  moreover have "ran (lb_exporters ?lb) = ran (lb_exporters lb) - {x}"
  proof (intro set_eqI iffI)
    fix y assume "y \<in> ran (lb_exporters ?lb)"
    then obtain k where "k \<noteq> e" "lb_exporters lb k = Some y" by (auto simp: ran_def split: if_splits)
    then show "y \<in> ran (lb_exporters lb) - {x}" using only by (auto intro: ranI)
  next
    fix y assume "y \<in> ran (lb_exporters lb) - {x}"
    then obtain k where "lb_exporters lb k = Some y" "y \<noteq> x" by (auto simp: ran_def)
    then show "y \<in> ran (lb_exporters ?lb)" using assms(2) by (intro ranI [of _ k]) auto
  qed
  ultimately have "\<forall>y. running y ?lb \<longleftrightarrow> y \<in> ran (lb_exporters ?lb)"
    using assms(1) by (simp add: bal_okD(2))
  moreover have "lb_exporters ?lb k = Some y \<longrightarrow> y < length (lb_created ?lb) \<and> lb_created ?lb ! y = k" for k y
    using bal_okD(1) [OF assms(1), of k y] by simp
  moreover have "ShutDown y \<in> set (lb_log ?lb) \<longrightarrow> Started y \<in> set (lb_log ?lb)" for y
    using assms(1) x by (auto simp: bal_ok_def running_def)
  moreover have "distinct (lb_log ?lb)" "finite (dom (lb_exporters ?lb))"
    "\<And>y. Started y \<in> set (lb_log ?lb) \<Longrightarrow> y < length (lb_created ?lb)"
    using assms(1) x by (auto simp: bal_ok_def running_def)
  ultimately show ?thesis unfolding bal_ok_def by blast
qed

lemma bal_ok_add: "bal_ok lb \<Longrightarrow> bal_ok (add_exporter su i ep lb)"
  by (auto simp: add_exporter_def Let_def intro: bal_ok_created bal_ok_started split: option.split)

lemma bal_ok_remove: "bal_ok lb \<Longrightarrow> bal_ok (remove_exporter keep k lb)"
  by (auto simp: remove_exporter_def intro: bal_ok_shut split: option.split)

lemma bal_ok_add_all: "bal_ok lb \<Longrightarrow> bal_ok (addMissingExporters su i eps lb)"
  by (induction su i eps lb rule: addMissingExporters.induct) (simp_all add: bal_ok_add)

lemma bal_ok_remove_all: "bal_ok lb \<Longrightarrow> bal_ok (fold (remove_exporter keep) ks lb)"
  by (induction ks arbitrary: lb) (simp_all add: bal_ok_remove)

lemma bal_ok_change: "bal_ok lb \<Longrightarrow> bal_ok (onBackendChanges su resolved lb)"
  by (simp add: onBackendChanges_def removeExtraExporters_def Let_def bal_ok_add_all bal_ok_remove_all)

section \<open>The exporters follow the backends\<close>

lemma endpointFound_iff [simp]: "endpointFound e es \<longleftrightarrow> e \<in> set es"
  by (induction e es rule: endpointFound.induct) auto

lemma add_exporter_dom:
  "dom (lb_exporters lb) \<subseteq> dom (lb_exporters (add_exporter su i ep lb))"
  "dom (lb_exporters (add_exporter su i ep lb)) \<subseteq> insert (endpointWithPort ep) (dom (lb_exporters lb))"
  "su_factory su i = None \<Longrightarrow> su_start su i = None \<Longrightarrow>
     endpointWithPort ep \<in> dom (lb_exporters (add_exporter su i ep lb))"
  by (auto simp: add_exporter_def Let_def split: option.splits if_splits)

lemma add_all_dom:
  "dom (lb_exporters lb) \<subseteq> dom (lb_exporters (addMissingExporters su i eps lb))"
  "dom (lb_exporters (addMissingExporters su i eps lb)) \<subseteq> dom (lb_exporters lb) \<union> endpointWithPort ` set eps"
  "\<forall>j. su_factory su j = None \<and> su_start su j = None \<Longrightarrow>
     endpointWithPort ` set eps \<subseteq> dom (lb_exporters (addMissingExporters su i eps lb))"
proof (induction su i eps lb rule: addMissingExporters.induct)
  case (2 su i ep eps lb)
  { case 1 show ?case using "2.IH"(1) add_exporter_dom(1) [of lb su i ep] by auto }
  { case 2 show ?case using "2.IH"(2) add_exporter_dom(2) [of su i ep lb] by auto }
  { case 3
    then have "endpointWithPort ep \<in> dom (lb_exporters (add_exporter su i ep lb))"
      by (intro add_exporter_dom(3)) simp_all
    then show ?case using "2.IH"(1) "2.IH"(3) [OF 3] by auto }
qed simp_all

lemma add_all_ring [simp]: "lb_ring (addMissingExporters su i eps lb) = lb_ring lb"
  by (induction su i eps lb rule: addMissingExporters.induct)
    (simp_all add: add_exporter_def Let_def split: option.split)

lemma remove_all_exporters:
  "lb_exporters (fold (remove_exporter keep) ks lb) =
     (\<lambda>k. if k \<in> set ks \<and> k \<notin> set keep then None else lb_exporters lb k)"
proof (induction ks arbitrary: lb)
  case (Cons k ks)
  have "lb_exporters (remove_exporter keep k lb) = (\<lambda>j. if j = k \<and> j \<notin> set keep then None else lb_exporters lb j)"
    by (auto simp: remove_exporter_def fun_eq_iff split: option.split)
  with Cons show ?case by (auto simp: fun_eq_iff)
qed simp

lemma remove_all_ring [simp]: "lb_ring (fold (remove_exporter keep) ks lb) = lb_ring lb"
  by (induction ks arbitrary: lb) (simp_all add: remove_exporter_def split: option.split)

text \<open>The surroundings visit every key of a map once; with \<open>ok\<close>, nothing fails.\<close>

definition sound :: "bool \<Rightarrow> surroundings \<Rightarrow> bool" where
  "sound ok su \<longleftrightarrow>
     (\<forall>m. finite (dom m) \<longrightarrow> distinct (su_visit su m) \<and> set (su_visit su m) = dom m) \<and>
     (ok \<longrightarrow> (\<forall>i. su_factory su i = None \<and> su_start su i = None))"

text \<open>The exporters are for backends of the list \<open>es\<close>, and with \<open>ok\<close>, for all of them.\<close>

definition serves :: "bool \<Rightarrow> string list \<Rightarrow> balancer \<Rightarrow> bool" where
  "serves ok es lb \<longleftrightarrow>
     dom (lb_exporters lb) \<subseteq> endpointWithPort ` set es \<and>
     (ok \<longrightarrow> endpointWithPort ` set es \<subseteq> dom (lb_exporters lb))"

lemma change_serves:
  assumes "sound ok su" and "bal_ok lb" and "lb_ring lb \<noteq> Some (newHashRing es)"
  shows "serves ok es (onBackendChanges su es lb)" and "lb_ring (onBackendChanges su es lb) = Some (newHashRing es)"
proof -
  let ?a = "addMissingExporters su 0 es (lb\<lparr>lb_ring := Some (newHashRing es)\<rparr>)"
  have change: "onBackendChanges su es lb = removeExtraExporters su es ?a"
    using assms(3) by (simp add: onBackendChanges_def ring_equal_iff Let_def)
  have "finite (dom (lb_exporters ?a))" by (intro bal_okD(3) bal_ok_add_all) (simp add: assms(2))
  then have "set (su_visit su (lb_exporters ?a)) = dom (lb_exporters ?a)" using assms(1) by (simp add: sound_def)
  then have "dom (lb_exporters (onBackendChanges su es lb)) = dom (lb_exporters ?a) \<inter> endpointWithPort ` set es"
    by (auto simp: change removeExtraExporters_def remove_all_exporters split: if_splits)
  then show "serves ok es (onBackendChanges su es lb)"
    using add_all_dom(3) [of su es 0 "lb\<lparr>lb_ring := Some (newHashRing es)\<rparr>"] assms(1)
    by (auto simp: serves_def sound_def)
  show "lb_ring (onBackendChanges su es lb) = Some (newHashRing es)"
    by (simp add: change removeExtraExporters_def)
qed

section \<open>Runs of the balancer\<close>

fun res_endpoints :: "('e, 's) resolver \<Rightarrow> string list" where
  "res_endpoints (StaticResolver r) = sr_endpoints r"
| "res_endpoints (DNSResolver r) = dr_endpoints r"

fun res_callbacks :: "('e, 's) resolver \<Rightarrow> ('e, 's) on_change list" where
  "res_callbacks (StaticResolver r) = sr_callbacks r"
| "res_callbacks (DNSResolver r) = dr_callbacks r"

text \<open>Nothing was reported yet: the next resolution of a static resolver, or the next one of a DNS
  resolver with some address, reports.\<close>

fun res_waiting :: "('e, 's) resolver \<Rightarrow> bool" where
  "res_waiting (StaticResolver r) = (\<not> sr_once r)"
| "res_waiting (DNSResolver r) = (dr_endpoints r = [])"

text \<open>
  The collector starts a component once; the loop of the DNS resolver ticks from then on.  With
  \<open>ok\<close>, no creation and no start of an exporter fails in the run.
\<close>

inductive lb_reach :: "bool \<Rightarrow> ('o, 'm) lb_config_scheme \<Rightarrow> load_balancer \<Rightarrow> bool" for ok cfg where
  reach_new: "newLoadBalancer cfg = Inr lb \<Longrightarrow> lb_reach ok cfg lb"
| reach_start: "lb_reach ok cfg lb \<Longrightarrow> res_callbacks (bal_res lb) = [] \<Longrightarrow> sound ok su \<Longrightarrow>
    lb_reach ok cfg (lb_start lookup su lb)"
| reach_tick: "lb_reach ok cfg lb \<Longrightarrow> res_callbacks (bal_res lb) \<noteq> [] \<Longrightarrow> sound ok su \<Longrightarrow>
    lb_reach ok cfg (lb_tick lookup su lb)"
| reach_shutdown: "lb_reach ok cfg lb \<Longrightarrow> lb_reach ok cfg (lb_shutdown lb)"

text \<open>The balancer follows the resolver: no ring and no exporter, or the ring of its endpoints.\<close>

definition follows :: "bool \<Rightarrow> (surroundings, balancer) resolver \<Rightarrow> balancer \<Rightarrow> bool" where
  "follows ok r b \<longleftrightarrow>
     (lb_ring b = None \<and> lb_exporters b = Map.empty \<and> res_waiting r) \<or>
     (\<exists>es. lb_ring b = Some (newHashRing es) \<and> newHashRing es = newHashRing (res_endpoints r) \<and> serves ok es b)"

definition lb_inv :: "bool \<Rightarrow> load_balancer \<Rightarrow> bool" where
  "lb_inv ok lb \<longleftrightarrow>
     bal_ok (bal lb) \<and> follows ok (bal_res lb) (bal lb) \<and>
     (res_callbacks (bal_res lb) = [] \<and> res_waiting (bal_res lb) \<or> res_callbacks (bal_res lb) = [onBackendChanges])"

lemma follows_change:
  assumes "sound ok su" "bal_ok b" "follows ok r b" "res_endpoints r' = es"
  shows "follows ok r' (onBackendChanges su es b)"
proof (cases "lb_ring b = Some (newHashRing es)")
  case True
  then have "onBackendChanges su es b = b" by (simp add: onBackendChanges_def ring_equal_iff Let_def)
  with True assms(3,4) show ?thesis by (auto simp: follows_def)
next
  case False
  from change_serves [OF assms(1,2) False] assms(4) show ?thesis by (auto simp: follows_def)
qed

lemma dns_resolve_follows:
  assumes "sound ok su" "bal_ok b" "follows ok (DNSResolver r) b" "dr_callbacks r = [onBackendChanges]"
    and "dns_resolve lookup su r b = (res, r', b')"
  shows "bal_ok b' \<and> follows ok (DNSResolver r') b' \<and> dr_callbacks r' = [onBackendChanges]"
  using assms(4,5) bal_ok_change [OF assms(2)] assms(2,3)
    follows_change [OF assms(1-3), of "DNSResolver r'" "dr_endpoints r'"]
  by (auto simp: dns_resolve_def Let_def split: sum.splits if_splits)

lemma new_balancer_simps [simp]: "lb_ring new_balancer = None" "lb_exporters new_balancer = Map.empty"
  by (simp_all add: new_balancer_def)

lemma lb_inv_new: "newLoadBalancer cfg = Inr lb \<Longrightarrow> lb_inv ok lb"
  by (auto simp: newLoadBalancer_def newStaticResolver_def newDNSResolver_def lb_inv_def follows_def bal_ok_new
      split: if_splits option.splits sum.splits)

lemma lb_inv_start:
  assumes "lb_inv ok lb" "res_callbacks (bal_res lb) = []" "sound ok su"
  shows "lb_inv ok (lb_start lookup su lb)"
proof (cases "bal_res lb")
  case (StaticResolver r)
  let ?r = "static_onChange onBackendChanges r"
  have b: "bal_ok (bal lb)" "follows ok (bal_res lb) (bal lb)" "\<not> sr_once r" "sr_callbacks r = []"
    using assms(1,2) StaticResolver by (auto simp: lb_inv_def)
  have "follows ok (StaticResolver (?r\<lparr>sr_once := True\<rparr>)) (onBackendChanges su (sr_endpoints r) (bal lb))"
    by (rule follows_change [OF assms(3) b(1,2)]) (simp add: static_onChange_def)
  with b StaticResolver show ?thesis
    by (simp add: lb_start_def lb_inv_def static_resolve_def static_onChange_def bal_ok_change)
next
  case (DNSResolver r)
  let ?r = "r\<lparr>dr_callbacks := [onBackendChanges]\<rparr>"
  obtain res r' b' where d: "dns_resolve lookup su ?r (bal lb) = (res, r', b')" by (metis prod_cases3)
  have b: "bal_ok (bal lb)" "follows ok (bal_res lb) (bal lb)" "dr_callbacks r = []"
    using assms(1,2) DNSResolver by (auto simp: lb_inv_def)
  then have "follows ok (DNSResolver ?r) (bal lb)"
    unfolding DNSResolver by (simp add: follows_def)
  from dns_resolve_follows [OF assms(3) b(1) this _ d] b(3)
  show ?thesis by (simp add: lb_start_def lb_inv_def DNSResolver dns_start_def dns_onChange_def d)
qed

lemma lb_inv_tick:
  assumes "lb_inv ok lb" "res_callbacks (bal_res lb) \<noteq> []" "sound ok su"
  shows "lb_inv ok (lb_tick lookup su lb)"
proof (cases "bal_res lb")
  case (StaticResolver r)
  with assms(1) show ?thesis by (simp add: lb_tick_def)
next
  case (DNSResolver r)
  obtain res r' b' where d: "dns_resolve lookup su r (bal lb) = (res, r', b')" by (metis prod_cases3)
  have b: "bal_ok (bal lb)" "follows ok (DNSResolver r) (bal lb)" "dr_callbacks r = [onBackendChanges]"
    using assms(1,2) DNSResolver by (auto simp: lb_inv_def)
  from dns_resolve_follows [OF assms(3) b d] assms(1) DNSResolver
  show ?thesis by (auto simp: lb_tick_def lb_inv_def dns_tick_def d)
qed

lemma lb_inv_reach: "lb_reach ok cfg lb \<Longrightarrow> lb_inv ok lb"
proof (induction rule: lb_reach.induct)
  case (reach_shutdown lb)
  then show ?case by (simp add: lb_shutdown_def lb_inv_def follows_def serves_def)
qed (simp_all add: lb_inv_new lb_inv_start lb_inv_tick)

text \<open>
  C10: in every run of the balancer, whatever the lookups answer and whatever fails, the exporters
  that are started and not shut down are exactly the ones it can hand out, at most one for an
  endpoint, none is started or shut down twice, and the ring, once there is one, is the ring of
  the endpoints the resolver found last.
\<close>

theorem balancer_exporters:
  assumes "lb_reach ok cfg lb"
  shows "(running x (bal lb) \<longleftrightarrow> (\<exists>k. lb_exporters (bal lb) k = Some x)) \<and>
    (running x (bal lb) \<and> running y (bal lb) \<and> lb_created (bal lb) ! x = lb_created (bal lb) ! y \<longrightarrow> x = y) \<and>
    distinct (lb_log (bal lb)) \<and>
    (lb_ring (bal lb) = None \<or> lb_ring (bal lb) = Some (newHashRing (res_endpoints (bal_res lb))))"
proof -
  from lb_inv_reach [OF assms] have ok: "bal_ok (bal lb)" and f: "follows ok (bal_res lb) (bal lb)"
    by (simp_all add: lb_inv_def)
  have "x = y" if "running x (bal lb)" "running y (bal lb)" "lb_created (bal lb) ! x = lb_created (bal lb) ! y"
  proof -
    from that(1,2) obtain j k where "lb_exporters (bal lb) j = Some x" "lb_exporters (bal lb) k = Some y"
      by (auto simp: bal_okD(2) [OF ok] ran_def)
    with that(3) bal_okD(1) [OF ok] show ?thesis by (metis option.inject)
  qed
  moreover have "running x (bal lb) \<longleftrightarrow> (\<exists>k. lb_exporters (bal lb) k = Some x)"
    by (simp add: bal_okD(2) [OF ok] ran_def)
  ultimately show ?thesis using bal_okD(4) [OF ok] f by (auto simp: follows_def)
qed

lemma routed:
  assumes "lb_reach True cfg lb" and "lb_ring (bal lb) \<noteq> None" and "res_endpoints (bal_res lb) \<noteq> []"
  shows "\<exists>x. Endpoint identifier (bal lb) = Ret (owner_ahead identifier (res_endpoints (bal_res lb))) \<and>
    Exporter (owner_ahead identifier (res_endpoints (bal_res lb))) (bal lb) = Inr x \<and> running x (bal lb) \<and>
    lb_created (bal lb) ! x = endpointWithPort (owner_ahead identifier (res_endpoints (bal_res lb)))"
proof -
  let ?eps = "res_endpoints (bal_res lb)"
  from lb_inv_reach [OF assms(1)] have ok: "bal_ok (bal lb)" and f: "follows True (bal_res lb) (bal lb)"
    by (simp_all add: lb_inv_def)
  from f assms(2) obtain es where es: "lb_ring (bal lb) = Some (newHashRing es)"
      "newHashRing es = newHashRing ?eps" "endpointWithPort ` set es \<subseteq> dom (lb_exporters (bal lb))"
    by (auto simp: follows_def serves_def)
  have "newHashRing ?eps \<noteq> []" using ring_size [OF assms(3)] by auto
  then have "es \<noteq> []" using es(2) by auto
  moreover have "backend_of identifier es = backend_of identifier ?eps"
    using \<open>es \<noteq> []\<close> assms(3) es(2) by (simp add: backend_of_def)
  ultimately have "owner_ahead identifier ?eps \<in> set es"
    using backend_of_in [of es] by (metis backend_of_owner)
  then obtain x where x: "lb_exporters (bal lb) (endpointWithPort (owner_ahead identifier ?eps)) = Some x"
    using es(3) by blast
  moreover have "Endpoint identifier (bal lb) = Ret (owner_ahead identifier ?eps)"
    unfolding Endpoint_def es(1,2) endpointFor_ring backend_of_owner ..
  ultimately show ?thesis
    using bal_okD(1) [OF ok x] bal_okD(2) [OF ok] by (auto simp: Exporter_def intro: ranI)
qed

text \<open>\<open>Shutdown\<close> leaves the exporters running and the resolver working.\<close>

lemma shutdown_stops_nothing:
  "running x (bal (lb_shutdown lb)) = running x (bal lb)" "bal_res (lb_shutdown lb) = bal_res lb"
  by (simp_all add: lb_shutdown_def running_def)


section \<open>A run\<close>

definition sample_surroundings :: surroundings where
  "sample_surroundings =
     \<lparr>su_factory = \<lambda>_. None, su_start = \<lambda>_. None, su_visit = \<lambda>m. sorted_list_of_set (dom m)\<rparr>"

lemma sample_sound: "sound ok sample_surroundings"
  by (simp add: sound_def sample_surroundings_def)

definition sample_config :: "unit lb_config" where
  "sample_config =
     \<lparr>lc_otlp = \<lparr>oc_endpoint = []\<rparr>, lc_static = Some [''b'', ''a''], lc_dns = None, lc_routing_key = []\<rparr>"

definition sample_balancer :: load_balancer where
  "sample_balancer =
     lb_start (Inr []) sample_surroundings
       \<lparr>bal = new_balancer,
        bal_res = StaticResolver \<lparr>sr_endpoints = [''a'', ''b''], sr_callbacks = [], sr_once = False\<rparr>\<rparr>"

lemma sample_reached: "lb_reach ok sample_config sample_balancer"
  unfolding sample_balancer_def
proof (rule reach_start)
  show "lb_reach ok sample_config \<lparr>bal = new_balancer,
        bal_res = StaticResolver \<lparr>sr_endpoints = [''a'', ''b''], sr_callbacks = [], sr_once = False\<rparr>\<rparr>"
    by (rule reach_new) (simp add: newLoadBalancer_def newStaticResolver_def sample_config_def)
qed (simp_all add: sample_sound)

lemma sample_endpoints: "res_endpoints (bal_res sample_balancer) = [''a'', ''b'']"
  by (simp add: sample_balancer_def lb_start_def static_onChange_def static_resolve_def)

lemma sample_ring: "lb_ring (bal sample_balancer) = Some (newHashRing [''a'', ''b''])"
  by (simp add: sample_balancer_def lb_start_def static_onChange_def static_resolve_def
      change_serves(2) [OF sample_sound bal_ok_new])

lemma sample_exporters: "lb_exporters (bal sample_balancer) = [''a:4317'' \<mapsto> 0, ''b:4317'' \<mapsto> 1]"
proof -
  have "endpointWithPort ''a'' = ''a:4317''" "endpointWithPort ''b'' = ''b:4317''"
    by code_simp+
  then show ?thesis
    by (simp add: sample_balancer_def lb_start_def static_onChange_def static_resolve_def onBackendChanges_def
        removeExtraExporters_def remove_all_exporters add_exporter_def Let_def new_balancer_def ring_equal_iff
        sample_surroundings_def remove_exporter_def fun_eq_iff)
qed

theorem balancer_exporters_witness:
  "running 0 (bal sample_balancer) \<and> distinct (lb_log (bal sample_balancer)) \<and>
   lb_ring (bal sample_balancer) = Some (newHashRing [''a'', ''b''])"
  using balancer_exporters [OF sample_reached, of 0 0] sample_ring by (simp add: sample_exporters sample_endpoints)

end
