(* ===== verification/LoadBalancing.thy ===== *)
theory LoadBalancing
  imports LoadBalancer BatchPerSignal
begin

text \<open>
  \<open>exporter/loadbalancingexporter\<close> of the bundled contrib module: \<open>trace_exporter.go\<close> and
  \<open>log_exporter.go\<close>, which split a batch and hand each part to the exporter of its backend, and
  their creation (\<open>factory.go\<close>, \<open>config.go\<close>).  What an exporter answers, whether it is one for the
  signal, and the random bytes are arguments; the balancer does not change while a batch is
  consumed.
\<close>

section \<open>Routing\<close>

datatype routing_key = TraceIDRouting | SvcRouting

definition add_id :: "byte list \<Rightarrow> byte list list \<Rightarrow> byte list list" where
  "add_id i ids = (if i \<in> set ids then ids else ids @ [i])"

text \<open>The text of an attribute value that is no string is empty.\<close>

fun value_str :: "attr_val \<Rightarrow> string" where
  "value_str (AStr s) = s"
| "value_str _ = []"

fun service_ids :: "traces \<Rightarrow> byte list list \<Rightarrow> lb_error + byte list list" where
  "service_ids [] ids = Inr ids"
| "service_ids (r # rs) ids =
     (case res_attrs r ''service.name'' of
        None \<Rightarrow> Inl ErrNoServiceName
      | Some svc \<Rightarrow> service_ids rs (add_id (bytes_of (value_str svc)) ids))"

text \<open>The keys of the map the function returns; the map has no order of its own.\<close>

definition routingIdentifiersFromTraces :: "traces \<Rightarrow> routing_key \<Rightarrow> lb_error + byte list list" where
  "routingIdentifiersFromTraces td key =
     (case td of
        [] \<Rightarrow> Inl ErrEmptyResourceSpans
      | r # _ \<Rightarrow>
          (case res_scopes r of
             [] \<Rightarrow> Inl ErrEmptyScopeSpans
           | ils # _ \<Rightarrow>
               (case scope_items ils of
                  [] \<Rightarrow> Inl ErrEmptySpans
                | sp # _ \<Rightarrow> if key = SvcRouting then service_ids td [] else Inr [os_trace_id sp])))"

section \<open>The trace exporter\<close>

text \<open>Which exporter got which batch, in order; what it answers may depend on that.\<close>

type_synonym 'a sent = "(nat \<times> 'a) list"

record 'a backends =
  be_capable :: "nat \<Rightarrow> bool" \<comment> \<open>implements \<open>exporter.Traces\<close>, \<open>exporter.Logs\<close>\<close>
  be_consume :: "'a sent \<Rightarrow> nat \<Rightarrow> 'a \<Rightarrow> go_error option"

text \<open>The loop over the identifiers, with the error of the last turn.\<close>

fun send_to_all ::
    "'a backends \<Rightarrow> balancer \<Rightarrow> 'a \<Rightarrow> byte list list \<Rightarrow> lb_error option \<Rightarrow> 'a sent \<Rightarrow>
     (lb_error option \<times> 'a sent) outcome" where
  "send_to_all be lb td [] err sent = Ret (err, sent)"
| "send_to_all be lb td (rid # rids) err sent =
     bind_outcome (Endpoint rid lb) (\<lambda>endpoint.
       case Exporter endpoint lb of
         Inl e \<Rightarrow> Ret (Some e, sent)
       | Inr x \<Rightarrow>
           if \<not> be_capable be x then Ret (Some ErrUnexpectedExporterType, sent)
           else send_to_all be lb td rids (map_option ErrBackend (be_consume be sent x td)) (sent @ [(x, td)]))"

definition consumeTrace ::
    "traces backends \<Rightarrow> (byte list list \<Rightarrow> byte list list) \<Rightarrow> balancer \<Rightarrow> routing_key \<Rightarrow> traces \<Rightarrow> traces sent \<Rightarrow>
     (lb_error option \<times> traces sent) outcome" where
  "consumeTrace be visit lb key td sent =
     (case routingIdentifiersFromTraces td key of
        Inl err \<Rightarrow> Ret (Some err, sent)
      | Inr routingIds \<Rightarrow> send_to_all be lb td (visit routingIds) None sent)"

text \<open>\<open>multierr.Append\<close> keeps the errors that are not nil; no error is the empty list.\<close>

fun consume_batches ::
    "('b \<Rightarrow> 's \<Rightarrow> (lb_error option \<times> 's) outcome) \<Rightarrow> 'b list \<Rightarrow> lb_error list \<Rightarrow> 's \<Rightarrow> (lb_error list \<times> 's) outcome"
where
  "consume_batches f [] errs s = Ret (errs, s)"
| "consume_batches f (b # bs) errs s =
     bind_outcome (f b s) (\<lambda>(err, s').
       consume_batches f bs (case err of None \<Rightarrow> errs | Some e \<Rightarrow> errs @ [e]) s')"

definition ConsumeTraces ::
    "traces backends \<Rightarrow> (byte list list \<Rightarrow> byte list list) \<Rightarrow> balancer \<Rightarrow> routing_key \<Rightarrow> traces \<Rightarrow> traces sent \<Rightarrow>
     (lb_error list \<times> traces sent) outcome" where
  "ConsumeTraces be visit lb key td sent =
     consume_batches (consumeTrace be visit lb key) (split_traces td) [] sent"

section \<open>The log exporter\<close>

definition traceIDFromLogs :: "'m log_record_scheme telemetry \<Rightarrow> byte list" where
  "traceIDFromLogs ld =
     (case ld of
        [] \<Rightarrow> replicate 16 0
      | rl # _ \<Rightarrow>
          (case res_scopes rl of
             [] \<Rightarrow> replicate 16 0
           | sl # _ \<Rightarrow>
               (case scope_items sl of
                  [] \<Rightarrow> replicate 16 0
                | lr # _ \<Rightarrow> lr_trace_id lr)))"

text \<open>Four numbers of \<open>rand.Intn(256)\<close>, the \<open>n\<close>-th and the following ones, in an array of 16.\<close>

definition random_id :: "(nat \<Rightarrow> byte) \<Rightarrow> nat \<Rightarrow> byte list" where
  "random_id rnd n = [rnd n, rnd (n + 1), rnd (n + 2), rnd (n + 3)] @ replicate 12 0"

definition consumeLog ::
    "('m log_record_scheme telemetry) backends \<Rightarrow> (nat \<Rightarrow> byte) \<Rightarrow> balancer \<Rightarrow> 'm log_record_scheme telemetry \<Rightarrow>
     nat \<times> 'm log_record_scheme telemetry sent \<Rightarrow>
     (lb_error option \<times> nat \<times> 'm log_record_scheme telemetry sent) outcome" where
  "consumeLog be rnd lb ld st =
     (let traceID = traceIDFromLogs ld;
          (balancingKey, n) =
            (if traceID = replicate 16 0 then (random_id rnd (fst st), fst st + 4) else (traceID, fst st))
      in bind_outcome (Endpoint balancingKey lb) (\<lambda>endpoint.
           case Exporter endpoint lb of
             Inl e \<Rightarrow> Ret (Some e, n, snd st)
           | Inr x \<Rightarrow>
               if \<not> be_capable be x then Ret (Some ErrUnexpectedExporterType, n, snd st)
               else Ret (map_option ErrBackend (be_consume be (snd st) x ld), n, snd st @ [(x, ld)])))"

definition ConsumeLogs ::
    "('m log_record_scheme telemetry) backends \<Rightarrow> (nat \<Rightarrow> byte) \<Rightarrow> balancer \<Rightarrow> 'm log_record_scheme telemetry \<Rightarrow>
     nat \<times> 'm log_record_scheme telemetry sent \<Rightarrow>
     (lb_error list \<times> nat \<times> 'm log_record_scheme telemetry sent) outcome" where
  "ConsumeLogs be rnd lb ld st = consume_batches (consumeLog be rnd lb) (split_logs ld) [] st"

section \<open>Creation, start and shutdown\<close>

record trace_exporter =
  te_balancer :: load_balancer
  te_key :: routing_key
  te_stopped :: bool

definition newTracesExporter :: "('o, 'm) lb_config_scheme \<Rightarrow> lb_error + trace_exporter" where
  "newTracesExporter cfg =
     (case newLoadBalancer cfg of
        Inl err \<Rightarrow> Inl err
      | Inr lb \<Rightarrow>
          if lc_routing_key cfg = ''service''
          then Inr \<lparr>te_balancer = lb, te_key = SvcRouting, te_stopped = False\<rparr>
          else if lc_routing_key cfg \<in> {''traceID'', []}
          then Inr \<lparr>te_balancer = lb, te_key = TraceIDRouting, te_stopped = False\<rparr>
          else Inl (ErrUnsupportedRoutingKey (lc_routing_key cfg)))"

definition te_start :: "go_error + ip_addr list \<Rightarrow> surroundings \<Rightarrow> trace_exporter \<Rightarrow> trace_exporter" where
  "te_start lookup su e = e\<lparr>te_balancer := lb_start lookup su (te_balancer e)\<rparr>"

text \<open>\<open>Shutdown\<close> does not reach the balancer.\<close>

definition te_shutdown :: "trace_exporter \<Rightarrow> trace_exporter" where
  "te_shutdown e = e\<lparr>te_stopped := True\<rparr>"

record log_exporter =
  le_balancer :: load_balancer
  le_started :: bool

definition newLogsExporter :: "('o, 'm) lb_config_scheme \<Rightarrow> lb_error + log_exporter" where
  "newLogsExporter cfg =
     (case newLoadBalancer cfg of
        Inl err \<Rightarrow> Inl err
      | Inr lb \<Rightarrow> Inr \<lparr>le_balancer = lb, le_started = False\<rparr>)"

definition le_start :: "go_error + ip_addr list \<Rightarrow> surroundings \<Rightarrow> log_exporter \<Rightarrow> log_exporter" where
  "le_start lookup su e = e\<lparr>le_started := True, le_balancer := lb_start lookup su (le_balancer e)\<rparr>"

definition le_shutdown :: "log_exporter \<Rightarrow> log_exporter" where
  "le_shutdown e = (if \<not> le_started e then e else e\<lparr>le_started := False\<rparr>)"

section \<open>Where the batches go\<close>

text \<open>The identifier a batch of one resource is routed by, if there is one.\<close>

definition routing_id :: "routing_key \<Rightarrow> traces \<Rightarrow> byte list option" where
  "routing_id key b =
     (if key = SvcRouting
      then map_option (\<lambda>v. bytes_of (value_str v)) (res_attrs (hd b) ''service.name'')
      else Some (os_trace_id (hd (items b))))"

lemma routing_ids_batch:
  assumes "b \<in> set (split_traces td)"
  shows "routingIdentifiersFromTraces b key =
     (case routing_id key b of None \<Rightarrow> Inl ErrNoServiceName | Some i \<Rightarrow> Inr [i])"
proof -
  obtain r sc k x xs where "b = batch_of r sc (x # xs)"
    using split_batch_member assms unfolding split_traces_def by metis
  then show ?thesis
    by (simp add: routingIdentifiersFromTraces_def routing_id_def batch_of_def items_def add_id_def split: option.split)
qed

definition log_id :: "(nat \<Rightarrow> byte) \<Rightarrow> 'm log_record_scheme telemetry \<Rightarrow> nat \<Rightarrow> byte list" where
  "log_id rnd b n =
     (if traceIDFromLogs b = replicate 16 0 then random_id rnd n else traceIDFromLogs b)"

text \<open>
  What the exporters need of a balancer that is ready: every identifier has an owner, and the
  owner an exporter that runs.
\<close>

locale balancing =
  fixes ready :: "load_balancer \<Rightarrow> bool" and owner :: "load_balancer \<Rightarrow> byte list \<Rightarrow> string"
  assumes route: "ready l \<Longrightarrow> \<exists>x. Endpoint i (bal l) = Ret (owner l i) \<and> Exporter (owner l i) (bal l) = Inr x \<and>
    running x (bal l) \<and> lb_created (bal l) ! x = endpointWithPort (owner l i)"
begin

definition target :: "load_balancer \<Rightarrow> byte list \<Rightarrow> nat" where
  "target l i = (case Exporter (owner l i) (bal l) of Inl _ \<Rightarrow> 0 | Inr x \<Rightarrow> x)"

lemma target:
  assumes "ready l"
  shows "Endpoint i (bal l) = Ret (owner l i)" "Exporter (owner l i) (bal l) = Inr (target l i)"
    "running (target l i) (bal l)" "lb_created (bal l) ! target l i = endpointWithPort (owner l i)"
  using route [OF assms, of i] by (auto simp: target_def)

text \<open>The parts with an identifier are sent, each once and in order.\<close>

lemma consume_parts:
  fixes f :: "'b \<Rightarrow> 's \<Rightarrow> (lb_error option \<times> 's) outcome" and log :: "'s \<Rightarrow> 'b sent"
  assumes step: "\<And>b s. b \<in> set bs \<Longrightarrow> \<exists>err s'. f b s = Ret (err, s') \<and>
      (if has b then log s' = log s @ [(target l (ident b s), b)] \<and>
         err = map_option ErrBackend (answer (log s) (target l (ident b s)) b)
       else log s' = log s \<and> err \<noteq> None)"
  shows "\<exists>errs' s' sent. consume_batches f bs errs s = Ret (errs @ errs', s') \<and> log s' = log s @ sent \<and>
      map snd sent = filter has bs \<and> (\<forall>(x, b) \<in> set sent. \<exists>s. x = target l (ident b s)) \<and>
      (errs' = [] \<longrightarrow> filter has bs = bs)"
  using step
proof (induction bs arbitrary: errs s)
  case (Cons b bs)
  from Cons.prems [of b s] obtain err s1 where f: "f b s = Ret (err, s1)"
    and one: "if has b then log s1 = log s @ [(target l (ident b s), b)] \<and>
         err = map_option ErrBackend (answer (log s) (target l (ident b s)) b)
       else log s1 = log s \<and> err \<noteq> None"
    by auto
  let ?e = "case err of None \<Rightarrow> [] | Some e \<Rightarrow> [e]"
  let ?s = "if has b then [(target l (ident b s), b)] else []"
  have errs: "(case err of None \<Rightarrow> errs | Some e \<Rightarrow> errs @ [e]) = errs @ ?e" by (cases err) auto
  from Cons.IH [of "errs @ ?e" s1] Cons.prems obtain errs' s' sent where
    IH: "consume_batches f bs (errs @ ?e) s1 = Ret ((errs @ ?e) @ errs', s')" "log s' = log s1 @ sent"
      "map snd sent = filter has bs" "\<forall>(x, b) \<in> set sent. \<exists>s. x = target l (ident b s)"
      "errs' = [] \<longrightarrow> filter has bs = bs" by auto
  show ?case
  proof (intro exI conjI)
    show "consume_batches f (b # bs) errs s = Ret (errs @ (?e @ errs'), s')" using f IH(1) errs by simp
    show "log s' = log s @ (?s @ sent)" using one IH(2) by (auto split: if_splits)
    show "map snd (?s @ sent) = filter has (b # bs)" using IH(3) by simp
    show "\<forall>(x, b) \<in> set (?s @ sent). \<exists>s. x = target l (ident b s)" using IH(4) by auto
    show "?e @ errs' = [] \<longrightarrow> filter has (b # bs) = b # bs" using one IH(5) by (auto split: if_splits)
  qed
qed auto

text \<open>One part of a batch of traces, and one of a batch of logs.\<close>

lemma consume_trace_part:
  assumes "ready l" and "b \<in> set (split_traces td)" and "\<And>x. be_capable be x"
    and "\<And>ids. mset (visit ids) = mset ids"
  shows "\<exists>err s'. consumeTrace be visit (bal l) key b s = Ret (err, s') \<and>
      (if routing_id key b \<noteq> None
       then s' = s @ [(target l (the (routing_id key b)), b)] \<and>
         err = map_option ErrBackend (be_consume be s (target l (the (routing_id key b))) b)
       else s' = s \<and> err \<noteq> None)"
proof -
  have "visit [i] = [i]" for i using assms(4) [of "[i]"] by simp
  with assms(3) routing_ids_batch [OF assms(2), of key] target [OF assms(1)]
  show ?thesis by (auto simp: consumeTrace_def split: option.split)
qed

lemma consume_log_part:
  assumes "ready l" and "\<And>x. be_capable be x"
  shows "\<exists>err s'. consumeLog be rnd (bal l) b s = Ret (err, s') \<and>
      snd s' = snd s @ [(target l (log_id rnd b (fst s)), b)] \<and>
      err = map_option ErrBackend (be_consume be (snd s) (target l (log_id rnd b (fst s))) b)"
  using assms(2) target [OF assms(1)] by (simp add: consumeLog_def log_id_def Let_def)

lemma traces_routed:
  assumes "ready l" and "\<And>x. be_capable be x" and "\<And>ids. mset (visit ids) = mset ids"
  shows "\<exists>errs sent. ConsumeTraces be visit (bal l) key td [] = Ret (errs, sent) \<and>
    map snd sent = filter (\<lambda>b. routing_id key b \<noteq> None) (split_traces td) \<and>
    (\<forall>(x, b) \<in> set sent. running x (bal l) \<and>
       lb_created (bal l) ! x = endpointWithPort (owner l (the (routing_id key b)))) \<and>
    (errs = [] \<longrightarrow> map snd sent = split_traces td)"
  unfolding ConsumeTraces_def
  using consume_parts [where f = "consumeTrace be visit (bal l) key" and log = "\<lambda>s. s" and bs = "split_traces td"
      and errs = "[]" and s = "[]" and has = "\<lambda>b. routing_id key b \<noteq> None" and l = l
      and ident = "\<lambda>b s. the (routing_id key b)" and answer = "be_consume be",
      OF consume_trace_part [OF assms(1) _ assms(2,3)]] target(3,4) [OF assms(1)]
  by fastforce

lemma logs_routed:
  assumes "ready l" and "\<And>x. be_capable be x"
  shows "\<exists>errs n sent. ConsumeLogs be rnd (bal l) ld (0, []) = Ret (errs, n, sent) \<and>
    map snd sent = split_logs ld \<and>
    (\<forall>(x, b) \<in> set sent. running x (bal l) \<and>
       (\<exists>n. lb_created (bal l) ! x = endpointWithPort (owner l (log_id rnd b n))))"
  unfolding ConsumeLogs_def
  using consume_parts [where f = "consumeLog be rnd (bal l)" and log = snd and bs = "split_logs ld"
      and errs = "[]" and s = "(0, [])" and has = "\<lambda>b. True" and l = l
      and ident = "\<lambda>b s. log_id rnd b (fst s)" and answer = "be_consume be"]
    consume_log_part [OF assms] target(3,4) [OF assms(1)]
  by fastforce

end

text \<open>The balancer of a run without failures, once it has backends, meets the contract.\<close>

definition lb_ready :: "('o, 'm) lb_config_scheme \<Rightarrow> load_balancer \<Rightarrow> bool" where
  "lb_ready cfg lb \<longleftrightarrow>
     lb_reach True cfg lb \<and> lb_ring (bal lb) \<noteq> None \<and> res_endpoints (bal_res lb) \<noteq> []"

interpretation lbr: balancing "lb_ready cfg" "\<lambda>lb i. owner_ahead i (res_endpoints (bal_res lb))"
  using routed by unfold_locales (auto simp: lb_ready_def)

text \<open>
  C3: once the balancer has backends, and no exporter failed to start, a batch of traces is cut into
  its traces, and every part with an identifier is handed, once and in order, to the running
  exporter of the backend that owns the identifier on the ring, whatever the exporters answer:
  all spans of one trace go to one backend.  A part without the service name is not sent and is
  reported; nothing panics.
\<close>

theorem traces_reach_their_backend:
  assumes "lb_reach True cfg lb" and "lb_ring (bal lb) \<noteq> None" and "res_endpoints (bal_res lb) \<noteq> []"
    and "\<And>x. be_capable be x" and "\<And>ids. mset (visit ids) = mset ids"
  shows "\<exists>errs sent. ConsumeTraces be visit (bal lb) key td [] = Ret (errs, sent) \<and>
    map snd sent = filter (\<lambda>b. routing_id key b \<noteq> None) (split_traces td) \<and>
    (\<forall>(x, b) \<in> set sent. running x (bal lb) \<and>
       lb_created (bal lb) ! x =
         endpointWithPort (owner_ahead (the (routing_id key b)) (res_endpoints (bal_res lb)))) \<and>
    (errs = [] \<longrightarrow> map snd sent = split_traces td)"
  using assms(1-3) by (intro lbr.traces_routed assms(4,5)) (simp add: lb_ready_def)

lemma logs_reach_their_backend:
  assumes "lb_reach True cfg lb" and "lb_ring (bal lb) \<noteq> None" and "res_endpoints (bal_res lb) \<noteq> []"
    and "\<And>x. be_capable be x"
  shows "\<exists>errs n sent. ConsumeLogs be rnd (bal lb) ld (0, []) = Ret (errs, n, sent) \<and>
    map snd sent = split_logs ld \<and>
    (\<forall>(x, b) \<in> set sent. running x (bal lb) \<and>
       (\<exists>n. lb_created (bal lb) ! x = endpointWithPort (owner_ahead (log_id rnd b n) (res_endpoints (bal_res lb)))))"
  using assms(1-3) by (intro lbr.logs_routed assms(4)) (simp add: lb_ready_def)

definition all_accept :: "'a backends" where
  "all_accept = \<lparr>be_capable = \<lambda>_. True, be_consume = \<lambda>_ _ _. None\<rparr>"

theorem traces_reach_their_backend_witness:
  "\<exists>errs sent. ConsumeTraces all_accept (\<lambda>ids. ids) (bal sample_balancer) TraceIDRouting
      [\<lparr>res_attrs = Map.empty, res_scopes = [empty_scope\<lparr>scope_items := [empty_span]\<rparr>]\<rparr>] [] = Ret (errs, sent) \<and>
    map (length \<circ> snd) sent = [1]"
proof -
  let ?td = "[\<lparr>res_attrs = Map.empty, res_scopes = [empty_scope\<lparr>scope_items := [empty_span]\<rparr>]\<rparr>] :: traces"
  have "split_traces ?td = [?td]"
    by (simp add: split_traces_def split_batch_def split_scope_def split_item_def empty_scope_def Let_def batch_of_def
        append_item_def)
  then show ?thesis
    using traces_reach_their_backend [OF sample_reached, of all_accept "\<lambda>ids. ids" TraceIDRouting ?td] sample_ring
    by (fastforce simp: sample_endpoints all_accept_def routing_id_def)
qed

end
