(* ===== verification/PdataHash.thy ===== *)
theory PdataHash
  imports Aes "HOL-Library.List_Lexorder" "HOL-Library.Char_ord"
begin

text \<open>
  \<open>pkg/pdatautil/hash.go\<close> of the bundled contrib module: what is fed to the hash of an attribute
  map or value.  A \<open>pcommon.Map\<close> is its list of entries, where \<open>Get\<close> finds the first of a key.  The
  64-bit hash itself (\<open>xxhash\<close>) is a function on the bytes written; \<open>Sum\<close> gives eight bytes.
\<close>

section \<open>Values\<close>

datatype pvalue =
    PEmpty | PStr string | PInt i64 | PDouble float64 | PBool bool | PBytes "byte list"
  | PMap "(string \<times> pvalue) list" | PSlice "pvalue list"

type_synonym pmap = "(string \<times> pvalue) list"

text \<open>The aggregation temporality of a metric.\<close>

datatype temporality = TempUnspecified | TempDelta | TempCumulative

section \<open>The bytes written\<close>

definition extraByte :: byte where "extraByte = 0xf3"
definition keyPrefix :: byte where "keyPrefix = 0xf4"
definition valEmpty :: byte where "valEmpty = 0xf5"
definition valBytesPrefix :: byte where "valBytesPrefix = 0xf6"
definition valStrPrefix :: byte where "valStrPrefix = 0xf7"
definition valBoolTrue :: byte where "valBoolTrue = 0xf8"
definition valBoolFalse :: byte where "valBoolFalse = 0xf9"
definition valIntPrefix :: byte where "valIntPrefix = 0xfa"
definition valDoublePrefix :: byte where "valDoublePrefix = 0xfb"
definition valMapPrefix :: byte where "valMapPrefix = 0xfc"
definition valMapSuffix :: byte where "valMapSuffix = 0xfd"
definition valSlicePrefix :: byte where "valSlicePrefix = 0xfe"
definition valSliceSuffix :: byte where "valSliceSuffix = 0xff"

lemmas tag_defs = extraByte_def keyPrefix_def valEmpty_def valBytesPrefix_def valStrPrefix_def valBoolTrue_def
  valBoolFalse_def valIntPrefix_def valDoublePrefix_def valMapPrefix_def valMapSuffix_def valSlicePrefix_def
  valSliceSuffix_def

text \<open>\<open>binary.LittleEndian.PutUint64\<close>.\<close>

definition put_le64 :: "64 word \<Rightarrow> byte list" where
  "put_le64 n = map (\<lambda>i. ucast (drop_bit (8 * i) n)) [0..<8]"

text \<open>
  \<open>writeMapHash\<close>, on the entries with what \<open>writeValueHash\<close> writes for their values: the keys in
  order, each with the first value of that key.
\<close>

definition write_entries :: "(string \<times> byte list) list \<Rightarrow> byte list" where
  "write_entries m =
     concat (map (\<lambda>k. keyPrefix # bytes_of k @ (case map_of m k of Some bs \<Rightarrow> bs | None \<Rightarrow> []))
       (sort (map fst m)))"

fun writeValueHash :: "pvalue \<Rightarrow> byte list" where
  "writeValueHash (PStr s) = valStrPrefix # bytes_of s"
| "writeValueHash (PBool b) = [if b then valBoolTrue else valBoolFalse]"
| "writeValueHash (PInt n) = valIntPrefix # put_le64 n"
| "writeValueHash (PDouble x) = valDoublePrefix # put_le64 x"
| "writeValueHash (PMap m) =
     valMapPrefix # write_entries (map (\<lambda>(k, v). (k, writeValueHash v)) m) @ [valMapSuffix]"
| "writeValueHash (PSlice vs) = valSlicePrefix # concat (map writeValueHash vs) @ [valSliceSuffix]"
| "writeValueHash (PBytes bs) = valBytesPrefix # bs"
| "writeValueHash PEmpty = [valEmpty]"

definition writeMapHash :: "pmap \<Rightarrow> byte list" where
  "writeMapHash m = write_entries (map (\<lambda>(k, v). (k, writeValueHash v)) m)"

text \<open>\<open>hashSum128\<close>: the sum, and the sum after one more byte, copied to an array of 16.\<close>

definition hashSum128 :: "(byte list \<Rightarrow> byte list) \<Rightarrow> byte list \<Rightarrow> byte list" where
  "hashSum128 h64 written =
     (let b = h64 written @ h64 (written @ [extraByte]) in take 16 b @ replicate (16 - length b) 0)"

definition MapHash :: "(byte list \<Rightarrow> byte list) \<Rightarrow> pmap \<Rightarrow> byte list" where
  "MapHash h64 m = hashSum128 h64 (writeMapHash m)"

definition ValueHash :: "(byte list \<Rightarrow> byte list) \<Rightarrow> pvalue \<Rightarrow> byte list" where
  "ValueHash h64 v = hashSum128 h64 (writeValueHash v)"

lemma length_MapHash [simp]: "length (MapHash h64 m) = 16"
  by (simp add: MapHash_def hashSum128_def Let_def)

section \<open>Which values are told apart\<close>

text \<open>
  The text of a key or of a string ends at the next tag, so it must not hold a byte that is one:
  in UTF-8 such a byte starts a character beyond U+BFFFF.  A byte string has no end mark at all.
\<close>

definition untagged :: "string \<Rightarrow> bool" where
  "untagged s \<longleftrightarrow> (\<forall>b \<in> set (bytes_of s). b < keyPrefix)"

fun clear_value :: "pvalue \<Rightarrow> bool" where
  "clear_value (PStr s) = untagged s"
| "clear_value (PBytes bs) = False"
| "clear_value (PMap m) = (distinct (map fst m) \<and> (\<forall>(k, v) \<in> set m. untagged k \<and> clear_value v))"
| "clear_value (PSlice vs) = (\<forall>v \<in> set vs. clear_value v)"
| "clear_value v = True"

definition clear_map :: "pmap \<Rightarrow> bool" where
  "clear_map m \<longleftrightarrow> distinct (map fst m) \<and> (\<forall>(k, v) \<in> set m. untagged k \<and> clear_value v)"

text \<open>The value with the entries of all its maps in the order of the keys.\<close>

fun canon :: "pvalue \<Rightarrow> pvalue" where
  "canon (PMap m) = PMap (sort_key fst (map (\<lambda>(k, v). (k, canon v)) m))"
| "canon (PSlice vs) = PSlice (map canon vs)"
| "canon v = v"

definition canon_map :: "pmap \<Rightarrow> pmap" where
  "canon_map m = sort_key fst (map (\<lambda>(k, v). (k, canon v)) m)"

lemma sort_key_map_values:
  "sort_key fst (map (\<lambda>(k, v). (k, f v)) m) = map (\<lambda>(k, v). (k, f v)) (sort_key fst (m :: (string \<times> 'a) list))"
proof (induction m)
  case (Cons e m)
  have "insort_key fst (case e of (k, v) \<Rightarrow> (k, f v)) (map (\<lambda>(k, v). (k, f v)) xs) =
      map (\<lambda>(k, v). (k, f v)) (insort_key fst e xs)" for xs :: "(string \<times> 'a) list"
    by (induction xs) (auto split: prod.split)
  with Cons show ?case by (simp add: case_prod_unfold)
qed simp

text \<open>With distinct keys the writer goes through the sorted entries.\<close>

definition write_entry :: "string \<times> byte list \<Rightarrow> byte list" where
  "write_entry e = keyPrefix # bytes_of (fst e) @ snd e"

lemma write_entries_sorted:
  assumes "distinct (map fst m)"
  shows "write_entries m = concat (map write_entry (sort_key fst m))"
proof -
  have keys: "sort (map fst m) = map fst (sort_key fst m)"
    by (rule properties_for_sort) simp_all
  have "map_of m (fst e) = Some (snd e)" if "e \<in> set (sort_key fst m)" for e
    using map_of_is_SomeI [OF assms, of "fst e" "snd e"] that by simp
  then have "map (\<lambda>e. keyPrefix # bytes_of (fst e) @ (case map_of m (fst e) of Some bs \<Rightarrow> bs | None \<Rightarrow> [])) (sort_key fst m) =
      map write_entry (sort_key fst m)"
    by (intro map_cong refl) (simp add: write_entry_def)
  then show ?thesis unfolding write_entries_def keys map_map comp_def by (rule arg_cong)
qed

definition write_all :: "pmap \<Rightarrow> byte list" where
  "write_all es = concat (map (\<lambda>(k, v). keyPrefix # bytes_of k @ writeValueHash v) es)"

lemma writeMapHash_sorted:
  assumes "distinct (map fst m)"
  shows "writeMapHash m = write_all (sort_key fst m)"
proof -
  have "distinct (map fst (map (\<lambda>(k, v). (k, writeValueHash v)) m))"
    using assms by (simp add: comp_def case_prod_unfold)
  then have "writeMapHash m = concat (map write_entry (map (\<lambda>(k, v). (k, writeValueHash v)) (sort_key fst m)))"
    unfolding writeMapHash_def by (simp only: write_entries_sorted sort_key_map_values)
  then show ?thesis by (simp add: write_all_def write_entry_def comp_def case_prod_unfold)
qed

lemma writeValueHash_PMap:
  "writeValueHash (PMap m) = valMapPrefix # writeMapHash m @ [valMapSuffix]"
  by (simp add: writeMapHash_def)

section \<open>Reading back\<close>

definition at_tag :: "byte list \<Rightarrow> bool" where
  "at_tag bs \<longleftrightarrow> (case bs of [] \<Rightarrow> True | b # _ \<Rightarrow> keyPrefix \<le> b)"

lemma at_tag_simps [simp]:
  "at_tag []" "at_tag (b # bs) \<longleftrightarrow> keyPrefix \<le> b"
  by (simp_all add: at_tag_def)

lemma at_tag_value: "at_tag (writeValueHash v @ rest)"
  by (cases v) (simp_all add: tag_defs word_le_nat_alt)

lemma value_not_empty [simp]: "writeValueHash v \<noteq> []"
  by (cases v) simp_all

lemma value_head:
  "hd (writeValueHash v) \<noteq> keyPrefix" "hd (writeValueHash v) \<noteq> valMapSuffix" "hd (writeValueHash v) \<noteq> valSliceSuffix"
  by (cases v; simp add: tag_defs)+

lemma text_ends:
  assumes "untagged s" "untagged s'" "at_tag r" "at_tag r'" "bytes_of s @ r = bytes_of s' @ r'"
  shows "s = s' \<and> r = r'"
proof -
  have tw: "takeWhile (\<lambda>b. b < keyPrefix) (bytes_of x @ y) = bytes_of x" if "untagged x" "at_tag y" for x y
    using that by (cases y) (auto simp: untagged_def takeWhile_append2 takeWhile_append not_less)
  have "bytes_of s = bytes_of s'" using tw [OF assms(1,3)] tw [OF assms(2,4)] assms(5) by simp
  moreover from this have "r = r'" using assms(5) by simp
  ultimately show ?thesis by (metis string_bytes_inverse)
qed

lemma put_le64_length [simp]: "length (put_le64 n) = 8"
  by (simp add: put_le64_def)

lemma put_le64_inject: "put_le64 m = put_le64 n \<Longrightarrow> m = n"
proof (rule bit_word_eqI)
  fix i assume eq: "put_le64 m = put_le64 n" and i: "i < LENGTH(64)"
  have le: "put_le64 w ! (i div 8) = ucast (drop_bit (8 * (i div 8)) w)" for w
    using i unfolding put_le64_def by (subst nth_map) (simp_all del: upt_rec_numeral)
  have "put_le64 m ! (i div 8) = put_le64 n ! (i div 8)" using eq by simp
  then have "(ucast (drop_bit (8 * (i div 8)) m) :: byte) = ucast (drop_bit (8 * (i div 8)) n)"
    unfolding le .
  from arg_cong [OF this, of "\<lambda>w. bit w (i mod 8)"] show "bit m i = bit n i"
    by (simp add: bit_simps)
qed

text \<open>What reading one value back means, and lists of values and of entries.\<close>

definition readable :: "pvalue \<Rightarrow> bool" where
  "readable v \<longleftrightarrow>
     (\<forall>v' r r'. clear_value v \<longrightarrow> clear_value v' \<longrightarrow> at_tag r \<longrightarrow> at_tag r' \<longrightarrow>
        writeValueHash v @ r = writeValueHash v' @ r' \<longrightarrow> canon v = canon v' \<and> r = r')"

lemma readableD:
  "readable v \<Longrightarrow> clear_value v \<Longrightarrow> clear_value v' \<Longrightarrow> at_tag r \<Longrightarrow> at_tag r' \<Longrightarrow>
   writeValueHash v @ r = writeValueHash v' @ r' \<Longrightarrow> canon v = canon v' \<and> r = r'"
  unfolding readable_def by blast

lemma at_tag_concat: "at_tag r \<Longrightarrow> at_tag (concat (map writeValueHash vs) @ r)"
  by (cases vs) (simp_all add: at_tag_value)

lemma not_suffix:
  "writeValueHash v @ r = b # r' \<Longrightarrow> b \<noteq> keyPrefix \<and> b \<noteq> valMapSuffix \<and> b \<noteq> valSliceSuffix"
  using value_head [of v] by (cases "writeValueHash v") simp_all

lemma values_read:
  assumes "\<forall>v \<in> set vs. readable v" "\<forall>v \<in> set vs. clear_value v" "\<forall>v \<in> set vs'. clear_value v"
    and "concat (map writeValueHash vs) @ valSliceSuffix # r = concat (map writeValueHash vs') @ valSliceSuffix # r'"
  shows "map canon vs = map canon vs' \<and> r = r'"
  using assms
proof (induction vs arbitrary: vs')
  case Nil
  show ?case
  proof (cases vs')
    case (Cons w ws)
    with Nil have "writeValueHash w @ (concat (map writeValueHash ws) @ valSliceSuffix # r') = valSliceSuffix # r"
      by simp
    from not_suffix [OF this] show ?thesis by simp
  qed (use Nil in simp)
next
  case (Cons v vs)
  have "vs' \<noteq> []"
  proof
    assume "vs' = []"
    with Cons.prems have "writeValueHash v @ (concat (map writeValueHash vs) @ valSliceSuffix # r) = valSliceSuffix # r'"
      by simp
    from not_suffix [OF this] show False by simp
  qed
  then obtain w ws where vs': "vs' = w # ws" by (cases vs') auto
  have suffix: "keyPrefix \<le> valSliceSuffix" by (simp add: tag_defs word_le_nat_alt)
  have "canon v = canon w \<and> concat (map writeValueHash vs) @ valSliceSuffix # r =
      concat (map writeValueHash ws) @ valSliceSuffix # r'"
    using Cons.prems suffix by (intro readableD) (simp_all add: vs' at_tag_concat)
  with Cons.IH [of ws] Cons.prems show ?case by (simp add: vs')
qed

lemma write_all_Cons [simp]:
  "write_all [] = []" "write_all ((k, v) # es) = keyPrefix # bytes_of k @ writeValueHash v @ write_all es"
  by (simp_all add: write_all_def)

lemma at_tag_all: "at_tag r \<Longrightarrow> at_tag (write_all es @ r)"
  by (cases es) (auto simp: tag_defs)

text \<open>What follows the entries of a map: nothing, or the suffix.\<close>

definition after_map :: "byte list \<Rightarrow> bool" where
  "after_map r \<longleftrightarrow> at_tag r \<and> (r \<noteq> [] \<longrightarrow> hd r \<noteq> keyPrefix)"

lemma entries_read:
  assumes "\<forall>(k, v) \<in> set es. readable v" "\<forall>(k, v) \<in> set es. untagged k \<and> clear_value v"
    and "\<forall>(k, v) \<in> set es'. untagged k \<and> clear_value v"
    and "after_map r" "after_map r'" "write_all es @ r = write_all es' @ r'"
  shows "map (\<lambda>(k, v). (k, canon v)) es = map (\<lambda>(k, v). (k, canon v)) es' \<and> r = r'"
  using assms
proof (induction es arbitrary: es')
  case Nil
  then show ?case by (cases es') (auto simp: after_map_def)
next
  case (Cons e es)
  obtain k v where e: "e = (k, v)" by fastforce
  from Cons.prems obtain k' w ws where es': "es' = (k', w) # ws" by (cases es') (auto simp: e after_map_def)
  have r: "at_tag r" "at_tag r'" using Cons.prems(4,5) by (simp_all add: after_map_def)
  have "bytes_of k @ (writeValueHash v @ write_all es @ r) = bytes_of k' @ (writeValueHash w @ write_all ws @ r')"
    using Cons.prems(6) by (simp add: e es')
  then have k: "k = k' \<and> writeValueHash v @ (write_all es @ r) = writeValueHash w @ (write_all ws @ r')"
    using Cons.prems(2,3) by (intro text_ends) (simp_all add: e es' at_tag_value)
  then have "canon v = canon w \<and> write_all es @ r = write_all ws @ r'"
    using Cons.prems(1-3) r by (intro readableD) (simp_all add: e es' at_tag_all)
  with k Cons.IH [of ws] Cons.prems show ?case by (simp add: e es')
qed

lemma canon_sorted: "canon (PMap m) = PMap (map (\<lambda>(k, v). (k, canon v)) (sort_key fst m))"
  by (simp add: sort_key_map_values)

lemma maps_read:
  assumes "\<forall>(k, v) \<in> set m. readable v" "clear_map m" "clear_map m'" "after_map r" "after_map r'"
    and "writeMapHash m @ r = writeMapHash m' @ r'"
  shows "canon_map m = canon_map m' \<and> r = r'"
  using assms entries_read [of "sort_key fst m" "sort_key fst m'" r r']
  by (simp add: clear_map_def writeMapHash_sorted canon_map_def sort_key_map_values)

lemma readable: "readable v"
proof (induction v)
  case (PMap m)
  have "\<forall>(k, v) \<in> set m. readable v" using PMap by (force intro: snds.intros)
  note read = maps_read [OF this]
  show ?case unfolding readable_def
  proof (intro allI impI)
    fix v' r r' assume c: "clear_value (PMap m)" "clear_value v'" "at_tag r" "at_tag r'"
      and eq: "writeValueHash (PMap m) @ r = writeValueHash v' @ r'"
    then obtain m' where v': "v' = PMap m'" by (cases v') (auto simp: tag_defs split: if_splits)
    have "canon_map m = canon_map m' \<and> valMapSuffix # r = valMapSuffix # r'"
      using c eq unfolding v' writeValueHash_PMap
      by (intro read) (simp_all add: clear_map_def after_map_def tag_defs word_le_nat_alt)
    then show "canon (PMap m) = canon v' \<and> r = r'" by (simp add: v' canon_map_def)
  qed
next
  case (PSlice vs)
  then show ?case unfolding readable_def
  proof (intro allI impI)
    fix v' r r' assume c: "clear_value (PSlice vs)" "clear_value v'"
      and eq: "writeValueHash (PSlice vs) @ r = writeValueHash v' @ r'"
    then obtain vs' where v': "v' = PSlice vs'" by (cases v') (auto simp: tag_defs split: if_splits)
    with c eq PSlice values_read [of vs vs' r r'] show "canon (PSlice vs) = canon v' \<and> r = r'" by simp
  qed
next
  case (PStr s)
  show ?case unfolding readable_def
  proof (intro allI impI)
    fix v' r r' assume c: "clear_value (PStr s)" "clear_value v'" "at_tag r" "at_tag r'"
      and eq: "writeValueHash (PStr s) @ r = writeValueHash v' @ r'"
    then obtain s' where v': "v' = PStr s'" by (cases v') (auto simp: tag_defs split: if_splits)
    with c eq text_ends [of s s' r r'] show "canon (PStr s) = canon v' \<and> r = r'" by simp
  qed
next
  case (PInt n)
  then show ?case unfolding readable_def
    by (intro allI impI, case_tac v') (auto simp: tag_defs dest: put_le64_inject split: if_splits)
next
  case (PDouble x)
  then show ?case unfolding readable_def
    by (intro allI impI, case_tac v') (auto simp: tag_defs dest: put_le64_inject split: if_splits)
next
  case (PBool b)
  then show ?case unfolding readable_def
    by (intro allI impI, case_tac v') (auto simp: tag_defs split: if_splits)
next
  case PEmpty
  then show ?case unfolding readable_def
    by (intro allI impI, case_tac v') (auto simp: tag_defs split: if_splits)
qed (simp add: readable_def)

section \<open>The hash sees a map without the order of its entries\<close>

definition stable :: "pvalue \<Rightarrow> bool" where
  "stable v \<longleftrightarrow>
     (\<forall>v'. clear_value v \<longrightarrow> clear_value v' \<longrightarrow> canon v = canon v' \<longrightarrow> writeValueHash v = writeValueHash v')"

lemma write_all_stable:
  assumes "\<forall>(k, v) \<in> set es. stable v \<and> clear_value v" "\<forall>(k, v) \<in> set es'. clear_value v"
    and "map (\<lambda>(k, v). (k, canon v)) es = map (\<lambda>(k, v). (k, canon v)) es'"
  shows "write_all es = write_all es'"
  using assms
proof (induction es arbitrary: es')
  case (Cons e es)
  then obtain k v w ws where e: "e = (k, v)" and es': "es' = (k, w) # ws" by (cases es'; cases e) auto
  have "writeValueHash v = writeValueHash w" using Cons.prems unfolding e es' stable_def by auto
  moreover have "write_all es = write_all ws" using Cons.prems unfolding es' by (intro Cons.IH) auto
  ultimately show ?case by (simp add: e es')
qed simp

lemma maps_stable:
  assumes "\<forall>(k, v) \<in> set m. stable v" "clear_map m" "clear_map m'" "canon_map m = canon_map m'"
  shows "writeMapHash m = writeMapHash m'"
proof -
  have "write_all (sort_key fst m) = write_all (sort_key fst m')"
    using assms by (intro write_all_stable) (auto simp: clear_map_def canon_map_def sort_key_map_values)
  with assms show ?thesis by (simp add: clear_map_def writeMapHash_sorted)
qed

lemma stable: "stable v"
proof (induction v)
  case (PMap m)
  have m: "\<forall>(k, v) \<in> set m. stable v" using PMap by (force intro: snds.intros)
  show ?case unfolding stable_def
  proof (intro allI impI)
    fix v' assume c: "clear_value (PMap m)" "clear_value v'" and eq: "canon (PMap m) = canon v'"
    then obtain m' where v': "v' = PMap m'" by (cases v') simp_all
    have "writeMapHash m = writeMapHash m'"
      using c eq unfolding v' by (intro maps_stable [OF m]) (simp_all add: clear_map_def canon_map_def)
    then show "writeValueHash (PMap m) = writeValueHash v'" unfolding v' writeValueHash_PMap by simp
  qed
next
  case (PSlice vs)
  have "concat (map writeValueHash vs) = concat (map writeValueHash vs')"
    if "\<forall>v \<in> set vs. stable v \<and> clear_value v" "\<forall>v \<in> set vs'. clear_value v" "map canon vs = map canon vs'" for vs vs'
    using that
  proof (induction vs arbitrary: vs')
    case (Cons v vs)
    then obtain w ws where vs': "vs' = w # ws" by (cases vs') auto
    have "writeValueHash v = writeValueHash w" using Cons.prems unfolding vs' stable_def by auto
    with Cons.IH [of ws] Cons.prems show ?case by (simp add: vs')
  qed simp
  note list = this
  show ?case unfolding stable_def
  proof (intro allI impI)
    fix v' assume c: "clear_value (PSlice vs)" "clear_value v'" and eq: "canon (PSlice vs) = canon v'"
    then obtain vs' where v': "v' = PSlice vs'" by (cases v') simp_all
    have "concat (map writeValueHash vs) = concat (map writeValueHash vs')"
      using c eq PSlice unfolding v' by (intro list) simp_all
    then show "writeValueHash (PSlice vs) = writeValueHash v'" by (simp add: v')
  qed
next
  case (PStr s)
  show ?case unfolding stable_def by (intro allI impI, case_tac v') auto
next
  case (PInt n)
  show ?case unfolding stable_def by (intro allI impI, case_tac v') auto
next
  case (PDouble x)
  show ?case unfolding stable_def by (intro allI impI, case_tac v') auto
next
  case (PBool b)
  show ?case unfolding stable_def by (intro allI impI, case_tac v') auto
next
  case PEmpty
  show ?case unfolding stable_def by (intro allI impI, case_tac v') auto
qed (simp add: stable_def)

text \<open>
  C12: what is hashed of two attribute maps is equal exactly if the maps are equal up to the order
  of their entries, at every depth, provided that at every depth the keys are distinct, no key or
  string holds a byte that serves as a tag (from 0xF4 on) and no value is a byte string: then the
  hash does not see the order, and it misses nothing else.
\<close>

theorem map_hash_input_iff:
  assumes "clear_map m" and "clear_map m'"
  shows "writeMapHash m = writeMapHash m' \<longleftrightarrow> canon_map m = canon_map m'"
proof
  assume "writeMapHash m = writeMapHash m'"
  then show "canon_map m = canon_map m'"
    using maps_read [of m m' "[]" "[]"] assms readable by (auto simp: after_map_def)
next
  assume "canon_map m = canon_map m'"
  then show "writeMapHash m = writeMapHash m'"
    using maps_stable [of m m'] assms stable by auto
qed

theorem map_hash_input_iff_witness:
  "writeMapHash [(''b'', PInt 1), (''a'', PSlice [PStr ''x'', PBool True])] =
   writeMapHash [(''a'', PSlice [PStr ''x'', PBool True]), (''b'', PInt 1)]"
proof -
  have "clear_map [(''b'', PInt 1), (''a'', PSlice [PStr ''x'', PBool True])]"
    "clear_map [(''a'', PSlice [PStr ''x'', PBool True]), (''b'', PInt 1)]"
    "canon_map [(''b'', PInt 1), (''a'', PSlice [PStr ''x'', PBool True])] =
     canon_map [(''a'', PSlice [PStr ''x'', PBool True]), (''b'', PInt 1)]"
    by code_simp+
  then show ?thesis using map_hash_input_iff by blast
qed

text \<open>A byte string swallows what follows it: two different maps are written alike.\<close>

lemma byte_strings_run_on:
  "writeMapHash [(''a'', PBytes [0xf4, 0x62, 0xf7])] = writeMapHash [(''a'', PBytes []), (''b'', PStr [])]"
  by code_simp

end
