(* ===== verification/MetricTracker.thy ===== *)
theory MetricTracker
  imports PdataHash GoFloat Pdata
begin

text \<open>
  \<open>processor/cumulativetodeltaprocessor/internal/tracking\<close> of the bundled contrib module: the
  identity of a series as a key, the last point of every series, and the difference of a new point
  to it.  \<open>Convert\<close> is one step on the map of states; a nil \<open>HistogramPoint\<close> is \<open>None\<close>, and reading
  a field of it is \<open>Panic\<close>.  A histogram point is changed in place before it is stored, so the
  changed point is what is stored.
\<close>

section \<open>Identity of a series\<close>

datatype number_type = NumberEmpty | NumberInt | NumberDouble

fun metric_type_code :: "metric_type \<Rightarrow> nat" where
  "metric_type_code MetricTypeEmpty = 0"
| "metric_type_code MetricTypeGauge = 1"
| "metric_type_code MetricTypeSum = 2"
| "metric_type_code MetricTypeHistogram = 3"
| "metric_type_code MetricTypeExponentialHistogram = 4"
| "metric_type_code MetricTypeSummary = 5"

fun number_type_code :: "number_type \<Rightarrow> nat" where
  "number_type_code NumberEmpty = 0"
| "number_type_code NumberInt = 1"
| "number_type_code NumberDouble = 2"

record metric_identity =
  mi_resource :: pmap
  mi_scope_name :: string
  mi_scope_version :: string
  mi_type :: metric_type
  mi_monotonic :: bool
  mi_name :: string
  mi_unit :: string
  mi_start :: timestamp
  mi_attrs :: pmap
  mi_value_type :: number_type

definition SEP :: byte where "SEP = 0x1E"

text \<open>\<open>strconv.FormatInt\<close> to base 36.\<close>

definition digit36 :: "nat \<Rightarrow> byte" where
  "digit36 n = word_of_nat (if n < 10 then 48 + n else 87 + n)"

fun base36 :: "nat \<Rightarrow> byte list" where
  "base36 n = (if n < 36 then [digit36 n] else base36 (n div 36) @ [digit36 (n mod 36)])"

declare base36.simps [simp del]

definition FormatInt36 :: "int \<Rightarrow> byte list" where
  "FormatInt36 i = (if i < 0 then 45 # base36 (nat (- i)) else base36 (nat i))"

text \<open>\<open>Write\<close>; a rune below 128 is one byte.\<close>

definition Write :: "(byte list \<Rightarrow> byte list) \<Rightarrow> metric_identity \<Rightarrow> byte list" where
  "Write h64 mi =
     [word_of_nat (65 + metric_type_code (mi_type mi)), SEP, word_of_nat (65 + number_type_code (mi_value_type mi))] @
     (if 0 < length (mi_resource mi) then SEP # MapHash h64 (mi_resource mi) else []) @
     SEP # bytes_of (mi_scope_name mi) @ SEP # bytes_of (mi_scope_version mi) @
     SEP # (if mi_monotonic mi then 89 else 78) #
     SEP # bytes_of (mi_name mi) @ SEP # bytes_of (mi_unit mi) @
     (if 0 < length (mi_attrs mi) then SEP # MapHash h64 (mi_attrs mi) else []) @
     SEP # FormatInt36 (sint (mi_start mi))"

definition IsFloatVal :: "metric_identity \<Rightarrow> bool" where
  "IsFloatVal mi \<longleftrightarrow> mi_value_type mi = NumberDouble"

definition IsSupportedMetricType :: "metric_identity \<Rightarrow> bool" where
  "IsSupportedMetricType mi \<longleftrightarrow> mi_type mi = MetricTypeSum \<or> mi_type mi = MetricTypeHistogram"

section \<open>Points and differences\<close>

record histogram_point =
  hp_count :: u64
  hp_sum :: float64
  hp_buckets :: "u64 list"

record value_point =
  vp_time :: timestamp
  vp_float :: float64
  vp_int :: i64
  vp_hist :: "histogram_point option"

record metric_point =
  mp_identity :: metric_identity
  mp_value :: value_point

record delta_value =
  dv_start :: timestamp
  dv_float :: float64
  dv_int :: i64
  dv_hist :: "histogram_point option"

definition no_delta :: delta_value where
  "no_delta = \<lparr>dv_start = 0, dv_float = 0, dv_int = 0, dv_hist = None\<rparr>"

record metric_tracker =
  mt_staleness :: i64 \<comment> \<open>\<open>maxStaleness\<close>\<close>
  mt_states :: "byte list \<rightharpoonup> value_point"

definition NewMetricTracker :: "i64 \<Rightarrow> metric_tracker" where
  "NewMetricTracker maxStaleness = \<lparr>mt_staleness = maxStaleness, mt_states = Map.empty\<rparr>"

text \<open>The case of a histogram: the difference, whether it is valid, and the point as it is stored.\<close>

definition hist_delta ::
    "histogram_point option \<Rightarrow> histogram_point option \<Rightarrow> (histogram_point \<times> bool \<times> histogram_point) outcome" where
  "hist_delta prev new =
     (case (new, prev) of
        (Some v, Some p) \<Rightarrow>
          (let v' = (if f_nan (hp_sum v) then v\<lparr>hp_sum := hp_sum p\<rparr> else v);
               valid = (length (hp_buckets v') = length (hp_buckets p));
               d = (if valid \<and> hp_count p \<le> hp_count v'
                    then v'\<lparr>hp_count := hp_count v' - hp_count p, hp_sum := f_sub (hp_sum v') (hp_sum p),
                            hp_buckets := map2 (-) (hp_buckets v') (hp_buckets p)\<rparr>
                    else v')
           in Ret (d, valid, v'))
      | _ \<Rightarrow> Panic)"

text \<open>What is done under the lock of a state: the output, and the point that is stored.\<close>

definition difference ::
    "metric_identity \<Rightarrow> value_point \<Rightarrow> value_point \<Rightarrow> ((delta_value \<times> bool) \<times> value_point) outcome" where
  "difference ident prev point =
     (let out = no_delta\<lparr>dv_start := vp_time prev\<rparr> in
      case mi_type ident of
        MetricTypeHistogram \<Rightarrow>
          bind_outcome (hist_delta (vp_hist prev) (vp_hist point)) (\<lambda>(d, valid, v').
            Ret ((out\<lparr>dv_hist := Some d\<rparr>, valid), point\<lparr>vp_hist := Some v'\<rparr>))
      | MetricTypeSum \<Rightarrow>
          (if IsFloatVal ident
           then Ret ((out\<lparr>dv_float := f_sub (vp_float point) (vp_float prev)\<rparr>,
                      \<not> f_lt (vp_float point) (vp_float prev)), point)
           else Ret ((out\<lparr>dv_int := vp_int point - vp_int prev\<rparr>, \<not> vp_int point <s vp_int prev), point))
      | _ \<Rightarrow> Ret ((out, True), point))"

definition Convert ::
    "(byte list \<Rightarrow> byte list) \<Rightarrow> metric_point \<Rightarrow> metric_tracker \<Rightarrow> ((delta_value \<times> bool) \<times> metric_tracker) outcome" where
  "Convert h64 p t =
     (let ident = mp_identity p; point = mp_value p; hashableID = Write h64 ident in
      if \<not> IsSupportedMetricType ident then Ret ((no_delta, False), t)
      else if IsFloatVal ident \<and> f_nan (vp_float point) then Ret ((no_delta, False), t)
      else
        (case mt_states t hashableID of
           None \<Rightarrow> Ret ((no_delta, False), t\<lparr>mt_states := (mt_states t)(hashableID \<mapsto> point)\<rparr>)
         | Some prev \<Rightarrow>
             bind_outcome (difference ident prev point) (\<lambda>(out, stored).
               Ret (out, t\<lparr>mt_states := (mt_states t)(hashableID \<mapsto> stored)\<rparr>))))"

definition removeStale :: "timestamp \<Rightarrow> metric_tracker \<Rightarrow> metric_tracker" where
  "removeStale staleBefore t =
     t\<lparr>mt_states := (\<lambda>k. case mt_states t k of
           None \<Rightarrow> None
         | Some v \<Rightarrow> if vp_time v < staleBefore then None else Some v)\<rparr>"

text \<open>A tick of the sweeper at a time, in nanoseconds; it runs for a positive staleness only.\<close>

definition sweep :: "timestamp \<Rightarrow> metric_tracker \<Rightarrow> metric_tracker" where
  "sweep now t = (if 0 <s mt_staleness t then removeStale (now - mt_staleness t) t else t)"

section \<open>Different series have different keys\<close>

lemma sep_split:
  assumes "SEP \<notin> set xs" "SEP \<notin> set ys" "xs @ SEP # r = ys @ SEP # r'"
  shows "xs = ys \<and> r = r'"
proof -
  have tw: "takeWhile (\<lambda>b. b \<noteq> SEP) (zs @ SEP # q) = zs" if "SEP \<notin> set zs" for zs q
    using that by (induction zs) auto
  from tw [OF assms(1), of r] tw [OF assms(2), of r'] assms(3) show ?thesis by simp
qed

lemma sep_name:
  assumes "SEP \<notin> set (bytes_of s)" "SEP \<notin> set (bytes_of s')" "bytes_of s @ SEP # r = bytes_of s' @ SEP # r'"
  shows "s = s'" "r = r'"
  using sep_split [OF assms] by (auto dest: arg_cong [of "bytes_of s" _ string_of])

lemma unat_digit36: "n < 36 \<Longrightarrow> unat (digit36 n) = (if n < 10 then 48 + n else 87 + n)"
  unfolding digit36_def unat_of_nat by simp

lemma digit36_inject: "m < 36 \<Longrightarrow> n < 36 \<Longrightarrow> digit36 m = digit36 n \<Longrightarrow> m = n"
proof -
  assume m: "m < 36" and n: "n < 36" and "digit36 m = digit36 n"
  then have "unat (digit36 m) = unat (digit36 n)" by simp
  then show ?thesis unfolding unat_digit36 [OF m] unat_digit36 [OF n] using m n by (simp split: if_splits)
qed

lemma digit36_range: "n < 36 \<Longrightarrow> 48 \<le> unat (digit36 n)"
  by (simp add: unat_digit36)

lemma base36_nonempty [simp]: "base36 n \<noteq> []"
  by (subst base36.simps) simp

lemma base36_inject: "base36 m = base36 n \<Longrightarrow> m = n"
proof (induction m arbitrary: n rule: base36.induct)
  case (1 m)
  show ?case
  proof (cases "m < 36 \<or> n < 36")
    case True
    have "base36 i = [d] \<Longrightarrow> i < 36" for i d by (subst (asm) base36.simps) (auto split: if_splits)
    with True "1.prems" have "m < 36" "n < 36" by (metis base36.simps)+
    with "1.prems" digit36_inject show ?thesis by (auto simp: base36.simps [of m] base36.simps [of n])
  next
    case False
    then have "base36 (m div 36) = base36 (n div 36)" "digit36 (m mod 36) = digit36 (n mod 36)"
      using "1.prems" by (auto simp: base36.simps [of m] base36.simps [of n])
    then have "m div 36 = n div 36" "m mod 36 = n mod 36"
      using "1.IH" False digit36_inject [of "m mod 36" "n mod 36"] by auto
    then show ?thesis by (metis mult_div_mod_eq)
  qed
qed

lemma base36_digits: "b \<in> set (base36 n) \<Longrightarrow> 48 \<le> unat b"
proof (induction n rule: base36.induct)
  case (1 n)
  then show ?case by (auto simp: base36.simps [of n] digit36_range split: if_splits)
qed

lemma FormatInt36_inject: "FormatInt36 i = FormatInt36 j \<Longrightarrow> i = j"
proof -
  assume eq: "FormatInt36 i = FormatInt36 j"
  have "hd (base36 n) \<noteq> 45" for n using base36_digits [OF hd_in_set, of n] by auto
  then have "base36 m \<noteq> 45 # base36 n" for m n by (metis list.sel(1))
  with eq have "i < 0 \<longleftrightarrow> j < 0" by (auto simp: FormatInt36_def split: if_splits dest: sym)
  with eq show ?thesis by (auto simp: FormatInt36_def split: if_splits dest!: base36_inject)
qed

text \<open>The key tells the types apart, whatever the names.\<close>

lemma Write_types:
  assumes "Write h64 mi = Write h64 mi'"
  shows "mi_type mi = mi_type mi'" "mi_value_type mi = mi_value_type mi'"
proof -
  have eq: "(word_of_nat (65 + metric_type_code (mi_type mi)) :: byte) = word_of_nat (65 + metric_type_code (mi_type mi'))"
    "(word_of_nat (65 + number_type_code (mi_value_type mi)) :: byte) = word_of_nat (65 + number_type_code (mi_value_type mi'))"
    using assms by (simp_all add: Write_def del: of_nat_add)
  show "mi_type mi = mi_type mi'" using eq(1) by (cases "mi_type mi"; cases "mi_type mi'"; simp)
  show "mi_value_type mi = mi_value_type mi'" using eq(2) by (cases "mi_value_type mi"; cases "mi_value_type mi'"; simp)
qed

definition sep_free :: "metric_identity \<Rightarrow> bool" where
  "sep_free mi \<longleftrightarrow>
     (\<forall>s \<in> {mi_scope_name mi, mi_scope_version mi, mi_name mi, mi_unit mi}. SEP \<notin> set (bytes_of s))"

text \<open>
  Two series whose names, units and scopes are free of the separator, and of which both or
  neither have resource attributes and both or neither have attributes of their own, have the same
  key exactly if they agree in type, value type, scope, monotonicity, name, unit and start time,
  and their attributes in the hashes.
\<close>

lemma series_keys:
  assumes "sep_free mi" and "sep_free mi'"
    and "mi_resource mi = [] \<longleftrightarrow> mi_resource mi' = []" and "mi_attrs mi = [] \<longleftrightarrow> mi_attrs mi' = []"
  shows "Write h64 mi = Write h64 mi' \<longleftrightarrow>
    mi_type mi = mi_type mi' \<and> mi_value_type mi = mi_value_type mi' \<and>
    mi_scope_name mi = mi_scope_name mi' \<and> mi_scope_version mi = mi_scope_version mi' \<and>
    mi_monotonic mi = mi_monotonic mi' \<and> mi_name mi = mi_name mi' \<and> mi_unit mi = mi_unit mi' \<and>
    mi_start mi = mi_start mi' \<and>
    MapHash h64 (mi_resource mi) = MapHash h64 (mi_resource mi') \<and>
    MapHash h64 (mi_attrs mi) = MapHash h64 (mi_attrs mi')" (is "?L \<longleftrightarrow> ?R")
proof
  assume eq: ?L
  note types = Write_types [OF eq]
  let ?tail = "\<lambda>mi. (if 0 < length (mi_attrs mi) then MapHash h64 (mi_attrs mi) @ [SEP] else []) @
      FormatInt36 (sint (mi_start mi))"
  let ?rest = "\<lambda>mi. (if mi_monotonic mi then 89 else 78) # SEP # bytes_of (mi_name mi) @ SEP # bytes_of (mi_unit mi) @
      SEP # ?tail mi"
  have free: "SEP \<notin> set (bytes_of (mi_scope_name x))" "SEP \<notin> set (bytes_of (mi_scope_version x))"
    "SEP \<notin> set (bytes_of (mi_name x))" "SEP \<notin> set (bytes_of (mi_unit x))" if "x = mi \<or> x = mi'" for x
    using that assms(1,2) by (auto simp: sep_free_def)
  have 0: "MapHash h64 (mi_resource mi) = MapHash h64 (mi_resource mi')"
      "bytes_of (mi_scope_name mi) @ SEP # (bytes_of (mi_scope_version mi) @ SEP # ?rest mi) =
       bytes_of (mi_scope_name mi') @ SEP # (bytes_of (mi_scope_version mi') @ SEP # ?rest mi')"
    using eq types assms(3) by (auto simp: Write_def)
  note 1 = sep_name [OF free(1) free(1) 0(2), simplified]
  note 2 = sep_name [OF free(2) free(2) 1(2), simplified]
  have 3: "mi_monotonic mi = mi_monotonic mi'"
    "bytes_of (mi_name mi) @ SEP # (bytes_of (mi_unit mi) @ SEP # ?tail mi) =
     bytes_of (mi_name mi') @ SEP # (bytes_of (mi_unit mi') @ SEP # ?tail mi')"
    using 2(2) assms(4) by (auto split: if_splits)
  note 4 = sep_name [OF free(3) free(3) 3(2), simplified]
  note 5 = sep_name [OF free(4) free(4) 4(2), simplified]
  have 6: "MapHash h64 (mi_attrs mi) = MapHash h64 (mi_attrs mi')"
    "FormatInt36 (sint (mi_start mi)) = FormatInt36 (sint (mi_start mi'))"
    using 5(2) assms(4) by (auto split: if_splits)
  from FormatInt36_inject [OF 6(2)] have "mi_start mi = mi_start mi'" by (rule signed_word_eqI)
  with 0 1 2 3 4 5 6 types show ?R by simp
next
  assume ?R
  with assms(3,4) show ?L by (simp add: Write_def)
qed

lemma series_keys_witness:
  "Write (\<lambda>_. []) \<lparr>mi_resource = [], mi_scope_name = ''s'', mi_scope_version = [], mi_type = MetricTypeSum,
      mi_monotonic = True, mi_name = ''a'', mi_unit = ''1'', mi_start = 0, mi_attrs = [], mi_value_type = NumberInt\<rparr> \<noteq>
   Write (\<lambda>_. []) \<lparr>mi_resource = [], mi_scope_name = ''s'', mi_scope_version = [], mi_type = MetricTypeSum,
      mi_monotonic = True, mi_name = ''b'', mi_unit = ''1'', mi_start = 0, mi_attrs = [], mi_value_type = NumberInt\<rparr>"
proof -
  have "sep_free \<lparr>mi_resource = [], mi_scope_name = ''s'', mi_scope_version = [], mi_type = MetricTypeSum,
      mi_monotonic = True, mi_name = n, mi_unit = ''1'', mi_start = 0, mi_attrs = [], mi_value_type = NumberInt\<rparr>"
    if "n = ''a'' \<or> n = ''b''" for n
    using that by (auto simp: sep_free_def SEP_def bytes_of_def)
  then show ?thesis by (subst series_keys) simp_all
qed

section \<open>Runs of the tracker\<close>

text \<open>The calls a tracker gets: points to convert, and the removals of the sweeper.\<close>

datatype tracker_op = Observe metric_point | Sweep timestamp

fun track ::
    "(byte list \<Rightarrow> byte list) \<Rightarrow> tracker_op list \<Rightarrow> metric_tracker \<Rightarrow>
     ((metric_point \<times> delta_value \<times> bool) list \<times> metric_tracker) outcome" where
  "track h64 [] t = Ret ([], t)"
| "track h64 (Observe p # ops) t =
     bind_outcome (Convert h64 p t) (\<lambda>((out, valid), t').
       bind_outcome (track h64 ops t') (\<lambda>(outs, t''). Ret ((p, out, valid) # outs, t'')))"
| "track h64 (Sweep ts # ops) t = track h64 ops (removeStale ts t)"

text \<open>The points the tracker looks at, and those of one series.\<close>

definition tracked :: "metric_point \<Rightarrow> bool" where
  "tracked p \<longleftrightarrow> IsSupportedMetricType (mp_identity p) \<and>
     \<not> (IsFloatVal (mp_identity p) \<and> f_nan (vp_float (mp_value p)))"

definition in_series :: "(byte list \<Rightarrow> byte list) \<Rightarrow> byte list \<Rightarrow> metric_point \<Rightarrow> bool" where
  "in_series h64 k p \<longleftrightarrow> tracked p \<and> Write h64 (mp_identity p) = k"

text \<open>
  The reference for one series: every point is compared with the one before it that is still known,
  and nothing else matters.
\<close>

fun follow_series ::
    "(byte list \<Rightarrow> byte list) \<Rightarrow> byte list \<Rightarrow> value_point option \<Rightarrow> tracker_op list \<Rightarrow>
     (metric_point \<times> delta_value \<times> bool) list outcome" where
  "follow_series h64 k prev [] = Ret []"
| "follow_series h64 k prev (Observe p # ops) =
     (if \<not> in_series h64 k p then follow_series h64 k prev ops
      else
        (case prev of
           None \<Rightarrow>
             bind_outcome (follow_series h64 k (Some (mp_value p)) ops) (\<lambda>outs. Ret ((p, no_delta, False) # outs))
         | Some v \<Rightarrow>
             bind_outcome (difference (mp_identity p) v (mp_value p)) (\<lambda>((out, valid), stored).
               bind_outcome (follow_series h64 k (Some stored) ops) (\<lambda>outs. Ret ((p, out, valid) # outs)))))"
| "follow_series h64 k prev (Sweep ts # ops) =
     follow_series h64 k (case prev of None \<Rightarrow> None | Some v \<Rightarrow> if vp_time v < ts then None else Some v) ops"

definition of_series ::
    "(byte list \<Rightarrow> byte list) \<Rightarrow> byte list \<Rightarrow> (metric_point \<times> delta_value \<times> bool) list \<Rightarrow>
     (metric_point \<times> delta_value \<times> bool) list" where
  "of_series h64 k outs = filter (\<lambda>x. in_series h64 k (fst x)) outs"

lemma of_series_simps [simp]:
  "of_series h64 k [] = []"
  "of_series h64 k (x # outs) = (if in_series h64 k (fst x) then x # of_series h64 k outs else of_series h64 k outs)"
  by (simp_all add: of_series_def)

lemma Convert_cases:
  "Convert h64 p t =
     (if \<not> tracked p then Ret ((no_delta, False), t)
      else case mt_states t (Write h64 (mp_identity p)) of
        None \<Rightarrow> Ret ((no_delta, False), t\<lparr>mt_states := (mt_states t)(Write h64 (mp_identity p) \<mapsto> mp_value p)\<rparr>)
      | Some prev \<Rightarrow>
          bind_outcome (difference (mp_identity p) prev (mp_value p)) (\<lambda>(out, stored).
            Ret (out, t\<lparr>mt_states := (mt_states t)(Write h64 (mp_identity p) \<mapsto> stored)\<rparr>)))"
  by (auto simp: Convert_def tracked_def Let_def split: option.split)

lemma track_series:
  assumes "track h64 ops t = Ret (outs, t')"
  shows "follow_series h64 k (mt_states t k) ops = Ret (of_series h64 k outs)"
  using assms
proof (induction ops arbitrary: t outs)
  case (Cons op ops)
  show ?case
  proof (cases op)
    case (Observe p)
    from Cons.prems obtain out valid t1 outs1 where c: "Convert h64 p t = Ret ((out, valid), t1)"
      and rest: "track h64 ops t1 = Ret (outs1, t')" and outs: "outs = (p, out, valid) # outs1"
      by (auto simp: Observe bind_outcome_Ret_iff)
    note IH = Cons.IH [OF rest]
    show ?thesis
    proof (cases "in_series h64 k p")
      case False
      then have "mt_states t1 k = mt_states t k"
        using c by (auto simp: Convert_cases in_series_def bind_outcome_Ret_iff split: if_splits option.splits)
      with False IH show ?thesis by (simp add: Observe outs)
    next
      case True
      with c IH show ?thesis
        by (auto simp: Observe outs Convert_cases in_series_def bind_outcome_Ret_iff split: option.splits)
    qed
  next
    case (Sweep ts)
    from Cons.IH [of "removeStale ts t" outs] Cons.prems show ?thesis
      by (simp add: Sweep removeStale_def)
  qed
qed simp

text \<open>The processor gives every histogram point a value; then nothing panics.\<close>

definition point_ok :: "metric_point \<Rightarrow> bool" where
  "point_ok p \<longleftrightarrow> (mi_type (mp_identity p) = MetricTypeHistogram \<longrightarrow> vp_hist (mp_value p) \<noteq> None)"

fun observed :: "tracker_op list \<Rightarrow> metric_point list" where
  "observed [] = []"
| "observed (Observe p # ops) = p # observed ops"
| "observed (Sweep ts # ops) = observed ops"

text \<open>The key of a histogram starts with its type.\<close>

definition hist_key :: "byte list \<Rightarrow> bool" where
  "hist_key k \<longleftrightarrow> (case k of [] \<Rightarrow> False | b # _ \<Rightarrow> b = 68)"

definition states_ok :: "metric_tracker \<Rightarrow> bool" where
  "states_ok t \<longleftrightarrow> (\<forall>k v. mt_states t k = Some v \<longrightarrow> hist_key k \<longrightarrow> vp_hist v \<noteq> None)"

lemma key_type: "hist_key (Write h64 mi) \<longleftrightarrow> mi_type mi = MetricTypeHistogram"
  by (cases "mi_type mi") (simp_all add: Write_def hist_key_def)

lemma difference_ok:
  assumes "point_ok p" and "mi_type (mp_identity p) = MetricTypeHistogram \<longrightarrow> vp_hist prev \<noteq> None"
  shows "\<exists>out stored. difference (mp_identity p) prev (mp_value p) = Ret (out, stored) \<and>
    (mi_type (mp_identity p) = MetricTypeHistogram \<longrightarrow> vp_hist stored \<noteq> None)"
  using assms by (cases "mi_type (mp_identity p)") (auto simp: difference_def point_ok_def hist_delta_def Let_def)

lemma Convert_ok:
  assumes "states_ok t" and "point_ok p"
  shows "\<exists>out t'. Convert h64 p t = Ret (out, t') \<and> states_ok t'"
proof (cases "mt_states t (Write h64 (mp_identity p))")
  case None
  with assms show ?thesis by (auto simp: Convert_cases states_ok_def point_ok_def key_type)
next
  case (Some prev)
  then have "mi_type (mp_identity p) = MetricTypeHistogram \<longrightarrow> vp_hist prev \<noteq> None"
    using assms(1) by (simp add: states_ok_def key_type)
  from difference_ok [OF assms(2) this] Some assms(1) show ?thesis
    by (auto simp: Convert_cases states_ok_def key_type)
qed

lemma track_ok:
  "states_ok t \<Longrightarrow> \<forall>p \<in> set (observed ops). point_ok p \<Longrightarrow>
     \<exists>outs t'. track h64 ops t = Ret (outs, t') \<and> map fst outs = observed ops"
proof (induction ops arbitrary: t)
  case (Cons op ops)
  show ?case
  proof (cases op)
    case (Observe p)
    with Cons.prems obtain out valid t1 where c: "Convert h64 p t = Ret ((out, valid), t1)" "states_ok t1"
      using Convert_ok [of t p h64] by auto
    with Cons.IH [of t1] Cons.prems(2) Observe show ?thesis by auto
  next
    case (Sweep ts)
    have "states_ok (removeStale ts t)"
      using Cons.prems(1) by (auto simp: states_ok_def removeStale_def split: option.splits if_splits)
    from Cons.IH [OF this] Cons.prems(2) show ?thesis by (simp add: Sweep)
  qed
qed simp

text \<open>
  C11: whatever points of whatever series are converted, and however the sweeper removes states in
  between, the tracker answers every point without a panic, and what it answers for one series is
  what following that series alone would answer: each point is compared with the one before it of
  the same key, and no other series matters.
\<close>

theorem tracker_follows_each_series:
  assumes "\<forall>p \<in> set (observed ops). point_ok p"
  shows "\<exists>outs t. track h64 ops (NewMetricTracker maxStaleness) = Ret (outs, t) \<and> map fst outs = observed ops \<and>
    (\<forall>k. follow_series h64 k None ops = Ret (filter (\<lambda>x. in_series h64 k (fst x)) outs))"
proof -
  have "states_ok (NewMetricTracker maxStaleness)" by (simp add: states_ok_def NewMetricTracker_def)
  from track_ok [OF this assms] obtain outs t where
    t: "track h64 ops (NewMetricTracker maxStaleness) = Ret (outs, t)" "map fst outs = observed ops" by blast
  from track_series [OF t(1)] t show ?thesis by (simp add: NewMetricTracker_def of_series_def)
qed

definition sample_identity :: "string \<Rightarrow> metric_identity" where
  "sample_identity n =
     \<lparr>mi_resource = [], mi_scope_name = [], mi_scope_version = [], mi_type = MetricTypeSum, mi_monotonic = True,
      mi_name = n, mi_unit = [], mi_start = 0, mi_attrs = [], mi_value_type = NumberInt\<rparr>"

definition sample_point :: "string \<Rightarrow> timestamp \<Rightarrow> i64 \<Rightarrow> metric_point" where
  "sample_point n t v =
     \<lparr>mp_identity = sample_identity n, mp_value = \<lparr>vp_time = t, vp_float = 0, vp_int = v, vp_hist = None\<rparr>\<rparr>"

lemma sample_point_ok: "point_ok (sample_point n t v)"
  by (simp add: point_ok_def sample_point_def sample_identity_def)

theorem tracker_follows_each_series_witness:
  "\<exists>outs t. track (\<lambda>_. []) [Observe (sample_point ''a'' 1 5), Observe (sample_point ''b'' 2 9),
       Observe (sample_point ''a'' 3 7)] (NewMetricTracker 0) = Ret (outs, t) \<and> length outs = 3"
  using tracker_follows_each_series [of "[Observe (sample_point ''a'' 1 5), Observe (sample_point ''b'' 2 9),
       Observe (sample_point ''a'' 3 7)]" "\<lambda>_. []" 0]
  by (force simp: sample_point_ok dest: arg_cong [of _ _ length])

section \<open>Differences add up\<close>

definition int_sum :: "metric_point \<Rightarrow> bool" where
  "int_sum p \<longleftrightarrow> mi_type (mp_identity p) = MetricTypeSum \<and> mi_value_type (mp_identity p) = NumberInt"

lemma int_sum_difference:
  "int_sum p \<Longrightarrow> difference (mp_identity p) prev (mp_value p) =
     Ret ((no_delta\<lparr>dv_start := vp_time prev, dv_int := vp_int (mp_value p) - vp_int prev\<rparr>,
           \<not> vp_int (mp_value p) <s vp_int prev), mp_value p)"
  by (simp add: int_sum_def difference_def IsFloatVal_def Let_def)

lemma follow_int_sums:
  assumes "\<forall>p \<in> set ps. in_series h64 k p \<longrightarrow> int_sum p"
    and "sorted_wrt (\<lambda>p q. \<not> vp_int (mp_value q) <s vp_int (mp_value p)) qs" and "qs = [p \<leftarrow> ps. in_series h64 k p]"
    and "\<forall>q \<in> set qs. \<not> vp_int (mp_value q) <s vp_int v"
  shows "\<exists>outs. follow_series h64 k (Some v) (map Observe ps) = Ret outs \<and> map fst outs = qs \<and>
    (\<forall>x \<in> set outs. snd (snd x)) \<and>
    sum_list (map (\<lambda>x. dv_int (fst (snd x))) outs) = (if qs = [] then 0 else vp_int (mp_value (last qs)) - vp_int v) \<and>
    map (\<lambda>x. dv_start (fst (snd x))) outs = butlast (vp_time v # map (vp_time \<circ> mp_value) qs)"
  using assms
proof (induction ps arbitrary: v qs)
  case (Cons p ps)
  show ?case
  proof (cases "in_series h64 k p")
    case False
    with Cons show ?thesis by simp
  next
    case True
    let ?qs = "[p \<leftarrow> ps. in_series h64 k p]"
    have qs: "qs = p # ?qs" using Cons.prems(3) True by simp
    have p: "int_sum p" using Cons.prems(1) True by simp
    have ge: "\<not> vp_int (mp_value p) <s vp_int v" using Cons.prems(4) by (simp add: qs)
    have "\<forall>q \<in> set ps. in_series h64 k q \<longrightarrow> int_sum q" using Cons.prems(1) by simp
    moreover have "sorted_wrt (\<lambda>p q. \<not> vp_int (mp_value q) <s vp_int (mp_value p)) ?qs"
      and "\<forall>q \<in> set ?qs. \<not> vp_int (mp_value q) <s vp_int (mp_value p)"
      using Cons.prems(2) unfolding qs by simp_all
    ultimately obtain outs where
      IH: "follow_series h64 k (Some (mp_value p)) (map Observe ps) = Ret outs" "map fst outs = ?qs"
        "\<forall>x \<in> set outs. snd (snd x)"
        "sum_list (map (\<lambda>x. dv_int (fst (snd x))) outs) =
           (if ?qs = [] then 0 else vp_int (mp_value (last ?qs)) - vp_int (mp_value p))"
        "map (\<lambda>x. dv_start (fst (snd x))) outs = butlast (vp_time (mp_value p) # map (vp_time \<circ> mp_value) ?qs)"
      using Cons.IH [of ?qs "mp_value p"] by blast
    let ?out = "(p, no_delta\<lparr>dv_start := vp_time v, dv_int := vp_int (mp_value p) - vp_int v\<rparr>, True)"
    show ?thesis
    proof (intro exI conjI)
      show "follow_series h64 k (Some v) (map Observe (p # ps)) = Ret (?out # outs)"
        using True IH(1) ge by (simp add: int_sum_difference [OF p])
      show "sum_list (map (\<lambda>x. dv_int (fst (snd x))) (?out # outs)) =
          (if qs = [] then 0 else vp_int (mp_value (last qs)) - vp_int v)"
        using IH(4) by (auto simp: qs)
      show "map (\<lambda>x. dv_start (fst (snd x))) (?out # outs) = butlast (vp_time v # map (vp_time \<circ> mp_value) qs)"
        using IH(5) by (simp add: qs)
    qed (use IH in \<open>auto simp: qs\<close>)
  qed
qed simp



text \<open>
  A histogram that was reset is not dropped but reported as a difference, and a bucket that shrinks
  while the count grows wraps around.
\<close>

lemma histogram_reset_is_valid:
  "length (hp_buckets v) = length (hp_buckets p) \<Longrightarrow> hp_count v < hp_count p \<Longrightarrow> \<not> f_nan (hp_sum v) \<Longrightarrow>
   hist_delta (Some p) (Some v) = Ret (v, True, v)"
  by (simp add: hist_delta_def Let_def)

lemma histogram_bucket_wraps:
  "hist_delta (Some \<lparr>hp_count = 2, hp_sum = 0x3FF0000000000000, hp_buckets = [2, 0]\<rparr>)
     (Some \<lparr>hp_count = 3, hp_sum = 0x4000000000000000, hp_buckets = [1, 2]\<rparr>) =
   Ret (\<lparr>hp_count = 1, hp_sum = 0x3FF0000000000000, hp_buckets = [2 ^ 64 - 1, 2]\<rparr>, True,
        \<lparr>hp_count = 3, hp_sum = 0x4000000000000000, hp_buckets = [1, 2]\<rparr>)"
  by code_simp

end
