(* ===== verification/FilterSets.thy ===== *)
theory FilterSets
  imports TailFilters
begin

text \<open>
  \<open>internal/filter/filterset\<close> of the bundled contrib module: sets of names, given exactly or by
  regular expressions with an optional cache of results.  The expression engine and the cache are
  those of the sampling policies (\<open>sampling_libs\<close>).  A \<open>FilterSet\<close> is an interface: the nil pointer
  that \<open>NewFilterSet\<close> returns with an error becomes an interface that is not nil.
\<close>

record regexp_config =
  rc_cache_enabled :: bool
  rc_cache_max :: int

record filter_config =
  fc_match_type :: string
  fc_regexp :: "regexp_config option"

datatype 'c filter_set =
    StrictSet "string list" \<comment> \<open>the keys of \<open>filters\<close>\<close>
  | RegexpSet "string list" "'c option" \<comment> \<open>\<open>regexes\<close>, \<open>cache\<close> if enabled\<close>
  | NilRegexpSet

datatype filter_error = ErrInvalidPattern string | ErrUnrecognizedMatchType string

section \<open>Creation\<close>

text \<open>\<open>addFilters\<close>: a pattern that was seen before is skipped; the first invalid one ends the loop.\<close>

fun addFilters :: "'c sampling_libs \<Rightarrow> string list \<Rightarrow> string list \<Rightarrow> filter_error + string list" where
  "addFilters libs regexes [] = Inr regexes"
| "addFilters libs regexes (f # fs) =
     (if f \<in> set regexes then addFilters libs regexes fs
      else if \<not> rx_valid libs f then Inl (ErrInvalidPattern f)
      else addFilters libs (regexes @ [f]) fs)"

definition newRegexpFilterSet ::
    "'c sampling_libs \<Rightarrow> string list \<Rightarrow> regexp_config option \<Rightarrow> 'c filter_set \<times> filter_error option" where
  "newRegexpFilterSet libs filters cfg =
     (let cache = (case cfg of
            Some c \<Rightarrow> if rc_cache_enabled c then Some (lru_new libs (rc_cache_max c)) else None
          | None \<Rightarrow> None)
      in case addFilters libs [] filters of
           Inl err \<Rightarrow> (NilRegexpSet, Some err)
         | Inr regexes \<Rightarrow> (RegexpSet regexes cache, None))"

definition newStrictFilterSet :: "string list \<Rightarrow> 'c filter_set" where
  "newStrictFilterSet filters = StrictSet (remdups filters)"

text \<open>The interface, nil or not, with the error.\<close>

definition CreateFilterSet ::
    "'c sampling_libs \<Rightarrow> string list \<Rightarrow> filter_config \<Rightarrow> 'c filter_set option \<times> filter_error option" where
  "CreateFilterSet libs filters cfg =
     (if fc_match_type cfg = ''regexp'' then
        (case newRegexpFilterSet libs filters (fc_regexp cfg) of (fs, err) \<Rightarrow> (Some fs, err))
      else if fc_match_type cfg = ''strict'' then (Some (newStrictFilterSet filters), None)
      else (None, Some (ErrUnrecognizedMatchType (fc_match_type cfg))))"

section \<open>Matching\<close>

fun any_match :: "'c sampling_libs \<Rightarrow> string list \<Rightarrow> string \<Rightarrow> bool" where
  "any_match libs [] toMatch = False"
| "any_match libs (r # rs) toMatch = (if rx_match libs r toMatch then True else any_match libs rs toMatch)"

text \<open>A method on the nil pointer reads a field of it and panics.\<close>

fun Matches :: "'c sampling_libs \<Rightarrow> string \<Rightarrow> 'c filter_set \<Rightarrow> (bool \<times> 'c filter_set) outcome" where
  "Matches libs toMatch (StrictSet filters) = Ret (toMatch \<in> set filters, StrictSet filters)"
| "Matches libs toMatch (RegexpSet regexes None) =
     Ret (any_match libs regexes toMatch, RegexpSet regexes None)"
| "Matches libs toMatch (RegexpSet regexes (Some cache)) =
     (case lru_get libs cache toMatch of
        (Some v, cache1) \<Rightarrow> Ret (v, RegexpSet regexes (Some cache1))
      | (None, cache1) \<Rightarrow>
          (let res = any_match libs regexes toMatch
           in Ret (res, RegexpSet regexes (Some (lru_add libs cache1 toMatch res)))))"
| "Matches libs toMatch NilRegexpSet = Panic"

section \<open>What a set matches\<close>

lemma any_match_iff: "any_match libs rs s \<longleftrightarrow> (\<exists>r \<in> set rs. rx_match libs r s)"
  by (induction rs) auto

text \<open>The names a set stands for, whatever its cache holds.\<close>

fun set_names :: "'c sampling_libs \<Rightarrow> 'c filter_set \<Rightarrow> string \<Rightarrow> bool" where
  "set_names libs (StrictSet filters) s = (s \<in> set filters)"
| "set_names libs (RegexpSet regexes _) s = (\<exists>r \<in> set regexes. rx_match libs r s)"
| "set_names libs NilRegexpSet s = False"

fun set_ok :: "'c sampling_libs \<Rightarrow> ('c \<Rightarrow> string \<rightharpoonup> bool) \<Rightarrow> 'c filter_set \<Rightarrow> bool" where
  "set_ok libs contents (StrictSet filters) = True"
| "set_ok libs contents (RegexpSet regexes None) = True"
| "set_ok libs contents (RegexpSet regexes (Some c)) =
     (\<forall>k v. contents c k = Some v \<longrightarrow> v = (\<exists>r \<in> set regexes. rx_match libs r k))"
| "set_ok libs contents NilRegexpSet = False"

lemma Matches_spec:
  assumes law: "lru_lawful libs contents" and ok: "set_ok libs contents fs"
  shows "\<exists>fs'. Matches libs s fs = Ret (set_names libs fs s, fs') \<and> set_ok libs contents fs' \<and>
    set_names libs fs' = set_names libs fs"
proof (cases fs)
  case (RegexpSet regexes cache)
  show ?thesis
  proof (cases cache)
    case (Some c)
    let ?m = "RegexMatch regexes c"
    have "matcher_ok libs contents ?m" using ok by (simp add: RegexpSet Some matcher_ok_def plain_match_def)
    note m = match_value_ok [OF law this, of s]
    obtain r c1 where g: "lru_get libs c s = (r, c1)" by fastforce
    then obtain b c' where mv: "match_value libs s ?m = (b, RegexMatch regexes c')"
      by (cases r) (auto simp: match_value_def Let_def)
    then have "Matches libs s fs = Ret (b, RegexpSet regexes (Some c'))"
      by (auto simp: RegexpSet Some match_value_def Let_def any_match_iff list_ex_iff split: prod.splits option.splits)
    with m mv show ?thesis
      by (auto simp: RegexpSet matcher_ok_def plain_match_def fun_eq_iff)
  qed (simp add: RegexpSet any_match_iff fun_eq_iff)
qed (use ok in \<open>auto simp: fun_eq_iff\<close>)

lemma addFilters_Inr: "addFilters libs rs fs = Inr rs' \<Longrightarrow> set rs' = set rs \<union> set fs"
  by (induction libs rs fs rule: addFilters.induct) (auto split: if_splits)

text \<open>A set that was created without an error stands for the names given.\<close>

lemma CreateFilterSet_ok:
  assumes "lru_lawful libs contents" and "CreateFilterSet libs filters cfg = (Some fs, None)"
  shows "set_ok libs contents fs" and
    "set_names libs fs s \<longleftrightarrow>
       (if fc_match_type cfg = ''regexp'' then \<exists>f \<in> set filters. rx_match libs f s else s \<in> set filters)"
  using assms addFilters_Inr [of libs "[]" filters]
  by (auto simp: CreateFilterSet_def newRegexpFilterSet_def newStrictFilterSet_def lru_lawful_def Let_def
      split: if_splits sum.splits option.splits)

end
