(* ===== verification/RemoveIf.thy ===== *)
theory RemoveIf
  imports Pdata
begin

text \<open>
  \<open>RemoveIf\<close> of the slices of telemetry data: it calls a function on every element in order, which
  may change the element and a state, and keeps those for which the function returns false; and the
  nest of three such calls that processors use to drop items, and what is left empty by it.
\<close>

fun remove_if :: "('a \<Rightarrow> 's \<Rightarrow> (bool \<times> 'a \<times> 's) outcome) \<Rightarrow> 'a list \<Rightarrow> 's \<Rightarrow> ('a list \<times> 's) outcome" where
  "remove_if f [] s = Ret ([], s)"
| "remove_if f (x # xs) s =
     bind_outcome (f x s) (\<lambda>(drop, x', s').
       bind_outcome (remove_if f xs s') (\<lambda>(ys, s'').
         Ret (if drop then ys else x' # ys, s'')))"

definition remove_in_scope :: "('a \<Rightarrow> bool outcome) \<Rightarrow> 'a scoped \<Rightarrow> unit \<Rightarrow> (bool \<times> 'a scoped \<times> unit) outcome" where
  "remove_in_scope f ils u =
     bind_outcome (remove_if (\<lambda>x u. bind_outcome (f x) (\<lambda>drop. Ret (drop, x, u))) (scope_items ils) u)
       (\<lambda>(xs, u'). Ret (length xs = 0, ils\<lparr>scope_items := xs\<rparr>, u'))"

definition remove_in_resource ::
    "('a \<Rightarrow> bool outcome) \<Rightarrow> 'a ot_resource \<Rightarrow> unit \<Rightarrow> (bool \<times> 'a ot_resource \<times> unit) outcome" where
  "remove_in_resource f rs u =
     bind_outcome (remove_if (remove_in_scope f) (res_scopes rs) u)
       (\<lambda>(ss, u'). Ret (length ss = 0, rs\<lparr>res_scopes := ss\<rparr>, u'))"

definition remove_items :: "('a \<Rightarrow> bool outcome) \<Rightarrow> 'a telemetry \<Rightarrow> 'a telemetry outcome" where
  "remove_items f td = bind_outcome (remove_if (remove_in_resource f) td ()) (\<lambda>(td', _). Ret td')"

lemma remove_if_Ret:
  assumes "\<And>x. x \<in> set xs \<Longrightarrow> f x s = Ret (d x, g x, s)"
  shows "remove_if f xs s = Ret (map g (filter (\<lambda>x. \<not> d x) xs), s)"
  using assms by (induction xs) auto

lemma remove_if_panics:
  assumes "\<And>x. x \<in> set xs \<Longrightarrow> bad x \<Longrightarrow> f x s = Panic" and "\<And>x. x \<in> set xs \<Longrightarrow> \<not> bad x \<Longrightarrow> \<exists>d x'. f x s = Ret (d, x', s)"
    and "\<exists>x \<in> set xs. bad x"
  shows "remove_if f xs s = Panic"
  using assms
proof (induction xs)
  case (Cons x xs)
  show ?case
  proof (cases "bad x")
    case False
    then obtain d x' where "f x s = Ret (d, x', s)" using Cons.prems(2) [of x] by auto
    moreover have "remove_if f xs s = Panic" using Cons False by auto
    ultimately show ?thesis by simp
  qed (simp add: Cons.prems(1))
qed simp

section \<open>The nest without panics\<close>

text \<open>What is left when the items that satisfy \<open>d\<close> are dropped.\<close>

definition kept_scope :: "('a \<Rightarrow> bool) \<Rightarrow> 'a scoped \<Rightarrow> 'a scoped" where
  "kept_scope d ils = ils\<lparr>scope_items := filter (\<lambda>x. \<not> d x) (scope_items ils)\<rparr>"

definition kept_resource :: "('a \<Rightarrow> bool) \<Rightarrow> 'a ot_resource \<Rightarrow> 'a ot_resource" where
  "kept_resource d rs = rs\<lparr>res_scopes := filter (\<lambda>s. scope_items s \<noteq> []) (map (kept_scope d) (res_scopes rs))\<rparr>"

definition kept_items :: "('a \<Rightarrow> bool) \<Rightarrow> 'a telemetry \<Rightarrow> 'a telemetry" where
  "kept_items d td = filter (\<lambda>r. res_scopes r \<noteq> []) (map (kept_resource d) td)"

lemma remove_in_scope_Ret:
  assumes "\<And>x. x \<in> set (scope_items ils) \<Longrightarrow> f x = Ret (d x)"
  shows "remove_in_scope f ils u = Ret (scope_items (kept_scope d ils) = [], kept_scope d ils, u)"
proof -
  have "remove_if (\<lambda>x u. bind_outcome (f x) (\<lambda>drop. Ret (drop, x, u))) (scope_items ils) u =
      Ret (map (\<lambda>x. x) (filter (\<lambda>x. \<not> d x) (scope_items ils)), u)"
    using assms by (intro remove_if_Ret) simp
  then show ?thesis by (simp add: remove_in_scope_def kept_scope_def)
qed

lemma remove_in_resource_Ret:
  assumes "\<And>ils x. ils \<in> set (res_scopes rs) \<Longrightarrow> x \<in> set (scope_items ils) \<Longrightarrow> f x = Ret (d x)"
  shows "remove_in_resource f rs u = Ret (res_scopes (kept_resource d rs) = [], kept_resource d rs, u)"
proof -
  have "remove_if (remove_in_scope f) (res_scopes rs) u =
      Ret (map (kept_scope d) (filter (\<lambda>s. \<not> scope_items (kept_scope d s) = []) (res_scopes rs)), u)"
    using assms by (intro remove_if_Ret remove_in_scope_Ret) simp
  then show ?thesis by (simp add: remove_in_resource_def kept_resource_def filter_map comp_def)
qed

lemma items_mem: "x \<in> set (items td) \<longleftrightarrow> (\<exists>rs \<in> set td. \<exists>ils \<in> set (res_scopes rs). x \<in> set (scope_items ils))"
  by (auto simp: items_def)

lemma remove_items_Ret:
  assumes "\<And>x. x \<in> set (items td) \<Longrightarrow> f x = Ret (d x)"
  shows "remove_items f td = Ret (kept_items d td)"
proof -
  have "remove_if (remove_in_resource f) td () =
      Ret (map (kept_resource d) (filter (\<lambda>r. \<not> res_scopes (kept_resource d r) = []) td), ())"
    using assms by (intro remove_if_Ret remove_in_resource_Ret) (auto simp: items_mem)
  then show ?thesis by (simp add: remove_items_def kept_items_def filter_map comp_def)
qed

lemma items_nonempty:
  "concat (map f (filter (\<lambda>x. f x \<noteq> []) xs)) = concat (map f xs)"
  by (induction xs) auto

lemma items_kept: "items (kept_items d td) = filter (\<lambda>x. \<not> d x) (items td)"
proof -
  have s: "concat (map scope_items (res_scopes (kept_resource d r))) =
      filter (\<lambda>x. \<not> d x) (concat (map scope_items (res_scopes r)))" for r
    unfolding kept_resource_def by (simp add: items_nonempty filter_concat comp_def kept_scope_def)
  have "concat (map (\<lambda>r. concat (map scope_items (res_scopes r))) (filter (\<lambda>r. res_scopes r \<noteq> []) rs)) =
      concat (map (\<lambda>r. concat (map scope_items (res_scopes r))) rs)" for rs :: "'a telemetry"
    by (induction rs) auto
  then show ?thesis by (simp add: items_def kept_items_def comp_def s filter_concat)
qed

lemma kept_nonempty:
  "r \<in> set (kept_items d td) \<Longrightarrow> res_scopes r \<noteq> []"
  "r \<in> set (kept_items d td) \<Longrightarrow> sc \<in> set (res_scopes r) \<Longrightarrow> scope_items sc \<noteq> []"
  by (auto simp: kept_items_def kept_resource_def)

lemma kept_empty_iff: "kept_items d td = [] \<longleftrightarrow> items (kept_items d td) = []"
proof -
  have "items (kept_items d td) \<noteq> []" if "r \<in> set (kept_items d td)" for r
  proof -
    from kept_nonempty(1) [OF that] obtain sc where "sc \<in> set (res_scopes r)" by (cases "res_scopes r") auto
    moreover from kept_nonempty(2) [OF that this] obtain x where "x \<in> set (scope_items sc)" by (cases "scope_items sc") auto
    ultimately have "x \<in> set (items (kept_items d td))" using that by (auto simp: items_mem)
    then show ?thesis by auto
  qed
  then show ?thesis by (cases "kept_items d td") (auto simp: items_def)
qed

section \<open>Panics\<close>

lemma remove_items_Panic_iff: "remove_items f td = Panic \<longleftrightarrow> (\<exists>x \<in> set (items td). f x = Panic)"
proof (cases "\<exists>x \<in> set (items td). f x = Panic")
  case False
  then have "\<exists>d. \<forall>x \<in> set (items td). f x = Ret (d x)"
    by (intro exI [of _ "\<lambda>x. case f x of Ret b \<Rightarrow> b | Panic \<Rightarrow> False"]) (auto split: outcome.splits)
  then obtain d where "\<And>x. x \<in> set (items td) \<Longrightarrow> f x = Ret (d x)" by blast
  from remove_items_Ret [of td f d, OF this] False show ?thesis by auto
next
  case True
  let ?bad_s = "\<lambda>ils. \<exists>x \<in> set (scope_items ils). f x = Panic" and ?g = "\<lambda>x u. bind_outcome (f x) (\<lambda>drop. Ret (drop, x, u))"
  let ?bad_r = "\<lambda>rs. \<exists>ils \<in> set (res_scopes rs). ?bad_s ils"
  have good: "\<exists>d. \<forall>x \<in> A. f x = Ret (d x)" if "\<not> (\<exists>x \<in> A. f x = Panic)" for A
    using that by (intro exI [of _ "\<lambda>x. case f x of Ret b \<Rightarrow> b | Panic \<Rightarrow> False"]) (auto split: outcome.splits)
  have scope_bad: "remove_in_scope f ils u = Panic" if "?bad_s ils" for ils u
  proof -
    have "remove_if ?g (scope_items ils) u = Panic"
    proof (rule remove_if_panics [where bad = "\<lambda>x. f x = Panic"])
      show "\<exists>d x'. ?g x u = Ret (d, x', u)" if "\<not> f x = Panic" for x using that by (cases "f x") auto
    qed (use that in auto)
    then show ?thesis by (simp add: remove_in_scope_def)
  qed
  have scope_good: "\<exists>d x'. remove_in_scope f ils u = Ret (d, x', u)" if "\<not> ?bad_s ils" for ils u
    using good [OF that] remove_in_scope_Ret [of ils f] by blast
  have res_bad: "remove_in_resource f rs u = Panic" if "?bad_r rs" for rs u
  proof -
    have "remove_if (remove_in_scope f) (res_scopes rs) u = Panic"
      by (rule remove_if_panics [where bad = ?bad_s]) (use that scope_bad scope_good in blast)+
    then show ?thesis by (simp add: remove_in_resource_def)
  qed
  have res_good: "\<exists>d x'. remove_in_resource f rs u = Ret (d, x', u)" if "\<not> ?bad_r rs" for rs u
  proof -
    from that have "\<not> (\<exists>x \<in> \<Union>ils \<in> set (res_scopes rs). set (scope_items ils). f x = Panic)" by blast
    from good [OF this] obtain d where "\<forall>x \<in> \<Union>ils \<in> set (res_scopes rs). set (scope_items ils). f x = Ret (d x)" by blast
    then have "remove_in_resource f rs u = Ret (res_scopes (kept_resource d rs) = [], kept_resource d rs, u)"
      by (intro remove_in_resource_Ret) blast
    then show ?thesis by blast
  qed
  have "remove_if (remove_in_resource f) td () = Panic"
  proof (rule remove_if_panics [where bad = ?bad_r])
    from True obtain x where x: "x \<in> set (items td)" "f x = Panic" by blast
    then obtain rs ils where "rs \<in> set td" "ils \<in> set (res_scopes rs)" "x \<in> set (scope_items ils)"
      unfolding items_mem by blast
    with x(2) show "\<exists>rs \<in> set td. ?bad_r rs" by blast
  qed (use res_bad res_good in blast)+
  with True show ?thesis by (simp add: remove_items_def)
qed

end
