(* ===== verification/CumulativeToDelta.thy ===== *)
theory CumulativeToDelta
  imports MetricTracker FilterSets RemoveIf "HOL-Library.Sublist"
begin

text \<open>
  \<open>processor/cumulativetodeltaprocessor\<close> of the bundled contrib module: the processor that replaces
  the points of cumulative sums and histograms by their differences, in place.  Metrics of other
  types carry a payload \<open>'p\<close>.
\<close>

section \<open>Metrics\<close>

datatype number_value = NumNone | NumInt i64 | NumDouble float64

record number_dp =
  nd_start :: timestamp
  nd_time :: timestamp
  nd_attrs :: pmap
  nd_value :: number_value
  nd_no_recorded :: bool \<comment> \<open>the flag \<open>NoRecordedValue\<close>\<close>

record hist_dp =
  hd_start :: timestamp
  hd_time :: timestamp
  hd_attrs :: pmap
  hd_count :: u64
  hd_sum :: "float64 option"
  hd_buckets :: "u64 list"
  hd_min :: "float64 option"
  hd_max :: "float64 option"
  hd_no_recorded :: bool

datatype 'p metric_data =
    SumData temporality bool "number_dp list" \<comment> \<open>with \<open>IsMonotonic\<close>\<close>
  | HistogramData temporality "hist_dp list"
  | OtherData metric_type 'p

record 'p metric_rec =
  me_name :: string
  me_unit :: string
  me_data :: "'p metric_data"

record 'p scope_metrics =
  sm_name :: string
  sm_version :: string
  sm_metrics :: "'p metric_rec list"

record 'p resource_metrics =
  rm_attrs :: pmap
  rm_scopes :: "'p scope_metrics list"

fun value_type :: "number_value \<Rightarrow> number_type" where
  "value_type NumNone = NumberEmpty"
| "value_type (NumInt _) = NumberInt"
| "value_type (NumDouble _) = NumberDouble"

fun double_value :: "number_value \<Rightarrow> float64" where
  "double_value (NumDouble x) = x"
| "double_value _ = 0"

fun int_value :: "number_value \<Rightarrow> i64" where
  "int_value (NumInt i) = i"
| "int_value _ = 0"

section \<open>Configuration and creation\<close>

record match_metrics =
  mm_filter :: filter_config
  mm_metrics :: "string list"

record c2d_config =
  cc_max_staleness :: i64
  cc_include :: match_metrics
  cc_exclude :: match_metrics

datatype c2d_error = ErrMatchTypeMissing | ErrMetricsMissing

definition c2d_validate :: "c2d_config \<Rightarrow> c2d_error option" where
  "c2d_validate config =
     (let unset = (\<lambda>m. 0 < length (mm_metrics m) \<and> length (fc_match_type (mm_filter m)) = 0);
          empty = (\<lambda>m. 0 < length (fc_match_type (mm_filter m)) \<and> length (mm_metrics m) = 0)
      in if unset (cc_include config) \<or> unset (cc_exclude config) then Some ErrMatchTypeMissing
         else if empty (cc_include config) \<or> empty (cc_exclude config) then Some ErrMetricsMissing
         else None)"

record 'c c2d =
  cd_include :: "'c filter_set option"
  cd_exclude :: "'c filter_set option"
  cd_tracker :: metric_tracker
  cd_cancelled :: bool

text \<open>The error of \<open>CreateFilterSet\<close> is dropped.\<close>

definition filter_of :: "'c sampling_libs \<Rightarrow> match_metrics \<Rightarrow> 'c filter_set option" where
  "filter_of libs m =
     (if 0 < length (mm_metrics m) then fst (CreateFilterSet libs (mm_metrics m) (mm_filter m)) else None)"

definition newCumulativeToDeltaProcessor :: "'c sampling_libs \<Rightarrow> c2d_config \<Rightarrow> 'c c2d" where
  "newCumulativeToDeltaProcessor libs config =
     \<lparr>cd_include = filter_of libs (cc_include config), cd_exclude = filter_of libs (cc_exclude config),
      cd_tracker = NewMetricTracker (cc_max_staleness config), cd_cancelled = False\<rparr>"

section \<open>Conversion\<close>

definition match_set :: "'c sampling_libs \<Rightarrow> string \<Rightarrow> 'c filter_set option \<Rightarrow> (bool \<times> 'c filter_set option) outcome" where
  "match_set libs name fs =
     (case fs of
        None \<Rightarrow> Ret (False, None)
      | Some f \<Rightarrow> bind_outcome (Matches libs name f) (\<lambda>(b, f'). Ret (b, Some f')))"

definition shouldConvertMetric :: "'c sampling_libs \<Rightarrow> string \<Rightarrow> 'c c2d \<Rightarrow> (bool \<times> 'c c2d) outcome" where
  "shouldConvertMetric libs name p =
     bind_outcome (match_set libs name (cd_include p)) (\<lambda>(inc, i').
       if \<not> (cd_include p = None \<or> inc) then Ret (False, p\<lparr>cd_include := i'\<rparr>)
       else bind_outcome (match_set libs name (cd_exclude p)) (\<lambda>(exc, e').
         Ret (cd_exclude p = None \<or> \<not> exc, p\<lparr>cd_include := i', cd_exclude := e'\<rparr>)))"

definition dp_point :: "metric_identity \<Rightarrow> number_dp \<Rightarrow> metric_point" where
  "dp_point baseIdentity dp =
     (let ident = baseIdentity\<lparr>mi_start := nd_start dp, mi_attrs := nd_attrs dp, mi_value_type := value_type (nd_value dp)\<rparr>
      in \<lparr>mp_identity = ident,
          mp_value = \<lparr>vp_time = nd_time dp,
                      vp_float = (if IsFloatVal ident then double_value (nd_value dp) else 0),
                      vp_int = (if IsFloatVal ident then 0 else int_value (nd_value dp)), vp_hist = None\<rparr>\<rparr>)"

definition convert_dp ::
    "(byte list \<Rightarrow> byte list) \<Rightarrow> metric_identity \<Rightarrow> number_dp \<Rightarrow> metric_tracker \<Rightarrow>
     (bool \<times> number_dp \<times> metric_tracker) outcome" where
  "convert_dp h64 baseIdentity dp t =
     (let point = dp_point baseIdentity dp in
      if nd_no_recorded dp then Ret (True, dp, t)
      else if IsFloatVal (mp_identity point) \<and> f_nan (double_value (nd_value dp)) then Ret (False, dp, t)
      else bind_outcome (Convert h64 point t) (\<lambda>((delta, valid), t').
        if \<not> valid then Ret (True, dp, t')
        else Ret (False, dp\<lparr>nd_start := dv_start delta,
                           nd_value := (if IsFloatVal (mp_identity point) then NumDouble (dv_float delta)
                                        else NumInt (dv_int delta))\<rparr>, t')))"

definition convertDataPoints ::
    "(byte list \<Rightarrow> byte list) \<Rightarrow> metric_identity \<Rightarrow> number_dp list \<Rightarrow> metric_tracker \<Rightarrow>
     (number_dp list \<times> metric_tracker) outcome" where
  "convertDataPoints h64 baseIdentity dps t = remove_if (convert_dp h64 baseIdentity) dps t"

definition hist_point :: "metric_identity \<Rightarrow> hist_dp \<Rightarrow> metric_point" where
  "hist_point baseIdentity dp =
     \<lparr>mp_identity = baseIdentity\<lparr>mi_start := hd_start dp, mi_attrs := hd_attrs dp\<rparr>,
      mp_value = \<lparr>vp_time = hd_time dp, vp_float = 0, vp_int = 0,
                  vp_hist = Some \<lparr>hp_count = hd_count dp,
                                  hp_sum = (case hd_sum dp of None \<Rightarrow> 0 | Some x \<Rightarrow> x),
                                  hp_buckets = hd_buckets dp\<rparr>\<rparr>\<rparr>"

text \<open>The value of a valid difference is read through a pointer.\<close>

definition convert_hist_dp ::
    "(byte list \<Rightarrow> byte list) \<Rightarrow> metric_identity \<Rightarrow> hist_dp \<Rightarrow> metric_tracker \<Rightarrow>
     (bool \<times> hist_dp \<times> metric_tracker) outcome" where
  "convert_hist_dp h64 baseIdentity dp t =
     (if hd_no_recorded dp then Ret (True, dp, t)
      else bind_outcome (Convert h64 (hist_point baseIdentity dp) t) (\<lambda>((delta, valid), t').
        if \<not> valid then Ret (True, dp, t')
        else
          (case dv_hist delta of
             None \<Rightarrow> Panic
           | Some h \<Rightarrow>
               Ret (False, dp\<lparr>hd_start := dv_start delta, hd_count := hp_count h,
                             hd_sum := (case hd_sum dp of
                                 None \<Rightarrow> None
                               | Some x \<Rightarrow> if f_nan x then Some x else Some (hp_sum h)),
                             hd_buckets := hp_buckets h, hd_min := None, hd_max := None\<rparr>, t'))))"

definition convertHistogramDataPoints ::
    "(byte list \<Rightarrow> byte list) \<Rightarrow> metric_identity \<Rightarrow> hist_dp list \<Rightarrow> metric_tracker \<Rightarrow>
     (hist_dp list \<times> metric_tracker) outcome" where
  "convertHistogramDataPoints h64 baseIdentity dps t = remove_if (convert_hist_dp h64 baseIdentity) dps t"

definition base_identity ::
    "'p resource_metrics \<Rightarrow> 'p scope_metrics \<Rightarrow> 'p metric_rec \<Rightarrow> metric_type \<Rightarrow> number_type \<Rightarrow> metric_identity" where
  "base_identity rm ilm m ty vt =
     \<lparr>mi_resource = rm_attrs rm, mi_scope_name = sm_name ilm, mi_scope_version = sm_version ilm,
      mi_type = ty, mi_monotonic = True, mi_name = me_name m, mi_unit = me_unit m,
      mi_start = 0, mi_attrs = [], mi_value_type = vt\<rparr>"

text \<open>The innermost function of \<open>processMetrics\<close>.\<close>

definition convert_metric ::
    "'c sampling_libs \<Rightarrow> (byte list \<Rightarrow> byte list) \<Rightarrow> 'p resource_metrics \<Rightarrow> 'p scope_metrics \<Rightarrow>
     'p metric_rec \<Rightarrow> 'c c2d \<Rightarrow> (bool \<times> 'p metric_rec \<times> 'c c2d) outcome" where
  "convert_metric libs h64 rm ilm m p =
     bind_outcome (shouldConvertMetric libs (me_name m) p) (\<lambda>(should, p1).
       if \<not> should then Ret (False, m, p1)
       else
         (case me_data m of
            SumData temp monotonic dps \<Rightarrow>
              if temp \<noteq> TempCumulative then Ret (False, m, p1)
              else if \<not> monotonic then Ret (False, m, p1)
              else
                bind_outcome
                  (convertDataPoints h64 (base_identity rm ilm m MetricTypeSum NumberEmpty) dps (cd_tracker p1))
                  (\<lambda>(dps', t). Ret (length dps' = 0, m\<lparr>me_data := SumData TempDelta monotonic dps'\<rparr>, p1\<lparr>cd_tracker := t\<rparr>))
          | HistogramData temp dps \<Rightarrow>
              if temp \<noteq> TempCumulative then Ret (False, m, p1)
              else if length dps = 0 then Ret (False, m, p1)
              else
                bind_outcome
                  (convertHistogramDataPoints h64 (base_identity rm ilm m MetricTypeHistogram NumberInt) dps (cd_tracker p1))
                  (\<lambda>(dps', t). Ret (length dps' = 0, m\<lparr>me_data := HistogramData TempDelta dps'\<rparr>, p1\<lparr>cd_tracker := t\<rparr>))
          | OtherData _ _ \<Rightarrow> Ret (False, m, p1)))"

definition convert_scope ::
    "'c sampling_libs \<Rightarrow> (byte list \<Rightarrow> byte list) \<Rightarrow> 'p resource_metrics \<Rightarrow>
     'p scope_metrics \<Rightarrow> 'c c2d \<Rightarrow> (bool \<times> 'p scope_metrics \<times> 'c c2d) outcome" where
  "convert_scope libs h64 rm ilm p =
     bind_outcome (remove_if (convert_metric libs h64 rm ilm) (sm_metrics ilm) p) (\<lambda>(ms, p').
       Ret (length ms = 0, ilm\<lparr>sm_metrics := ms\<rparr>, p'))"

definition convert_resource ::
    "'c sampling_libs \<Rightarrow> (byte list \<Rightarrow> byte list) \<Rightarrow>
     'p resource_metrics \<Rightarrow> 'c c2d \<Rightarrow> (bool \<times> 'p resource_metrics \<times> 'c c2d) outcome" where
  "convert_resource libs h64 rm p =
     bind_outcome (remove_if (convert_scope libs h64 rm) (rm_scopes rm) p) (\<lambda>(ilms, p').
       Ret (length ilms = 0, rm\<lparr>rm_scopes := ilms\<rparr>, p'))"

definition processMetrics ::
    "'c sampling_libs \<Rightarrow> (byte list \<Rightarrow> byte list) \<Rightarrow> 'p resource_metrics list \<Rightarrow> 'c c2d \<Rightarrow>
     ('p resource_metrics list \<times> 'c c2d) outcome" where
  "processMetrics libs h64 md p = remove_if (convert_resource libs h64) md p"

text \<open>A tick of the sweeper, which ends with the context, and \<open>shutdown\<close>, which cancels it.\<close>

definition c2d_tick :: "timestamp \<Rightarrow> 'c c2d \<Rightarrow> 'c c2d" where
  "c2d_tick now p = (if cd_cancelled p then p else p\<lparr>cd_tracker := sweep now (cd_tracker p)\<rparr>)"

definition c2d_shutdown :: "'c c2d \<Rightarrow> 'c c2d" where
  "c2d_shutdown p = p\<lparr>cd_cancelled := True\<rparr>"

section \<open>What a batch does to the tracker\<close>

lemma track_append:
  "track h64 (xs @ ys) t =
     bind_outcome (track h64 xs t) (\<lambda>(outs, t'). bind_outcome (track h64 ys t') (\<lambda>(outs', t''). Ret (outs @ outs', t'')))"
proof (induction xs arbitrary: t)
  case Nil
  show ?case by (cases "track h64 ys t") auto
next
  case (Cons op xs)
  show ?case
  proof (cases op)
    case (Observe p)
    show ?thesis
    proof (cases "Convert h64 p t")
      case (Ret c)
      obtain out valid t1 where c: "c = ((out, valid), t1)" by (metis prod.collapse)
      show ?thesis
      proof (cases "track h64 xs t1")
        case Ret': (Ret r)
        obtain outs t2 where r: "r = (outs, t2)" by fastforce
        show ?thesis by (cases "track h64 ys t2") (auto simp: Observe Ret c Cons.IH Ret' r)
      qed (simp add: Observe Ret c Cons.IH)
    qed (simp add: Observe)
  next
    case (Sweep ts)
    then show ?thesis by (simp add: Cons.IH)
  qed
qed

text \<open>\<open>feeds\<close>: going from one tracker to another is converting a list of points.\<close>

definition feeds ::
    "(byte list \<Rightarrow> byte list) \<Rightarrow> metric_point list \<Rightarrow> metric_tracker \<Rightarrow> metric_tracker \<Rightarrow> bool" where
  "feeds h64 ps t t' \<longleftrightarrow> (\<exists>outs. track h64 (map Observe ps) t = Ret (outs, t'))"

lemma feeds_Nil [simp]: "feeds h64 [] t t' \<longleftrightarrow> t' = t"
  by (auto simp: feeds_def)

lemma feeds_append: "feeds h64 ps t t' \<Longrightarrow> feeds h64 qs t' t'' \<Longrightarrow> feeds h64 (ps @ qs) t t''"
  by (auto simp: feeds_def track_append)

lemma feeds_one: "Convert h64 p t = Ret (out, t') \<Longrightarrow> feeds h64 [p] t t'"
  by (cases out) (simp add: feeds_def)

text \<open>
  \<open>RemoveIf\<close> with a function that feeds the tracker with the points of its element; \<open>R\<close> relates the
  parts of the element to those of what is left of it.
\<close>

lemma remove_if_feeds:
  assumes step: "\<And>x s. x \<in> set xs \<Longrightarrow> I s \<Longrightarrow> \<exists>drop x' s'. f x s = Ret (drop, x', s') \<and> I s' \<and> feeds h64 (pts x) (tr s) (tr s') \<and>
      R (parts x) (if drop then [] else parts x')"
    and "R [] []" and append: "\<And>a b c d. R a b \<Longrightarrow> R c d \<Longrightarrow> R (a @ c) (b @ d)"
  shows "I s \<Longrightarrow> \<exists>ys s'. remove_if f xs s = Ret (ys, s') \<and> I s' \<and> feeds h64 (concat (map pts xs)) (tr s) (tr s') \<and>
      R (concat (map parts xs)) (concat (map parts ys))"
  using step
proof (induction xs arbitrary: s)
  case Nil
  then show ?case using assms(2) by simp
next
  case (Cons x xs)
  from Cons.prems(2) [of x s] Cons.prems(1) obtain drop x' s1 where f: "f x s = Ret (drop, x', s1)" "I s1"
      "feeds h64 (pts x) (tr s) (tr s1)" "R (parts x) (if drop then [] else parts x')" by auto
  from Cons.IH [OF f(2)] Cons.prems(2) obtain ys s2 where r: "remove_if f xs s1 = Ret (ys, s2)" "I s2"
      "feeds h64 (concat (map pts xs)) (tr s1) (tr s2)" "R (concat (map parts xs)) (concat (map parts ys))" by auto
  have "remove_if f (x # xs) s = Ret (if drop then ys else x' # ys, s2)" using f(1) r(1) by simp
  moreover have "feeds h64 (concat (map pts (x # xs))) (tr s) (tr s2)" using feeds_append [OF f(3) r(3)] by simp
  moreover have "R (concat (map parts (x # xs))) (concat (map parts (if drop then ys else x' # ys)))"
    using append [OF f(4) r(4)] by (auto split: if_splits)
  ultimately show ?case using r(2) by blast
qed

section \<open>Points of a batch\<close>

definition dp_points :: "metric_identity \<Rightarrow> number_dp list \<Rightarrow> metric_point list" where
  "dp_points base dps = concat (map (\<lambda>dp.
     if nd_no_recorded dp \<or> (IsFloatVal (mp_identity (dp_point base dp)) \<and> f_nan (double_value (nd_value dp)))
     then [] else [dp_point base dp]) dps)"

definition hist_points :: "metric_identity \<Rightarrow> hist_dp list \<Rightarrow> metric_point list" where
  "hist_points base dps = concat (map (\<lambda>dp. if hd_no_recorded dp then [] else [hist_point base dp]) dps)"

lemma convertDataPoints_feeds:
  assumes "mi_type base = MetricTypeSum" and "states_ok t"
  shows "\<exists>dps' t'. convertDataPoints h64 base dps t = Ret (dps', t') \<and> states_ok t' \<and> feeds h64 (dp_points base dps) t t'"
proof -
  have step: "\<exists>drop dp' t'. convert_dp h64 base dp t = Ret (drop, dp', t') \<and> states_ok t' \<and>
      feeds h64 (if nd_no_recorded dp \<or> (IsFloatVal (mp_identity (dp_point base dp)) \<and> f_nan (double_value (nd_value dp)))
        then [] else [dp_point base dp]) t t' \<and> True" if "states_ok t" for dp t
  proof -
    have "point_ok (dp_point base dp)" using assms(1) by (simp add: point_ok_def dp_point_def Let_def)
    from Convert_ok [OF that this, of h64] obtain delta valid t' where
      c: "Convert h64 (dp_point base dp) t = Ret ((delta, valid), t')" "states_ok t'" by auto
    with feeds_one [OF c(1)] that show ?thesis by (cases valid) (auto simp: convert_dp_def Let_def)
  qed
  from remove_if_feeds [where I = states_ok and f = "convert_dp h64 base" and tr = "\<lambda>t. t" and xs = dps
      and R = "\<lambda>_ _. True" and parts = "\<lambda>_. []", OF step _ _ assms(2)]
  show ?thesis by (auto simp: convertDataPoints_def dp_points_def)
qed

lemma hist_valid_value:
  "Convert h64 p t = Ret ((delta, True), t') \<Longrightarrow> mi_type (mp_identity p) = MetricTypeHistogram \<Longrightarrow> dv_hist delta \<noteq> None"
  by (auto simp: Convert_cases difference_def bind_outcome_Ret_iff Let_def split: if_splits option.splits)

lemma convertHistogramDataPoints_feeds:
  assumes "mi_type base = MetricTypeHistogram" and "states_ok t"
  shows "\<exists>dps' t'. convertHistogramDataPoints h64 base dps t = Ret (dps', t') \<and> states_ok t' \<and>
    feeds h64 (hist_points base dps) t t'"
proof -
  have step: "\<exists>drop dp' t'. convert_hist_dp h64 base dp t = Ret (drop, dp', t') \<and> states_ok t' \<and>
      feeds h64 (if hd_no_recorded dp then [] else [hist_point base dp]) t t' \<and> True" if "states_ok t" for dp t
  proof -
    have ty: "mi_type (mp_identity (hist_point base dp)) = MetricTypeHistogram"
      using assms(1) by (simp add: hist_point_def)
    have "point_ok (hist_point base dp)" by (simp add: point_ok_def hist_point_def)
    from Convert_ok [OF that this, of h64] obtain delta valid t' where
      c: "Convert h64 (hist_point base dp) t = Ret ((delta, valid), t')" "states_ok t'" by auto
    have "\<exists>h. dv_hist delta = Some h" if valid using hist_valid_value [of h64 _ t delta t', OF _ ty] c(1) that by simp
    with c feeds_one [OF c(1)] that show ?thesis by (cases valid) (auto simp: convert_hist_dp_def)
  qed
  from remove_if_feeds [where I = states_ok and f = "convert_hist_dp h64 base" and tr = "\<lambda>t. t" and xs = dps
      and R = "\<lambda>_ _. True" and parts = "\<lambda>_. []", OF step _ _ assms(2)]
  show ?thesis by (auto simp: convertHistogramDataPoints_def hist_points_def)
qed

section \<open>Which metrics are converted\<close>

definition selects :: "'c sampling_libs \<Rightarrow> 'c c2d \<Rightarrow> string \<Rightarrow> bool" where
  "selects libs p name \<longleftrightarrow>
     (case cd_include p of None \<Rightarrow> True | Some fs \<Rightarrow> set_names libs fs name) \<and>
     (case cd_exclude p of None \<Rightarrow> True | Some fs \<Rightarrow> \<not> set_names libs fs name)"

definition filters_ok :: "'c sampling_libs \<Rightarrow> ('c \<Rightarrow> string \<rightharpoonup> bool) \<Rightarrow> 'c c2d \<Rightarrow> bool" where
  "filters_ok libs contents p \<longleftrightarrow>
     (\<forall>fs. cd_include p = Some fs \<or> cd_exclude p = Some fs \<longrightarrow> set_ok libs contents fs)"

fun cumulative :: "'p metric_data \<Rightarrow> bool" where
  "cumulative (SumData temp monotonic dps) = (temp = TempCumulative \<and> monotonic)"
| "cumulative (HistogramData temp dps) = (temp = TempCumulative \<and> dps \<noteq> [])"
| "cumulative (OtherData _ _) = False"

definition converts :: "(string \<Rightarrow> bool) \<Rightarrow> 'p metric_rec \<Rightarrow> bool" where
  "converts sel m \<longleftrightarrow> sel (me_name m) \<and> cumulative (me_data m)"

definition metric_points ::
    "(string \<Rightarrow> bool) \<Rightarrow> 'p resource_metrics \<Rightarrow> 'p scope_metrics \<Rightarrow> 'p metric_rec \<Rightarrow> metric_point list" where
  "metric_points sel rm ilm m =
     (if \<not> converts sel m then []
      else case me_data m of
        SumData _ _ dps \<Rightarrow> dp_points (base_identity rm ilm m MetricTypeSum NumberEmpty) dps
      | HistogramData _ dps \<Rightarrow> hist_points (base_identity rm ilm m MetricTypeHistogram NumberInt) dps
      | OtherData _ _ \<Rightarrow> [])"

definition batch_points :: "(string \<Rightarrow> bool) \<Rightarrow> 'p resource_metrics list \<Rightarrow> metric_point list" where
  "batch_points sel md =
     concat (map (\<lambda>rm. concat (map (\<lambda>ilm. concat (map (metric_points sel rm ilm) (sm_metrics ilm))) (rm_scopes rm))) md)"

definition all_metrics :: "'p resource_metrics list \<Rightarrow> 'p metric_rec list" where
  "all_metrics md = concat (map (\<lambda>rm. concat (map sm_metrics (rm_scopes rm))) md)"

text \<open>What becomes of one metric that is kept.\<close>

fun delta_data :: "'p metric_data \<Rightarrow> 'p metric_data \<Rightarrow> bool" where
  "delta_data (SumData _ _ dps) d = (\<exists>dps'. d = SumData TempDelta True dps' \<and> dps' \<noteq> [])"
| "delta_data (HistogramData _ dps) d = (\<exists>dps'. d = HistogramData TempDelta dps' \<and> dps' \<noteq> [])"
| "delta_data (OtherData _ _) d = False"

definition converted :: "(string \<Rightarrow> bool) \<Rightarrow> 'p metric_rec \<Rightarrow> 'p metric_rec \<Rightarrow> bool" where
  "converted sel m m' \<longleftrightarrow>
     (if converts sel m then me_name m' = me_name m \<and> me_unit m' = me_unit m \<and> delta_data (me_data m) (me_data m')
      else m' = m)"

text \<open>
  \<open>kept\<close>: the metrics that are left stand for some of the original ones in the same order, all of
  those that are not converted among them.
\<close>

definition kept :: "(string \<Rightarrow> bool) \<Rightarrow> 'p metric_rec list \<Rightarrow> 'p metric_rec list \<Rightarrow> bool" where
  "kept sel ms ms' \<longleftrightarrow>
     (\<exists>zs. subseq zs ms \<and> list_all2 (converted sel) zs ms' \<and>
        filter (\<lambda>m. \<not> converts sel m) zs = filter (\<lambda>m. \<not> converts sel m) ms)"

lemma kept_Nil: "kept sel [] []"
  by (simp add: kept_def)

lemma kept_append: "kept sel a b \<Longrightarrow> kept sel c d \<Longrightarrow> kept sel (a @ c) (b @ d)"
proof -
  assume "kept sel a b" "kept sel c d"
  then obtain y z where "subseq y a" "list_all2 (converted sel) y b" "filter (\<lambda>m. \<not> converts sel m) y = filter (\<lambda>m. \<not> converts sel m) a"
    "subseq z c" "list_all2 (converted sel) z d" "filter (\<lambda>m. \<not> converts sel m) z = filter (\<lambda>m. \<not> converts sel m) c"
    unfolding kept_def by blast
  then show ?thesis unfolding kept_def
    by (intro exI [of _ "y @ z"]) (simp add: list_emb_append_mono list_all2_appendI)
qed

lemma kept_one: "converted sel m m' \<Longrightarrow> kept sel [m] [m']"
  unfolding kept_def by (intro exI [of _ "[m]"]) simp

lemma kept_none: "converts sel m \<Longrightarrow> kept sel [m] []"
  unfolding kept_def by (intro exI [of _ "[]"]) simp

text \<open>The same set of names, possibly with another cache.\<close>

definition same_filter ::
    "'c sampling_libs \<Rightarrow> ('c \<Rightarrow> string \<rightharpoonup> bool) \<Rightarrow> 'c filter_set option \<Rightarrow> 'c filter_set option \<Rightarrow> bool" where
  "same_filter libs contents fs fs' \<longleftrightarrow>
     (case fs of
        None \<Rightarrow> fs' = None
      | Some f \<Rightarrow> (\<exists>f'. fs' = Some f' \<and> set_ok libs contents f' \<and> set_names libs f' = set_names libs f))"

lemma same_filter_refl: "(\<And>f. fs = Some f \<Longrightarrow> set_ok libs contents f) \<Longrightarrow> same_filter libs contents fs fs"
  by (simp add: same_filter_def split: option.split)

lemma same_filters:
  assumes "same_filter libs contents (cd_include p) (cd_include p')"
    and "same_filter libs contents (cd_exclude p) (cd_exclude p')"
  shows "selects libs p' = selects libs p" and "filters_ok libs contents p'"
proof -
  have "selects libs p' name = selects libs p name" for name
    using assms by (cases "cd_include p"; cases "cd_exclude p") (auto simp: same_filter_def selects_def)
  then show "selects libs p' = selects libs p" by (rule ext)
  show "filters_ok libs contents p'"
    using assms by (cases "cd_include p"; cases "cd_exclude p") (auto simp: same_filter_def filters_ok_def)
qed

lemma match_set_spec:
  assumes "lru_lawful libs contents" and "\<And>f. fs = Some f \<Longrightarrow> set_ok libs contents f"
  shows "\<exists>fs'. match_set libs name fs = Ret (case fs of None \<Rightarrow> False | Some f \<Rightarrow> set_names libs f name, fs') \<and>
    same_filter libs contents fs fs'"
proof (cases fs)
  case (Some f)
  from Matches_spec [OF assms(1) assms(2) [OF Some], of name] Some show ?thesis
    by (auto simp: match_set_def same_filter_def)
qed (simp add: match_set_def same_filter_def)

lemma shouldConvertMetric_spec:
  assumes "lru_lawful libs contents" and ok: "filters_ok libs contents p"
  shows "\<exists>p'. shouldConvertMetric libs name p = Ret (selects libs p name, p') \<and> filters_ok libs contents p' \<and>
    selects libs p' = selects libs p \<and> cd_tracker p' = cd_tracker p"
proof -
  let ?name = "\<lambda>fs. case fs of None \<Rightarrow> False | Some f \<Rightarrow> set_names libs f name"
  obtain i' where i: "match_set libs name (cd_include p) = Ret (?name (cd_include p), i')"
      "same_filter libs contents (cd_include p) i'"
    using match_set_spec [OF assms(1), of "cd_include p" name] ok by (auto simp: filters_ok_def)
  obtain e' where e: "match_set libs name (cd_exclude p) = Ret (?name (cd_exclude p), e')"
      "same_filter libs contents (cd_exclude p) e'"
    using match_set_spec [OF assms(1), of "cd_exclude p" name] ok by (auto simp: filters_ok_def)
  have e0: "same_filter libs contents (cd_exclude p) (cd_exclude p)"
    using ok by (intro same_filter_refl) (simp add: filters_ok_def)
  show ?thesis
  proof (cases "cd_include p = None \<or> ?name (cd_include p)")
    case False
    then have "\<not> selects libs p name" by (auto simp: selects_def split: option.splits)
    with False i same_filters [of libs contents p "p\<lparr>cd_include := i'\<rparr>"] e0 show ?thesis
      by (simp add: shouldConvertMetric_def)
  next
    case True
    then have "selects libs p name \<longleftrightarrow> cd_exclude p = None \<or> \<not> ?name (cd_exclude p)"
      by (auto simp: selects_def split: option.splits)
    with True i e same_filters [of libs contents p "p\<lparr>cd_include := i', cd_exclude := e'\<rparr>"] show ?thesis
      by (cases "cd_include p") (auto simp: shouldConvertMetric_def)
  qed
qed

text \<open>The invariant of the processor, with the names it selects.\<close>

definition c2d_ok :: "'c sampling_libs \<Rightarrow> ('c \<Rightarrow> string \<rightharpoonup> bool) \<Rightarrow> (string \<Rightarrow> bool) \<Rightarrow> 'c c2d \<Rightarrow> bool" where
  "c2d_ok libs contents sel p \<longleftrightarrow>
     filters_ok libs contents p \<and> states_ok (cd_tracker p) \<and> selects libs p = sel"

lemma convert_metric_feeds:
  assumes law: "lru_lawful libs contents" and ok: "c2d_ok libs contents sel p"
  shows "\<exists>drop m' p'. convert_metric libs h64 rm ilm m p = Ret (drop, m', p') \<and> c2d_ok libs contents sel p' \<and>
    feeds h64 (metric_points sel rm ilm m) (cd_tracker p) (cd_tracker p') \<and> kept sel [m] (if drop then [] else [m'])"
proof -
  obtain p1 where should: "shouldConvertMetric libs (me_name m) p = Ret (sel (me_name m), p1)"
    and p1: "filters_ok libs contents p1" "selects libs p1 = sel" "cd_tracker p1 = cd_tracker p"
    using shouldConvertMetric_spec [OF law, of p "me_name m"] ok by (auto simp: c2d_ok_def)
  have t: "states_ok (cd_tracker p1)" using ok p1(3) by (simp add: c2d_ok_def)
  show ?thesis
  proof (cases "converts sel m")
    case False
    then have "convert_metric libs h64 rm ilm m p = Ret (False, m, p1)"
      using should by (cases "me_data m") (auto simp: convert_metric_def converts_def)
    moreover have "kept sel [m] [m]" using False by (intro kept_one) (simp add: converted_def)
    ultimately show ?thesis using False p1 t
      by (intro exI [of _ False] exI [of _ m] exI [of _ p1]) (simp add: c2d_ok_def metric_points_def)
  next
    case True
    show ?thesis
    proof (cases "me_data m")
      case (SumData temp mono dps)
      obtain dps' t' where c: "convertDataPoints h64 (base_identity rm ilm m MetricTypeSum NumberEmpty) dps (cd_tracker p1) =
          Ret (dps', t')" "states_ok t'"
          "feeds h64 (dp_points (base_identity rm ilm m MetricTypeSum NumberEmpty) dps) (cd_tracker p1) t'"
        using convertDataPoints_feeds [OF _ t, of "base_identity rm ilm m MetricTypeSum NumberEmpty" h64 dps]
        by (auto simp: base_identity_def)
      then have "convert_metric libs h64 rm ilm m p =
          Ret (length dps' = 0, m\<lparr>me_data := SumData TempDelta mono dps'\<rparr>, p1\<lparr>cd_tracker := t'\<rparr>)"
        using True should by (simp add: convert_metric_def converts_def SumData)
      moreover have "kept sel [m] (if length dps' = 0 then [] else [m\<lparr>me_data := SumData TempDelta mono dps'\<rparr>])"
        using True by (auto intro!: kept_one kept_none simp: converted_def SumData converts_def)
      ultimately show ?thesis using True c p1
        by (auto simp: c2d_ok_def metric_points_def SumData filters_ok_def selects_def fun_eq_iff)
    next
      case (HistogramData temp dps)
      obtain dps' t' where c: "convertHistogramDataPoints h64 (base_identity rm ilm m MetricTypeHistogram NumberInt) dps
            (cd_tracker p1) = Ret (dps', t')" "states_ok t'"
          "feeds h64 (hist_points (base_identity rm ilm m MetricTypeHistogram NumberInt) dps) (cd_tracker p1) t'"
        using convertHistogramDataPoints_feeds [OF _ t, of "base_identity rm ilm m MetricTypeHistogram NumberInt" h64 dps]
        by (auto simp: base_identity_def)
      then have "convert_metric libs h64 rm ilm m p =
          Ret (length dps' = 0, m\<lparr>me_data := HistogramData TempDelta dps'\<rparr>, p1\<lparr>cd_tracker := t'\<rparr>)"
        using True should by (simp add: convert_metric_def converts_def HistogramData)
      moreover have "kept sel [m] (if length dps' = 0 then [] else [m\<lparr>me_data := HistogramData TempDelta dps'\<rparr>])"
        using True by (auto intro!: kept_one kept_none simp: converted_def HistogramData converts_def)
      ultimately show ?thesis using True c p1
        by (auto simp: c2d_ok_def metric_points_def HistogramData filters_ok_def selects_def fun_eq_iff)
    qed (use True in \<open>simp add: converts_def\<close>)
  qed
qed

lemma convert_scope_feeds:
  assumes law: "lru_lawful libs contents" and ok: "c2d_ok libs contents sel p"
  shows "\<exists>drop ilm' p'. convert_scope libs h64 rm ilm p = Ret (drop, ilm', p') \<and> c2d_ok libs contents sel p' \<and>
    feeds h64 (concat (map (metric_points sel rm ilm) (sm_metrics ilm))) (cd_tracker p) (cd_tracker p') \<and>
    kept sel (sm_metrics ilm) (if drop then [] else sm_metrics ilm')"
  using remove_if_feeds [where I = "c2d_ok libs contents sel" and f = "convert_metric libs h64 rm ilm"
      and tr = cd_tracker and pts = "metric_points sel rm ilm" and R = "kept sel" and parts = "\<lambda>m. [m]",
      OF convert_metric_feeds [OF law] kept_Nil kept_append ok]
  by (fastforce simp: convert_scope_def)

lemma convert_resource_feeds:
  assumes law: "lru_lawful libs contents" and ok: "c2d_ok libs contents sel p"
  shows "\<exists>drop rm' p'. convert_resource libs h64 rm p = Ret (drop, rm', p') \<and> c2d_ok libs contents sel p' \<and>
    feeds h64 (concat (map (\<lambda>ilm. concat (map (metric_points sel rm ilm) (sm_metrics ilm))) (rm_scopes rm)))
      (cd_tracker p) (cd_tracker p') \<and>
    kept sel (concat (map sm_metrics (rm_scopes rm))) (if drop then [] else concat (map sm_metrics (rm_scopes rm')))"
  using remove_if_feeds [where I = "c2d_ok libs contents sel" and f = "convert_scope libs h64 rm"
      and tr = cd_tracker and pts = "\<lambda>ilm. concat (map (metric_points sel rm ilm) (sm_metrics ilm))"
      and R = "kept sel" and parts = sm_metrics,
      OF convert_scope_feeds [OF law] kept_Nil kept_append ok]
  by (fastforce simp: convert_resource_def)

lemma processMetrics_feeds:
  assumes law: "lru_lawful libs contents" and ok: "c2d_ok libs contents sel p"
  shows "\<exists>md' p'. processMetrics libs h64 md p = Ret (md', p') \<and> c2d_ok libs contents sel p' \<and>
    feeds h64 (batch_points sel md) (cd_tracker p) (cd_tracker p') \<and> kept sel (all_metrics md) (all_metrics md')"
  using remove_if_feeds [where I = "c2d_ok libs contents sel" and f = "convert_resource libs h64"
      and tr = cd_tracker and pts = "\<lambda>rm. concat (map (\<lambda>ilm. concat (map (metric_points sel rm ilm) (sm_metrics ilm))) (rm_scopes rm))"
      and R = "kept sel" and parts = "\<lambda>rm. concat (map sm_metrics (rm_scopes rm))",
      OF convert_resource_feeds [OF law] kept_Nil kept_append ok]
  by (simp add: processMetrics_def batch_points_def all_metrics_def)

section \<open>The processor over many batches\<close>

fun process_all ::
    "'c sampling_libs \<Rightarrow> (byte list \<Rightarrow> byte list) \<Rightarrow> 'p resource_metrics list list \<Rightarrow> 'c c2d \<Rightarrow>
     ('p resource_metrics list list \<times> 'c c2d) outcome" where
  "process_all libs h64 [] p = Ret ([], p)"
| "process_all libs h64 (md # mds) p =
     bind_outcome (processMetrics libs h64 md p) (\<lambda>(md', p').
       bind_outcome (process_all libs h64 mds p') (\<lambda>(mds', p''). Ret (md' # mds', p'')))"

text \<open>A list of names or patterns that makes a filter, and the names it stands for.\<close>

definition builds :: "'c sampling_libs \<Rightarrow> match_metrics \<Rightarrow> bool" where
  "builds libs m \<longleftrightarrow> mm_metrics m = [] \<or> snd (CreateFilterSet libs (mm_metrics m) (mm_filter m)) = None"

definition listed :: "'c sampling_libs \<Rightarrow> match_metrics \<Rightarrow> string \<Rightarrow> bool" where
  "listed libs m name \<longleftrightarrow>
     (if fc_match_type (mm_filter m) = ''regexp'' then \<exists>f \<in> set (mm_metrics m). rx_match libs f name
      else name \<in> set (mm_metrics m))"

definition configured :: "'c sampling_libs \<Rightarrow> c2d_config \<Rightarrow> string \<Rightarrow> bool" where
  "configured libs config name \<longleftrightarrow>
     (mm_metrics (cc_include config) = [] \<or> listed libs (cc_include config) name) \<and>
     (mm_metrics (cc_exclude config) = [] \<or> \<not> listed libs (cc_exclude config) name)"

lemma filter_of_ok:
  assumes "lru_lawful libs contents" and "builds libs m"
  shows "(mm_metrics m = [] \<and> filter_of libs m = None) \<or>
    (mm_metrics m \<noteq> [] \<and> (\<exists>fs. filter_of libs m = Some fs \<and> set_ok libs contents fs \<and> (\<forall>n. set_names libs fs n \<longleftrightarrow> listed libs m n)))"
proof (cases "mm_metrics m = []")
  case False
  then obtain fs where c: "CreateFilterSet libs (mm_metrics m) (mm_filter m) = (Some fs, None)"
    using assms(2) by (auto simp: builds_def CreateFilterSet_def split: if_splits prod.splits)
  with False CreateFilterSet_ok [OF assms(1) c] show ?thesis by (auto simp: filter_of_def listed_def)
qed (simp add: filter_of_def)

lemma new_c2d_ok:
  assumes "lru_lawful libs contents" and "builds libs (cc_include config)" "builds libs (cc_exclude config)"
  shows "c2d_ok libs contents (configured libs config) (newCumulativeToDeltaProcessor libs config)"
proof -
  have "states_ok (NewMetricTracker s)" for s by (simp add: states_ok_def NewMetricTracker_def)
  with filter_of_ok [OF assms(1,2)] filter_of_ok [OF assms(1,3)] show ?thesis
    by (auto simp: c2d_ok_def newCumulativeToDeltaProcessor_def filters_ok_def selects_def configured_def fun_eq_iff)
qed

lemma process_all_feeds:
  "lru_lawful libs contents \<Longrightarrow> c2d_ok libs contents sel p \<Longrightarrow>
   \<exists>mds' p'. process_all libs h64 mds p = Ret (mds', p') \<and>
     feeds h64 (concat (map (batch_points sel) mds)) (cd_tracker p) (cd_tracker p') \<and>
     list_all2 (\<lambda>md md'. kept sel (all_metrics md) (all_metrics md')) mds mds'"
proof (induction mds arbitrary: p)
  case (Cons md mds)
  from processMetrics_feeds [OF Cons.prems, of h64 md] obtain md' p1 where
    1: "processMetrics libs h64 md p = Ret (md', p1)" "c2d_ok libs contents sel p1"
      "feeds h64 (batch_points sel md) (cd_tracker p) (cd_tracker p1)" "kept sel (all_metrics md) (all_metrics md')" by blast
  from Cons.IH [OF Cons.prems(1) 1(2)] obtain mds' p2 where
    2: "process_all libs h64 mds p1 = Ret (mds', p2)"
      "feeds h64 (concat (map (batch_points sel) mds)) (cd_tracker p1) (cd_tracker p2)"
      "list_all2 (\<lambda>md md'. kept sel (all_metrics md) (all_metrics md')) mds mds'" by blast
  from 1 2 feeds_append [OF 1(3) 2(2)] show ?case by auto
qed simp


section \<open>Filters that cannot be built\<close>

lemma invalid_pattern: "\<exists>f \<in> set fs. \<not> rx_valid libs f \<Longrightarrow> \<forall>f \<in> set rs. rx_valid libs f \<Longrightarrow> \<exists>e. addFilters libs rs fs = Inl e"
  by (induction libs rs fs rule: addFilters.induct) auto

lemma nil_filter_panics:
  assumes "cd_include p = Some NilRegexpSet" and "all_metrics md \<noteq> []"
  shows "processMetrics libs h64 md p = Panic"
  unfolding processMetrics_def
proof (rule remove_if_panics [where bad = "\<lambda>rm. \<exists>ilm \<in> set (rm_scopes rm). sm_metrics ilm \<noteq> []"])
  have metric: "convert_metric libs h64 rm ilm m p = Panic" for rm ilm m
    using assms(1) by (simp add: convert_metric_def shouldConvertMetric_def match_set_def)
  have bad: "convert_scope libs h64 rm ilm p = Panic" if "sm_metrics ilm \<noteq> []" for rm ilm
    using that by (cases "sm_metrics ilm") (simp_all add: convert_scope_def metric)
  have empty: "convert_scope libs h64 rm ilm p = Ret (True, ilm, p)" if "sm_metrics ilm = []" for rm ilm
  proof -
    have "ilm\<lparr>sm_metrics := []\<rparr> = ilm" using that by (cases ilm) simp
    then show ?thesis using that by (simp add: convert_scope_def)
  qed
  show "convert_resource libs h64 rm p = Panic" if some: "\<exists>ilm \<in> set (rm_scopes rm). sm_metrics ilm \<noteq> []" for rm
  proof -
    have "remove_if (convert_scope libs h64 rm) (rm_scopes rm) p = Panic"
      by (rule remove_if_panics [where bad = "\<lambda>ilm. sm_metrics ilm \<noteq> []"]) (use some bad empty in blast)+
    then show ?thesis by (simp add: convert_resource_def)
  qed
  show "\<exists>d rm'. convert_resource libs h64 rm p = Ret (d, rm', p)"
    if none: "\<not> (\<exists>ilm \<in> set (rm_scopes rm). sm_metrics ilm \<noteq> [])" for rm
  proof -
    have "\<exists>ys. remove_if (convert_scope libs h64 rm) xs p = Ret (ys, p)" if "\<forall>ilm \<in> set xs. sm_metrics ilm = []" for xs
      using that
    proof (induction xs)
      case (Cons ilm xs)
      then obtain ys where "remove_if (convert_scope libs h64 rm) xs p = Ret (ys, p)" by auto
      with Cons.prems show ?case by (simp add: empty)
    qed simp
    then obtain ys where "remove_if (convert_scope libs h64 rm) (rm_scopes rm) p = Ret (ys, p)" using none by blast
    then show ?thesis by (simp add: convert_resource_def)
  qed
  show "\<exists>rm \<in> set md. \<exists>ilm \<in> set (rm_scopes rm). sm_metrics ilm \<noteq> []" using assms(2) by (auto simp: all_metrics_def)
qed

text \<open>
  A pattern in the include list that does not compile is not reported when the processor is
  created, although the configuration is valid; the first batch with a metric makes it panic.  A
  match type that is not known is not reported either, and the include list is ignored.
\<close>

lemma invalid_filter_not_reported:
  assumes "mm_metrics (cc_include config) \<noteq> []" and "f \<in> set (mm_metrics (cc_include config))" and "\<not> rx_valid libs f"
    and "all_metrics md \<noteq> []"
  shows "(fc_match_type (mm_filter (cc_include config)) = ''regexp'' \<longrightarrow>
      processMetrics libs h64 md (newCumulativeToDeltaProcessor libs config) = Panic) \<and>
    (fc_match_type (mm_filter (cc_include config)) \<notin> {''regexp'', ''strict''} \<longrightarrow>
      cd_include (newCumulativeToDeltaProcessor libs config) = None)"
proof (intro conjI impI)
  assume regexp: "fc_match_type (mm_filter (cc_include config)) = ''regexp''"
  obtain e where "addFilters libs [] (mm_metrics (cc_include config)) = Inl e"
    using invalid_pattern [of "mm_metrics (cc_include config)" libs "[]"] assms(2,3) by auto
  then have "cd_include (newCumulativeToDeltaProcessor libs config) = Some NilRegexpSet"
    using regexp assms(1) by (simp add: newCumulativeToDeltaProcessor_def filter_of_def CreateFilterSet_def newRegexpFilterSet_def Let_def)
  then show "processMetrics libs h64 md (newCumulativeToDeltaProcessor libs config) = Panic"
    by (rule nil_filter_panics) (rule assms(4))
qed (use assms(1) in \<open>simp add: newCumulativeToDeltaProcessor_def filter_of_def CreateFilterSet_def\<close>)

text \<open>Two batches for the witnesses, with the identity for the hash.\<close>

definition sample_metric :: "timestamp \<Rightarrow> i64 \<Rightarrow> string \<Rightarrow> unit metric_rec" where
  "sample_metric time value name =
     \<lparr>me_name = name, me_unit = ''1'',
      me_data = SumData TempCumulative True
        [\<lparr>nd_start = 0, nd_time = time, nd_attrs = [], nd_value = NumInt value, nd_no_recorded = False\<rparr>]\<rparr>"

definition sample_batch :: "unit metric_rec list \<Rightarrow> unit resource_metrics list" where
  "sample_batch ms = [\<lparr>rm_attrs = [], rm_scopes = [\<lparr>sm_name = [], sm_version = [], sm_metrics = ms\<rparr>]\<rparr>]"

definition sample_config :: "string \<Rightarrow> string \<Rightarrow> c2d_config" where
  "sample_config ty pattern =
     \<lparr>cc_max_staleness = 0,
      cc_include = \<lparr>mm_filter = \<lparr>fc_match_type = ty, fc_regexp = None\<rparr>, mm_metrics = [pattern]\<rparr>,
      cc_exclude = \<lparr>mm_filter = \<lparr>fc_match_type = [], fc_regexp = None\<rparr>, mm_metrics = []\<rparr>\<rparr>"


lemma invalid_filter_not_reported_witness:
  "processMetrics sample_libs id (sample_batch [sample_metric 1 5 ''hits''])
     (newCumulativeToDeltaProcessor sample_libs (sample_config ''regexp'' ''('')) = Panic \<and>
   cd_include (newCumulativeToDeltaProcessor sample_libs (sample_config ''glob'' ''('')) = None"
proof -
  have "all_metrics (sample_batch [sample_metric 1 5 ''hits'']) \<noteq> []"
    by (simp add: all_metrics_def sample_batch_def)
  then show ?thesis
    using invalid_filter_not_reported [of "sample_config ''regexp'' ''(''" "''(''" sample_libs "sample_batch [sample_metric 1 5 ''hits'']" id]
      invalid_filter_not_reported [of "sample_config ''glob'' ''(''" "''(''" sample_libs "sample_batch [sample_metric 1 5 ''hits'']" id]
    by (simp add: sample_config_def sample_libs_def)
qed

end
