(* ===== verification/GoNumbers.thy ===== *)
theory GoNumbers
  imports GoFloat
begin

text \<open>
  More of Go's numbers: \<open>float32\<close> with its product, the conversions to \<open>uint32\<close>, and
  \<open>strconv.ParseFloat\<close>.
\<close>

section \<open>float32\<close>

type_synonym float32 = "32 word" \<comment> \<open>the IEEE bit pattern\<close>

definition f32_neg :: "float32 \<Rightarrow> bool" where
  "f32_neg x = bit x 31"

definition f32_mag :: "float32 \<Rightarrow> int" where
  "f32_mag x = uint x mod 2 ^ 31"

definition inf32 :: int where "inf32 = 255 * 2 ^ 23"

definition f32_nan :: "float32 \<Rightarrow> bool" where "f32_nan x = (inf32 < f32_mag x)"
definition f32_inf :: "float32 \<Rightarrow> bool" where "f32_inf x = (f32_mag x = inf32)"
definition f32_zero :: "float32 \<Rightarrow> bool" where "f32_zero x = (f32_mag x = 0)"

definition of_mag32 :: "bool \<Rightarrow> int \<Rightarrow> float32" where
  "of_mag32 neg m = (if neg then 2 ^ 31 else 0) + of_int m"

definition nan32 :: float32 where "nan32 = 0x7FC00000"

definition mag32 :: "int \<Rightarrow> rat" where
  "mag32 m = mag_val 23 (- 149) m"

definition f32_value :: "float32 \<Rightarrow> rat" where
  "f32_value x = (if f32_neg x then - mag32 (f32_mag x) else mag32 (f32_mag x))"

definition f32_round :: "bool \<Rightarrow> rat \<Rightarrow> float32" where
  "f32_round neg q = of_mag32 neg (round_val 23 (- 149) inf32 q)"

definition f32_mul :: "float32 \<Rightarrow> float32 \<Rightarrow> float32" where
  "f32_mul x y =
     (if f32_nan x \<or> f32_nan y \<or> f32_inf x \<and> f32_zero y \<or> f32_zero x \<and> f32_inf y then nan32
      else if f32_inf x \<or> f32_inf y then of_mag32 (f32_neg x \<noteq> f32_neg y) inf32
      else f32_round (f32_neg x \<noteq> f32_neg y) (mag32 (f32_mag x) * mag32 (f32_mag y)))"

text \<open>
  The conversions to \<open>uint32\<close> keep the low bits of the conversion to \<open>int64\<close>, as on amd64.
\<close>

definition f32_to_u32 :: "float32 \<Rightarrow> u32" where
  "f32_to_u32 x =
     (let t = (if f32_neg x then - \<lfloor>mag32 (f32_mag x)\<rfloor> else \<lfloor>mag32 (f32_mag x)\<rfloor>)
      in of_int (if f32_nan x \<or> f32_inf x \<or> t < - (2 ^ 63) \<or> 2 ^ 63 \<le> t then - (2 ^ 63) else t))"

definition f_to_u32 :: "float64 \<Rightarrow> u32" where
  "f_to_u32 x = of_int (f_to_int x)"

lemma of_mag32_parts:
  assumes "0 \<le> m" and "m < 2 ^ 31"
  shows "f32_mag (of_mag32 neg m) = m" and "f32_neg (of_mag32 neg m) = neg"
proof -
  have u: "uint (of_mag32 neg m) = (if neg then 2 ^ 31 else 0) + m"
    using assms by (auto simp: of_mag32_def uint_word_ariths uint_word_of_int mod_pos_pos_trivial take_bit_int_eq_self)
  then show "f32_mag (of_mag32 neg m) = m" using assms by (simp add: f32_mag_def)
  have "bit (of_mag32 neg m) 31 \<longleftrightarrow> bit (uint (of_mag32 neg m)) 31" by (simp add: bit_uint_iff)
  also have "\<dots> \<longleftrightarrow> odd (uint (of_mag32 neg m) div 2 ^ 31)" by (rule bit_iff_odd)
  also have "\<dots> \<longleftrightarrow> neg" using u assms by auto
  finally show "f32_neg (of_mag32 neg m) = neg" by (simp add: f32_neg_def)
qed

lemma mag32_nonneg [simp]: "0 \<le> mag32 (f32_mag x)"
  unfolding mag32_def by (rule mag_val_nonneg) (simp add: f32_mag_def)

section \<open>ParseFloat\<close>

definition ascii_lower :: "char \<Rightarrow> char" where
  "ascii_lower c = (if 65 \<le> (of_char c :: nat) \<and> (of_char c :: nat) \<le> 90 then char_of ((of_char c :: nat) + 32) else c)"

definition strip_sign :: "string \<Rightarrow> bool \<times> string" where
  "strip_sign s = (case s of c # cs \<Rightarrow> if c = CHR ''-'' then (True, cs) else if c = CHR ''+'' then (False, cs) else (False, s)
     | [] \<Rightarrow> (False, s))"

text \<open>Infinities with an optional sign, and \<open>nan\<close> without one.\<close>

definition special_float :: "string \<Rightarrow> float64 option" where
  "special_float s =
     (let (neg, body) = strip_sign s
      in if map ascii_lower body \<in> {''inf'', ''infinity''} then Some (of_mag neg inf_mag)
         else if map ascii_lower s = ''nan'' then Some nan64
         else None)"

definition float_digit :: "nat \<Rightarrow> char \<Rightarrow> nat option" where
  "float_digit base c =
     (let l = (of_char (ascii_lower c) :: nat)
      in if is_digit c then Some (digit_val c)
         else if base = 16 \<and> 97 \<le> l \<and> l \<le> 102 then Some (l - 87)
         else None)"

text \<open>The digits before the exponent: their value, their number, and how many follow the point.\<close>

fun read_mantissa :: "nat \<Rightarrow> bool \<Rightarrow> nat \<times> nat \<times> nat \<Rightarrow> string \<Rightarrow> (nat \<times> nat \<times> nat) \<times> string" where
  "read_mantissa base dot acc [] = (acc, [])"
| "read_mantissa base dot (m, d, f) (c # cs) =
     (if c = CHR ''_'' then read_mantissa base dot (m, d, f) cs
      else if c = CHR ''.'' then
        (if dot then ((m, d, f), c # cs) else read_mantissa base True (m, d, f) cs)
      else case float_digit base c of
          Some v \<Rightarrow> read_mantissa base dot (m * base + v, d + 1, if dot then f + 1 else f) cs
        | None \<Rightarrow> ((m, d, f), c # cs))"

fun read_exponent :: "nat \<Rightarrow> string \<Rightarrow> nat \<times> string" where
  "read_exponent e [] = (e, [])"
| "read_exponent e (c # cs) =
     (if c = CHR ''_'' then read_exponent e cs
      else if is_digit c then read_exponent (if e < 10000 then e * 10 + digit_val c else e) cs
      else (e, c # cs))"

text \<open>An underscore must stand between digits, or between the base prefix and a digit.\<close>

datatype underscore_state = AtStart | AfterDigit | AfterUnderscore | AfterOther

fun underscores_ok :: "bool \<Rightarrow> underscore_state \<Rightarrow> string \<Rightarrow> bool" where
  "underscores_ok hex st [] = (st \<noteq> AfterUnderscore)"
| "underscores_ok hex st (c # cs) =
     (if float_digit (if hex then 16 else 10) c \<noteq> None then underscores_ok hex AfterDigit cs
      else if c = CHR ''_'' then st = AfterDigit \<and> underscores_ok hex AfterUnderscore cs
      else st \<noteq> AfterUnderscore \<and> underscores_ok hex AfterOther cs)"

definition hex_prefix :: "string \<Rightarrow> bool" where
  "hex_prefix s = (2 < length s \<and> s ! 0 = CHR ''0'' \<and> ascii_lower (s ! 1) = CHR ''x'')"

text \<open>The exact value of a number without its sign, if the whole of it is well formed.\<close>

definition read_number :: "string \<Rightarrow> rat option" where
  "read_number s =
     (let hex = hex_prefix s; base = (if hex then 16 else 10); body = (if hex then drop 2 s else s);
          ((m, d, f), rest) = read_mantissa base False (0, 0, 0) body;
          q = (of_nat m / of_nat base ^ f :: rat)
      in if d = 0 \<or> CHR ''_'' \<in> set s \<and> \<not> underscores_ok hex (if hex then AfterDigit else AtStart) body then None
         else (case rest of
             [] \<Rightarrow> if hex then None else Some q
           | c # cs \<Rightarrow>
               if ascii_lower c \<noteq> (if hex then CHR ''p'' else CHR ''e'') then None
               else (let (neg, ds) = strip_sign cs; (e, end) = read_exponent 0 ds;
                         b = (if hex then 2 else 10)
                     in if ds = [] \<or> \<not> is_digit (hd ds) \<or> end \<noteq> [] then None
                        else Some (q * b powi (if neg then - int e else int e)))))"

text \<open>\<open>ParseFloat(s, 64)\<close>: the nearest number; a syntax error or an overflow is no number.\<close>

definition parse_float :: "string \<Rightarrow> float64 option" where
  "parse_float s =
     (case special_float s of
        Some x \<Rightarrow> Some x
      | None \<Rightarrow>
          (let (neg, body) = strip_sign s
           in case read_number body of
                None \<Rightarrow> None
              | Some q \<Rightarrow> if round_mag q = inf_mag then None else Some (f_round neg q)))"

lemma parse_float_samples:
  "parse_float ''1'' = Some 0x3FF0000000000000" "parse_float ''-0.5'' = Some 0xBFE0000000000000"
  "parse_float ''1_0e-1'' = Some 0x3FF0000000000000" "parse_float ''0x1p-2'' = Some 0x3FD0000000000000"
  "parse_float ''+Inf'' = Some 0x7FF0000000000000" 
  "parse_float ''0x10'' = None" "parse_float ''_1'' = None" "parse_float ''1__0'' = None"
  "parse_float ''.'' = None" "parse_float ''.5'' = Some 0x3FE0000000000000" "parse_float ''1e'' = None"
  by code_simp+

end
