(* ===== verification/ProbabilisticSampler.thy ===== *)
theory ProbabilisticSampler
  imports GoNumbers PdataHash RemoveIf BatchPerSignal
begin

text \<open>
  \<open>processor/probabilisticsamplerprocessor\<close> of the bundled contrib module: head sampling of spans and
  log records by the hash of an identifier, with priorities from their attributes.  \<open>Value.Bytes\<close> of
  a value that is not a byte string is an invalid slice, which \<open>AsRaw\<close> dereferences.
\<close>

section \<open>Hash\<close>

text \<open>\<open>i32tob\<close>, and \<open>hash/fnv\<close>'s 32-bit FNV-1a hash.\<close>

definition i32tob :: "u32 \<Rightarrow> byte list" where
  "i32tob val = map (\<lambda>i. ucast (drop_bit (8 * i) val AND 0xff)) [0..<4]"

definition fnv32a_write :: "u32 \<Rightarrow> byte list \<Rightarrow> u32" where
  "fnv32a_write h bs = fold (\<lambda>b h. (h XOR ucast b) * 16777619) bs h"

definition computeHash :: "byte list \<Rightarrow> u32 \<Rightarrow> u32" where
  "computeHash b seed = fnv32a_write (fnv32a_write 2166136261 (i32tob seed)) b"

section \<open>Configuration and creation\<close>

definition numHashBuckets :: u32 where "numHashBuckets = 0x4000"

definition bitMaskHashBuckets :: u32 where "bitMaskHashBuckets = numHashBuckets - 1"

definition percentageScaleFactor :: rat where "percentageScaleFactor = 16384 / 100"

definition traceIDAttributeSource :: string where "traceIDAttributeSource = ''traceID''"

definition recordAttributeSource :: string where "recordAttributeSource = ''record''"

record ps_config =
  pc_percentage :: float32 \<comment> \<open>\<open>SamplingPercentage\<close>\<close>
  pc_seed :: u32 \<comment> \<open>\<open>HashSeed\<close>\<close>
  pc_source :: string \<comment> \<open>\<open>AttributeSource\<close>\<close>
  pc_from :: string \<comment> \<open>\<open>FromAttribute\<close>\<close>
  pc_priority :: string \<comment> \<open>\<open>SamplingPriority\<close>\<close>

datatype ps_error = ErrNegativeRate | ErrAttributeSource string

definition ps_validate :: "ps_config \<Rightarrow> ps_error option" where
  "ps_validate cfg =
     (if \<not> f32_nan (pc_percentage cfg) \<and> f32_value (pc_percentage cfg) < 0 then Some ErrNegativeRate
      else if pc_source cfg \<noteq> [] \<and> pc_source cfg \<notin> {traceIDAttributeSource, recordAttributeSource}
      then Some (ErrAttributeSource (pc_source cfg))
      else None)"

definition ps_default_config :: ps_config where
  "ps_default_config =
     \<lparr>pc_percentage = 0, pc_seed = 0, pc_source = traceIDAttributeSource, pc_from = [], pc_priority = []\<rparr>"

record trace_sampler =
  ts_rate :: u32 \<comment> \<open>\<open>scaledSamplingRate\<close>\<close>
  ts_seed :: u32

record log_sampler =
  ls_rate :: u32
  ls_seed :: u32
  ls_trace_id_enabled :: bool
  ls_source :: string
  ls_priority :: string

text \<open>The constant is a \<open>float32\<close> in the product with the percentage.\<close>

definition scaled_rate :: "float32 \<Rightarrow> u32" where
  "scaled_rate percentage = f32_to_u32 (f32_mul percentage (f32_round False percentageScaleFactor))"

definition new_trace_sampler :: "ps_config \<Rightarrow> trace_sampler" where
  "new_trace_sampler cfg = \<lparr>ts_rate = scaled_rate (pc_percentage cfg), ts_seed = pc_seed cfg\<rparr>"

definition newLogsProcessor :: "ps_config \<Rightarrow> log_sampler" where
  "newLogsProcessor cfg =
     \<lparr>ls_rate = scaled_rate (pc_percentage cfg), ls_seed = pc_seed cfg,
      ls_trace_id_enabled = (pc_source cfg = traceIDAttributeSource), ls_source = pc_from cfg,
      ls_priority = pc_priority cfg\<rparr>"

section \<open>Traces\<close>

record sampled_span =
  ss_trace_id :: "byte list"
  ss_attrs :: pmap

datatype samplingPriority = DeferDecision | MustSampleSpan | DoNotSampleSpan

definition double_priority :: "float64 \<Rightarrow> samplingPriority" where
  "double_priority value =
     (if f_zero value then DoNotSampleSpan else if f_lt 0 value then MustSampleSpan else DeferDecision)"

definition parseSpanSamplingPriority :: "'m sampled_span_scheme \<Rightarrow> samplingPriority" where
  "parseSpanSamplingPriority s =
     (if length (ss_attrs s) \<le> 0 then DeferDecision
      else (case map_of (ss_attrs s) ''sampling.priority'' of
          None \<Rightarrow> DeferDecision
        | Some (PInt value) \<Rightarrow>
            if value = 0 then DoNotSampleSpan else if 0 <s value then MustSampleSpan else DeferDecision
        | Some (PDouble value) \<Rightarrow> double_priority value
        | Some (PStr attribVal) \<Rightarrow>
            (case parse_float attribVal of Some value \<Rightarrow> double_priority value | None \<Rightarrow> DeferDecision)
        | Some _ \<Rightarrow> DeferDecision))"

definition remove_span :: "trace_sampler \<Rightarrow> 'm sampled_span_scheme \<Rightarrow> bool" where
  "remove_span tsp s =
     (let sp = parseSpanSamplingPriority s in
      if sp = DoNotSampleSpan then True
      else let sampled = (sp = MustSampleSpan \<or>
             computeHash (ss_trace_id s) (ts_seed tsp) AND bitMaskHashBuckets < ts_rate tsp)
           in \<not> sampled)"

text \<open>The second result is \<open>ErrSkipProcessingData\<close>: nothing is left.\<close>

definition processTraces ::
    "trace_sampler \<Rightarrow> 'm sampled_span_scheme telemetry \<Rightarrow> ('m sampled_span_scheme telemetry \<times> bool) outcome" where
  "processTraces tsp td =
     bind_outcome (remove_items (\<lambda>s. Ret (remove_span tsp s)) td) (\<lambda>td'. Ret (td', length td' = 0))"

section \<open>Logs\<close>

record sampled_log = log_record +
  sl_attrs :: pmap

fun as_raw :: "pvalue \<Rightarrow> byte list outcome" where
  "as_raw (PBytes bs) = Ret bs"
| "as_raw _ = Panic"

definition lid_bytes :: "log_sampler \<Rightarrow> 'm sampled_log_scheme \<Rightarrow> byte list outcome" where
  "lid_bytes lsp l =
     (if ls_trace_id_enabled lsp \<and> lr_trace_id l \<noteq> replicate 16 0 then Ret (lr_trace_id l)
      else if ls_source lsp \<noteq> [] then
        (case map_of (sl_attrs l) (ls_source lsp) of Some value \<Rightarrow> as_raw value | None \<Rightarrow> Ret [])
      else Ret [])"

definition log_priority :: "log_sampler \<Rightarrow> 'm sampled_log_scheme \<Rightarrow> u32" where
  "log_priority lsp l =
     (if ls_priority lsp \<noteq> [] then
        (case map_of (sl_attrs l) (ls_priority lsp) of
           Some (PDouble x) \<Rightarrow> f_to_u32 (f_mul x (f_round False percentageScaleFactor))
         | Some (PInt i) \<Rightarrow> f_to_u32 (f_mul (f_of_int (sint i)) (f_round False percentageScaleFactor))
         | _ \<Rightarrow> ls_rate lsp)
      else ls_rate lsp)"

definition remove_log :: "log_sampler \<Rightarrow> 'm sampled_log_scheme \<Rightarrow> bool outcome" where
  "remove_log lsp l =
     bind_outcome (lid_bytes lsp l) (\<lambda>lidBytes.
       let priority = log_priority lsp l;
           sampled = (computeHash lidBytes (ls_seed lsp) AND bitMaskHashBuckets < priority)
       in Ret (\<not> sampled))"

definition processLogs ::
    "log_sampler \<Rightarrow> 'm sampled_log_scheme telemetry \<Rightarrow> ('m sampled_log_scheme telemetry \<times> bool) outcome" where
  "processLogs lsp ld = bind_outcome (remove_items (remove_log lsp) ld) (\<lambda>ld'. Ret (ld', length ld' = 0))"

section \<open>The rate\<close>

definition scale32 :: rat where
  "scale32 = mag32 (f32_mag (f32_round False percentageScaleFactor))"

lemma scale_parts:
  "\<not> f32_neg (f32_round False percentageScaleFactor) \<and> \<not> f32_nan (f32_round False percentageScaleFactor) \<and>
   \<not> f32_inf (f32_round False percentageScaleFactor) \<and> \<not> f32_zero (f32_round False percentageScaleFactor)"
  by code_simp

lemma scale_range: "0 < scale32 \<and> scale32 \<le> 164"
  by code_simp

definition rate_mag :: "rat \<Rightarrow> int" where
  "rate_mag v = round_val 23 (- 149) inf32 (v * scale32)"

lemma rate_mag_range: "0 \<le> rate_mag v" "rate_mag v \<le> inf32"
  unfolding rate_mag_def by (rule round_val_bounds; simp add: inf32_def)+

lemma rate_mag_mono: "v \<le> v' \<Longrightarrow> rate_mag v \<le> rate_mag v'"
  unfolding rate_mag_def using scale_range by (intro round_val_mono mult_right_mono) (simp_all add: inf32_def)

text \<open>The rate as an integer, for a percentage with value \<open>v\<close>.\<close>

definition rate_of :: "rat \<Rightarrow> int" where
  "rate_of v = \<lfloor>mag32 (rate_mag v)\<rfloor>"

lemma rate_of_mono: "v \<le> v' \<Longrightarrow> rate_of v \<le> rate_of v'"
  unfolding rate_of_def mag32_def by (intro floor_mono mag_val_mono rate_mag_mono rate_mag_range)

lemma rate_samples: "rate_of 0 = 0" "rate_of 100 = 0x4000" "rate_of 26214398 < 2 ^ 32" "rate_mag 26214398 < inf32"
  by code_simp+

lemma finite_value:
  assumes "0 \<le> f32_value p" and "f32_value p \<le> 26214398"
  shows "\<not> f32_nan p" and "\<not> f32_inf p"
proof -
  have "\<not> inf32 \<le> f32_mag p"
  proof
    assume le: "inf32 \<le> f32_mag p"
    have "mag32 inf32 = 2 ^ 128" by code_simp
    moreover have "mag32 inf32 \<le> mag32 (f32_mag p)"
      unfolding mag32_def by (rule mag_val_mono [OF _ le]) (simp add: inf32_def)
    ultimately have "2 ^ 128 \<le> mag32 (f32_mag p)" by simp
    then show False using assms by (auto simp: f32_value_def split: if_splits)
  qed
  then show "\<not> f32_nan p" and "\<not> f32_inf p" by (auto simp: f32_nan_def f32_inf_def)
qed

lemma scaled_rate_value:
  assumes "0 \<le> f32_value p" and "f32_value p \<le> 26214398"
  shows "scaled_rate p = of_int (rate_of (f32_value p))" and "0 \<le> rate_of (f32_value p)" and "rate_of (f32_value p) < 2 ^ 32"
proof -
  let ?r = "rate_of (f32_value p)" and ?m = "rate_mag (f32_value p)"
  show r: "0 \<le> ?r" "?r < 2 ^ 32"
    using rate_of_mono [OF assms(1)] rate_of_mono [OF assms(2)] rate_samples by simp_all
  have m: "0 \<le> ?m" "?m < inf32" "?m < 2 ^ 31"
    using rate_mag_range [of "f32_value p"] rate_mag_mono [OF assms(2)] rate_samples(4) by (simp_all add: inf32_def)
  have v: "mag32 (f32_mag p) = f32_value p"
    using assms(1) by (auto simp: f32_value_def intro: antisym split: if_splits)
  have mul: "f32_mul p (f32_round False percentageScaleFactor) = of_mag32 (f32_neg p) ?m"
    using finite_value [OF assms] scale_parts
    by (simp add: f32_mul_def f32_round_def [of "f32_neg p"] rate_mag_def v scale32_def)
  have sign: "f32_neg p \<Longrightarrow> ?r = 0"
  proof -
    assume "f32_neg p"
    then have "f32_value p = 0" using assms(1) by (auto simp: f32_value_def intro: antisym)
    then show ?thesis using rate_samples(1) by simp
  qed
  have parts: "f32_mag (of_mag32 (f32_neg p) ?m) = ?m" "f32_neg (of_mag32 (f32_neg p) ?m) = f32_neg p"
    using of_mag32_parts [OF m(1,3)] by simp_all
  have "\<lfloor>mag32 ?m\<rfloor> = ?r" by (simp add: rate_of_def)
  then show "scaled_rate p = of_int ?r"
    using m(2) r sign unfolding scaled_rate_def mul f32_to_u32_def parts
    by (auto simp: f32_nan_def f32_inf_def parts)
qed

lemma scaled_rate_mono:
  assumes "0 \<le> f32_value p" and "f32_value p \<le> f32_value p'" and "f32_value p' \<le> 26214398"
  shows "scaled_rate p \<le> scaled_rate p'"
proof -
  have p: "f32_value p \<le> 26214398" and p': "0 \<le> f32_value p'" using assms by simp_all
  note a = scaled_rate_value [OF assms(1) p] and b = scaled_rate_value [OF p' assms(3)]
  show ?thesis using a(2,3) b(2,3) rate_of_mono [OF assms(2)]
    unfolding a(1) b(1) word_le_def by (simp add: uint_word_of_int_eq take_bit_int_eq_self)
qed

lemma bucket_small: "x AND bitMaskHashBuckets < 0x4000"
proof -
  have "x AND bitMaskHashBuckets \<le> bitMaskHashBuckets" by (rule word_and_le1)
  then show ?thesis by (rule le_less_trans) (simp add: bitMaskHashBuckets_def numHashBuckets_def)
qed

section \<open>Spans\<close>

lemma processTraces_eq:
  "processTraces tsp td = Ret (kept_items (remove_span tsp) td, items (kept_items (remove_span tsp) td) = [])"
  unfolding processTraces_def by (simp add: remove_items_Ret [where d = "remove_span tsp"] flip: kept_empty_iff)

lemma spans_kept: "processTraces tsp td = Ret (td', e) \<Longrightarrow> items td' = filter (\<lambda>s. \<not> remove_span tsp s) (items td)"
  by (auto simp: processTraces_eq items_kept)

text \<open>The largest \<open>float32\<close> whose rate fits, and the next one, whose rate of \<open>2 ^ 32\<close> wraps to zero.\<close>

lemma wrapped_percentage: "f32_value 0x4BC80000 = 26214400" "scaled_rate 0x4BC80000 = 0" "f32_value 0x4BC7FFFF = 26214398"
  by code_simp+

text \<open>
  C29: of two samplers with the same seed the one with the higher percentage keeps, in order, every
  span the other keeps; from 100 on it keeps every span without priority zero, and at zero only
  those with a positive priority.  This holds up to \<open>26214398\<close>; at the next \<open>float32\<close>, 26214400, the
  rate wraps to zero and again only spans with a positive priority are kept.
\<close>

theorem head_sampling_nested:
  assumes "pc_seed cfg = pc_seed cfg'"
    and "0 \<le> f32_value (pc_percentage cfg)" and "f32_value (pc_percentage cfg) \<le> f32_value (pc_percentage cfg')"
    and "f32_value (pc_percentage cfg') \<le> 26214398"
  shows "\<exists>td1 e1 td2 e2 keep. processTraces (new_trace_sampler cfg) td = Ret (td1, e1) \<and>
    processTraces (new_trace_sampler cfg') td = Ret (td2, e2) \<and>
    items td1 = filter keep (items td2) \<and>
    (100 \<le> f32_value (pc_percentage cfg') \<longrightarrow>
      items td2 = filter (\<lambda>s. parseSpanSamplingPriority s \<noteq> DoNotSampleSpan) (items td)) \<and>
    (f32_value (pc_percentage cfg) = 0 \<longrightarrow>
      items td1 = filter (\<lambda>s. parseSpanSamplingPriority s = MustSampleSpan) (items td)) \<and>
    (\<exists>td3 e3. f32_value 0x4BC80000 = 26214400 \<and>
      processTraces (new_trace_sampler (cfg'\<lparr>pc_percentage := 0x4BC80000\<rparr>)) td = Ret (td3, e3) \<and>
      items td3 = filter (\<lambda>s. parseSpanSamplingPriority s = MustSampleSpan) (items td))"
proof -
  let ?p = "pc_percentage cfg" and ?p' = "pc_percentage cfg'"
  let ?t1 = "new_trace_sampler cfg" and ?t2 = "new_trace_sampler cfg'"
  have p: "f32_value ?p \<le> 26214398" and p': "0 \<le> f32_value ?p'" using assms by simp_all
  have nested: "\<not> remove_span ?t1 s \<Longrightarrow> \<not> remove_span ?t2 s" for s :: "'a sampled_span_scheme"
    using scaled_rate_mono [OF assms(2-4)] assms(1)
    by (auto simp: remove_span_def new_trace_sampler_def Let_def intro: less_le_trans split: if_splits)
  then have sub: "items (kept_items (remove_span ?t1) td) =
      filter (\<lambda>s. \<not> remove_span ?t1 s) (items (kept_items (remove_span ?t2) td))"
    unfolding items_kept filter_filter by (intro filter_cong) auto
  have all: "remove_span ?t2 s \<longleftrightarrow> parseSpanSamplingPriority s = DoNotSampleSpan" if "100 \<le> f32_value ?p'"
    for s :: "'a sampled_span_scheme"
  proof -
    have "0x4000 \<le> rate_of (f32_value ?p')" using rate_of_mono [OF that] rate_samples(2) by simp
    then have "(0x4000 :: u32) \<le> scaled_rate ?p'"
      using scaled_rate_value [OF p' assms(4)] by (simp add: word_le_def uint_word_of_int_eq take_bit_int_eq_self)
    then have "computeHash (ss_trace_id s) (pc_seed cfg') AND bitMaskHashBuckets < scaled_rate ?p'"
      using bucket_small less_le_trans by blast
    then show ?thesis by (auto simp: remove_span_def new_trace_sampler_def Let_def)
  qed
  have none: "remove_span ?t1 s \<longleftrightarrow> parseSpanSamplingPriority s \<noteq> MustSampleSpan" if "f32_value ?p = 0"
    for s :: "'a sampled_span_scheme"
    using scaled_rate_value(1) [OF assms(2) p] that rate_samples(1)
    by (auto simp: remove_span_def new_trace_sampler_def Let_def)
  have wrapped: "remove_span (new_trace_sampler (cfg'\<lparr>pc_percentage := 0x4BC80000\<rparr>)) s \<longleftrightarrow>
      parseSpanSamplingPriority s \<noteq> MustSampleSpan" for s :: "'a sampled_span_scheme"
    by (auto simp: remove_span_def new_trace_sampler_def wrapped_percentage Let_def)
  show ?thesis
    using sub all none wrapped wrapped_percentage(1) by (auto simp: processTraces_eq items_kept)
qed

text \<open>A span with a trace id of eight ones, and the numbers 0, 50 and 200 as \<open>float32\<close>.\<close>

definition sample_spans :: "sampled_span telemetry" where
  "sample_spans =
     [empty_resource\<lparr>res_scopes := [empty_scope\<lparr>scope_items :=
        [\<lparr>ss_trace_id = replicate 16 1, ss_attrs = []\<rparr>,
         \<lparr>ss_trace_id = replicate 16 1, ss_attrs = [(''sampling.priority'', PStr ''2.5'')]\<rparr>,
         \<lparr>ss_trace_id = replicate 16 1, ss_attrs = [(''sampling.priority'', PInt 0)]\<rparr>]\<rparr>]\<rparr>]"

definition percent_config :: "float32 \<Rightarrow> ps_config" where
  "percent_config p = ps_default_config\<lparr>pc_percentage := p\<rparr>"

lemma length_filter_image: "length (filter (\<lambda>s. P (f s)) xs) = length (filter P (map f xs))"
  by (simp add: filter_map comp_def)

theorem head_sampling_nested_witness:
  "\<exists>td1 e1 td2 e2. processTraces (new_trace_sampler (percent_config 0)) sample_spans = Ret (td1, e1) \<and>
    processTraces (new_trace_sampler (percent_config 0x43480000)) sample_spans = Ret (td2, e2) \<and>
    length (items td1) = 1 \<and> length (items td2) = 2"
proof -
  have v: "f32_value 0 = 0" "f32_value 0x43480000 = 200" by code_simp+
  have prio: "map parseSpanSamplingPriority (items sample_spans) = [DeferDecision, MustSampleSpan, DoNotSampleSpan]"
    by code_simp
  from head_sampling_nested [of "percent_config 0" "percent_config 0x43480000" sample_spans]
  obtain td1 e1 td2 e2 where r: "processTraces (new_trace_sampler (percent_config 0)) sample_spans = Ret (td1, e1)"
    "processTraces (new_trace_sampler (percent_config 0x43480000)) sample_spans = Ret (td2, e2)"
    "items td2 = filter (\<lambda>s. parseSpanSamplingPriority s \<noteq> DoNotSampleSpan) (items sample_spans)"
    "items td1 = filter (\<lambda>s. parseSpanSamplingPriority s = MustSampleSpan) (items sample_spans)"
    by (auto simp: percent_config_def v)
  moreover have "length (filter (\<lambda>s. parseSpanSamplingPriority s = MustSampleSpan) (items sample_spans)) = 1"
    using length_filter_image [of "\<lambda>x. x = MustSampleSpan" parseSpanSamplingPriority "items sample_spans"]
    by (simp only: prio) simp
  moreover have "length (filter (\<lambda>s. parseSpanSamplingPriority s \<noteq> DoNotSampleSpan) (items sample_spans)) = 2"
    using length_filter_image [of "\<lambda>x. x \<noteq> DoNotSampleSpan" parseSpanSamplingPriority "items sample_spans"]
    by (simp only: prio) simp
  ultimately show ?thesis by auto
qed

text \<open>
  A percentage of 26214400 is valid but scales to \<open>2 ^ 32\<close>, which wraps to rate zero.
\<close>

lemma huge_percentage_samples_nothing:
  "f32_value 0x4BC80000 = 26214400" "ps_validate (percent_config 0x4BC80000) = None" "scaled_rate 0x4BC80000 = 0"
  by code_simp+

section \<open>Log records\<close>

lemma as_raw_Panic_iff: "as_raw value = Panic \<longleftrightarrow> (\<forall>bs. value \<noteq> PBytes bs)"
  by (cases "value") auto

lemma lid_bytes_Panic_iff:
  "lid_bytes lsp l = Panic \<longleftrightarrow>
    \<not> (ls_trace_id_enabled lsp \<and> lr_trace_id l \<noteq> replicate 16 0) \<and> ls_source lsp \<noteq> [] \<and>
    (\<exists>value. map_of (sl_attrs l) (ls_source lsp) = Some value \<and> (\<forall>bs. value \<noteq> PBytes bs))"
  by (auto simp: lid_bytes_def as_raw_Panic_iff split: option.splits)

text \<open>
  C33: a batch of logs panics exactly if it holds a record that is to be sampled by an attribute and
  whose attribute is not a byte string.
\<close>

theorem log_source_must_be_bytes:
  "processLogs (newLogsProcessor cfg) ld = Panic \<longleftrightarrow>
    pc_from cfg \<noteq> [] \<and>
    (\<exists>l \<in> set (items ld). \<not> (pc_source cfg = traceIDAttributeSource \<and> lr_trace_id l \<noteq> replicate 16 0) \<and>
       (\<exists>value. map_of (sl_attrs l) (pc_from cfg) = Some value \<and> (\<forall>bs. value \<noteq> PBytes bs)))"
proof -
  have "processLogs (newLogsProcessor cfg) ld = Panic \<longleftrightarrow> (\<exists>l \<in> set (items ld). remove_log (newLogsProcessor cfg) l = Panic)"
    unfolding remove_items_Panic_iff [symmetric] processLogs_def
    by (cases "remove_items (remove_log (newLogsProcessor cfg)) ld") auto
  moreover have "remove_log lsp l = Panic \<longleftrightarrow> lid_bytes lsp l = Panic" for lsp and l :: "'a sampled_log_scheme"
    by (cases "lid_bytes lsp l") (auto simp: remove_log_def Let_def)
  ultimately show ?thesis by (auto simp: lid_bytes_Panic_iff newLogsProcessor_def)
qed

text \<open>A negative priority of a record wraps to a rate above all buckets: the record is kept.\<close>

lemma negative_log_priority_keeps:
  "f_to_u32 (f_mul (f_of_int (- 1)) (f_round False percentageScaleFactor)) = - 163" "(0x4000 :: u32) \<le> - 163"
  by code_simp+

text \<open>A log record is kept exactly if a span of its trace without a priority is.\<close>

lemma logs_follow_traces:
  assumes "pc_source cfg = traceIDAttributeSource" and "lr_trace_id l \<noteq> replicate 16 0" and "pc_priority cfg = []"
    and "ss_trace_id s = lr_trace_id l" and "parseSpanSamplingPriority s = DeferDecision"
  shows "remove_log (newLogsProcessor cfg) l = Ret (remove_span (new_trace_sampler cfg) s)"
  using assms by (simp add: remove_log_def lid_bytes_def log_priority_def newLogsProcessor_def remove_span_def new_trace_sampler_def)

text \<open>Records without an identifier share the hash of the seed: all of them are kept, or none.\<close>

lemma anonymous_logs_together:
  assumes "lid_bytes lsp l = Ret []" and "lid_bytes lsp l' = Ret []" and "ls_priority lsp = []"
  shows "remove_log lsp l = remove_log lsp l'"
  using assms by (simp add: remove_log_def log_priority_def)

end
