(* ===== verification/GroupByAttrs.thy ===== *)
theory GroupByAttrs
  imports PdataHash Pdata "HOL-Library.AList"
begin

text \<open>
  \<open>processor/groupbyattrsprocessor\<close> of the bundled contrib module: records (spans, log records, data
  points) are moved to resources that carry, beside the attributes of the original resource, the
  grouping attributes of the record.  The two slices of a \<open>tracesGroup\<close>, resources and their hashes,
  grow together and are one list of pairs here.  The functions for spans and log records are one
  code over different records; a record is its attributes and a rest \<open>'m\<close>.
\<close>

section \<open>Data\<close>

record attr_record =
  ar_attrs :: pmap

record instr_scope =
  sc_name :: string
  sc_version :: string
  sc_attrs :: pmap

record 'a gscope =
  gs_scope :: instr_scope
  gs_items :: "'a list"

record 'a gresource =
  gr_attrs :: pmap
  gr_scopes :: "'a gscope list"

type_synonym 'a group = "(byte list \<times> 'a gresource) list"

text \<open>
  \<open>Remove\<close> of a map, which takes out the first entry of a key (the order of the others, which a map
  does not promise, is kept here); and the search of a slice that
  appends a new element when it finds none, followed by a change of the element in place.
\<close>

fun remove_attr :: "string \<Rightarrow> pmap \<Rightarrow> pmap" where
  "remove_attr k [] = []"
| "remove_attr k ((k', v) # m) = (if k' = k then m else (k', v) # remove_attr k m)"

fun find_or_append :: "('a \<Rightarrow> bool) \<Rightarrow> 'a \<Rightarrow> ('a \<Rightarrow> 'a) \<Rightarrow> 'a list \<Rightarrow> 'a list" where
  "find_or_append P new change [] = [change new]"
| "find_or_append P new change (x # xs) = (if P x then change x # xs else x # find_or_append P new change xs)"

section \<open>Creation\<close>

fun nonempty_keys :: "string list \<Rightarrow> string list \<Rightarrow> string list" where
  "nonempty_keys present [] = []"
| "nonempty_keys present (str # attributes) =
     (if str \<noteq> [] then
        if str \<in> set present then nonempty_keys present attributes
        else str # nonempty_keys (str # present) attributes
      else nonempty_keys present attributes)"

definition createGroupByAttrsProcessor :: "string list \<Rightarrow> string list" where
  "createGroupByAttrsProcessor attributes = nonempty_keys [] attributes"

section \<open>Operations\<close>

definition extractGroupingAttributes :: "string list \<Rightarrow> pmap \<Rightarrow> bool \<times> pmap" where
  "extractGroupingAttributes groupByKeys attrMap =
     fold (\<lambda>attrKey (foundMatch, groupingAttributes).
       case map_of attrMap attrKey of
         Some attrVal \<Rightarrow> (True, AList.update attrKey attrVal groupingAttributes)
       | None \<Rightarrow> (foundMatch, groupingAttributes)) groupByKeys (False, [])"

definition deleteAttributes :: "pmap \<Rightarrow> pmap \<Rightarrow> pmap" where
  "deleteAttributes attrsForRemoval targetAttrs = fold (\<lambda>(key, _). remove_attr key) attrsForRemoval targetAttrs"

definition buildReferenceResource :: "pmap \<Rightarrow> pmap \<Rightarrow> pmap" where
  "buildReferenceResource originResource requiredAttributes =
     fold (\<lambda>(k, v). AList.update k v) requiredAttributes originResource"

definition findOrCreateResource ::
    "(byte list \<Rightarrow> byte list) \<Rightarrow> pmap \<Rightarrow> pmap \<Rightarrow> ('a gresource \<Rightarrow> 'a gresource) \<Rightarrow> 'a group \<Rightarrow> 'a group" where
  "findOrCreateResource h64 originResource requiredAttributes change tg =
     (let referenceResource = buildReferenceResource originResource requiredAttributes;
          referenceResourceHash = MapHash h64 referenceResource
      in find_or_append (\<lambda>(h, _). h = referenceResourceHash)
           (referenceResourceHash, \<lparr>gr_attrs = referenceResource, gr_scopes = []\<rparr>) (apsnd change) tg)"

definition instrumentationLibrariesEqual :: "instr_scope \<Rightarrow> instr_scope \<Rightarrow> bool" where
  "instrumentationLibrariesEqual il1 il2 \<longleftrightarrow> sc_name il1 = sc_name il2 \<and> sc_version il1 = sc_version il2"

definition matchingScope :: "instr_scope \<Rightarrow> ('a list \<Rightarrow> 'a list) \<Rightarrow> 'a gresource \<Rightarrow> 'a gresource" where
  "matchingScope library change rl =
     rl\<lparr>gr_scopes := find_or_append (\<lambda>ils. instrumentationLibrariesEqual (gs_scope ils) library)
          \<lparr>gs_scope = library, gs_items = []\<rparr> (\<lambda>ils. ils\<lparr>gs_items := change (gs_items ils)\<rparr>) (gr_scopes rl)\<rparr>"

definition group_record ::
    "(byte list \<Rightarrow> byte list) \<Rightarrow> string list \<Rightarrow> pmap \<Rightarrow> instr_scope \<Rightarrow> 'm attr_record_scheme \<Rightarrow>
     'm attr_record_scheme group \<Rightarrow> 'm attr_record_scheme group" where
  "group_record h64 groupByKeys resource library x tg =
     (let (toBeGrouped, requiredAttributes) = extractGroupingAttributes groupByKeys (ar_attrs x);
          x' = (if toBeGrouped then x\<lparr>ar_attrs := deleteAttributes requiredAttributes (ar_attrs x)\<rparr> else x)
      in findOrCreateResource h64 resource requiredAttributes (matchingScope library (\<lambda>items. items @ [x'])) tg)"

definition gap_processTraces ::
    "(byte list \<Rightarrow> byte list) \<Rightarrow> string list \<Rightarrow> 'm attr_record_scheme gresource list \<Rightarrow> 'm attr_record_scheme gresource list" where
  "gap_processTraces h64 groupByKeys td =
     map snd (fold (\<lambda>rs. fold (\<lambda>ils. fold (group_record h64 groupByKeys (gr_attrs rs) (gs_scope ils)) (gs_items ils)) (gr_scopes rs)) td [])"

definition gap_processLogs ::
    "(byte list \<Rightarrow> byte list) \<Rightarrow> string list \<Rightarrow> 'm attr_record_scheme gresource list \<Rightarrow> 'm attr_record_scheme gresource list" where
  "gap_processLogs h64 groupByKeys ld =
     map snd (fold (\<lambda>ls. fold (\<lambda>sl. fold (group_record h64 groupByKeys (gr_attrs ls) (gs_scope sl)) (gs_items sl)) (gr_scopes ls)) ld [])"

section \<open>Metrics\<close>

datatype metric_head =
    HeadEmpty | HeadGauge | HeadSum temporality bool | HeadHistogram temporality
  | HeadExponentialHistogram temporality | HeadSummary

fun head_type :: "metric_head \<Rightarrow> metric_type" where
  "head_type HeadEmpty = MetricTypeEmpty"
| "head_type HeadGauge = MetricTypeGauge"
| "head_type (HeadSum _ _) = MetricTypeSum"
| "head_type (HeadHistogram _) = MetricTypeHistogram"
| "head_type (HeadExponentialHistogram _) = MetricTypeExponentialHistogram"
| "head_type HeadSummary = MetricTypeSummary"

record 'x gmetric =
  gm_name :: string
  gm_description :: string
  gm_unit :: string
  gm_head :: metric_head
  gm_points :: "'x list"

definition getMetricInInstrumentationLibrary :: "'x gmetric \<Rightarrow> ('x list \<Rightarrow> 'x list) \<Rightarrow> 'x gmetric list \<Rightarrow> 'x gmetric list" where
  "getMetricInInstrumentationLibrary searchedMetric change metrics =
     find_or_append
       (\<lambda>metric. gm_name metric = gm_name searchedMetric \<and> head_type (gm_head metric) = head_type (gm_head searchedMetric))
       (searchedMetric\<lparr>gm_points := []\<rparr>) (\<lambda>metric. metric\<lparr>gm_points := change (gm_points metric)\<rparr>) metrics"

definition group_point ::
    "(byte list \<Rightarrow> byte list) \<Rightarrow> string list \<Rightarrow> pmap \<Rightarrow> instr_scope \<Rightarrow> 'm attr_record_scheme gmetric \<Rightarrow>
     'm attr_record_scheme \<Rightarrow> 'm attr_record_scheme gmetric group \<Rightarrow> 'm attr_record_scheme gmetric group" where
  "group_point h64 groupByKeys resource library metric x mg =
     (let (toBeGrouped, requiredAttributes) = extractGroupingAttributes groupByKeys (ar_attrs x);
          x' = (if toBeGrouped then x\<lparr>ar_attrs := deleteAttributes requiredAttributes (ar_attrs x)\<rparr> else x)
      in findOrCreateResource h64 resource requiredAttributes
           (matchingScope library (getMetricInInstrumentationLibrary metric (\<lambda>points. points @ [x']))) mg)"

text \<open>A metric without data has no points to visit.\<close>

definition gap_processMetrics ::
    "(byte list \<Rightarrow> byte list) \<Rightarrow> string list \<Rightarrow> 'm attr_record_scheme gmetric gresource list \<Rightarrow>
     'm attr_record_scheme gmetric gresource list" where
  "gap_processMetrics h64 groupByKeys md =
     map snd (fold (\<lambda>rm. fold (\<lambda>ilm. fold (\<lambda>metric.
       if gm_head metric = HeadEmpty then id
       else fold (group_point h64 groupByKeys (gr_attrs rm) (gs_scope ilm) metric) (gm_points metric))
       (gs_items ilm)) (gr_scopes rm)) md [])"

section \<open>Searching and appending is grouping\<close>

text \<open>
  Elements are built from the non-empty lists of the entries that share a key: \<open>build\<close> of a list is
  what adding its entries one by one to a new element gives.
\<close>

locale grouping =
  fixes key :: "'x \<Rightarrow> 'k" and key_of :: "'r \<Rightarrow> 'k" and new :: "'x \<Rightarrow> 'r" and add :: "'x \<Rightarrow> 'r \<Rightarrow> 'r"
  assumes key_new: "key_of (new x) = key x"
    and key_add: "key_of (add x r) = key_of r"
begin

definition build :: "'x list \<Rightarrow> 'r" where
  "build xs = fold add xs (new (hd xs))"

definition insert_entry :: "'x \<Rightarrow> 'r list \<Rightarrow> 'r list" where
  "insert_entry x = find_or_append (\<lambda>r. key_of r = key x) (new x) (add x)"

lemma build_one: "build [x] = add x (new x)"
  by (simp add: build_def)

lemma build_snoc: "xs \<noteq> [] \<Longrightarrow> build (xs @ [x]) = add x (build xs)"
  by (simp add: build_def)

lemma key_build: "key_of (build xs) = key (hd xs)"
proof -
  have "key_of (fold add ys r) = key_of r" for ys r by (induction ys arbitrary: r) (simp_all add: key_add)
  then show ?thesis by (simp add: build_def key_new)
qed

lemma insert_entry_assoc:
  assumes "\<forall>(k, ys) \<in> set gs. ys \<noteq> [] \<and> key (hd ys) = k"
  shows "insert_entry x (map (build \<circ> snd) gs) = map (build \<circ> snd) (assoc_append (key x) x gs)"
  using assms
proof (induction gs)
  case (Cons g gs)
  obtain k ys where g: "g = (k, ys)" by force
  with Cons.prems have "ys \<noteq> []" "key_of (build ys) = k" by (auto simp: key_build)
  with Cons g show ?case by (auto simp: insert_entry_def build_snoc)
qed (simp add: insert_entry_def build_one)

lemma fold_insert_entry: "fold insert_entry xs [] = map (build \<circ> snd) (group_by key (\<lambda>x. x) xs [])"
proof (induction xs rule: rev_induct)
  case (snoc x xs)
  have "\<forall>(k, ys) \<in> set (group_by key (\<lambda>x. x) xs []). ys \<noteq> [] \<and> key (hd ys) = k"
  proof (clarsimp simp: group_by_member)
    fix z zs assume "filter (\<lambda>y. key y = z) xs \<noteq> []"
    then show "key (hd (filter (\<lambda>y. key y = z) xs)) = z" by (induction xs) (auto split: if_splits)
  qed
  from insert_entry_assoc [OF this, of x] snoc show ?case by (simp add: group_by_append comp_def)
qed simp

end


text \<open>Resources by their hash, scopes by name and version, metrics by name and type.\<close>

definition scope_id :: "instr_scope \<Rightarrow> string \<times> string" where
  "scope_id library = (sc_name library, sc_version library)"

definition metric_id :: "'x gmetric \<Rightarrow> string \<times> metric_type" where
  "metric_id metric = (gm_name metric, head_type (gm_head metric))"

interpretation by_hash: grouping "\<lambda>e. MapHash h64 (fst e)" fst
    "\<lambda>e. (MapHash h64 (fst e), \<lparr>gr_attrs = fst e, gr_scopes = []\<rparr>)"
    "\<lambda>e. apsnd (matchingScope (fst (snd e)) (put (snd (snd e))))"
  for h64 and put :: "'y \<Rightarrow> 'a list \<Rightarrow> 'a list"
  by unfold_locales auto

interpretation by_scope: grouping "\<lambda>e. scope_id (fst e)" "\<lambda>ils. scope_id (gs_scope ils)"
    "\<lambda>e. \<lparr>gs_scope = fst e, gs_items = []\<rparr>" "\<lambda>e ils. ils\<lparr>gs_items := put (snd e) (gs_items ils)\<rparr>"
  for put :: "'y \<Rightarrow> 'a list \<Rightarrow> 'a list"
  by unfold_locales auto

interpretation by_metric: grouping "\<lambda>e. metric_id (fst e)" metric_id
    "\<lambda>e. (fst e)\<lparr>gm_points := []\<rparr>" "\<lambda>e m. m\<lparr>gm_points := gm_points m @ [snd e]\<rparr>"
  by unfold_locales (auto simp: metric_id_def)

section \<open>The reference\<close>

text \<open>Where a record goes: its resource, and what is left of it.\<close>

definition placed :: "string list \<Rightarrow> pmap \<Rightarrow> 'm attr_record_scheme \<Rightarrow> pmap \<times> 'm attr_record_scheme" where
  "placed groupByKeys resource x =
     (let required = snd (extractGroupingAttributes groupByKeys (ar_attrs x))
      in (buildReferenceResource resource required, x\<lparr>ar_attrs := deleteAttributes required (ar_attrs x)\<rparr>))"

definition record_entries ::
    "string list \<Rightarrow> 'm attr_record_scheme gresource list \<Rightarrow> (pmap \<times> instr_scope \<times> 'm attr_record_scheme) list" where
  "record_entries groupByKeys td =
     concat (map (\<lambda>rs. concat (map (\<lambda>ils. map (\<lambda>x. (fst (placed groupByKeys (gr_attrs rs) x), gs_scope ils, snd (placed groupByKeys (gr_attrs rs) x)))
       (gs_items ils)) (gr_scopes rs))) td)"

definition point_entries ::
    "string list \<Rightarrow> 'm attr_record_scheme gmetric gresource list \<Rightarrow>
     (pmap \<times> instr_scope \<times> 'm attr_record_scheme gmetric \<times> 'm attr_record_scheme) list" where
  "point_entries groupByKeys md =
     concat (map (\<lambda>rm. concat (map (\<lambda>ilm. concat (map (\<lambda>metric.
       map (\<lambda>x. (fst (placed groupByKeys (gr_attrs rm) x), gs_scope ilm, metric, snd (placed groupByKeys (gr_attrs rm) x)))
         (if gm_head metric = HeadEmpty then [] else gm_points metric))
       (gs_items ilm))) (gr_scopes rm))) md)"

definition scope_groups :: "('y list \<Rightarrow> 'a list) \<Rightarrow> (instr_scope \<times> 'y) list \<Rightarrow> 'a gscope list" where
  "scope_groups f xs =
     map (\<lambda>g. \<lparr>gs_scope = fst (hd (snd g)), gs_items = f (map snd (snd g))\<rparr>) (group_by (\<lambda>e. scope_id (fst e)) (\<lambda>e. e) xs [])"

definition resource_groups ::
    "(byte list \<Rightarrow> byte list) \<Rightarrow> ('y list \<Rightarrow> 'a list) \<Rightarrow> (pmap \<times> instr_scope \<times> 'y) list \<Rightarrow> 'a gresource list" where
  "resource_groups h64 f xs =
     map (\<lambda>g. \<lparr>gr_attrs = fst (hd (snd g)), gr_scopes = scope_groups f (map snd (snd g))\<rparr>)
       (group_by (\<lambda>e. MapHash h64 (fst e)) (\<lambda>e. e) xs [])"

definition metric_groups :: "('x gmetric \<times> 'x) list \<Rightarrow> 'x gmetric list" where
  "metric_groups xs =
     map (\<lambda>g. (fst (hd (snd g)))\<lparr>gm_points := map snd (snd g)\<rparr>) (group_by (\<lambda>e. metric_id (fst e)) (\<lambda>e. e) xs [])"

lemma extract_none: "\<not> fst (extractGroupingAttributes keys m) \<Longrightarrow> extractGroupingAttributes keys m = (False, [])"
proof -
  have "fst (fold (\<lambda>k (found, g). case map_of m k of Some v \<Rightarrow> (True, AList.update k v g) | None \<Rightarrow> (found, g)) ks (b, g)) \<or>
      (\<not> b \<and> fold (\<lambda>k (found, g). case map_of m k of Some v \<Rightarrow> (True, AList.update k v g) | None \<Rightarrow> (found, g)) ks (b, g) = (b, g))"
    for ks b g
  proof (induction ks arbitrary: b g)
    case (Cons k ks)
    show ?case using Cons [of True] Cons [of b g] by (auto split: option.split)
  qed simp
  from this [of keys False "[]"] show "\<not> fst (extractGroupingAttributes keys m) \<Longrightarrow> ?thesis"
    by (auto simp: extractGroupingAttributes_def)
qed

lemma group_group_by_scope:
  "matchingScope library (put y) r = r\<lparr>gr_scopes := by_scope.insert_entry put (library, y) (gr_scopes r)\<rparr>"
  unfolding by_scope.insert_entry_def by (simp add: matchingScope_def instrumentationLibrariesEqual_def scope_id_def)

lemma find_resource_by_hash:
  "findOrCreateResource h64 resource required (matchingScope library (put y)) =
     by_hash.insert_entry h64 put (buildReferenceResource resource required, library, y)"
  unfolding by_hash.insert_entry_def by (simp add: fun_eq_iff findOrCreateResource_def Let_def case_prod_unfold)

lemma find_metric_by_id:
  "getMetricInInstrumentationLibrary metric (\<lambda>points. points @ [x]) = by_metric.insert_entry (metric, x)"
  unfolding by_metric.insert_entry_def by (simp add: fun_eq_iff getMetricInInstrumentationLibrary_def metric_id_def)

text \<open>The resources that are built, and the scopes in them.\<close>

lemma build_scope:
  fixes put :: "'y \<Rightarrow> 'a list \<Rightarrow> 'a list"
  shows "by_scope.build put zs = \<lparr>gs_scope = fst (hd zs), gs_items = fold put (map snd zs) []\<rparr>"
proof -
  have "fold (\<lambda>e ils. ils\<lparr>gs_items := put (snd e) (gs_items ils)\<rparr>) zs ils =
      ils\<lparr>gs_items := fold put (map snd zs) (gs_items ils)\<rparr>" for ils :: "'a gscope"
    by (induction zs arbitrary: ils) auto
  then show ?thesis unfolding by_scope.build_def by simp
qed

lemma build_resource:
  fixes put :: "'y \<Rightarrow> 'a list \<Rightarrow> 'a list"
  shows "by_hash.build h64 put ys =
     (MapHash h64 (fst (hd ys)), \<lparr>gr_attrs = fst (hd ys), gr_scopes = scope_groups (\<lambda>l. fold put l []) (map snd ys)\<rparr>)"
proof -
  have "fold (\<lambda>e. apsnd (matchingScope (fst (snd e)) (put (snd (snd e))))) ys (h, r) =
      (h, r\<lparr>gr_scopes := fold (by_scope.insert_entry put) (map snd ys) (gr_scopes r)\<rparr>)" for h :: "byte list" and r :: "'a gresource"
    by (induction ys arbitrary: r) (auto simp: group_group_by_scope)
  then have "by_hash.build h64 put ys = (MapHash h64 (fst (hd ys)),
      \<lparr>gr_attrs = fst (hd ys), gr_scopes = fold (by_scope.insert_entry put) (map snd ys) []\<rparr>)"
    unfolding by_hash.build_def by simp
  then show ?thesis
    unfolding by_scope.fold_insert_entry scope_groups_def by (simp add: comp_def build_scope)
qed

lemma build_metric:
  fixes zs :: "('x gmetric \<times> 'x) list"
  shows "by_metric.build zs = (fst (hd zs))\<lparr>gm_points := map snd zs\<rparr>"
proof -
  have "fold (\<lambda>e m. m\<lparr>gm_points := gm_points m @ [snd e]\<rparr>) zs m = m\<lparr>gm_points := gm_points m @ map snd zs\<rparr>" for m :: "'x gmetric"
    by (induction zs arbitrary: m) auto
  then show ?thesis unfolding by_metric.build_def by simp
qed

lemma fold_resources:
  "map snd (fold (by_hash.insert_entry h64 put) xs []) = resource_groups h64 (\<lambda>l. fold put l []) xs"
  unfolding by_hash.fold_insert_entry resource_groups_def by (simp add: comp_def build_resource)

lemmas record_by_hash = find_resource_by_hash [where put = "\<lambda>y items. items @ [y]"]

lemmas point_by_hash = find_resource_by_hash [where put = "by_metric.insert_entry" and y = "(metric, x)" for metric x]

lemma group_record_placed:
  "group_record h64 keys resource library x =
     by_hash.insert_entry h64 (\<lambda>y items. items @ [y])
       (fst (placed keys resource x), library, snd (placed keys resource x))"
proof (cases "fst (extractGroupingAttributes keys (ar_attrs x))")
  case True
  then show ?thesis
    by (simp add: fun_eq_iff group_record_def placed_def case_prod_unfold Let_def record_by_hash)
next
  case False
  from extract_none [OF this] show ?thesis
    by (simp add: fun_eq_iff group_record_def placed_def record_by_hash deleteAttributes_def)
qed

lemma group_point_placed:
  "group_point h64 keys resource library metric x =
     by_hash.insert_entry h64 by_metric.insert_entry
       (fst (placed keys resource x), library, metric, snd (placed keys resource x))"
proof (cases "fst (extractGroupingAttributes keys (ar_attrs x))")
  case True
  then show ?thesis
    by (simp add: fun_eq_iff group_point_def placed_def case_prod_unfold Let_def find_metric_by_id point_by_hash)
next
  case False
  from extract_none [OF this] show ?thesis
    by (simp add: fun_eq_iff group_point_def placed_def find_metric_by_id point_by_hash deleteAttributes_def)
qed

lemma fold_concat_map: "fold g (concat (map f xs)) = fold (\<lambda>x. fold g (f x)) xs"
  by (induction xs) (auto simp: fun_eq_iff)

lemma fold_map_comp: "fold g (map f xs) = fold (\<lambda>x. g (f x)) xs"
  by (simp add: fold_map comp_def)

lemma fold_if_empty: "(if c then id else fold g xs) = fold g (if c then [] else xs)"
  by simp

lemma fold_metrics: "fold by_metric.insert_entry xs [] = metric_groups xs"
  unfolding by_metric.fold_insert_entry metric_groups_def by (simp add: comp_def build_metric)

lemma fold_append_item: "fold (\<lambda>y items. items @ [y]) ys zs = zs @ ys"
  by (induction ys arbitrary: zs) auto

text \<open>
  C14: the processor of spans, and that of log records, yields exactly the records grouped by the hash
  of their new resource, then by the name and version of their scope: groups in the order of their
  first record, records in the order of arrival.  The processor of metrics does the same with data
  points, grouped further by the name and type of their metric.
\<close>

theorem grouped_by_attributes:
  "gap_processTraces h64 keys td = resource_groups h64 (\<lambda>xs. xs) (record_entries keys td) \<and>
   gap_processLogs h64 keys td = resource_groups h64 (\<lambda>xs. xs) (record_entries keys td) \<and>
   gap_processMetrics h64 keys md = resource_groups h64 metric_groups (point_entries keys md)"
proof -
  have "gap_processTraces h64 keys td = map snd (fold (by_hash.insert_entry h64 (\<lambda>y items. items @ [y])) (record_entries keys td) [])"
    by (simp only: gap_processTraces_def record_entries_def fold_concat_map fold_map_comp group_record_placed [THEN ext])
  then have 1: "gap_processTraces h64 keys td = resource_groups h64 (\<lambda>xs. xs) (record_entries keys td)"
    using fold_resources [of h64 "\<lambda>y items. items @ [y]"] by (simp add: fold_append_item)
  have "gap_processMetrics h64 keys md = map snd (fold (by_hash.insert_entry h64 by_metric.insert_entry) (point_entries keys md) [])"
    by (simp only: gap_processMetrics_def point_entries_def fold_concat_map fold_map_comp group_point_placed [THEN ext] fold_if_empty)
  then have "gap_processMetrics h64 keys md = resource_groups h64 metric_groups (point_entries keys md)"
    using fold_resources [of h64 by_metric.insert_entry] by (simp add: fold_metrics)
  with 1 show ?thesis by (simp add: gap_processLogs_def gap_processTraces_def)
qed

section \<open>Nothing is lost\<close>

lemma update_attr: "map_of (AList.update k v m) = (map_of m)(k \<mapsto> v)"
  by (rule update_conv')

lemma extract_attrs:
  "map_of (snd (extractGroupingAttributes keys m)) k = (if k \<in> set keys then map_of m k else None)"
proof -
  have "map_of (snd (fold (\<lambda>k (found, g). case map_of m k of Some v \<Rightarrow> (True, AList.update k v g) | None \<Rightarrow> (found, g)) ks (b, g))) k =
      (if k \<in> set ks \<and> map_of m k \<noteq> None then map_of m k else map_of g k)" for ks b g
  proof (induction ks arbitrary: b g)
    case (Cons a ks)
    show ?case by (cases "map_of m a") (auto simp: Cons update_attr)
  qed simp
  then show ?thesis by (auto simp: extractGroupingAttributes_def)
qed

lemma extract_keys:
  "fst ` set (snd (extractGroupingAttributes keys m)) = {k \<in> set keys. map_of m k \<noteq> None}"
proof -
  have "k \<in> fst ` set (snd (extractGroupingAttributes keys m)) \<longleftrightarrow> map_of (snd (extractGroupingAttributes keys m)) k \<noteq> None" for k
    by (simp add: map_of_eq_None_iff)
  then show ?thesis by (intro set_eqI) (simp only: extract_attrs mem_Collect_eq, simp)
qed

lemma extract_distinct: "distinct (map fst (snd (extractGroupingAttributes keys m)))"
proof -
  have "distinct (map fst g) \<Longrightarrow>
      distinct (map fst (snd (fold (\<lambda>k (found, g). case map_of m k of Some v \<Rightarrow> (True, AList.update k v g) | None \<Rightarrow> (found, g)) ks (b, g))))"
    for ks b g
    by (induction ks arbitrary: b g) (auto split: option.split simp: distinct_update)
  then show ?thesis by (simp add: extractGroupingAttributes_def)
qed

lemma reference_attrs:
  "distinct (map fst required) \<Longrightarrow> map_of (buildReferenceResource resource required) = map_of resource ++ map_of required"
proof -
  have "distinct (map fst required) \<Longrightarrow>
      map_of (fold (\<lambda>(k, v). AList.update k v) required resource) = map_of resource ++ map_of required"
  proof (induction required arbitrary: resource)
    case (Cons e required)
    then have "map_of required (fst e) = None" by (simp add: map_of_eq_None_iff)
    with Cons show ?case by (cases e) (auto simp: update_attr fun_eq_iff map_add_def split: option.split)
  qed simp
  then show "distinct (map fst required) \<Longrightarrow> ?thesis" by (simp add: buildReferenceResource_def)
qed

lemma remove_attr_facts:
  assumes "distinct (map fst m)"
  shows "distinct (map fst (remove_attr k m))" and "map_of (remove_attr k m) = (map_of m)(k := None)"
    and "fst ` set (remove_attr k m) = fst ` set m - {k}"
proof -
  have keys: "fst ` set (remove_attr k m) = fst ` set m - {k}" if "distinct (map fst m)" for m
    using that by (induction m) force+
  show "fst ` set (remove_attr k m) = fst ` set m - {k}" using keys [OF assms] .
  show "distinct (map fst (remove_attr k m))" using assms
  proof (induction m)
    case (Cons e m)
    then show ?case using keys [of m] by (cases e) auto
  qed simp
  show "map_of (remove_attr k m) = (map_of m)(k := None)" using assms
  proof (induction m)
    case (Cons e m)
    then have "map_of m (fst e) = None" by (simp add: map_of_eq_None_iff)
    with Cons show ?case by (cases e) (auto simp: fun_eq_iff)
  qed simp
qed

lemma delete_attrs:
  assumes "distinct (map fst m)"
  shows "distinct (map fst (deleteAttributes removal m))"
    and "map_of (deleteAttributes removal m) = map_of m |` (- fst ` set removal)"
proof -
  have "distinct (map fst m) \<Longrightarrow> distinct (map fst (fold (\<lambda>(key, _). remove_attr key) removal m)) \<and>
      map_of (fold (\<lambda>(key, _). remove_attr key) removal m) = map_of m |` (- fst ` set removal)"
  proof (induction removal arbitrary: m)
    case (Cons e removal)
    from Cons.IH [OF remove_attr_facts(1) [OF Cons.prems], of "fst e"] show ?case
      by (simp add: case_prod_unfold remove_attr_facts(2) [OF Cons.prems]) (auto simp: fun_eq_iff restrict_map_def)
  qed (simp add: restrict_map_def)
  with assms show "distinct (map fst (deleteAttributes removal m))"
    and "map_of (deleteAttributes removal m) = map_of m |` (- fst ` set removal)"
    by (simp_all add: deleteAttributes_def)
qed

text \<open>The attributes of a record are split between it and its resource.\<close>

lemma placed_attributes:
  assumes "distinct (map fst (ar_attrs x))" and "placed keys resource x = (ref, x')"
  shows "map_of ref = map_of resource ++ (map_of (ar_attrs x) |` set keys)"
    and "map_of (ar_attrs x') = map_of (ar_attrs x) |` (- set keys)"
    and "distinct (map fst (ar_attrs x'))" and "attr_record.more x' = attr_record.more x"
proof -
  let ?req = "snd (extractGroupingAttributes keys (ar_attrs x))"
  have p: "ref = buildReferenceResource resource ?req" "x' = x\<lparr>ar_attrs := deleteAttributes ?req (ar_attrs x)\<rparr>"
    using assms(2) by (auto simp: placed_def Let_def)
  have "map_of ?req = map_of (ar_attrs x) |` set keys"
    by (auto simp: fun_eq_iff extract_attrs restrict_map_def)
  then show "map_of ref = map_of resource ++ (map_of (ar_attrs x) |` set keys)"
    unfolding p by (simp add: reference_attrs extract_distinct)
  show "map_of (ar_attrs x') = map_of (ar_attrs x) |` (- set keys)"
    unfolding p by (simp add: delete_attrs [OF assms(1)] extract_keys) (auto simp: fun_eq_iff restrict_map_def)
  show "distinct (map fst (ar_attrs x'))" unfolding p by (simp add: delete_attrs [OF assms(1)])
  show "attr_record.more x' = attr_record.more x" unfolding p by simp
qed

lemma placed_facts:
  "distinct (map fst (ar_attrs x)) \<Longrightarrow> map_of (fst (placed keys resource x)) = map_of resource ++ (map_of (ar_attrs x) |` set keys)"
  "distinct (map fst (ar_attrs x)) \<Longrightarrow> map_of (ar_attrs (snd (placed keys resource x))) = map_of (ar_attrs x) |` (- set keys)"
  "attr_record.more (snd (placed keys resource x)) = attr_record.more x"
  using placed_attributes [of x keys resource "fst (placed keys resource x)" "snd (placed keys resource x)"]
  by (simp_all add: placed_def Let_def)

text \<open>Every record of the output with the hash of its resource and its scope.\<close>

definition placements ::
    "(byte list \<Rightarrow> byte list) \<Rightarrow> 'a gresource list \<Rightarrow> (byte list \<times> (string \<times> string) \<times> 'a) list" where
  "placements h64 out =
     concat (map (\<lambda>r. concat (map (\<lambda>s. map (\<lambda>x. (MapHash h64 (gr_attrs r), scope_id (gs_scope s), x)) (gs_items s)) (gr_scopes r))) out)"

lemma group_by_image:
  fixes key :: "'x \<Rightarrow> 'k"
  assumes "\<And>e. e \<in> set (group_by key (\<lambda>x. x) xs []) \<Longrightarrow> mset (f e) = image_mset g (mset (snd e))"
  shows "mset (concat (map f (group_by key (\<lambda>x. x) xs []))) = image_mset g (mset xs)"
proof -
  have "mset (concat (map f gs)) = image_mset g (mset (concat (map snd gs)))"
    if "\<forall>e \<in> set gs. mset (f e) = image_mset g (mset (snd e))" for gs :: "('k \<times> 'x list) list"
    using that by (induction gs) auto
  from this [of "group_by key (\<lambda>x. x) xs []"] assms have
    "mset (concat (map f (group_by key (\<lambda>x. x) xs []))) = image_mset g (mset (concat (map snd (group_by key (\<lambda>x. x) xs []))))"
    by blast
  then show ?thesis using group_by_mset [of key "\<lambda>x. x" xs "[]"] by simp
qed

lemma group_key: "e \<in> set (group_by key (\<lambda>x. x) xs []) \<Longrightarrow> snd e \<noteq> [] \<and> (\<forall>y \<in> set (snd e). key y = fst e)"
  by (cases e) (auto simp: group_by_member)

lemma scope_placements:
  "mset (concat (map (\<lambda>s. map (\<lambda>x. (h, scope_id (gs_scope s), x)) (gs_items s)) (scope_groups (\<lambda>xs. xs) es))) =
   image_mset (\<lambda>e. (h, scope_id (fst e), snd e)) (mset es)"
proof -
  have "mset (map (\<lambda>x. (h, scope_id (fst (hd (snd g))), x)) (map snd (snd g))) =
      image_mset (\<lambda>e. (h, scope_id (fst e), snd e)) (mset (snd g))"
    if "g \<in> set (group_by (\<lambda>e. scope_id (fst e)) (\<lambda>e. e) es [])" for g
  proof -
    have "scope_id (fst (hd (snd g))) = fst g" using group_key [OF that] by simp
    then have "map (\<lambda>x. (h, scope_id (fst (hd (snd g))), x)) (map snd (snd g)) = map (\<lambda>e. (h, scope_id (fst e), snd e)) (snd g)"
      using group_key [OF that] by simp
    then show ?thesis by (simp only: mset_map)
  qed
  from group_by_image [OF this] show ?thesis by (simp add: scope_groups_def comp_def)
qed

lemma resource_placements:
  "mset (placements h64 (resource_groups h64 (\<lambda>xs. xs) es)) =
   image_mset (\<lambda>e. (MapHash h64 (fst e), scope_id (fst (snd e)), snd (snd e))) (mset es)"
proof -
  have "mset (concat (map (\<lambda>s. map (\<lambda>x. (MapHash h64 (fst (hd (snd g))), scope_id (gs_scope s), x)) (gs_items s))
        (scope_groups (\<lambda>xs. xs) (map snd (snd g))))) =
      image_mset (\<lambda>e. (MapHash h64 (fst e), scope_id (fst (snd e)), snd (snd e))) (mset (snd g))"
    if "g \<in> set (group_by (\<lambda>e. MapHash h64 (fst e)) (\<lambda>e. e) es [])" for g
  proof -
    have "MapHash h64 (fst (hd (snd g))) = fst g" using group_key [OF that] by simp
    then have "map (\<lambda>e. (MapHash h64 (fst (hd (snd g))), scope_id (fst (snd e)), snd (snd e))) (snd g) =
        map (\<lambda>e. (MapHash h64 (fst e), scope_id (fst (snd e)), snd (snd e))) (snd g)"
      using group_key [OF that] by simp
    then have "image_mset (\<lambda>e. (MapHash h64 (fst (hd (snd g))), scope_id (fst (snd e)), snd (snd e))) (mset (snd g)) =
        image_mset (\<lambda>e. (MapHash h64 (fst e), scope_id (fst (snd e)), snd (snd e))) (mset (snd g))"
      by (simp only: flip: mset_map)
    then show ?thesis by (simp only: scope_placements mset_map image_mset.compositionality comp_def)
  qed
  from group_by_image [OF this] show ?thesis by (simp add: placements_def resource_groups_def comp_def)
qed

text \<open>What every output has: no two resources with one hash, no two scopes of one name and version in a
  resource, and nothing empty.\<close>

definition well_grouped :: "(byte list \<Rightarrow> byte list) \<Rightarrow> 'a gresource list \<Rightarrow> bool" where
  "well_grouped h64 out \<longleftrightarrow>
     distinct (map (\<lambda>r. MapHash h64 (gr_attrs r)) out) \<and>
     (\<forall>r \<in> set out. gr_scopes r \<noteq> [] \<and> distinct (map (\<lambda>s. scope_id (gs_scope s)) (gr_scopes r)) \<and>
        (\<forall>s \<in> set (gr_scopes r). gs_items s \<noteq> []))"

lemma group_heads:
  assumes "\<And>g. g \<in> set (group_by key (\<lambda>x. x) xs []) \<Longrightarrow> h g = key (hd (snd g))"
  shows "map h (group_by key (\<lambda>x. x) xs []) = map fst (group_by key (\<lambda>x. x) xs [])"
proof (rule map_cong [OF refl])
  fix g assume "g \<in> set (group_by key (\<lambda>x. x) xs [])"
  with group_key [OF this] assms [OF this] show "h g = fst g" by simp
qed

lemma well_grouped_groups: "well_grouped h64 (resource_groups h64 (\<lambda>xs. xs) es)"
proof -
  have scopes: "distinct (map (\<lambda>s. scope_id (gs_scope s)) (scope_groups (\<lambda>xs. xs) zs)) \<and>
      (\<forall>s \<in> set (scope_groups (\<lambda>xs. xs) zs). gs_items s \<noteq> []) \<and> (scope_groups (\<lambda>xs. xs) zs \<noteq> [] \<longleftrightarrow> zs \<noteq> [])" for zs
  proof (intro conjI)
    have "map (\<lambda>s. scope_id (gs_scope s)) (scope_groups (\<lambda>xs. xs) zs) = map fst (group_by (\<lambda>e. scope_id (fst e)) (\<lambda>e. e) zs [])"
      unfolding scope_groups_def map_map comp_def by (rule group_heads) simp
    then show "distinct (map (\<lambda>s. scope_id (gs_scope s)) (scope_groups (\<lambda>xs. xs) zs))"
      by (simp add: group_by_distinct)
    show "\<forall>s \<in> set (scope_groups (\<lambda>xs. xs) zs). gs_items s \<noteq> []"
      by (auto simp: scope_groups_def dest: group_key)
    show "scope_groups (\<lambda>xs. xs) zs \<noteq> [] \<longleftrightarrow> zs \<noteq> []"
      using group_by_mset [of "\<lambda>e. scope_id (fst e)" "\<lambda>e. e" zs "[]"]
      by (cases "group_by (\<lambda>e. scope_id (fst e)) (\<lambda>e. e) zs []"; cases zs) (auto simp: scope_groups_def dest: group_key)
  qed
  have "map (\<lambda>r. MapHash h64 (gr_attrs r)) (resource_groups h64 (\<lambda>xs. xs) es) = map fst (group_by (\<lambda>e. MapHash h64 (fst e)) (\<lambda>e. e) es [])"
    unfolding resource_groups_def map_map comp_def by (rule group_heads) simp
  then have "distinct (map (\<lambda>r. MapHash h64 (gr_attrs r)) (resource_groups h64 (\<lambda>xs. xs) es))"
    by (simp add: group_by_distinct)
  moreover have "\<exists>zs. zs \<noteq> [] \<and> gr_scopes r = scope_groups (\<lambda>xs. xs) zs" if "r \<in> set (resource_groups h64 (\<lambda>xs. xs) es)" for r
    using that by (auto simp: resource_groups_def dest!: group_key)
  ultimately show ?thesis using scopes unfolding well_grouped_def by metis
qed

definition records :: "'a gresource list \<Rightarrow> (pmap \<times> instr_scope \<times> 'a) list" where
  "records td = concat (map (\<lambda>r. concat (map (\<lambda>s. map (\<lambda>x. (gr_attrs r, gs_scope s, x)) (gs_items s)) (gr_scopes r))) td)"

lemma record_entries_records:
  "record_entries keys td =
     map (\<lambda>e. (fst (placed keys (fst e) (snd (snd e))), fst (snd e), snd (placed keys (fst e) (snd (snd e))))) (records td)"
  by (simp add: record_entries_def records_def map_concat comp_def)

text \<open>
  C15: no record is lost or duplicated: the records of the output, each with the hash of its resource
  and its scope, are those of the input placed by their grouping attributes, which are moved from
  the record to the resource, where they take precedence; resources with one hash and scopes of one
  name and version are joined.
\<close>

theorem grouping_keeps_records:
  "mset (placements h64 (gap_processTraces h64 keys td)) =
     mset (map (\<lambda>(resource, library, x). (MapHash h64 (fst (placed keys resource x)), scope_id library, snd (placed keys resource x)))
       (records td)) \<and>
   well_grouped h64 (gap_processTraces h64 keys td) \<and>
   (\<forall>(resource, library, x) \<in> set (records td). distinct (map fst (ar_attrs x)) \<longrightarrow>
      map_of (fst (placed keys resource x)) = map_of resource ++ (map_of (ar_attrs x) |` set keys) \<and>
      map_of (ar_attrs (snd (placed keys resource x))) = map_of (ar_attrs x) |` (- set keys) \<and>
      attr_record.more (snd (placed keys resource x)) = attr_record.more x)"
proof (intro conjI)
  have "gap_processTraces h64 keys td = resource_groups h64 (\<lambda>xs. xs) (record_entries keys td)"
    using grouped_by_attributes by blast
  then show "mset (placements h64 (gap_processTraces h64 keys td)) =
     mset (map (\<lambda>(resource, library, x). (MapHash h64 (fst (placed keys resource x)), scope_id library, snd (placed keys resource x)))
       (records td))" and "well_grouped h64 (gap_processTraces h64 keys td)"
    by (simp_all add: resource_placements record_entries_records well_grouped_groups case_prod_unfold image_mset.compositionality comp_def)
  show "\<forall>(resource, library, x) \<in> set (records td). distinct (map fst (ar_attrs x)) \<longrightarrow>
      map_of (fst (placed keys resource x)) = map_of resource ++ (map_of (ar_attrs x) |` set keys) \<and>
      map_of (ar_attrs (snd (placed keys resource x))) = map_of (ar_attrs x) |` (- set keys) \<and>
      attr_record.more (snd (placed keys resource x)) = attr_record.more x"
    by (simp add: case_prod_unfold placed_facts)
qed

section \<open>Grouping again\<close>

lemma group_by_block:
  assumes "ys \<noteq> []" and "\<forall>y \<in> set ys. key y = k" and "k \<notin> fst ` set gs"
  shows "group_by key (\<lambda>x. x) ys gs = gs @ [(k, ys)]"
proof -
  have first: "assoc_append k y gs = gs @ [(k, [y])]" for y using assms(3) by (induction gs) auto
  have next_one: "assoc_append k y (gs @ [(k, zs)]) = gs @ [(k, zs @ [y])]" for y zs using assms(3) by (induction gs) auto
  have "\<forall>y \<in> set xs. key y = k \<Longrightarrow> group_by key (\<lambda>x. x) xs (gs @ [(k, zs)]) = gs @ [(k, zs @ xs)]" for xs zs
    by (induction xs arbitrary: zs) (auto simp: next_one)
  then show ?thesis using assms(1,2) by (cases ys) (auto simp: first)
qed

lemma group_by_blocks:
  assumes "distinct (map fst blocks)" and "\<forall>b \<in> set blocks. snd b \<noteq> [] \<and> (\<forall>y \<in> set (snd b). key y = fst b)"
  shows "group_by key (\<lambda>x. x) (concat (map snd blocks)) [] = blocks"
  using assms
proof (induction blocks rule: rev_induct)
  case (snoc b blocks)
  have "group_by key (\<lambda>x. x) (snd b) blocks = blocks @ [(fst b, snd b)]"
    using snoc.prems by (intro group_by_block) auto
  with snoc show ?case by (simp add: group_by_append)
qed simp

lemma regroup_scopes:
  assumes "distinct (map (\<lambda>s. scope_id (gs_scope s)) ss)" and "\<forall>s \<in> set ss. gs_items s \<noteq> []"
  shows "scope_groups (\<lambda>xs. xs) (concat (map (\<lambda>s. map (\<lambda>x. (gs_scope s, x)) (gs_items s)) ss)) = (ss :: 'a gscope list)"
proof -
  let ?blocks = "map (\<lambda>s. (scope_id (gs_scope s), map (\<lambda>x. (gs_scope s, x)) (gs_items s))) ss"
  have "group_by (\<lambda>e. scope_id (fst e)) (\<lambda>e. e) (concat (map snd ?blocks)) [] = ?blocks"
    using assms by (intro group_by_blocks) (auto simp: comp_def)
  then have "scope_groups (\<lambda>xs. xs) (concat (map snd ?blocks)) =
      map (\<lambda>s. \<lparr>gs_scope = fst (hd (map (\<lambda>x. (gs_scope s, x)) (gs_items s))), gs_items = gs_items s\<rparr>) ss"
    by (simp add: scope_groups_def comp_def)
  also have "\<dots> = map (\<lambda>s. s) ss"
    using assms(2) by (intro map_cong refl) (simp add: hd_map)
  finally show ?thesis by (simp add: comp_def)
qed

lemma regroup:
  assumes "well_grouped h64 out"
  shows "resource_groups h64 (\<lambda>xs. xs) (records out) = (out :: 'a gresource list)"
proof -
  let ?es = "\<lambda>r. concat (map (\<lambda>s. map (\<lambda>x. (gr_attrs r, gs_scope s, x)) (gs_items s)) (gr_scopes r))"
  let ?blocks = "map (\<lambda>r. (MapHash h64 (gr_attrs r), ?es r)) out"
  have ne: "?es r \<noteq> [] \<and> fst (hd (?es r)) = gr_attrs r" if "r \<in> set out" for r
  proof -
    from assms that have "gr_scopes r \<noteq> []" "\<forall>s \<in> set (gr_scopes r). gs_items s \<noteq> []" by (auto simp: well_grouped_def)
    then show ?thesis by (cases "gr_scopes r"; cases "gs_items (hd (gr_scopes r))") auto
  qed
  have "group_by (\<lambda>e. MapHash h64 (fst e)) (\<lambda>e. e) (concat (map snd ?blocks)) [] = ?blocks"
    using assms ne by (intro group_by_blocks) (auto simp: comp_def well_grouped_def)
  then have "resource_groups h64 (\<lambda>xs. xs) (records out) =
      map (\<lambda>r. \<lparr>gr_attrs = fst (hd (?es r)), gr_scopes = scope_groups (\<lambda>xs. xs) (map snd (?es r))\<rparr>) out"
    by (simp add: resource_groups_def records_def comp_def)
  also have "\<dots> = map (\<lambda>r. r) out"
  proof (intro map_cong refl)
    fix r assume r: "r \<in> set out"
    with assms have "scope_groups (\<lambda>xs. xs) (map snd (?es r)) = gr_scopes r"
      using regroup_scopes [of "gr_scopes r"] by (simp add: well_grouped_def map_concat comp_def)
    with ne [OF r] show "\<lparr>gr_attrs = fst (hd (?es r)), gr_scopes = scope_groups (\<lambda>xs. xs) (map snd (?es r))\<rparr> = r" by simp
  qed
  finally show ?thesis by simp
qed

lemma placed_again:
  assumes "\<forall>k \<in> set keys. map_of (ar_attrs x) k = None"
  shows "placed keys resource x = (resource, x)"
proof -
  have "fst ` set (snd (extractGroupingAttributes keys (ar_attrs x))) = {}"
    unfolding extract_keys using assms by auto
  then have "snd (extractGroupingAttributes keys (ar_attrs x)) = []" by simp
  then show ?thesis by (simp add: placed_def buildReferenceResource_def deleteAttributes_def)
qed

text \<open>
  C24: grouping is idempotent: what the processor has grouped, it leaves as it is, provided no record
  has two attributes of one name.
\<close>

theorem grouping_idempotent:
  assumes "\<forall>(resource, library, x) \<in> set (records td). distinct (map fst (ar_attrs x))"
  shows "gap_processTraces h64 keys (gap_processTraces h64 keys td) = gap_processTraces h64 keys td"
proof -
  let ?out = "gap_processTraces h64 keys td"
  have "map_of (ar_attrs x) k = None" if "(resource, library, x) \<in> set (records ?out)" "k \<in> set keys" for resource library x k
  proof -
    from that(1) have "(MapHash h64 resource, scope_id library, x) \<in># mset (placements h64 ?out)"
      by (auto simp: records_def placements_def)
    then obtain r l y where "(r, l, y) \<in> set (records td)" "x = snd (placed keys r y)"
      using grouping_keeps_records [of h64 keys td] by auto
    moreover from this assms have "distinct (map fst (ar_attrs y))" by auto
    ultimately show ?thesis using that(2) by (simp add: placed_facts(2))
  qed
  then have "record_entries keys ?out = records ?out"
    unfolding record_entries_records by (intro map_idI) (auto simp: placed_again)
  then show ?thesis
    using grouped_by_attributes [of h64 keys ?out] regroup [of h64 ?out] grouping_keeps_records [of h64 keys td] by auto
qed

text \<open>Three records of two hosts under one resource.\<close>

definition host_record :: "string \<Rightarrow> i64 \<Rightarrow> attr_record" where
  "host_record host n = \<lparr>ar_attrs = [(''host'', PStr host), (''id'', PInt n)]\<rparr>"

definition sample_scope :: instr_scope where
  "sample_scope = \<lparr>sc_name = ''lib'', sc_version = ''1'', sc_attrs = []\<rparr>"

definition sample_hosts :: "attr_record gresource list" where
  "sample_hosts =
     [\<lparr>gr_attrs = [(''app'', PStr ''x'')],
       gr_scopes = [\<lparr>gs_scope = sample_scope, gs_items = [host_record ''a'' 1, host_record ''b'' 2, host_record ''a'' 3]\<rparr>]\<rparr>]"

theorem grouping_keeps_records_witness:
  "mset (placements id (gap_processTraces id [''host''] sample_hosts)) =
     mset (map (\<lambda>(host, n). (MapHash id [(''app'', PStr ''x''), (''host'', PStr host)], (''lib'', ''1''), \<lparr>ar_attrs = [(''id'', PInt n)]\<rparr>))
       [(''a'', 1), (''b'', 2), (''a'', 3)]) \<and>
   map_of (fst (placed [''host''] [(''host'', PEmpty)] (host_record ''a'' 1))) ''host'' = Some (PStr ''a'')"
proof
  have "map (\<lambda>(resource, library, x). (MapHash id (fst (placed [''host''] resource x)), scope_id library, snd (placed [''host''] resource x)))
      (records sample_hosts) =
    map (\<lambda>(host, n). (MapHash id [(''app'', PStr ''x''), (''host'', PStr host)], (''lib'', ''1''), \<lparr>ar_attrs = [(''id'', PInt n)]\<rparr>))
      [(''a'', 1), (''b'', 2), (''a'', 3)]"
    by code_simp
  with grouping_keeps_records [of id "[''host'']" sample_hosts]
  show "mset (placements id (gap_processTraces id [''host''] sample_hosts)) =
     mset (map (\<lambda>(host, n). (MapHash id [(''app'', PStr ''x''), (''host'', PStr host)], (''lib'', ''1''), \<lparr>ar_attrs = [(''id'', PInt n)]\<rparr>))
       [(''a'', 1), (''b'', 2), (''a'', 3)])" by (simp only:)
  have "(\<lparr>gr_attrs = [(''host'', PEmpty)], gr_scopes = [\<lparr>gs_scope = sample_scope, gs_items = [host_record ''a'' 1]\<rparr>]\<rparr> :: attr_record gresource) = r \<Longrightarrow>
      ([(''host'', PEmpty)], sample_scope, host_record ''a'' 1) \<in> set (records [r])" for r
    by (auto simp: records_def)
  with grouping_keeps_records [of id "[''host'']" "[\<lparr>gr_attrs = [(''host'', PEmpty)], gr_scopes = [\<lparr>gs_scope = sample_scope, gs_items = [host_record ''a'' 1]\<rparr>]\<rparr>]"]
  have "map_of (fst (placed [''host''] [(''host'', PEmpty)] (host_record ''a'' 1))) =
      map_of [(''host'', PEmpty)] ++ (map_of (ar_attrs (host_record ''a'' 1)) |` set [''host''])"
    by (auto simp: host_record_def)
  then show "map_of (fst (placed [''host''] [(''host'', PEmpty)] (host_record ''a'' 1))) ''host'' = Some (PStr ''a'')"
    by (simp add: host_record_def)
qed

theorem grouping_idempotent_witness:
  "gap_processTraces id [''host''] (gap_processTraces id [''host''] sample_hosts) = gap_processTraces id [''host''] sample_hosts"
  by (rule grouping_idempotent) (simp add: records_def sample_hosts_def host_record_def)

text \<open>
  Metrics are joined by name and type alone: the points of a delta sum end in a cumulative one.
\<close>

lemma sums_of_two_temporalities_join:
  "gap_processMetrics id [] [\<lparr>gr_attrs = [], gr_scopes = [\<lparr>gs_scope = sample_scope, gs_items =
      [\<lparr>gm_name = ''n'', gm_description = [], gm_unit = ''s'', gm_head = HeadSum TempCumulative True, gm_points = [host_record ''a'' 1]\<rparr>,
       \<lparr>gm_name = ''n'', gm_description = [], gm_unit = ''By'', gm_head = HeadSum TempDelta False, gm_points = [host_record ''b'' 2]\<rparr>]\<rparr>]\<rparr>] =
   [\<lparr>gr_attrs = [], gr_scopes = [\<lparr>gs_scope = sample_scope, gs_items =
      [\<lparr>gm_name = ''n'', gm_description = [], gm_unit = ''s'', gm_head = HeadSum TempCumulative True,
        gm_points = [host_record ''a'' 1, host_record ''b'' 2]\<rparr>]\<rparr>]\<rparr>]"
  by code_simp

end
