(* ===== verification/GraphStore.thy ===== *)
theory GraphStore
  imports Pdata
begin

text \<open>
  \<open>processor/servicegraphprocessor/internal/store\<close> of the bundled contrib module: the store of the
  half-known edges of a service graph.  Edges sit in a doubly linked list in the order of their
  arrival and a map finds the list element of a key; an element is a number here, and \<open>gs_elem\<close> the
  edge it points to.  The callbacks of the store work on a state \<open>'p\<close> that does not hold the store.
  A time is a number of nanoseconds.
\<close>

section \<open>Edges\<close>

datatype connection_type = Unknown | MessagingSystem | Database | VirtualNode

type_synonym edge_key = "byte list \<times> byte list"

record edge =
  e_key :: edge_key
  e_trace_id :: "byte list"
  e_type :: connection_type
  e_server :: string
  e_client :: string
  e_server_latency :: float64
  e_client_latency :: float64
  e_failed :: bool
  e_dims :: "string \<rightharpoonup> string"
  e_expiration :: int
  e_peer :: "string \<rightharpoonup> string"

definition newEdge :: "int \<Rightarrow> edge_key \<Rightarrow> int \<Rightarrow> edge" where
  "newEdge now k ttl =
     \<lparr>e_key = k, e_trace_id = replicate 16 0, e_type = Unknown, e_server = [], e_client = [],
      e_server_latency = 0, e_client_latency = 0, e_failed = False, e_dims = Map.empty, e_expiration = now + ttl, e_peer = Map.empty\<rparr>"

definition isComplete :: "edge \<Rightarrow> bool" where
  "isComplete e \<longleftrightarrow> length (e_client e) \<noteq> 0 \<and> length (e_server e) \<noteq> 0"

definition isExpired :: "int \<Rightarrow> edge \<Rightarrow> bool" where
  "isExpired now e \<longleftrightarrow> e_expiration e < now"

definition SpanIDIsEmpty :: "edge_key \<Rightarrow> bool" where
  "SpanIDIsEmpty k \<longleftrightarrow> snd k = replicate 8 0"

section \<open>The store\<close>

record graph_store =
  gs_list :: "nat list" \<comment> \<open>\<open>l\<close>\<close>
  gs_map :: "edge_key \<rightharpoonup> nat" \<comment> \<open>\<open>m\<close>\<close>
  gs_elem :: "nat \<Rightarrow> edge"
  gs_next :: nat \<comment> \<open>the next free element\<close>
  gs_ttl :: int
  gs_max :: int

definition NewStore :: "int \<Rightarrow> int \<Rightarrow> graph_store" where
  "NewStore ttl maxItems =
     \<lparr>gs_list = [], gs_map = Map.empty, gs_elem = (\<lambda>_. newEdge 0 ([], []) 0), gs_next = 0, gs_ttl = ttl, gs_max = maxItems\<rparr>"

text \<open>The results are \<open>isNew\<close> and whether the error is \<open>ErrTooManyItems\<close>.\<close>

definition UpsertEdge ::
    "(edge \<Rightarrow> 'p \<Rightarrow> 'p) \<Rightarrow> int \<Rightarrow> edge_key \<Rightarrow> (edge \<Rightarrow> edge) \<Rightarrow> graph_store \<Rightarrow> 'p \<Rightarrow> (bool \<times> bool) \<times> graph_store \<times> 'p" where
  "UpsertEdge onComplete now k update s p =
     (case gs_map s k of
        Some i \<Rightarrow>
          (let e = update (gs_elem s i); s' = s\<lparr>gs_elem := (gs_elem s)(i := e)\<rparr>
           in if isComplete e
              then ((False, False), s'\<lparr>gs_map := (gs_map s')(k := None), gs_list := remove1 i (gs_list s')\<rparr>, onComplete e p)
              else ((False, False), s', p))
      | None \<Rightarrow>
          (let e = update (newEdge now k (gs_ttl s))
           in if isComplete e then ((True, False), s, onComplete e p)
              else if gs_max s \<le> int (length (gs_list s)) then ((False, True), s, p)
              else ((True, False),
                    s\<lparr>gs_list := gs_list s @ [gs_next s], gs_map := (gs_map s)(k \<mapsto> gs_next s),
                      gs_elem := (gs_elem s)(gs_next s := e), gs_next := Suc (gs_next s)\<rparr>, p)))"

definition tryEvictHead ::
    "(edge \<Rightarrow> 'p \<Rightarrow> 'p) \<Rightarrow> int \<Rightarrow> graph_store \<Rightarrow> 'p \<Rightarrow> bool \<times> graph_store \<times> 'p" where
  "tryEvictHead onExpire now s p =
     (case gs_list s of
        [] \<Rightarrow> (False, s, p)
      | i # l \<Rightarrow>
          (let headEdge = gs_elem s i
           in if \<not> isExpired now headEdge then (False, s, p)
              else (True, s\<lparr>gs_map := (gs_map s)(e_key headEdge := None), gs_list := l\<rparr>, onExpire headEdge p)))"

text \<open>Every call of the loop reads the clock: the readings of one run of \<open>Expire\<close>, in order.\<close>

function Expire :: "(edge \<Rightarrow> 'p \<Rightarrow> 'p) \<Rightarrow> (nat \<Rightarrow> int) \<Rightarrow> graph_store \<Rightarrow> 'p \<Rightarrow> graph_store \<times> 'p" where
  "Expire onExpire clock s p =
     (let (evicted, s', p') = tryEvictHead onExpire (clock 0) s p
      in if evicted then Expire onExpire (\<lambda>n. clock (Suc n)) s' p' else (s', p'))"
  by pat_completeness auto

termination
  by (relation "measure (\<lambda>(_, _, s, _). length (gs_list s))")
    (auto simp: tryEvictHead_def Let_def split: list.splits if_splits)

declare Expire.simps [simp del]

section \<open>The specification\<close>

text \<open>
  A store is a list of edges with different keys: an upsert updates the edge of a key, or a new one,
  and hands it out when it is complete; \<open>Expire\<close> hands out the expired edges at the front.
\<close>

definition store_edges :: "graph_store \<Rightarrow> edge list" where
  "store_edges s = map (gs_elem s) (gs_list s)"

fun update_edge :: "edge_key \<Rightarrow> (edge \<Rightarrow> edge) \<Rightarrow> edge list \<Rightarrow> edge list" where
  "update_edge k f [] = []"
| "update_edge k f (e # es) = (if e_key e = k then f e # es else e # update_edge k f es)"

definition find_edge :: "edge_key \<Rightarrow> edge list \<Rightarrow> edge option" where
  "find_edge k es = map_of (map (\<lambda>e. (e_key e, e)) es) k"

definition drop_edge :: "edge_key \<Rightarrow> edge list \<Rightarrow> edge list" where
  "drop_edge k es = filter (\<lambda>e. e_key e \<noteq> k) es"

definition spec_upsert ::
    "int \<Rightarrow> int \<Rightarrow> int \<Rightarrow> edge_key \<Rightarrow> (edge \<Rightarrow> edge) \<Rightarrow> edge list \<Rightarrow> (bool \<times> bool) \<times> edge list \<times> edge list" where
  "spec_upsert ttl maxItems now k f es =
     (case find_edge k es of
        Some e \<Rightarrow>
          if isComplete (f e) then ((False, False), drop_edge k es, [f e])
          else ((False, False), update_edge k f es, [])
      | None \<Rightarrow>
          let e = f (newEdge now k ttl)
          in if isComplete e then ((True, False), es, [e])
             else if maxItems \<le> int (length es) then ((False, True), es, [])
             else ((True, False), es @ [e], []))"

text \<open>What a store keeps: the map finds every element of the list by the key of its edge.\<close>

definition store_ok :: "graph_store \<Rightarrow> bool" where
  "store_ok s \<longleftrightarrow>
     distinct (gs_list s) \<and> (\<forall>i \<in> set (gs_list s). i < gs_next s) \<and>
     distinct (map e_key (store_edges s)) \<and>
     (\<forall>k i. gs_map s k = Some i \<longleftrightarrow> i \<in> set (gs_list s) \<and> e_key (gs_elem s i) = k)"

lemma store_ok_new: "store_ok (NewStore ttl maxItems)"
  by (simp add: store_ok_def NewStore_def store_edges_def)

lemma store_map_iff: "store_ok s \<Longrightarrow> gs_map s k = Some i \<longleftrightarrow> i \<in> set (gs_list s) \<and> e_key (gs_elem s i) = k"
  by (cases k) (simp add: store_ok_def)

lemma store_ok_none:
  assumes "store_ok s"
  shows "gs_map s k = None \<longleftrightarrow> k \<notin> e_key ` set (store_edges s)"
proof -
  have "gs_map s k = None \<longleftrightarrow> (\<forall>i. gs_map s k \<noteq> Some i)" by (cases "gs_map s k") simp_all
  then show ?thesis by (auto simp: store_map_iff [OF assms] store_edges_def)
qed

lemma find_edge_store:
  assumes "store_ok s"
  shows "find_edge k (store_edges s) = map_option (gs_elem s) (gs_map s k)"
proof (cases "gs_map s k")
  case None
  then have "k \<notin> fst ` set (map (\<lambda>e. (e_key e, e)) (store_edges s))"
    using store_ok_none [OF assms, of k] by (simp add: image_image)
  then have "find_edge k (store_edges s) = None" unfolding find_edge_def by (rule map_of_eq_None_iff [THEN iffD2])
  with None show ?thesis by simp
next
  case (Some i)
  then have i: "gs_elem s i \<in> set (store_edges s)" "e_key (gs_elem s i) = k"
    using store_map_iff [OF assms] by (auto simp: store_edges_def)
  have "distinct (map fst (map (\<lambda>e. (e_key e, e)) (store_edges s)))"
    using assms by (simp add: store_ok_def comp_def)
  from map_of_is_SomeI [OF this, of k "gs_elem s i"] i Some show ?thesis
    by (simp add: find_edge_def image_iff)
qed

lemma map_update_elem:
  assumes "distinct l" and "i \<in> set l" and "distinct (map e_key (map g l))" and "e_key (g i) = k"
  shows "map (g(i := f (g i))) l = update_edge k f (map g l)"
  using assms
proof (induction l)
  case (Cons j l)
  show ?case
  proof (cases "j = i")
    case True
    with Cons.prems show ?thesis by auto
  next
    case False
    with Cons.prems have "i \<in> set l" "e_key (g j) \<noteq> k" by auto
    with Cons False show ?thesis by simp
  qed
qed simp

lemma map_remove_elem:
  assumes "distinct l" and "i \<in> set l" and "distinct (map e_key (map g l))" and "e_key (g i) = k"
  shows "map (g(i := x)) (remove1 i l) = drop_edge k (map g l)"
  using assms
proof (induction l)
  case (Cons j l)
  show ?case
  proof (cases "j = i")
    case True
    with Cons.prems have "k \<notin> e_key ` g ` set l" "i \<notin> set l" by auto
    then have "drop_edge k (map g l) = map g l" "map (g(i := x)) l = map g l"
      by (auto simp: drop_edge_def intro!: filter_True)
    with True Cons.prems show ?thesis by (simp add: drop_edge_def)
  next
    case False
    with Cons.prems have "i \<in> set l" "e_key (g j) \<noteq> k" by auto
    with Cons False show ?thesis by (simp add: drop_edge_def)
  qed
qed simp

section \<open>The store implements the specification\<close>

lemma distinct_keys_inj:
  "distinct l \<Longrightarrow> distinct (map e_key (map g l)) \<Longrightarrow> i \<in> set l \<Longrightarrow> j \<in> set l \<Longrightarrow> e_key (g i) = e_key (g j) \<Longrightarrow> i = j"
  unfolding map_map distinct_map inj_on_def comp_def by blast

lemma update_edge_keys:
  "(\<And>e. e_key (f e) = e_key e) \<Longrightarrow> map e_key (update_edge k f es) = map e_key es"
  by (induction es) auto

lemma upsert_simulates:
  assumes ok: "store_ok s" and key: "\<And>e. e_key (f e) = e_key e"
    and step: "UpsertEdge onComplete now k f s p = (r, s', p')"
  shows "\<exists>full. spec_upsert (gs_ttl s) (gs_max s) now k f (store_edges s) = (r, store_edges s', full) \<and>
    p' = fold onComplete full p \<and> store_ok s' \<and> gs_ttl s' = gs_ttl s \<and> gs_max s' = gs_max s"
proof (cases "gs_map s k")
  case (Some i)
  let ?e = "f (gs_elem s i)"
  from Some store_map_iff [OF ok] have i: "i \<in> set (gs_list s)" "e_key (gs_elem s i) = k" by auto
  have d: "distinct (gs_list s)" "distinct (map e_key (map (gs_elem s) (gs_list s)))"
    using ok by (simp_all add: store_ok_def store_edges_def)
  note inj = distinct_keys_inj [OF d]
  show ?thesis
  proof (cases "isComplete ?e")
    case True
    with step Some have r: "r = (False, False)" "p' = onComplete ?e p"
      and s': "s' = s\<lparr>gs_elem := (gs_elem s)(i := ?e), gs_map := (gs_map s)(k := None), gs_list := remove1 i (gs_list s)\<rparr>"
      by (auto simp: UpsertEdge_def Let_def)
    have edges: "store_edges s' = drop_edge k (store_edges s)"
      using map_remove_elem [OF d(1) i(1) d(2) i(2)] by (simp add: s' store_edges_def)
    have "store_ok s'"
      unfolding store_ok_def
    proof (intro conjI allI)
      show "distinct (gs_list s')" using d by (simp add: s')
      show "\<forall>j \<in> set (gs_list s'). j < gs_next s'" using ok d by (auto simp: s' store_ok_def)
      show "distinct (map e_key (store_edges s'))"
        using ok unfolding edges drop_edge_def store_ok_def by (intro distinct_map_filter) simp
      show "gs_map s' k' = Some j \<longleftrightarrow> j \<in> set (gs_list s') \<and> e_key (gs_elem s' j) = k'" for k' j
      proof -
        have l: "j \<in> set (gs_list s') \<longleftrightarrow> j \<in> set (gs_list s) \<and> j \<noteq> i" using d(1) by (simp add: s')
        have "e_key (gs_elem s' j) = e_key (gs_elem s j)" by (simp add: s' key)
        moreover have "gs_map s' k' = (if k' = k then None else gs_map s k')" by (simp add: s')
        moreover have "j = i" if "j \<in> set (gs_list s)" "e_key (gs_elem s j) = k"
          using inj [OF that(1) i(1)] that(2) i(2) by simp
        ultimately show ?thesis using l i(2) store_map_iff [OF ok, of k' j] by (cases "k' = k") auto
      qed
    qed
    moreover have "spec_upsert (gs_ttl s) (gs_max s) now k f (store_edges s) = (r, store_edges s', [?e])"
      using True Some by (simp add: spec_upsert_def find_edge_store [OF ok] edges r)
    ultimately show ?thesis using r by (auto simp: s')
  next
    case False
    with step Some have r: "r = (False, False)" "p' = p" and s': "s' = s\<lparr>gs_elem := (gs_elem s)(i := ?e)\<rparr>"
      by (auto simp: UpsertEdge_def Let_def)
    have edges: "store_edges s' = update_edge k f (store_edges s)"
      using map_update_elem [OF d(1) i(1) d(2) i(2), of f] by (simp add: s' store_edges_def)
    have "e_key (gs_elem s' j) = e_key (gs_elem s j)" for j by (simp add: s' key)
    then have "store_ok s'"
      using ok unfolding store_ok_def edges update_edge_keys [of f, OF key] by (simp add: s')
    moreover have "spec_upsert (gs_ttl s) (gs_max s) now k f (store_edges s) = (r, store_edges s', [])"
      using False Some by (simp add: spec_upsert_def find_edge_store [OF ok] edges r)
    ultimately show ?thesis using r by (auto simp: s')
  qed
next
  case None
  let ?e = "f (newEdge now k (gs_ttl s))"
  have spec: "find_edge k (store_edges s) = None" using None by (simp add: find_edge_store [OF ok])
  consider "isComplete ?e" | "\<not> isComplete ?e" "gs_max s \<le> int (length (gs_list s))"
    | "\<not> isComplete ?e" "\<not> gs_max s \<le> int (length (gs_list s))" by blast
  then show ?thesis
  proof cases
    case 1
    with step None spec ok show ?thesis by (auto simp: UpsertEdge_def spec_upsert_def Let_def)
  next
    case 2
    with step None spec ok show ?thesis by (auto simp: UpsertEdge_def spec_upsert_def store_edges_def Let_def)
  next
    case 3
    with step None have r: "r = (True, False)" "p' = p"
      and s': "s' = s\<lparr>gs_list := gs_list s @ [gs_next s], gs_map := (gs_map s)(k \<mapsto> gs_next s),
          gs_elem := (gs_elem s)(gs_next s := ?e), gs_next := Suc (gs_next s)\<rparr>"
      by (auto simp: UpsertEdge_def Let_def)
    have new: "gs_next s \<notin> set (gs_list s)" using ok by (auto simp: store_ok_def)
    have ke: "e_key ?e = k" by (simp add: key newEdge_def)
    have edges: "store_edges s' = store_edges s @ [?e]" using new by (simp add: s' store_edges_def)
    have "store_ok s'"
      unfolding store_ok_def
    proof (intro conjI allI)
      show "distinct (gs_list s')" using ok new by (simp add: s' store_ok_def)
      show "\<forall>j \<in> set (gs_list s'). j < gs_next s'" using ok by (auto simp: s' store_ok_def)
      show "distinct (map e_key (store_edges s'))"
        using ok None store_ok_none [OF ok] unfolding edges by (auto simp: store_ok_def ke)
      show "gs_map s' k' = Some j \<longleftrightarrow> j \<in> set (gs_list s') \<and> e_key (gs_elem s' j) = k'" for k' j
      proof (cases "j = gs_next s")
        case True
        have "gs_map s k' \<noteq> Some (gs_next s)" using new store_map_iff [OF ok] by simp
        with True show ?thesis by (auto simp: s' ke)
      next
        case False
        have "gs_map s k' = Some j \<Longrightarrow> k' \<noteq> k" using None by auto
        with False store_map_iff [OF ok, of k' j] show ?thesis by (cases "k' = k") (auto simp: s')
      qed
    qed
    moreover have "spec_upsert (gs_ttl s) (gs_max s) now k f (store_edges s) = (r, store_edges s', [])"
      using 3 spec unfolding edges by (simp add: spec_upsert_def r store_edges_def)
    ultimately show ?thesis using r by (auto simp: s')
  qed
qed

text \<open>The number of edges a run of \<open>Expire\<close> takes from the front.\<close>

fun expired_prefix :: "(nat \<Rightarrow> int) \<Rightarrow> edge list \<Rightarrow> nat" where
  "expired_prefix clock [] = 0"
| "expired_prefix clock (e # es) = (if isExpired (clock 0) e then Suc (expired_prefix (\<lambda>n. clock (Suc n)) es) else 0)"

lemma evict_ok:
  assumes ok: "store_ok s" and l: "gs_list s = i # l"
  shows "store_ok (s\<lparr>gs_map := (gs_map s)(e_key (gs_elem s i) := None), gs_list := l\<rparr>)"
proof -
  have d: "distinct (i # l)" "distinct (map e_key (map (gs_elem s) (i # l)))"
    using ok l by (simp_all add: store_ok_def store_edges_def)
  have "gs_map s k = Some j \<longleftrightarrow> (j = i \<or> j \<in> set l) \<and> e_key (gs_elem s j) = k" for k j
    using store_map_iff [OF ok, of k j] by (simp add: l)
  then have "((gs_map s)(e_key (gs_elem s i) := None)) k = Some j \<longleftrightarrow> j \<in> set l \<and> e_key (gs_elem s j) = k" for k j
  proof -
    have "j \<noteq> i \<Longrightarrow> j \<in> set l \<Longrightarrow> e_key (gs_elem s j) \<noteq> e_key (gs_elem s i)"
      using distinct_keys_inj [OF d, of j i] by (metis list.set_intros)
    moreover have "i \<notin> set l" using d(1) by simp
    ultimately show ?thesis
      using \<open>\<And>k j. gs_map s k = Some j \<longleftrightarrow> (j = i \<or> j \<in> set l) \<and> e_key (gs_elem s j) = k\<close> [of k j]
      by (cases "k = e_key (gs_elem s i)") (simp, metis, simp, metis)
  qed
  with d ok l show ?thesis by (simp add: store_ok_def store_edges_def)
qed

lemma Expire_simulates:
  "store_ok s \<Longrightarrow> Expire onExpire clock s p = (s', p') \<Longrightarrow>
   store_edges s' = drop (expired_prefix clock (store_edges s)) (store_edges s) \<and>
   p' = fold onExpire (take (expired_prefix clock (store_edges s)) (store_edges s)) p \<and>
   store_ok s' \<and> gs_ttl s' = gs_ttl s \<and> gs_max s' = gs_max s"
proof (induction onExpire clock s p arbitrary: s' p' rule: Expire.induct)
  case (1 onExpire clock s p)
  show ?case
  proof (cases "gs_list s")
    case Nil
    with "1.prems" show ?thesis by (auto simp: Expire.simps tryEvictHead_def store_edges_def)
  next
    case (Cons i l)
    show ?thesis
    proof (cases "isExpired (clock 0) (gs_elem s i)")
      case False
      with Cons "1.prems" show ?thesis by (auto simp: Expire.simps tryEvictHead_def store_edges_def Let_def)
    next
      case True
      let ?s = "s\<lparr>gs_map := (gs_map s)(e_key (gs_elem s i) := None), gs_list := l\<rparr>"
      have t: "tryEvictHead onExpire (clock 0) s p = (True, ?s, onExpire (gs_elem s i) p)"
        using Cons True by (simp add: tryEvictHead_def Let_def)
      have e: "store_edges s = gs_elem s i # store_edges ?s" by (simp add: store_edges_def Cons)
      have "Expire onExpire (\<lambda>n. clock (Suc n)) ?s (onExpire (gs_elem s i) p) = (s', p')"
        using "1.prems"(2) t by (simp add: Expire.simps [of onExpire clock])
      from "1.IH" [OF t [symmetric] refl refl TrueI evict_ok [OF "1.prems"(1) Cons] this] True show ?thesis
        unfolding e by simp
    qed
  qed
qed

section \<open>Runs\<close>

text \<open>
  Calls of a store; the callbacks record what they are given, the completed and the expired edges.
\<close>

datatype store_op = Upsert int edge_key "edge \<Rightarrow> edge" | ExpireNow "nat \<Rightarrow> int"

fun key_kept :: "store_op \<Rightarrow> bool" where
  "key_kept (Upsert now k f) = (\<forall>e. e_key (f e) = e_key e)"
| "key_kept (ExpireNow clock) = True"

fun run_store :: "store_op list \<Rightarrow> graph_store \<Rightarrow> edge list \<times> edge list \<Rightarrow> (bool \<times> bool) list \<times> graph_store \<times> edge list \<times> edge list" where
  "run_store [] s p = ([], s, p)"
| "run_store (Upsert now k f # ops) s p =
     (let (r, s', p') = UpsertEdge (\<lambda>e (full, gone). (full @ [e], gone)) now k f s p; (rs, s'', p'') = run_store ops s' p'
      in (r # rs, s'', p''))"
| "run_store (ExpireNow clock # ops) s p =
     (let (s', p') = Expire (\<lambda>e (full, gone). (full, gone @ [e])) clock s p in run_store ops s' p')"

fun run_spec ::
    "int \<Rightarrow> int \<Rightarrow> store_op list \<Rightarrow> edge list \<Rightarrow> edge list \<times> edge list \<Rightarrow> (bool \<times> bool) list \<times> edge list \<times> edge list \<times> edge list" where
  "run_spec ttl maxItems [] es p = ([], es, p)"
| "run_spec ttl maxItems (Upsert now k f # ops) es (full, gone) =
     (let (r, es', d) = spec_upsert ttl maxItems now k f es; (rs, es'', p'') = run_spec ttl maxItems ops es' (full @ d, gone)
      in (r # rs, es'', p''))"
| "run_spec ttl maxItems (ExpireNow clock # ops) es (full, gone) =
     (let n = expired_prefix clock es in run_spec ttl maxItems ops (drop n es) (full, gone @ take n es))"

lemma fold_done: "fold (\<lambda>e (full, gone). (full @ [e], gone)) es (full, gone) = (full @ es, gone)"
  by (induction es arbitrary: full) auto

lemma fold_gone: "fold (\<lambda>e (full, gone). (full, gone @ [e])) es (full, gone) = (full, gone @ es)"
  by (induction es arbitrary: gone) auto

lemma run_store_simulates:
  "store_ok s \<Longrightarrow> \<forall>op \<in> set ops. key_kept op \<Longrightarrow> run_store ops s p = (rs, s', p') \<Longrightarrow>
   run_spec (gs_ttl s) (gs_max s) ops (store_edges s) p = (rs, store_edges s', p') \<and> store_ok s'"
proof (induction ops arbitrary: s p rs)
  case (Cons op ops)
  obtain full gone where p: "p = (full, gone)" by (cases p)
  show ?case
  proof (cases op)
    case (Upsert now k f)
    obtain r s1 p1 where u: "UpsertEdge (\<lambda>e (full, gone). (full @ [e], gone)) now k f s p = (r, s1, p1)" by (metis prod_cases3)
    have "\<And>e. e_key (f e) = e_key e" using Cons.prems(2) Upsert by simp
    from upsert_simulates [OF Cons.prems(1) this u] obtain d where
      d: "spec_upsert (gs_ttl s) (gs_max s) now k f (store_edges s) = (r, store_edges s1, d)"
        "p1 = (full @ d, gone)" "store_ok s1" "gs_ttl s1 = gs_ttl s" "gs_max s1 = gs_max s"
      by (auto simp: p fold_done)
    obtain rs1 where "rs = r # rs1" "run_store ops s1 p1 = (rs1, s', p')"
      using Cons.prems(3) Upsert u by (auto split: prod.splits)
    with Cons.IH [OF d(3), of p1 rs1] Cons.prems(2) d Upsert p show ?thesis by simp
  next
    case (ExpireNow clock)
    obtain s1 p1 where e: "Expire (\<lambda>e (full, gone). (full, gone @ [e])) clock s p = (s1, p1)" by (rule prod.exhaust)
    from Expire_simulates [OF Cons.prems(1) e] Cons.IH [of s1 p1 rs] Cons.prems(2,3) ExpireNow e p show ?thesis
      by (auto simp: fold_gone Let_def)
  qed
qed simp

text \<open>
  C19: in every run from a new store the linked list and the map together behave as one list of edges
  with different keys: the same answers, the same edges kept in the same order, the same edges handed
  to the callbacks; the map finds exactly the elements of the list.
\<close>

theorem graph_store_refines_list:
  assumes "\<forall>op \<in> set ops. key_kept op" and "run_store ops (NewStore ttl maxItems) ([], []) = (rs, s, full, gone)"
  shows "run_spec ttl maxItems ops [] ([], []) = (rs, store_edges s, full, gone) \<and> store_ok s"
  using run_store_simulates [OF store_ok_new assms] by (simp add: NewStore_def store_edges_def)

text \<open>A client and a server of one key, and a client that expires.\<close>

definition named_client :: "edge \<Rightarrow> edge" where "named_client e = e\<lparr>e_client := ''a''\<rparr>"

definition named_server :: "edge \<Rightarrow> edge" where "named_server e = e\<lparr>e_server := ''b''\<rparr>"

definition sample_ops :: "store_op list" where
  "sample_ops =
     [Upsert 0 ([1], [1]) named_client, Upsert 1 ([2], [2]) named_client, Upsert 2 ([1], [1]) named_server, ExpireNow (\<lambda>_. 12)]"

theorem graph_store_refines_list_witness:
  "\<exists>rs s d g. run_store sample_ops (NewStore 10 5) ([], []) = (rs, s, [d], [g]) \<and> e_key d = ([1], [1]) \<and> e_key g = ([2], [2]) \<and>
     store_edges s = [] \<and> rs = [(True, False), (True, False), (False, False)]"
proof -
  obtain rs s full gone where r: "run_store sample_ops (NewStore 10 5) ([], []) = (rs, s, full, gone)"
    by (metis prod_cases4)
  have "\<forall>op \<in> set sample_ops. key_kept op" by (simp add: sample_ops_def named_client_def named_server_def)
  from graph_store_refines_list [OF this r] have "run_spec 10 5 sample_ops [] ([], []) = (rs, store_edges s, full, gone)" by simp
  then have "rs = [(True, False), (True, False), (False, False)] \<and> store_edges s = [] \<and>
      map e_key full = [([1], [1])] \<and> map e_key gone = [([2], [2])]"
    by (auto simp: sample_ops_def spec_upsert_def find_edge_def drop_edge_def newEdge_def named_client_def named_server_def
        isComplete_def isExpired_def)
  with r show ?thesis by auto
qed

section \<open>Bounds\<close>

text \<open>The edges of the specification: how many, that none is complete, and in the order of expiration.\<close>

definition edges_ok :: "int \<Rightarrow> edge list \<Rightarrow> bool" where
  "edges_ok maxItems es \<longleftrightarrow> int (length es) \<le> max 0 maxItems \<and> (\<forall>e \<in> set es. \<not> isComplete e) \<and> sorted (map e_expiration es)"

fun steady :: "int \<Rightarrow> store_op list \<Rightarrow> bool" where
  "steady t [] = True"
| "steady t (Upsert now k f # ops) = (t \<le> now \<and> (\<forall>e. e_expiration (f e) = e_expiration e) \<and> steady now ops)"
| "steady t (ExpireNow clock # ops) = (t \<le> clock 0 \<and> (\<forall>n. clock 0 \<le> clock n) \<and> steady (clock 0) ops)"

lemma drop_expired_fresh:
  assumes "sorted (map e_expiration es)" and "\<And>n. t \<le> clock n" and "e \<in> set (drop (expired_prefix clock es) es)"
  shows "t \<le> e_expiration e"
  using assms
proof (induction clock es rule: expired_prefix.induct)
  case (2 clock e1 es)
  show ?case
  proof (cases "isExpired (clock 0) e1")
    case True
    with 2 show ?thesis by auto
  next
    case False
    with "2.prems"(2) [of 0] have "t \<le> e_expiration e1" by (simp add: isExpired_def)
    with "2.prems" False show ?thesis by fastforce
  qed
qed simp

lemma spec_upsert_bounds:
  assumes "edges_ok maxItems es" and "\<forall>e \<in> set es. e_expiration e \<le> t + ttl" and "t \<le> now"
    and f: "\<And>e. e_expiration (f e) = e_expiration e" and "spec_upsert ttl maxItems now k f es = (r, es', d)"
  shows "edges_ok maxItems es' \<and> (\<forall>e \<in> set es'. e_expiration e \<le> now + ttl) \<and> (\<forall>e \<in> set d. isComplete e)"
proof -
  have upd: "map e_expiration (update_edge k f es) = map e_expiration es" for es by (induction es) (auto simp: f)
  have len: "length (update_edge k f es) = length es" for es by (induction es) auto
  have inc: "\<forall>e \<in> set es. \<not> isComplete e \<Longrightarrow> find_edge k es = Some e0 \<Longrightarrow> \<not> isComplete (f e0) \<Longrightarrow>
      \<forall>e \<in> set (update_edge k f es). \<not> isComplete e" for es e0
    by (induction es) (auto simp: find_edge_def split: if_splits)
  have old: "\<forall>e \<in> set es. e_expiration e \<le> now + ttl" using assms(2,3) by fastforce
  have new: "e_expiration (f (newEdge now k ttl)) = now + ttl" by (simp add: f newEdge_def)
  have updb: "\<forall>e \<in> set (update_edge k f es). e_expiration e \<le> now + ttl"
  proof -
    have "e_expiration ` set (update_edge k f es) = e_expiration ` set es"
      using arg_cong [OF upd [of es], of set] by simp
    with old show ?thesis by (metis imageE imageI)
  qed
  have drp: "sorted (map e_expiration (drop_edge k es))" "length (drop_edge k es) \<le> length es" "set (drop_edge k es) \<subseteq> set es"
    using assms(1) by (auto simp: drop_edge_def edges_ok_def sorted_filter)
  show ?thesis
  proof (cases "find_edge k es")
    case (Some e0)
    show ?thesis
    proof (cases "isComplete (f e0)")
      case True
      with Some assms(5) have "es' = drop_edge k es" "d = [f e0]" by (auto simp: spec_upsert_def)
      with True assms(1) old drp show ?thesis by (auto simp: edges_ok_def)
    next
      case False
      with Some assms(5) have "es' = update_edge k f es" "d = []" by (auto simp: spec_upsert_def)
      with False Some assms(1) updb inc [of es e0] show ?thesis by (simp add: edges_ok_def upd len)
    qed
  next
    case None
    with assms old new show ?thesis
      by (auto simp: spec_upsert_def edges_ok_def sorted_append Let_def split: if_splits)
  qed
qed

lemma spec_bounds:
  "edges_ok maxItems es \<Longrightarrow> \<forall>e \<in> set es. e_expiration e \<le> t + ttl \<Longrightarrow> steady t ops \<Longrightarrow> \<forall>e \<in> set full. isComplete e \<Longrightarrow>
   run_spec ttl maxItems ops es (full, gone) = (rs, es', full', gone') \<Longrightarrow>
   edges_ok maxItems es' \<and> (\<forall>e \<in> set full'. isComplete e)"
proof (induction ops arbitrary: es t full gone rs)
  case (Cons op ops)
  show ?case
  proof (cases op)
    case (Upsert now k f)
    obtain r es1 d where u: "spec_upsert ttl maxItems now k f es = (r, es1, d)" by (metis prod_cases3)
    from Cons.prems(3) Upsert have f: "t \<le> now" "\<And>e. e_expiration (f e) = e_expiration e" "steady now ops" by auto
    from spec_upsert_bounds [OF Cons.prems(1,2) f(1,2) u] have
      b: "edges_ok maxItems es1" "\<forall>e \<in> set es1. e_expiration e \<le> now + ttl" "\<forall>e \<in> set d. isComplete e" by auto
    obtain rs1 where "run_spec ttl maxItems ops es1 (full @ d, gone) = (rs1, es', full', gone')"
      using Cons.prems(5) Upsert u by (auto split: prod.splits)
    from Cons.IH [OF b(1,2) f(3) _ this] Cons.prems(4) b(3) show ?thesis by auto
  next
    case (ExpireNow clock)
    let ?n = "expired_prefix clock es"
    have "edges_ok maxItems (drop ?n es)"
      using Cons.prems(1) by (auto simp: edges_ok_def drop_map [symmetric] sorted_wrt_drop dest: in_set_dropD)
    moreover have "\<forall>e \<in> set (drop ?n es). e_expiration e \<le> clock 0 + ttl"
      using Cons.prems(2,3) ExpireNow by (fastforce dest: in_set_dropD)
    ultimately show ?thesis
      using Cons.IH [of "drop ?n es" "clock 0" "full" "gone @ take ?n es" rs] Cons.prems(3-5) ExpireNow by (simp add: Let_def)
  qed
qed (simp)

text \<open>
  C31: with a clock that does not go back, a store never holds more edges than its maximum, holds only
  edges one side of which is unknown, in the order of their expiration, has handed out as completed
  only edges with both sides, and after \<open>Expire\<close> holds none that had expired when it started.
\<close>

theorem graph_store_bounded:
  assumes "\<forall>op \<in> set ops. key_kept op" and "steady t ops"
    and "run_store ops (NewStore ttl maxItems) ([], []) = (rs, s, full, gone)"
    and "\<forall>n. clock 0 \<le> clock n" and "Expire onExpire clock s p = (s', p')"
  shows "int (length (gs_list s)) \<le> max 0 maxItems \<and> (\<forall>e \<in> set (store_edges s). \<not> isComplete e) \<and>
    sorted (map e_expiration (store_edges s)) \<and> (\<forall>e \<in> set full. isComplete e) \<and>
    (\<forall>e \<in> set (store_edges s'). \<not> isExpired (clock 0) e)"
proof -
  from graph_store_refines_list [OF assms(1,3)] have r: "run_spec ttl maxItems ops [] ([], []) = (rs, store_edges s, full, gone)" "store_ok s"
    by auto
  have "edges_ok maxItems []" by (simp add: edges_ok_def)
  from spec_bounds [OF this _ assms(2) _ r(1)] have b: "edges_ok maxItems (store_edges s)" "\<forall>e \<in> set full. isComplete e" by auto
  have "\<not> isExpired (clock 0) e" if "e \<in> set (store_edges s')" for e
    using drop_expired_fresh [of "store_edges s" "clock 0" clock e] Expire_simulates [OF r(2) assms(5)] b(1) assms(4) that
    by (auto simp: edges_ok_def isExpired_def)
  with b show ?thesis by (auto simp: edges_ok_def store_edges_def)
qed

text \<open>The same calls up to the last, then an expiration that takes the second edge.\<close>

theorem graph_store_bounded_witness:
  "\<exists>rs s d s' p'. run_store (butlast sample_ops) (NewStore 10 1) ([], []) = (rs, s, d, []) \<and> rs = [(True, False), (False, True), (False, False)] \<and>
     Expire (\<lambda>e p. e # p) (\<lambda>_. 12) s [] = (s', p') \<and> int (length (gs_list s)) \<le> 1 \<and> length d = 1 \<and>
     (\<forall>e \<in> set d. isComplete e) \<and> (\<forall>e \<in> set (store_edges s'). \<not> isExpired 12 e)"
proof -
  obtain rs s full gone where r: "run_store (butlast sample_ops) (NewStore 10 1) ([], []) = (rs, s, full, gone)"
    by (metis prod_cases4)
  obtain s' p' where e: "Expire (\<lambda>e p. e # p) (\<lambda>_. 12) s [] = (s', p')" by (rule prod.exhaust)
  have ops: "\<forall>op \<in> set (butlast sample_ops). key_kept op" "steady 0 (butlast sample_ops)"
    by (simp_all add: sample_ops_def named_client_def named_server_def)
  from r have "rs = [(True, False), (False, True), (False, False)] \<and> length full = 1 \<and> gone = []"
    by (auto simp: sample_ops_def UpsertEdge_def NewStore_def newEdge_def named_client_def named_server_def isComplete_def Let_def)
  with graph_store_bounded [OF ops r _ e] r e show ?thesis by auto
qed

end
