(* ===== verification/Histograms.thy ===== *)
theory Histograms
  imports GoFloat
begin

text \<open>
  The latency histograms of the service graph and of the span metrics: the bounds, which both make in
  the same way, the search for the bucket of a value, and what the buckets of a list of values hold.
\<close>

section \<open>Bounds\<close>

definition defaultLatencyHistogramBucketsMs :: "float64 list" where
  "defaultLatencyHistogramBucketsMs =
     map f_of_int [2, 4, 6, 8, 10, 50, 100, 200, 400, 800, 1000, 1400, 2000, 5000, 10000, 15000]"

definition durationToMillis :: "int \<Rightarrow> float64" where
  "durationToMillis d = f_div (f_of_int d) (f_of_int 1000000)"

definition mapDurationsToMillis :: "int list \<Rightarrow> float64 list" where
  "mapDurationsToMillis vs = map durationToMillis vs"

text \<open>\<open>sort.SearchFloat64s\<close>: the binary search of \<open>sort.Search\<close> for the first element not below \<open>x\<close>;
  here every element and \<open>x\<close> is the quotient of an integer, never NaN.\<close>

function search_between :: "float64 list \<Rightarrow> float64 \<Rightarrow> nat \<Rightarrow> nat \<Rightarrow> nat" where
  "search_between a x i j =
     (if i < j
      then let h = (i + j) div 2
           in if f_lt (a ! h) x then search_between a x (h + 1) j else search_between a x i h
      else i)"
  by pat_completeness auto

termination by (relation "measure (\<lambda>(_, _, i, j). j - i)") auto

declare search_between.simps [simp del]

definition SearchFloat64s :: "float64 list \<Rightarrow> float64 \<Rightarrow> nat" where
  "SearchFloat64s a x = search_between a x 0 (length a)"

section \<open>The bucket of a value\<close>

lemma search_between_le: "i \<le> j \<Longrightarrow> i \<le> search_between a x i j \<and> search_between a x i j \<le> j"
proof (induction a x i j rule: search_between.induct)
  case (1 a x i j)
  show ?case
  proof (cases "i < j")
    case True
    then have "i \<le> (i + j) div 2" "(i + j) div 2 < j" by auto
    with 1 True show ?thesis by (subst (1 2) search_between.simps) (auto simp: Let_def)
  qed (use 1 in \<open>simp add: search_between.simps\<close>)
qed

lemma SearchFloat64s_le: "SearchFloat64s a x \<le> length a"
  by (simp add: SearchFloat64s_def search_between_le)

lemma search_between_first:
  "(\<And>m n. m < n \<Longrightarrow> n < length a \<Longrightarrow> f_lt (a ! n) x \<Longrightarrow> f_lt (a ! m) x) \<Longrightarrow> j \<le> length a \<Longrightarrow> i \<le> j \<Longrightarrow> \<forall>m < i. f_lt (a ! m) x \<Longrightarrow> \<forall>m < length a. j \<le> m \<longrightarrow> \<not> f_lt (a ! m) x \<Longrightarrow>
    (\<forall>m < search_between a x i j. f_lt (a ! m) x) \<and> (\<forall>m < length a. search_between a x i j \<le> m \<longrightarrow> \<not> f_lt (a ! m) x)"
proof (induction a x i j rule: search_between.induct)
  case (1 a x i j)
  note asc = "1.prems"(1) and prems = "1.prems"(2-)
  show ?case
  proof (cases "i < j")
    case True
    obtain h where h: "h = (i + j) div 2" by simp
    with True have ih: "i \<le> h" "h < j" by auto
    have eq: "search_between a x i j = (if f_lt (a ! h) x then search_between a x (h + 1) j else search_between a x i h)"
      using True by (simp add: search_between.simps [of a x i j] h Let_def)
    show ?thesis
    proof (cases "f_lt (a ! h) x")
      case T: True
      have "\<forall>m < h + 1. f_lt (a ! m) x"
      proof (intro allI impI)
        fix m assume "m < h + 1"
        then consider "m = h" | "m < h" by linarith
        then show "f_lt (a ! m) x"
        proof cases
          case 2
          show ?thesis by (rule asc [OF 2 _ T]) (use ih prems(1) in linarith)
        qed (use T in simp)
      qed
      from "1.IH"(1) [OF True h T asc prems(1) _ this prems(4)] ih show ?thesis unfolding eq if_P [OF T] by simp
    next
      case F: False
      have "\<forall>m < length a. h \<le> m \<longrightarrow> \<not> f_lt (a ! m) x"
      proof (intro allI impI notI)
        fix m assume m: "m < length a" "h \<le> m" "f_lt (a ! m) x"
        then consider "m = h" | "h < m" by linarith
        then show False
        proof cases
          case 2
          from asc [OF 2 m(1,3)] F show ?thesis by simp
        qed (use F m in simp)
      qed
      from "1.IH"(2) [OF True h F asc _ _ prems(3) this] ih prems(1) show ?thesis unfolding eq if_not_P [OF F] by simp
    qed
  next
    case False
    then have "search_between a x i j = i" by (simp add: search_between.simps [of a x i j])
    with prems False show ?thesis by simp
  qed
qed

text \<open>On ascending bounds a latency falls into the bucket after the bounds below it.\<close>

lemma SearchFloat64s_first:
  assumes "\<And>m n. m < n \<Longrightarrow> n < length a \<Longrightarrow> f_lt (a ! n) x \<Longrightarrow> f_lt (a ! m) x"
  shows "(\<forall>m < SearchFloat64s a x. f_lt (a ! m) x) \<and> (\<forall>m < length a. SearchFloat64s a x \<le> m \<longrightarrow> \<not> f_lt (a ! m) x)"
  unfolding SearchFloat64s_def by (rule search_between_first [OF assms]) auto

section \<open>The buckets of a list of values\<close>

definition histogram_counts :: "float64 list \<Rightarrow> float64 list \<Rightarrow> 64 word list" where
  "histogram_counts bounds vs =
     map (\<lambda>i. word_of_nat (length (filter (\<lambda>v. SearchFloat64s bounds v = i) vs))) [0..<length bounds + 1]"

definition value_sum :: "float64 list \<Rightarrow> float64" where
  "value_sum vs = fold (\<lambda>v s. f_add s v) vs 0"

lemma value_sum_simps [simp]: "value_sum [] = 0" "value_sum (vs @ [v]) = f_add (value_sum vs) v"
  by (simp_all add: value_sum_def)

lemma histogram_counts_length [simp]: "length (histogram_counts bounds vs) = Suc (length bounds)"
  by (simp add: histogram_counts_def)

lemma histogram_counts_snoc:
  "histogram_counts bounds (vs @ [v]) =
     (histogram_counts bounds vs)[SearchFloat64s bounds v := histogram_counts bounds vs ! SearchFloat64s bounds v + 1]"
  using SearchFloat64s_le [of bounds v]
  by (intro nth_equalityI) (auto simp: histogram_counts_def nth_list_update simp del: upt_Suc)

lemma histogram_counts_Nil: "histogram_counts bounds [] = replicate (length bounds + 1) 0"
  by (simp add: histogram_counts_def map_replicate_const del: upt_Suc replicate_Suc)

lemma sum_list_increment: "i < length xs \<Longrightarrow> sum_list (xs[i := xs ! i + 1]) = sum_list xs + (1 :: 64 word)"
  by (induction xs arbitrary: i) (auto split: nat.splits)

lemma histogram_counts_sum: "sum_list (histogram_counts bounds vs) = word_of_nat (length vs)"
proof (induction vs rule: rev_induct)
  case Nil
  show ?case by (simp add: histogram_counts_Nil sum_list_replicate)
next
  case (snoc v vs)
  have "SearchFloat64s bounds v < length (histogram_counts bounds vs)"
    using SearchFloat64s_le [of bounds v] by simp
  from sum_list_increment [OF this] snoc show ?case by (simp add: histogram_counts_snoc)
qed

end
