(* ===== verification/ServiceGraph.thy ===== *)
theory ServiceGraph
  imports GraphStore Histograms PdataHash
begin

text \<open>
  \<open>processor/servicegraphprocessor\<close> of the bundled contrib module: spans that are one side of a request
  become edges of the store, and completed edges are counted in cumulative metrics, one series for
  each metric key.  \<open>AsString\<close> of a value (of the collector) is the parameter \<open>as_string\<close>, the feature
  gate of the virtual nodes the parameter \<open>vn\<close>.  The maps of the metrics are in \<open>sg_metrics\<close>; its
  \<open>sg_clock\<close> holds the readings the clock will give to \<open>updateSeries\<close>.
\<close>

section \<open>Configuration and state\<close>

record sg_config =
  MetricsExporter :: string
  LatencyHistogramBuckets :: "int list option" \<comment> \<open>nanoseconds; None for nil\<close>
  Dimensions :: "string list"
  StoreTTL :: int
  StoreMaxItems :: int
  CacheLoop :: int
  StoreExpirationLoop :: int
  VirtualNodePeerAttributes :: "string list option"

record metric_series =
  sr_dimensions :: attrs
  sr_lastUpdated :: int \<comment> \<open>milliseconds\<close>

record sg_metrics =
  reqTotal :: "string \<rightharpoonup> i64"
  reqFailedTotal :: "string \<rightharpoonup> i64"
  reqDurationSecondsSum :: "string \<rightharpoonup> float64"
  reqDurationSecondsCount :: "string \<rightharpoonup> 64 word"
  reqDurationSecondsBucketCounts :: "string \<rightharpoonup> 64 word list"
  keyToMetric :: "string \<rightharpoonup> metric_series"
  sg_clock :: "nat \<Rightarrow> int"
  statTotalEdges :: nat
  statDroppedSpans :: nat
  statExpiredEdges :: nat

text \<open>\<open>sg_peers\<close> and \<open>sg_bounds\<close> are what \<open>newProcessor\<close> makes of the configuration.\<close>

record sg_processor =
  sg_config :: sg_config
  sg_bounds :: "float64 list" \<comment> \<open>\<open>reqDurationBounds\<close>\<close>
  sg_start :: int \<comment> \<open>\<open>startTime\<close>\<close>
  sg_metrics_to :: "string option" \<comment> \<open>\<open>metricsConsumer\<close>\<close>
  sg_has_traces :: bool \<comment> \<open>\<open>tracesConsumer\<close> is set: a processor, not a connector\<close>
  sg_store :: "graph_store option"
  sg_metrics :: sg_metrics
  sg_closed :: bool \<comment> \<open>\<open>shutdownCh\<close>\<close>

definition defaultPeerAttributes :: "string list" where
  "defaultPeerAttributes =
     [''db.name'', ''net.sock.peer.addr'', ''net.peer.name'', ''rpc.service'', ''net.sock.peer.name'', ''net.peer.name'',
      ''http.url'', ''http.target'']"

definition createDefaultConfig :: sg_config where
  "createDefaultConfig =
     \<lparr>MetricsExporter = [], LatencyHistogramBuckets = None, Dimensions = [], StoreTTL = 2000000000, StoreMaxItems = 1000,
      CacheLoop = 60000000000, StoreExpirationLoop = 2000000000, VirtualNodePeerAttributes = None\<rparr>"

definition new_metrics :: "(nat \<Rightarrow> int) \<Rightarrow> sg_metrics" where
  "new_metrics clock =
     \<lparr>reqTotal = Map.empty, reqFailedTotal = Map.empty, reqDurationSecondsSum = Map.empty, reqDurationSecondsCount = Map.empty,
      reqDurationSecondsBucketCounts = Map.empty, keyToMetric = Map.empty, sg_clock = clock, statTotalEdges = 0,
      statDroppedSpans = 0, statExpiredEdges = 0\<rparr>"

definition newProcessor :: "int \<Rightarrow> (nat \<Rightarrow> int) \<Rightarrow> sg_config \<Rightarrow> sg_processor" where
  "newProcessor now clock cfg =
     (let bounds = (case LatencyHistogramBuckets cfg of
                      None \<Rightarrow> defaultLatencyHistogramBucketsMs
                    | Some ds \<Rightarrow> mapDurationsToMillis ds);
          cfg = (if CacheLoop cfg \<le> 0 then cfg\<lparr>CacheLoop := 60000000000\<rparr> else cfg);
          cfg = (if StoreExpirationLoop cfg \<le> 0 then cfg\<lparr>StoreExpirationLoop := 2000000000\<rparr> else cfg);
          cfg = (if VirtualNodePeerAttributes cfg = None then cfg\<lparr>VirtualNodePeerAttributes := Some defaultPeerAttributes\<rparr> else cfg)
      in \<lparr>sg_config = cfg, sg_bounds = bounds, sg_start = now, sg_metrics_to = None, sg_has_traces = False, sg_store = None,
          sg_metrics = new_metrics clock, sg_closed = False\<rparr>)"

definition createTracesProcessor :: "int \<Rightarrow> (nat \<Rightarrow> int) \<Rightarrow> sg_config \<Rightarrow> sg_processor" where
  "createTracesProcessor now clock cfg = (newProcessor now clock cfg)\<lparr>sg_has_traces := True\<rparr>"

definition createTracesToMetricsConnector :: "int \<Rightarrow> (nat \<Rightarrow> int) \<Rightarrow> string \<Rightarrow> sg_config \<Rightarrow> sg_processor" where
  "createTracesToMetricsConnector now clock nextConsumer cfg = (newProcessor now clock cfg)\<lparr>sg_metrics_to := Some nextConsumer\<rparr>"

text \<open>
  The exporters of the metrics pipelines, in the order \<open>Start\<close> meets them, with whether they are
  exporters of metrics.  The result is an error when none is found.
\<close>

definition sg_Start :: "(string \<times> bool) list \<Rightarrow> sg_processor \<Rightarrow> bool \<times> sg_processor" where
  "sg_Start exporters p =
     (let c = sg_config p;
          p = p\<lparr>sg_store := Some (NewStore (StoreTTL c) (StoreMaxItems c))\<rparr>;
          p = (if sg_metrics_to p = None
               then p\<lparr>sg_metrics_to := map_option fst (find (\<lambda>(k, metrics). k = MetricsExporter c \<and> metrics) exporters)\<rparr>
               else p)
      in (sg_metrics_to p \<noteq> None, p))"

definition sg_Shutdown :: "sg_processor \<Rightarrow> sg_processor outcome" where
  "sg_Shutdown p = (if sg_closed p then Panic else Ret (p\<lparr>sg_closed := True\<rparr>))"

section \<open>Metrics of an edge\<close>

definition lookup_or :: "'a \<Rightarrow> (string \<rightharpoonup> 'a) \<Rightarrow> string \<Rightarrow> 'a" where
  "lookup_or d m k = (case m k of None \<Rightarrow> d | Some v \<Rightarrow> v)"

fun type_string :: "connection_type \<Rightarrow> string" where
  "type_string Unknown = []"
| "type_string MessagingSystem = ''messaging_system''"
| "type_string Database = ''database''"
| "type_string VirtualNode = ''virtual_node''"

definition metricKeySeparator :: string where "metricKeySeparator = [CHR 0x00]"

definition buildMetricKey :: "string list \<Rightarrow> string \<Rightarrow> string \<Rightarrow> string \<Rightarrow> (string \<rightharpoonup> string) \<Rightarrow> string" where
  "buildMetricKey dimensions clientName serverName connectionType edgeDimensions =
     clientName @ metricKeySeparator @ serverName @ metricKeySeparator @ connectionType @
     concat (map (\<lambda>dimName. case edgeDimensions dimName of None \<Rightarrow> [] | Some d \<Rightarrow> metricKeySeparator @ d) dimensions)"

definition buildDimensions :: "edge \<Rightarrow> attrs" where
  "buildDimensions e =
     [''client'' \<mapsto> AStr (e_client e), ''server'' \<mapsto> AStr (e_server e), ''connection_type'' \<mapsto> AStr (type_string (e_type e)),
      ''failed'' \<mapsto> ABool (e_failed e)] ++ (map_option AStr \<circ> e_dims e)"

definition unix_milli :: "int \<Rightarrow> int" where "unix_milli t = t div 1000000"

definition updateSeries :: "string \<Rightarrow> attrs \<Rightarrow> sg_metrics \<Rightarrow> sg_metrics" where
  "updateSeries key dimensions p =
     p\<lparr>keyToMetric := (keyToMetric p)(key \<mapsto> \<lparr>sr_dimensions = dimensions, sr_lastUpdated = unix_milli (sg_clock p 0)\<rparr>),
       sg_clock := (\<lambda>n. sg_clock p (Suc n))\<rparr>"

definition updateCountMetrics :: "string \<Rightarrow> sg_metrics \<Rightarrow> sg_metrics" where
  "updateCountMetrics key p = p\<lparr>reqTotal := (reqTotal p)(key \<mapsto> lookup_or 0 (reqTotal p) key + 1)\<rparr>"

definition updateErrorMetrics :: "string \<Rightarrow> sg_metrics \<Rightarrow> sg_metrics" where
  "updateErrorMetrics key p = p\<lparr>reqFailedTotal := (reqFailedTotal p)(key \<mapsto> lookup_or 0 (reqFailedTotal p) key + 1)\<rparr>"

definition updateDurationMetrics :: "float64 list \<Rightarrow> string \<Rightarrow> float64 \<Rightarrow> sg_metrics \<Rightarrow> sg_metrics" where
  "updateDurationMetrics bounds key duration p =
     (let index = SearchFloat64s bounds duration;
          counts = lookup_or (replicate (length bounds + 1) 0) (reqDurationSecondsBucketCounts p) key
      in p\<lparr>reqDurationSecondsSum := (reqDurationSecondsSum p)(key \<mapsto> f_add (lookup_or 0 (reqDurationSecondsSum p) key) duration),
           reqDurationSecondsCount := (reqDurationSecondsCount p)(key \<mapsto> lookup_or 0 (reqDurationSecondsCount p) key + 1),
           reqDurationSecondsBucketCounts :=
             (reqDurationSecondsBucketCounts p)(key \<mapsto> counts[index := counts ! index + 1])\<rparr>)"

definition edge_metric_key :: "string list \<Rightarrow> edge \<Rightarrow> string" where
  "edge_metric_key dimensions e = buildMetricKey dimensions (e_client e) (e_server e) (type_string (e_type e)) (e_dims e)"

definition aggregateMetricsForEdge :: "string list \<Rightarrow> float64 list \<Rightarrow> edge \<Rightarrow> sg_metrics \<Rightarrow> sg_metrics" where
  "aggregateMetricsForEdge dimensions bounds e p =
     (let metricKey = edge_metric_key dimensions e;
          duration = e_server_latency e;
          p = updateCountMetrics metricKey (updateSeries metricKey (buildDimensions e) p);
          p = (if e_failed e then updateErrorMetrics metricKey p else p)
      in updateDurationMetrics bounds metricKey duration p)"

text \<open>\<open>onComplete\<close> logs and aggregates.  \<open>onExpire\<close>, with the gate, gives an edge its missing side.\<close>

definition getPeerHost :: "string list \<Rightarrow> (string \<rightharpoonup> string) \<Rightarrow> string" where
  "getPeerHost m peers = (case find (\<lambda>s. peers s \<noteq> None) m of None \<Rightarrow> ''unknown'' | Some s \<Rightarrow> lookup_or [] peers s)"

definition virtual_client :: "edge \<Rightarrow> bool" where
  "virtual_client e \<longleftrightarrow> length (e_client e) = 0 \<and> SpanIDIsEmpty (e_key e)"

definition onExpire :: "bool \<Rightarrow> string list \<Rightarrow> string list \<Rightarrow> float64 list \<Rightarrow> edge \<Rightarrow> sg_metrics \<Rightarrow> sg_metrics" where
  "onExpire vn peers dimensions bounds e p =
     (let p = p\<lparr>statExpiredEdges := Suc (statExpiredEdges p)\<rparr>
      in if \<not> vn then p
         else
           let e = e\<lparr>e_type := VirtualNode\<rparr>;
               (e, p) = (if virtual_client e
                         then let e = e\<lparr>e_client := ''user''\<rparr> in (e, aggregateMetricsForEdge dimensions bounds e p)
                         else (e, p))
           in if length (e_server e) = 0
              then aggregateMetricsForEdge dimensions bounds (e\<lparr>e_server := getPeerHost peers (e_peer e)\<rparr>) p
              else p)"

section \<open>Spans\<close>

definition findAttributeValue :: "(attr_val \<Rightarrow> string) \<Rightarrow> string \<Rightarrow> attrs list \<Rightarrow> string option" where
  "findAttributeValue as_string key attributes =
     (case find (\<lambda>attr. attr key \<noteq> None) attributes of
        None \<Rightarrow> None
      | Some attr \<Rightarrow> map_option as_string (attr key))"

definition findServiceName :: "(attr_val \<Rightarrow> string) \<Rightarrow> attrs \<Rightarrow> string option" where
  "findServiceName as_string attributes = findAttributeValue as_string ''service.name'' [attributes]"

definition upsertDimensions ::
    "(attr_val \<Rightarrow> string) \<Rightarrow> string list \<Rightarrow> string \<Rightarrow> (string \<rightharpoonup> string) \<Rightarrow> attrs \<Rightarrow> attrs \<Rightarrow> (string \<rightharpoonup> string)" where
  "upsertDimensions as_string dimensions kind m resourceAttr spanAttr =
     fold (\<lambda>d m. case findAttributeValue as_string d [resourceAttr, spanAttr] of
                      None \<Rightarrow> m
                    | Some v \<Rightarrow> m(kind @ ''_'' @ d \<mapsto> v)) dimensions m"

fun upsertPeerAttributes :: "(attr_val \<Rightarrow> string) \<Rightarrow> string list \<Rightarrow> (string \<rightharpoonup> string) \<Rightarrow> attrs \<Rightarrow> (string \<rightharpoonup> string)" where
  "upsertPeerAttributes as_string [] peers spanAttr = peers"
| "upsertPeerAttributes as_string (s # m) peers spanAttr =
     (case findAttributeValue as_string s [spanAttr] of
        None \<Rightarrow> upsertPeerAttributes as_string m peers spanAttr
      | Some v \<Rightarrow> peers(s \<mapsto> v))"

definition latency_millis :: "ot_span \<Rightarrow> float64" where
  "latency_millis sp = f_div (f_of_int (uint (os_end sp - os_start sp))) (f_of_int 1000000)"

definition client_side ::
    "(attr_val \<Rightarrow> string) \<Rightarrow> bool \<Rightarrow> sg_config \<Rightarrow> connection_type \<Rightarrow> string \<Rightarrow> attrs \<Rightarrow> ot_span \<Rightarrow> edge \<Rightarrow> edge" where
  "client_side as_string vn cfg connectionType serviceName rAttributes sp e =
     (let e = e\<lparr>e_trace_id := os_trace_id sp, e_type := connectionType, e_client := serviceName,
               e_client_latency := latency_millis sp, e_failed := e_failed e \<or> os_status sp = StatusError,
               e_dims := upsertDimensions as_string (Dimensions cfg) ''client'' (e_dims e) rAttributes (os_attrs sp)\<rparr>;
          e = (if vn
               then e\<lparr>e_peer := upsertPeerAttributes as_string (case_option [] id (VirtualNodePeerAttributes cfg)) (e_peer e) (os_attrs sp)\<rparr>
               else e)
      in case findAttributeValue as_string ''db.name'' [rAttributes, os_attrs sp] of
           None \<Rightarrow> e
         | Some dbName \<Rightarrow> e\<lparr>e_type := Database, e_server := dbName, e_server_latency := latency_millis sp\<rparr>)"

definition server_side ::
    "(attr_val \<Rightarrow> string) \<Rightarrow> sg_config \<Rightarrow> connection_type \<Rightarrow> string \<Rightarrow> attrs \<Rightarrow> ot_span \<Rightarrow> edge \<Rightarrow> edge" where
  "server_side as_string cfg connectionType serviceName rAttributes sp e =
     e\<lparr>e_trace_id := os_trace_id sp, e_type := connectionType, e_server := serviceName,
       e_server_latency := latency_millis sp, e_failed := e_failed e \<or> os_status sp = StatusError,
       e_dims := upsertDimensions as_string (Dimensions cfg) ''server'' (e_dims e) rAttributes (os_attrs sp)\<rparr>"

text \<open>The key and the update of the edge a span is a side of; a producer is a client, a consumer a server.\<close>

fun span_side ::
    "(attr_val \<Rightarrow> string) \<Rightarrow> bool \<Rightarrow> sg_config \<Rightarrow> string \<times> attrs \<times> ot_span \<Rightarrow> (edge_key \<times> (edge \<Rightarrow> edge)) option" where
  "span_side as_string vn cfg (serviceName, rAttributes, sp) =
     (case os_kind sp of
        KindProducer \<Rightarrow> Some ((os_trace_id sp, os_span_id sp), client_side as_string vn cfg MessagingSystem serviceName rAttributes sp)
      | KindClient \<Rightarrow> Some ((os_trace_id sp, os_span_id sp), client_side as_string vn cfg Unknown serviceName rAttributes sp)
      | KindConsumer \<Rightarrow> Some ((os_trace_id sp, os_parent_id sp), server_side as_string cfg MessagingSystem serviceName rAttributes sp)
      | KindServer \<Rightarrow> Some ((os_trace_id sp, os_parent_id sp), server_side as_string cfg Unknown serviceName rAttributes sp)
      | _ \<Rightarrow> None)"

text \<open>The spans \<open>aggregateMetrics\<close> visits: those of the resources that have a service name.\<close>

definition edge_spans :: "(attr_val \<Rightarrow> string) \<Rightarrow> traces \<Rightarrow> (string \<times> attrs \<times> ot_span) list" where
  "edge_spans as_string td =
     concat (map (\<lambda>r. case findServiceName as_string (res_attrs r) of
                        None \<Rightarrow> []
                      | Some serviceName \<Rightarrow> map (\<lambda>sp. (serviceName, res_attrs r, sp)) (concat (map scope_items (res_scopes r)))) td)"

definition upsert_span ::
    "(attr_val \<Rightarrow> string) \<Rightarrow> bool \<Rightarrow> sg_config \<Rightarrow> float64 list \<Rightarrow> int \<Rightarrow> string \<times> attrs \<times> ot_span \<Rightarrow> graph_store \<Rightarrow> sg_metrics \<Rightarrow>
     graph_store \<times> sg_metrics" where
  "upsert_span as_string vn cfg bounds now x s p =
     (case span_side as_string vn cfg x of
        None \<Rightarrow> (s, p)
      | Some (key, update) \<Rightarrow>
          (let ((isNew, tooMany), s, p) = UpsertEdge (aggregateMetricsForEdge (Dimensions cfg) bounds) now key update s p
           in (s, if tooMany then p\<lparr>statDroppedSpans := Suc (statDroppedSpans p)\<rparr>
                  else if isNew then p\<lparr>statTotalEdges := Suc (statTotalEdges p)\<rparr>
                  else p)))"

fun upsert_spans ::
    "(attr_val \<Rightarrow> string) \<Rightarrow> bool \<Rightarrow> sg_config \<Rightarrow> float64 list \<Rightarrow> (nat \<Rightarrow> int) \<Rightarrow> (string \<times> attrs \<times> ot_span) list \<Rightarrow>
     graph_store \<Rightarrow> sg_metrics \<Rightarrow> graph_store \<times> sg_metrics" where
  "upsert_spans as_string vn cfg bounds clock [] s p = (s, p)"
| "upsert_spans as_string vn cfg bounds clock (x # xs) s p =
     (let (s, p) = upsert_span as_string vn cfg bounds (clock 0) x s p
      in upsert_spans as_string vn cfg bounds (\<lambda>n. clock (Suc n)) xs s p)"

text \<open>\<open>UpsertEdge\<close> fails with \<open>ErrTooManyItems\<close> only, so \<open>aggregateMetrics\<close> has no error; without a store it panics.\<close>

definition aggregateMetrics ::
    "(attr_val \<Rightarrow> string) \<Rightarrow> bool \<Rightarrow> (nat \<Rightarrow> int) \<Rightarrow> traces \<Rightarrow> sg_processor \<Rightarrow> sg_processor outcome" where
  "aggregateMetrics as_string vn clock td p =
     (case sg_store p of
        None \<Rightarrow> (if \<exists>x \<in> set (edge_spans as_string td). span_side as_string vn (sg_config p) x \<noteq> None then Panic else Ret p)
      | Some s \<Rightarrow>
          (let (s, m) = upsert_spans as_string vn (sg_config p) (sg_bounds p) clock (edge_spans as_string td) s (sg_metrics p)
           in Ret (p\<lparr>sg_store := Some s, sg_metrics := m\<rparr>)))"

definition sg_Expire :: "bool \<Rightarrow> sg_config \<Rightarrow> float64 list \<Rightarrow> (nat \<Rightarrow> int) \<Rightarrow> graph_store \<Rightarrow> sg_metrics \<Rightarrow> graph_store \<times> sg_metrics" where
  "sg_Expire vn cfg bounds clock s p =
     Expire (onExpire vn (case_option [] id (VirtualNodePeerAttributes cfg)) (Dimensions cfg) bounds) clock s p"

section \<open>Building the metrics\<close>

datatype sg_data =
    SumData bool i64 \<comment> \<open>whether it is monotonic\<close>
  | HistogramData "float64 list" "64 word list" "64 word" float64 \<comment> \<open>bounds, bucket counts, count, sum\<close>

record sg_metric =
  sm_name :: string
  sm_temporality :: temporality
  sm_start :: timestamp
  sm_time :: timestamp
  sm_attrs :: attrs
  sm_data :: sg_data

text \<open>
  \<open>order\<close> gives each loop its keys in the order of Go's range over the map.  The metric at place \<open>n\<close> takes
  reading \<open>n\<close> of the clock.  A key without a series ends with an error, which names it.
\<close>

fun collect ::
    "string \<Rightarrow> (string \<Rightarrow> sg_data) \<Rightarrow> (string \<rightharpoonup> metric_series) \<Rightarrow> int \<Rightarrow> (nat \<Rightarrow> int) \<Rightarrow> string list \<Rightarrow> sg_metric list \<Rightarrow>
     string + sg_metric list" where
  "collect name data series start clock [] ms = Inr ms"
| "collect name data series start clock (key # keys) ms =
     (case series key of
        None \<Rightarrow> Inl key
      | Some sr \<Rightarrow>
          collect name data series start clock keys
            (ms @ [\<lparr>sm_name = name, sm_temporality = TempCumulative, sm_start = word_of_int start,
                    sm_time = word_of_int (clock (length ms)), sm_attrs = sr_dimensions sr, sm_data = data key\<rparr>]))"

definition collectCountMetrics ::
    "(nat \<Rightarrow> string set \<Rightarrow> string list) \<Rightarrow> int \<Rightarrow> (nat \<Rightarrow> int) \<Rightarrow> sg_metrics \<Rightarrow> sg_metric list \<Rightarrow> string + sg_metric list" where
  "collectCountMetrics order start clock p ms =
     (case collect ''traces_service_graph_request_total'' (\<lambda>k. SumData True (lookup_or 0 (reqTotal p) k))
             (keyToMetric p) start clock (order 0 (dom (reqTotal p))) ms of
        Inl k \<Rightarrow> Inl k
      | Inr ms \<Rightarrow>
          collect ''traces_service_graph_request_failed_total'' (\<lambda>k. SumData True (lookup_or 0 (reqFailedTotal p) k))
            (keyToMetric p) start clock (order 1 (dom (reqFailedTotal p))) ms)"

definition collectLatencyMetrics ::
    "(nat \<Rightarrow> string set \<Rightarrow> string list) \<Rightarrow> float64 list \<Rightarrow> int \<Rightarrow> (nat \<Rightarrow> int) \<Rightarrow> sg_metrics \<Rightarrow> sg_metric list \<Rightarrow> string + sg_metric list" where
  "collectLatencyMetrics order bounds start clock p ms =
     collect ''traces_service_graph_request_duration_seconds''
       (\<lambda>k. HistogramData bounds (lookup_or [] (reqDurationSecondsBucketCounts p) k)
              (lookup_or 0 (reqDurationSecondsCount p) k) (lookup_or 0 (reqDurationSecondsSum p) k))
       (keyToMetric p) start clock (order 2 (dom (reqDurationSecondsCount p))) ms"

definition buildMetrics ::
    "(nat \<Rightarrow> string set \<Rightarrow> string list) \<Rightarrow> float64 list \<Rightarrow> int \<Rightarrow> (nat \<Rightarrow> int) \<Rightarrow> sg_metrics \<Rightarrow> string + sg_metric list" where
  "buildMetrics order bounds start clock p =
     (case collectCountMetrics order start clock p [] of
        Inl k \<Rightarrow> Inl k
      | Inr ms \<Rightarrow> collectLatencyMetrics order bounds start clock p ms)"

text \<open>\<open>cleanCache\<close> takes three locks one after the other; other goroutines may run in between.\<close>

definition staleSeries :: "(string \<Rightarrow> int) \<Rightarrow> string list \<Rightarrow> sg_metrics \<Rightarrow> string list" where
  "staleSeries clock keys p =
     filter (\<lambda>key. case keyToMetric p key of
                     None \<Rightarrow> False
                   | Some series \<Rightarrow> sr_lastUpdated series + 15 * 60 * 1000 < unix_milli (clock key)) keys"

definition deleteSeries :: "string list \<Rightarrow> sg_metrics \<Rightarrow> sg_metrics" where
  "deleteSeries stale p = fold (\<lambda>key p. p\<lparr>keyToMetric := (keyToMetric p)(key := None)\<rparr>) stale p"

definition deleteCounts :: "string list \<Rightarrow> sg_metrics \<Rightarrow> sg_metrics" where
  "deleteCounts stale p =
     fold (\<lambda>key p. p\<lparr>reqTotal := (reqTotal p)(key := None), reqFailedTotal := (reqFailedTotal p)(key := None),
                    reqDurationSecondsCount := (reqDurationSecondsCount p)(key := None),
                    reqDurationSecondsSum := (reqDurationSecondsSum p)(key := None),
                    reqDurationSecondsBucketCounts := (reqDurationSecondsBucketCounts p)(key := None)\<rparr>) stale p"

section \<open>A call\<close>

datatype 'e sg_error = BuildMetricsFailed string | Downstream 'e
datatype sg_sent = MetricsSent "sg_metric list" | TracesSent traces

definition sg_ConsumeTraces ::
    "(attr_val \<Rightarrow> string) \<Rightarrow> bool \<Rightarrow> (nat \<Rightarrow> string set \<Rightarrow> string list) \<Rightarrow> (nat \<Rightarrow> int) \<Rightarrow> (nat \<Rightarrow> int) \<Rightarrow>
     (sg_metric list \<Rightarrow> 'e option) \<Rightarrow> (traces \<Rightarrow> 'e option) \<Rightarrow> traces \<Rightarrow> sg_processor \<Rightarrow>
     ('e sg_error option \<times> sg_processor \<times> sg_sent list) outcome" where
  "sg_ConsumeTraces as_string vn order clock clock' send_metrics send_traces td p =
     bind_outcome (aggregateMetrics as_string vn clock td p) (\<lambda>p.
       case buildMetrics order (sg_bounds p) (sg_start p) clock' (sg_metrics p) of
         Inl key \<Rightarrow> Ret (Some (BuildMetricsFailed key), p, [])
       | Inr md \<Rightarrow>
           if length md = 0 then Ret (None, p, [])
           else if sg_metrics_to p = None then Panic
           else if \<not> sg_has_traces p then Ret (map_option Downstream (send_metrics md), p, [MetricsSent md])
           else case send_metrics md of
                  Some e \<Rightarrow> Ret (Some (Downstream e), p, [MetricsSent md])
                | None \<Rightarrow> Ret (map_option Downstream (send_traces td), p, [MetricsSent md, TracesSent td]))"

end
