(* ===== verification/ServiceGraphRuns.thy ===== *)
theory ServiceGraphRuns
  imports ServiceGraph "HOL-Library.List_Lexorder" "HOL-Library.Char_ord"
begin

text \<open>
  What the service graph counts and sends, in runs that mix the spans of calls, the expirations of the
  store and the three steps of the cleaning of the cache in any order.
\<close>

section \<open>What the series count\<close>

datatype sg_event = Counted edge | Removed "string list"

text \<open>The edges of a metric key that were counted since its counts were last deleted.\<close>

definition live :: "string list \<Rightarrow> string \<Rightarrow> sg_event list \<Rightarrow> edge list" where
  "live dimensions k evs =
     fold (\<lambda>ev es. case ev of
                     Counted e \<Rightarrow> if edge_metric_key dimensions e = k then es @ [e] else es
                   | Removed ks \<Rightarrow> if k \<in> set ks then [] else es) evs []"

definition some_if :: "'e list \<Rightarrow> 'a \<Rightarrow> 'a option" where
  "some_if es v = (if es = [] then None else Some v)"

definition bucket_counts :: "float64 list \<Rightarrow> edge list \<Rightarrow> 64 word list" where
  "bucket_counts bounds es = histogram_counts bounds (map e_server_latency es)"

definition latency_sum :: "edge list \<Rightarrow> float64" where
  "latency_sum es = value_sum (map e_server_latency es)"

definition counts_of :: "string list \<Rightarrow> float64 list \<Rightarrow> sg_event list \<Rightarrow> sg_metrics \<Rightarrow> bool" where
  "counts_of dimensions bounds evs p \<longleftrightarrow>
     (\<forall>k. reqTotal p k = some_if (live dimensions k evs) (word_of_nat (length (live dimensions k evs))) \<and>
          reqFailedTotal p k =
            some_if (filter e_failed (live dimensions k evs)) (word_of_nat (length (filter e_failed (live dimensions k evs)))) \<and>
          reqDurationSecondsCount p k = some_if (live dimensions k evs) (word_of_nat (length (live dimensions k evs))) \<and>
          reqDurationSecondsSum p k = some_if (live dimensions k evs) (latency_sum (live dimensions k evs)) \<and>
          reqDurationSecondsBucketCounts p k = some_if (live dimensions k evs) (bucket_counts bounds (live dimensions k evs)))"

text \<open>Every counted key has a series with the attributes of its last edge, save those being deleted.\<close>

definition series_of :: "string list \<Rightarrow> sg_event list \<Rightarrow> string list \<Rightarrow> sg_metrics \<Rightarrow> bool" where
  "series_of dimensions evs deleted p \<longleftrightarrow>
     (\<forall>k. live dimensions k evs \<noteq> [] \<longrightarrow>
          (case keyToMetric p k of
             None \<Rightarrow> k \<in> set deleted
           | Some series \<Rightarrow> sr_dimensions series = buildDimensions (last (live dimensions k evs))))"

lemma live_Nil [simp]: "live dimensions k [] = []"
  by (simp add: live_def)

lemma live_Counted [simp]:
  "live dimensions k (evs @ [Counted e]) = live dimensions k evs @ (if edge_metric_key dimensions e = k then [e] else [])"
  by (simp add: live_def)

lemma live_Removed [simp]: "live dimensions k (evs @ [Removed ks]) = (if k \<in> set ks then [] else live dimensions k evs)"
  by (simp add: live_def)

lemma bucket_counts_snoc:
  "bucket_counts bounds (es @ [e]) =
     (bucket_counts bounds es)[SearchFloat64s bounds (e_server_latency e) :=
        bucket_counts bounds es ! SearchFloat64s bounds (e_server_latency e) + 1]"
  by (simp add: bucket_counts_def histogram_counts_snoc)

lemma bucket_counts_Nil: "bucket_counts bounds [] = replicate (length bounds + 1) 0"
  by (simp add: bucket_counts_def histogram_counts_Nil)

lemma latency_sum_simps [simp]: "latency_sum [] = 0" "latency_sum (es @ [e]) = f_add (latency_sum es) (e_server_latency e)"
  by (simp_all add: latency_sum_def)

lemma aggregate_counts:
  assumes "counts_of dimensions bounds evs p"
  shows "counts_of dimensions bounds (evs @ [Counted e]) (aggregateMetricsForEdge dimensions bounds e p)"
proof -
  let ?k = "edge_metric_key dimensions e"
  let ?es = "live dimensions ?k evs"
  from assms have m: "reqTotal p ?k = some_if ?es (word_of_nat (length ?es))"
    "reqFailedTotal p ?k = some_if (filter e_failed ?es) (word_of_nat (length (filter e_failed ?es)))"
    "reqDurationSecondsCount p ?k = some_if ?es (word_of_nat (length ?es))"
    "reqDurationSecondsSum p ?k = some_if ?es (latency_sum ?es)"
    "reqDurationSecondsBucketCounts p ?k = some_if ?es (bucket_counts bounds ?es)"
    by (simp_all add: counts_of_def)
  have l: "lookup_or 0 (reqTotal p) ?k = word_of_nat (length ?es)"
    "lookup_or 0 (reqFailedTotal p) ?k = word_of_nat (length (filter e_failed ?es))"
    "lookup_or 0 (reqDurationSecondsCount p) ?k = word_of_nat (length ?es)"
    "lookup_or 0 (reqDurationSecondsSum p) ?k = latency_sum ?es"
    "lookup_or (replicate (length bounds + 1) 0) (reqDurationSecondsBucketCounts p) ?k = bucket_counts bounds ?es"
    using bucket_counts_Nil [of bounds] by (auto simp: lookup_or_def m some_if_def)
  show ?thesis
    using assms l unfolding counts_of_def
    by (auto simp: aggregateMetricsForEdge_def Let_def updateSeries_def updateCountMetrics_def updateErrorMetrics_def
        updateDurationMetrics_def some_if_def bucket_counts_snoc)
qed

lemma aggregate_keyToMetric:
  "keyToMetric (aggregateMetricsForEdge dimensions bounds e p) =
     (keyToMetric p)(edge_metric_key dimensions e \<mapsto> \<lparr>sr_dimensions = buildDimensions e, sr_lastUpdated = unix_milli (sg_clock p 0)\<rparr>)"
  by (simp add: aggregateMetricsForEdge_def Let_def updateSeries_def updateCountMetrics_def updateErrorMetrics_def
      updateDurationMetrics_def)

lemma aggregate_series:
  assumes "series_of dimensions evs deleted p"
  shows "series_of dimensions (evs @ [Counted e]) deleted (aggregateMetricsForEdge dimensions bounds e p)"
  unfolding series_of_def
proof (intro allI impI)
  fix k
  assume "live dimensions k (evs @ [Counted e]) \<noteq> []"
  with spec [OF assms [unfolded series_of_def], of k] show "case keyToMetric (aggregateMetricsForEdge dimensions bounds e p) k of
      None \<Rightarrow> k \<in> set deleted
    | Some series \<Rightarrow> sr_dimensions series = buildDimensions (last (live dimensions k (evs @ [Counted e])))"
    by (cases "k = edge_metric_key dimensions e") (auto simp: aggregate_keyToMetric split: option.splits)
qed

lemma aggregate_all:
  "counts_of dimensions bounds evs p \<Longrightarrow> series_of dimensions evs deleted p \<Longrightarrow>
   counts_of dimensions bounds (evs @ map Counted es) (fold (aggregateMetricsForEdge dimensions bounds) es p) \<and>
   series_of dimensions (evs @ map Counted es) deleted (fold (aggregateMetricsForEdge dimensions bounds) es p)"
proof (induction es arbitrary: evs p)
  case (Cons e es)
  from Cons.IH [OF aggregate_counts [OF Cons.prems(1), of e] aggregate_series [OF Cons.prems(2), of e bounds]] show ?case by simp
qed simp

lemma bucket_counts_sum: "sum_list (bucket_counts bounds es) = word_of_nat (length es)"
  by (simp add: bucket_counts_def histogram_counts_sum)

section \<open>Runs\<close>

text \<open>
  The spans of calls, the expirations and the cleaning of the cache in any order.  A span holds the lock
  of the store while it changes the metrics; the loops run one cleaning at a time.
\<close>

datatype clean_phase = CleanIdle | StaleRead "string list" | SeriesDeleted "string list"

record sg_state =
  st_store :: graph_store
  st_metrics :: sg_metrics
  st_clean :: clean_phase

text \<open>The edges a span completes, and those an expiration makes of the edges it evicts.\<close>

definition span_edges ::
    "(attr_val \<Rightarrow> string) \<Rightarrow> bool \<Rightarrow> sg_config \<Rightarrow> int \<Rightarrow> string \<times> attrs \<times> ot_span \<Rightarrow> graph_store \<Rightarrow> edge list" where
  "span_edges as_string vn cfg now x s =
     (case span_side as_string vn cfg x of
        None \<Rightarrow> []
      | Some (key, update) \<Rightarrow> snd (snd (UpsertEdge (\<lambda>e es. es @ [e]) now key update s [])))"

definition virtual_edges :: "bool \<Rightarrow> string list \<Rightarrow> edge \<Rightarrow> edge list" where
  "virtual_edges vn peers e =
     (if \<not> vn then []
      else
        let e = e\<lparr>e_type := VirtualNode\<rparr>; e' = (if virtual_client e then e\<lparr>e_client := ''user''\<rparr> else e)
        in (if virtual_client e then [e'] else []) @
           (if length (e_server e) = 0 then [e'\<lparr>e_server := getPeerHost peers (e_peer e)\<rparr>] else []))"

definition expired_edges :: "bool \<Rightarrow> sg_config \<Rightarrow> (nat \<Rightarrow> int) \<Rightarrow> graph_store \<Rightarrow> edge list" where
  "expired_edges vn cfg clock s =
     concat (map (virtual_edges vn (case_option [] id (VirtualNodePeerAttributes cfg)))
       (snd (Expire (\<lambda>e es. es @ [e]) clock s [])))"

inductive sg_run ::
    "(attr_val \<Rightarrow> string) \<Rightarrow> bool \<Rightarrow> sg_config \<Rightarrow> float64 list \<Rightarrow> sg_state \<Rightarrow> sg_event list \<Rightarrow> bool"
  for as_string vn cfg bounds where
  start: "sg_run as_string vn cfg bounds
    \<lparr>st_store = NewStore (StoreTTL cfg) (StoreMaxItems cfg), st_metrics = new_metrics clock, st_clean = CleanIdle\<rparr> []"
| side: "sg_run as_string vn cfg bounds st evs \<Longrightarrow>
    upsert_span as_string vn cfg bounds now x (st_store st) (st_metrics st) = (s, p) \<Longrightarrow>
    sg_run as_string vn cfg bounds (st\<lparr>st_store := s, st_metrics := p\<rparr>)
      (evs @ map Counted (span_edges as_string vn cfg now x (st_store st)))"
| expire: "sg_run as_string vn cfg bounds st evs \<Longrightarrow>
    sg_Expire vn cfg bounds clock (st_store st) (st_metrics st) = (s, p) \<Longrightarrow>
    sg_run as_string vn cfg bounds (st\<lparr>st_store := s, st_metrics := p\<rparr>)
      (evs @ map Counted (expired_edges vn cfg clock (st_store st)))"
| clean_read: "sg_run as_string vn cfg bounds st evs \<Longrightarrow> st_clean st = CleanIdle \<Longrightarrow>
    set keys = dom (keyToMetric (st_metrics st)) \<Longrightarrow>
    sg_run as_string vn cfg bounds (st\<lparr>st_clean := StaleRead (staleSeries time_of keys (st_metrics st))\<rparr>) evs"
| clean_series: "sg_run as_string vn cfg bounds st evs \<Longrightarrow> st_clean st = StaleRead stale \<Longrightarrow>
    sg_run as_string vn cfg bounds
      (st\<lparr>st_metrics := deleteSeries stale (st_metrics st), st_clean := SeriesDeleted stale\<rparr>) evs"
| clean_counts: "sg_run as_string vn cfg bounds st evs \<Longrightarrow> st_clean st = SeriesDeleted stale \<Longrightarrow>
    sg_run as_string vn cfg bounds
      (st\<lparr>st_metrics := deleteCounts stale (st_metrics st), st_clean := CleanIdle\<rparr>) (evs @ [Removed stale])"

fun being_deleted :: "clean_phase \<Rightarrow> string list" where
  "being_deleted (SeriesDeleted ks) = ks"
| "being_deleted ph = []"

text \<open>A store with callbacks does to the metrics what the edges it hands out do, one after the other.\<close>

lemma UpsertEdge_record:
  "UpsertEdge g now k f s p =
     (fst (UpsertEdge (\<lambda>e es. es @ [e]) now k f s []), fst (snd (UpsertEdge (\<lambda>e es. es @ [e]) now k f s [])),
      fold g (snd (snd (UpsertEdge (\<lambda>e es. es @ [e]) now k f s []))) p)"
  by (simp add: UpsertEdge_def Let_def split: option.splits)

lemma Expire_record_from:
  "Expire g clock s (fold g es p) =
     (fst (Expire (\<lambda>e es. es @ [e]) clock s es), fold g (snd (Expire (\<lambda>e es. es @ [e]) clock s es)) p)"
proof (induction "\<lambda>(e::edge) es. es @ [e]" clock s es rule: Expire.induct)
  case (1 clock s es)
  show ?case
  proof (cases "\<exists>i l. gs_list s = i # l \<and> isExpired (clock 0) (gs_elem s i)")
    case False
    then show ?thesis by (subst (1 2 3) Expire.simps) (auto simp: tryEvictHead_def Let_def split: list.splits)
  next
    case True
    then obtain i l where l: "gs_list s = i # l" "isExpired (clock 0) (gs_elem s i)" by auto
    let ?s = "s\<lparr>gs_map := (gs_map s)(e_key (gs_elem s i) := None), gs_list := l\<rparr>"
    have t: "tryEvictHead h (clock 0) s q = (True, ?s, h (gs_elem s i) q)" for h and q :: 'z
      using l by (simp add: tryEvictHead_def Let_def)
    have "Expire g clock s (fold g es p) = Expire g (\<lambda>n. clock (Suc n)) ?s (fold g (es @ [gs_elem s i]) p)"
      using l by (subst Expire.simps) (simp add: tryEvictHead_def Let_def)
    moreover have "Expire (\<lambda>e es. es @ [e]) clock s es = Expire (\<lambda>e es. es @ [e]) (\<lambda>n. clock (Suc n)) ?s (es @ [gs_elem s i])"
      using l by (subst Expire.simps) (simp add: tryEvictHead_def Let_def)
    ultimately show ?thesis
      using "1.hyps" [OF t [of "\<lambda>e es. es @ [e]" es, symmetric] refl refl TrueI] by simp
  qed
qed

lemma Expire_record:
  "Expire g clock s p =
     (fst (Expire (\<lambda>e es. es @ [e]) clock s []), fold g (snd (Expire (\<lambda>e es. es @ [e]) clock s [])) p)"
  using Expire_record_from [of g clock s "[]" p] by simp

lemma counts_of_stats [simp]:
  "counts_of dimensions bounds evs (p\<lparr>statExpiredEdges := n\<rparr>) = counts_of dimensions bounds evs p"
  "counts_of dimensions bounds evs (p\<lparr>statTotalEdges := n\<rparr>) = counts_of dimensions bounds evs p"
  "counts_of dimensions bounds evs (p\<lparr>statDroppedSpans := n\<rparr>) = counts_of dimensions bounds evs p"
  by (simp_all add: counts_of_def)

lemma series_of_stats [simp]:
  "series_of dimensions evs deleted (p\<lparr>statExpiredEdges := n\<rparr>) = series_of dimensions evs deleted p"
  "series_of dimensions evs deleted (p\<lparr>statTotalEdges := n\<rparr>) = series_of dimensions evs deleted p"
  "series_of dimensions evs deleted (p\<lparr>statDroppedSpans := n\<rparr>) = series_of dimensions evs deleted p"
  by (simp_all add: series_of_def)

lemma onExpire_fold:
  "onExpire vn peers dimensions bounds e p =
     fold (aggregateMetricsForEdge dimensions bounds) (virtual_edges vn peers e) (p\<lparr>statExpiredEdges := Suc (statExpiredEdges p)\<rparr>)"
  by (simp add: onExpire_def virtual_edges_def Let_def)

lemma expire_all:
  "counts_of dimensions bounds evs p \<Longrightarrow> series_of dimensions evs deleted p \<Longrightarrow>
   counts_of dimensions bounds (evs @ map Counted (concat (map (virtual_edges vn peers) es)))
     (fold (onExpire vn peers dimensions bounds) es p) \<and>
   series_of dimensions (evs @ map Counted (concat (map (virtual_edges vn peers) es))) deleted
     (fold (onExpire vn peers dimensions bounds) es p)"
proof (induction es arbitrary: evs p)
  case (Cons e es)
  let ?p = "onExpire vn peers dimensions bounds e p"
  have "counts_of dimensions bounds (evs @ map Counted (virtual_edges vn peers e)) ?p"
    "series_of dimensions (evs @ map Counted (virtual_edges vn peers e)) deleted ?p"
    using aggregate_all [of dimensions bounds evs "p\<lparr>statExpiredEdges := Suc (statExpiredEdges p)\<rparr>" deleted "virtual_edges vn peers e"] Cons.prems
    by (simp_all add: onExpire_fold)
  from Cons.IH [OF this] show ?case by simp
qed simp

lemma deleteSeries_simps [simp]:
  "keyToMetric (deleteSeries ks p) k = (if k \<in> set ks then None else keyToMetric p k)"
  "reqTotal (deleteSeries ks p) = reqTotal p" "reqFailedTotal (deleteSeries ks p) = reqFailedTotal p"
  "reqDurationSecondsCount (deleteSeries ks p) = reqDurationSecondsCount p"
  "reqDurationSecondsSum (deleteSeries ks p) = reqDurationSecondsSum p"
  "reqDurationSecondsBucketCounts (deleteSeries ks p) = reqDurationSecondsBucketCounts p"
  unfolding deleteSeries_def by (induction ks arbitrary: p) auto

lemma deleteCounts_simps [simp]:
  "keyToMetric (deleteCounts ks p) = keyToMetric p"
  "reqTotal (deleteCounts ks p) k = (if k \<in> set ks then None else reqTotal p k)"
  "reqFailedTotal (deleteCounts ks p) k = (if k \<in> set ks then None else reqFailedTotal p k)"
  "reqDurationSecondsCount (deleteCounts ks p) k = (if k \<in> set ks then None else reqDurationSecondsCount p k)"
  "reqDurationSecondsSum (deleteCounts ks p) k = (if k \<in> set ks then None else reqDurationSecondsSum p k)"
  "reqDurationSecondsBucketCounts (deleteCounts ks p) k = (if k \<in> set ks then None else reqDurationSecondsBucketCounts p k)"
  unfolding deleteCounts_def by (induction ks arbitrary: p) auto

lemma delete_series: "series_of dimensions evs [] p \<Longrightarrow> series_of dimensions evs ks (deleteSeries ks p)"
  unfolding series_of_def
proof (intro allI impI)
  fix k
  assume "\<forall>k. live dimensions k evs \<noteq> [] \<longrightarrow> (case keyToMetric p k of None \<Rightarrow> k \<in> set []
      | Some series \<Rightarrow> sr_dimensions series = buildDimensions (last (live dimensions k evs)))" and "live dimensions k evs \<noteq> []"
  from spec [OF this(1), of k] this(2) show "case keyToMetric (deleteSeries ks p) k of None \<Rightarrow> k \<in> set ks
      | Some series \<Rightarrow> sr_dimensions series = buildDimensions (last (live dimensions k evs))"
    by (auto split: option.splits)
qed

lemma delete_counts: "series_of dimensions evs ks p \<Longrightarrow> series_of dimensions (evs @ [Removed ks]) [] (deleteCounts ks p)"
  unfolding series_of_def
proof (intro allI impI)
  fix k
  assume "\<forall>k. live dimensions k evs \<noteq> [] \<longrightarrow> (case keyToMetric p k of None \<Rightarrow> k \<in> set ks
      | Some series \<Rightarrow> sr_dimensions series = buildDimensions (last (live dimensions k evs)))"
    and "live dimensions k (evs @ [Removed ks]) \<noteq> []"
  from spec [OF this(1), of k] this(2) show "case keyToMetric (deleteCounts ks p) k of None \<Rightarrow> k \<in> set []
      | Some series \<Rightarrow> sr_dimensions series = buildDimensions (last (live dimensions k (evs @ [Removed ks])))"
    by (auto split: option.splits if_splits)
qed

lemma run_invariant:
  "sg_run as_string vn cfg bounds st evs \<Longrightarrow>
   counts_of (Dimensions cfg) bounds evs (st_metrics st) \<and>
   series_of (Dimensions cfg) evs (being_deleted (st_clean st)) (st_metrics st)"
proof (induction rule: sg_run.induct)
  case (start clock)
  show ?case by (simp add: counts_of_def series_of_def new_metrics_def some_if_def)
next
  case (side st evs now x s p)
  show ?case
  proof (cases "span_side as_string vn cfg x")
    case None
    with side show ?thesis by (simp add: upsert_span_def span_edges_def)
  next
    case (Some kf)
    let ?es = "span_edges as_string vn cfg now x (st_store st)"
    let ?q = "fold (aggregateMetricsForEdge (Dimensions cfg) bounds) ?es (st_metrics st)"
    obtain k f where kf: "kf = (k, f)" by (cases kf)
    have "p = ?q \<or> p = ?q\<lparr>statDroppedSpans := Suc (statDroppedSpans ?q)\<rparr> \<or> p = ?q\<lparr>statTotalEdges := Suc (statTotalEdges ?q)\<rparr>"
      using side(2) Some kf UpsertEdge_record [of "aggregateMetricsForEdge (Dimensions cfg) bounds" now k f "st_store st" "st_metrics st"]
      by (auto simp: upsert_span_def span_edges_def Let_def split: prod.splits if_splits)
    with aggregate_all [of "Dimensions cfg" bounds evs "st_metrics st" "being_deleted (st_clean st)" ?es] side(3)
    show ?thesis by auto
  qed
next
  case (expire st evs clock s p)
  let ?peers = "case_option [] id (VirtualNodePeerAttributes cfg)"
  have "p = fold (onExpire vn ?peers (Dimensions cfg) bounds) (snd (Expire (\<lambda>e es. es @ [e]) clock (st_store st) [])) (st_metrics st)"
    using expire(2) Expire_record [of "onExpire vn ?peers (Dimensions cfg) bounds" clock "st_store st" "st_metrics st"]
    by (simp add: sg_Expire_def)
  with expire_all [of "Dimensions cfg" bounds evs "st_metrics st" "being_deleted (st_clean st)" vn ?peers] expire(3)
  show ?case by (simp add: expired_edges_def)
next
  case (clean_read st evs keys time_of)
  then show ?case by simp
next
  case (clean_series st evs stale)
  then show ?case using delete_series [of "Dimensions cfg" evs "st_metrics st" stale] by (simp add: counts_of_def)
next
  case (clean_counts st evs stale)
  then show ?case using delete_counts [of "Dimensions cfg" evs stale "st_metrics st"] by (simp add: counts_of_def some_if_def)
qed

text \<open>
  C16: whatever the order of spans, expirations and the steps of the cleaning, the maps of a metric key
  hold what the edges counted since its last deletion give: their number, the number of failed ones, the
  sum of their latencies and a bucket for each; the buckets of a key add up to its count.
\<close>

theorem service_graph_counts:
  assumes "sg_run as_string vn cfg bounds st evs"
  shows "counts_of (Dimensions cfg) bounds evs (st_metrics st) \<and>
    (\<forall>k. map_option sum_list (reqDurationSecondsBucketCounts (st_metrics st) k) = reqDurationSecondsCount (st_metrics st) k)"
proof -
  have c: "counts_of (Dimensions cfg) bounds evs (st_metrics st)" using run_invariant [OF assms] by simp
  with bucket_counts_sum show ?thesis by (simp add: counts_of_def some_if_def)
qed

section \<open>What is built\<close>

definition sm_content :: "sg_metric \<Rightarrow> string \<times> attrs \<times> sg_data" where
  "sm_content m = (sm_name m, sm_attrs m, sm_data m)"

lemma collect_error: "collect name data series start clock keys ms = Inl k \<Longrightarrow> k \<in> set keys \<and> series k = None"
  by (induction keys arbitrary: ms) (auto split: option.splits)

lemma collect_content:
  "collect name data series start clock keys ms = Inr ms' \<Longrightarrow>
   (\<forall>k \<in> set keys. series k \<noteq> None) \<and>
   map sm_content ms' = map sm_content ms @ map (\<lambda>k. (name, sr_dimensions (the (series k)), data k)) keys"
  by (induction keys arbitrary: ms) (auto simp: sm_content_def split: option.splits)

text \<open>The metrics of a key whose counted edges are \<open>es\<close>.\<close>

definition key_metrics :: "float64 list \<Rightarrow> edge list \<Rightarrow> (string \<times> attrs \<times> sg_data) set" where
  "key_metrics bounds es =
     {(''traces_service_graph_request_total'', buildDimensions (last es), SumData True (word_of_nat (length es))),
      (''traces_service_graph_request_duration_seconds'', buildDimensions (last es),
       HistogramData bounds (bucket_counts bounds es) (word_of_nat (length es)) (latency_sum es))} \<union>
     (if filter e_failed es = [] then {}
      else {(''traces_service_graph_request_failed_total'', buildDimensions (last es),
             SumData True (word_of_nat (length (filter e_failed es))))})"

lemma series_present:
  assumes "series_of dimensions evs deleted p" and "live dimensions k evs \<noteq> []"
  shows "keyToMetric p k = None \<Longrightarrow> k \<in> set deleted"
    "keyToMetric p k = Some series \<Longrightarrow> sr_dimensions series = buildDimensions (last (live dimensions k evs))"
  using spec [OF assms(1) [unfolded series_of_def], of k] assms(2) by simp_all

lemma live_finite: "finite {k. live dimensions k evs \<noteq> []}"
proof (induction evs rule: rev_induct)
  case (snoc ev evs)
  show ?case
  proof (cases ev)
    case (Counted e)
    have "{k. live dimensions k (evs @ [ev]) \<noteq> []} \<subseteq> insert (edge_metric_key dimensions e) {k. live dimensions k evs \<noteq> []}"
      by (auto simp: Counted split: if_splits)
    with snoc show ?thesis by (meson finite_insert finite_subset)
  next
    case (Removed ks)
    have "{k. live dimensions k (evs @ [ev]) \<noteq> []} \<subseteq> {k. live dimensions k evs \<noteq> []}" by (auto simp: Removed split: if_splits)
    with snoc show ?thesis by (rule finite_subset [rotated])
  qed
qed simp

lemma dom_some_if: "(\<And>k. m k = some_if (es k) (v k)) \<Longrightarrow> dom m = {k. es k \<noteq> []}"
  by (auto simp: some_if_def split: if_splits)

lemma run_doms:
  assumes "sg_run as_string vn cfg bounds st evs"
  shows "dom (reqTotal (st_metrics st)) = {k. live (Dimensions cfg) k evs \<noteq> []}"
    "dom (reqDurationSecondsCount (st_metrics st)) = {k. live (Dimensions cfg) k evs \<noteq> []}"
    "dom (reqFailedTotal (st_metrics st)) = {k. filter e_failed (live (Dimensions cfg) k evs) \<noteq> []}"
  using run_invariant [OF assms] by (intro dom_some_if; simp add: counts_of_def; blast)+

text \<open>
  C17: metrics are built exactly when no counted key is without its series, which only happens between
  the two deletions of a cleaning; they are, for each counted key, its request total, its failed total
  when an edge failed, and its latency histogram, all with the attributes of the last edge counted.
\<close>

theorem service_graph_metrics:
  assumes run: "sg_run as_string vn cfg bounds st evs" and order: "\<forall>n S. finite S \<longrightarrow> set (order n S) = S"
  shows "case buildMetrics order bounds start clock (st_metrics st) of
      Inl k \<Rightarrow> keyToMetric (st_metrics st) k = None \<and> live (Dimensions cfg) k evs \<noteq> [] \<and> k \<in> set (being_deleted (st_clean st))
    | Inr ms \<Rightarrow> sm_content ` set ms = \<Union> ((\<lambda>k. key_metrics bounds (live (Dimensions cfg) k evs)) ` {k. live (Dimensions cfg) k evs \<noteq> []})"
proof -
  let ?p = "st_metrics st" and ?live = "\<lambda>k. live (Dimensions cfg) k evs"
  note inv = run_invariant [OF run] and doms = run_doms [OF run]
  have fin: "finite {k. ?live k \<noteq> []}" "finite {k. filter e_failed (?live k) \<noteq> []}"
    using live_finite [of "Dimensions cfg" evs] by (auto elim!: rev_finite_subset)
  have keys: "set (order 0 (dom (reqTotal ?p))) = {k. ?live k \<noteq> []}" "set (order 2 (dom (reqDurationSecondsCount ?p))) = {k. ?live k \<noteq> []}"
    "set (order 1 (dom (reqFailedTotal ?p))) = {k. filter e_failed (?live k) \<noteq> []}"
    "set (order (Suc 0) (dom (reqFailedTotal ?p))) = {k. filter e_failed (?live k) \<noteq> []}"
    using order fin by (simp_all add: doms)
  have sub: "?live k \<noteq> []" if "filter e_failed (?live k) \<noteq> []" for k using that by auto
  show ?thesis
  proof (cases "buildMetrics order bounds start clock ?p")
    case (Inl k)
    then have "keyToMetric ?p k = None \<and> ?live k \<noteq> []"
      using sub by (auto simp: buildMetrics_def collectCountMetrics_def collectLatencyMetrics_def keys
          split: sum.splits dest!: collect_error)
    with series_present(1) [of "Dimensions cfg" evs _ ?p k] inv Inl show ?thesis by auto
  next
    case (Inr ms)
    then obtain ms1 ms2 where c: "collect ''traces_service_graph_request_total'' (\<lambda>k. SumData True (lookup_or 0 (reqTotal ?p) k))
         (keyToMetric ?p) start clock (order 0 (dom (reqTotal ?p))) [] = Inr ms1"
       "collect ''traces_service_graph_request_failed_total'' (\<lambda>k. SumData True (lookup_or 0 (reqFailedTotal ?p) k))
         (keyToMetric ?p) start clock (order 1 (dom (reqFailedTotal ?p))) ms1 = Inr ms2"
       "collectLatencyMetrics order bounds start clock ?p ms2 = Inr ms"
      by (auto simp: buildMetrics_def collectCountMetrics_def split: sum.splits)
    note l = collect_content [OF c(1)] collect_content [OF c(2)] collect_content [OF c(3) [unfolded collectLatencyMetrics_def]]
    have dims: "sr_dimensions (the (keyToMetric ?p k)) = buildDimensions (last (?live k))" if "?live k \<noteq> []" for k
      using l(1) that series_present(2) [of "Dimensions cfg" evs _ ?p k] inv by (auto simp: keys)
    let ?total = "\<lambda>k. (''traces_service_graph_request_total'', buildDimensions (last (?live k)), SumData True (word_of_nat (length (?live k))))"
    let ?failed = "\<lambda>k. (''traces_service_graph_request_failed_total'', buildDimensions (last (?live k)),
        SumData True (word_of_nat (length (filter e_failed (?live k)))))"
    let ?duration = "\<lambda>k. (''traces_service_graph_request_duration_seconds'', buildDimensions (last (?live k)),
        HistogramData bounds (bucket_counts bounds (?live k)) (word_of_nat (length (?live k))) (latency_sum (?live k)))"
    from inv have val: "lookup_or 0 (reqTotal ?p) k = word_of_nat (length (?live k))"
        "lookup_or [] (reqDurationSecondsBucketCounts ?p) k = bucket_counts bounds (?live k)"
        "lookup_or 0 (reqDurationSecondsCount ?p) k = word_of_nat (length (?live k))"
        "lookup_or 0 (reqDurationSecondsSum ?p) k = latency_sum (?live k)" if "?live k \<noteq> []" for k
      using that by (simp_all add: counts_of_def some_if_def lookup_or_def)
    from inv have valf: "lookup_or 0 (reqFailedTotal ?p) k = word_of_nat (length (filter e_failed (?live k)))" if "filter e_failed (?live k) \<noteq> []" for k
      using that by (simp add: counts_of_def some_if_def lookup_or_def)
    have "set (map sm_content ms) =
        ?total ` {k. ?live k \<noteq> []} \<union> ?failed ` {k. filter e_failed (?live k) \<noteq> []} \<union> ?duration ` {k. ?live k \<noteq> []}"
      unfolding l(1) [THEN conjunct2] l(2) [THEN conjunct2] l(3) [THEN conjunct2] set_append set_map keys
      using val valf dims sub by (intro arg_cong2 [of _ _ _ _ "(\<union>)"] image_cong) auto
    also have "\<dots> = \<Union> ((\<lambda>k. key_metrics bounds (?live k)) ` {k. ?live k \<noteq> []})"
      using sub by (auto simp: key_metrics_def split: if_splits)
    finally show ?thesis using Inr by simp
  qed
qed

section \<open>Which traces are forwarded\<close>

lemma upsert_spans_run:
  "sg_run as_string vn cfg bounds st evs \<Longrightarrow>
   upsert_spans as_string vn cfg bounds clock xs (st_store st) (st_metrics st) = (s, m) \<Longrightarrow>
   \<exists>es. sg_run as_string vn cfg bounds (st\<lparr>st_store := s, st_metrics := m\<rparr>) (evs @ map Counted es)"
proof (induction xs arbitrary: clock st evs)
  case Nil
  then have "sg_run as_string vn cfg bounds (st\<lparr>st_store := s, st_metrics := m\<rparr>) (evs @ map Counted [])" by auto
  then show ?case by blast
next
  case (Cons x xs)
  obtain s1 m1 where u: "upsert_span as_string vn cfg bounds (clock 0) x (st_store st) (st_metrics st) = (s1, m1)"
    by (rule prod.exhaust)
  let ?st = "st\<lparr>st_store := s1, st_metrics := m1\<rparr>" and ?es = "span_edges as_string vn cfg (clock 0) x (st_store st)"
  have "upsert_spans as_string vn cfg bounds (\<lambda>n. clock (Suc n)) xs (st_store ?st) (st_metrics ?st) = (s, m)"
    using Cons.prems(2) u by simp
  from Cons.IH [OF sg_run.side [OF Cons.prems(1) u] this] obtain es where
    "sg_run as_string vn cfg bounds (?st\<lparr>st_store := s, st_metrics := m\<rparr>) ((evs @ map Counted ?es) @ map Counted es)" by blast
  then have "sg_run as_string vn cfg bounds (st\<lparr>st_store := s, st_metrics := m\<rparr>) (evs @ map Counted (?es @ es))" by simp
  then show ?case by blast
qed

lemma collect_length: "collect name data series start clock keys ms = Inr ms' \<Longrightarrow> length ms' = length ms + length keys"
  by (induction keys arbitrary: ms) (auto split: option.splits)

lemma image_empty_iff:
  assumes "h ` set xs = \<Union> (g ` {k. Q k})" and "\<And>k. g k \<noteq> {}"
  shows "xs = [] \<longleftrightarrow> (\<forall>k. \<not> Q k)"
proof -
  have "xs = [] \<longleftrightarrow> h ` set xs = {}" by simp
  with assms show ?thesis by simp
qed

lemma key_metrics_nonempty: "key_metrics bounds es \<noteq> {}"
  by (simp add: key_metrics_def)

text \<open>
  C34: a call of a processor whose cache is not being cleaned hands its traces on only after some edge has
  been counted: while no series is alive it returns without an error and neither metrics nor traces are
  sent; otherwise the metrics are sent and, when that succeeds, the traces.
\<close>

theorem traces_forwarded_with_series:
  assumes run: "sg_run as_string vn (sg_config p) (sg_bounds p) st evs"
    and p: "sg_store p = Some (st_store st)" "sg_metrics p = st_metrics st" "sg_metrics_to p \<noteq> None" "sg_has_traces p"
    and idle: "being_deleted (st_clean st) = []" and order: "\<forall>n S. finite S \<longrightarrow> set (order n S) = S"
  shows "\<exists>es s m p' res sent.
    sg_run as_string vn (sg_config p) (sg_bounds p) (st\<lparr>st_store := s, st_metrics := m\<rparr>) (evs @ map Counted es) \<and>
    p' = p\<lparr>sg_store := Some s, sg_metrics := m\<rparr> \<and>
    sg_ConsumeTraces as_string vn order clock clock' send_metrics send_traces td p = Ret (res, p', sent) \<and>
    (if \<forall>k. live (Dimensions (sg_config p)) k (evs @ map Counted es) = [] then res = None \<and> sent = []
     else \<exists>md. sent = MetricsSent md # (if send_metrics md = None then [TracesSent td] else []) \<and>
            res = map_option Downstream (case send_metrics md of Some e \<Rightarrow> Some e | None \<Rightarrow> send_traces td))"
proof -
  obtain s m where u: "upsert_spans as_string vn (sg_config p) (sg_bounds p) clock (edge_spans as_string td) (st_store st) (st_metrics st) = (s, m)"
    by (rule prod.exhaust)
  let ?st = "st\<lparr>st_store := s, st_metrics := m\<rparr>" and ?p = "p\<lparr>sg_store := Some s, sg_metrics := m\<rparr>"
  from upsert_spans_run [OF run u] obtain es where
    r: "sg_run as_string vn (sg_config p) (sg_bounds p) ?st (evs @ map Counted es)" by blast
  have a: "aggregateMetrics as_string vn clock td p = Ret ?p" using u by (simp add: aggregateMetrics_def p)
  note b = service_graph_metrics [OF r order, of "sg_start p" clock']
  obtain md where md: "buildMetrics order (sg_bounds p) (sg_start p) clock' m = Inr md"
    using b idle by (cases "buildMetrics order (sg_bounds p) (sg_start p) clock' m") auto
  have len: "length md = 0 \<longleftrightarrow> (\<forall>k. live (Dimensions (sg_config p)) k (evs @ map Counted es) = [])"
  proof -
    have "sm_content ` set md = \<Union> ((\<lambda>k. key_metrics (sg_bounds p) (live (Dimensions (sg_config p)) k (evs @ map Counted es))) `
        {k. live (Dimensions (sg_config p)) k (evs @ map Counted es) \<noteq> []})" using b md by simp
    from image_empty_iff [OF this key_metrics_nonempty] show ?thesis by simp
  qed
  show ?thesis
  proof (intro exI conjI)
    show "sg_run as_string vn (sg_config p) (sg_bounds p) ?st (evs @ map Counted es)" by (rule r)
    show "?p = ?p" ..
    let ?sent = "if md = [] then [] else MetricsSent md # (if send_metrics md = None then [TracesSent td] else [])"
    let ?res = "if md = [] then None else map_option Downstream (case send_metrics md of Some e \<Rightarrow> Some e | None \<Rightarrow> send_traces td)"
    show "sg_ConsumeTraces as_string vn order clock clock' send_metrics send_traces td p = Ret (?res, ?p, ?sent)"
      using p md by (auto simp: sg_ConsumeTraces_def a split: option.splits)
    show "if \<forall>k. live (Dimensions (sg_config p)) k (evs @ map Counted es) = [] then ?res = None \<and> ?sent = []
        else \<exists>md. ?sent = MetricsSent md # (if send_metrics md = None then [TracesSent td] else []) \<and>
            ?res = map_option Downstream (case send_metrics md of Some e \<Rightarrow> Some e | None \<Rightarrow> send_traces td)"
      using len by (cases "md = []") auto
  qed
qed

section \<open>Dimensions and keys\<close>

definition dims_of :: "string list \<Rightarrow> edge \<Rightarrow> bool" where
  "dims_of dimensions e \<longleftrightarrow> dom (e_dims e) \<subseteq> (\<lambda>d. ''client'' @ ''_'' @ d) ` set dimensions \<union> (\<lambda>d. ''server'' @ ''_'' @ d) ` set dimensions"

lemma upsertDimensions_dom:
  "dom (upsertDimensions as_string ds kind m ra sa) \<subseteq> dom m \<union> (\<lambda>d. kind @ ''_'' @ d) ` set ds"
  unfolding upsertDimensions_def by (induction ds arbitrary: m) (fastforce split: option.splits)+

lemma side_e_dims:
  "span_side as_string vn cfg x = Some (k, f) \<Longrightarrow>
   \<exists>kind \<in> {''client'', ''server''}.
     e_dims (f e) = upsertDimensions as_string (Dimensions cfg) kind (e_dims e) (fst (snd x)) (os_attrs (snd (snd x)))"
  by (cases x) (auto simp: client_side_def server_side_def Let_def split: span_kind.splits option.splits)

lemma side_dims:
  assumes "span_side as_string vn cfg x = Some (k, f)" and "dims_of (Dimensions cfg) e"
  shows "dims_of (Dimensions cfg) (f e)"
proof -
  let ?names = "\<lambda>kind. (\<lambda>d. kind @ ''_'' @ d) ` set (Dimensions cfg)"
  from side_e_dims [OF assms(1), of e] obtain kind where kind: "kind \<in> {''client'', ''server''}"
    and e: "e_dims (f e) = upsertDimensions as_string (Dimensions cfg) kind (e_dims e) (fst (snd x)) (os_attrs (snd (snd x)))" by blast
  have "dom (e_dims (f e)) \<subseteq> dom (e_dims e) \<union> ?names kind" unfolding e by (rule upsertDimensions_dom)
  also have "\<dots> \<subseteq> ?names ''client'' \<union> ?names ''server''"
    using assms(2) [unfolded dims_of_def] kind by (intro Un_least) blast+
  finally show ?thesis unfolding dims_of_def .
qed

lemma UpsertEdge_pred:
  assumes "\<And>e. P e \<Longrightarrow> P (f e)" and "\<And>now k ttl. P (newEdge now k ttl)" and "\<forall>i. P (gs_elem s i)" and "\<forall>e \<in> set es. P e"
    and "UpsertEdge (\<lambda>e es. es @ [e]) now k f s es = (r, s', es')"
  shows "(\<forall>i. P (gs_elem s' i)) \<and> (\<forall>e \<in> set es'. P e)"
proof -
  have "P (f (newEdge now k (gs_ttl s)))" using assms(1,2) by blast
  with assms(1,3-5) show ?thesis by (auto simp: UpsertEdge_def Let_def split: option.splits if_splits)
qed

lemma virtual_dims: "e' \<in> set (virtual_edges vn peers e) \<Longrightarrow> dims_of ds e' = dims_of ds e"
proof -
  assume "e' \<in> set (virtual_edges vn peers e)"
  then have "e_dims e' = e_dims e" by (auto simp: virtual_edges_def Let_def split: if_splits)
  then show ?thesis by (simp only: dims_of_def)
qed

lemma Expire_pred:
  "\<forall>i. P (gs_elem s i) \<Longrightarrow> \<forall>e \<in> set es. P e \<Longrightarrow> Expire (\<lambda>e es. es @ [e]) clock s es = (s', es') \<Longrightarrow>
   (\<forall>i. P (gs_elem s' i)) \<and> (\<forall>e \<in> set es'. P e)"
proof (induction "\<lambda>(e::edge) es. es @ [e]" clock s es arbitrary: s' es' rule: Expire.induct)
  case (1 clock s es)
  show ?case
  proof (cases "\<exists>i l. gs_list s = i # l \<and> isExpired (clock 0) (gs_elem s i)")
    case False
    with "1.prems" show ?thesis by (subst (asm) Expire.simps) (auto simp: tryEvictHead_def Let_def split: list.splits)
  next
    case True
    then obtain i l where l: "gs_list s = i # l" "isExpired (clock 0) (gs_elem s i)" by auto
    let ?s = "s\<lparr>gs_map := (gs_map s)(e_key (gs_elem s i) := None), gs_list := l\<rparr>"
    have t: "tryEvictHead (\<lambda>e es. es @ [e]) (clock 0) s es = (True, ?s, es @ [gs_elem s i])"
      using l by (simp add: tryEvictHead_def Let_def)
    have "Expire (\<lambda>e es. es @ [e]) (\<lambda>n. clock (Suc n)) ?s (es @ [gs_elem s i]) = (s', es')"
      using "1.prems"(3) t by (simp add: Expire.simps [of _ clock])
    with "1.hyps" [OF t [symmetric] refl refl TrueI _ _ this] "1.prems"(1,2) show ?thesis by simp
  qed
qed

lemma run_dims:
  "sg_run as_string vn cfg bounds st evs \<Longrightarrow>
   (\<forall>i. dims_of (Dimensions cfg) (gs_elem (st_store st) i)) \<and> (\<forall>e. Counted e \<in> set evs \<longrightarrow> dims_of (Dimensions cfg) e)"
proof (induction rule: sg_run.induct)
  case (start clock)
  show ?case by (simp add: NewStore_def dims_of_def newEdge_def)
next
  case (side st evs now x s p)
  show ?case
  proof (cases "span_side as_string vn cfg x")
    case None
    with side show ?thesis by (auto simp: upsert_span_def span_edges_def)
  next
    case (Some kf)
    obtain k f where kf: "kf = (k, f)" by (cases kf)
    obtain r s1 es where u: "UpsertEdge (\<lambda>e es. es @ [e]) now k f (st_store st) [] = (r, s1, es)" by (metis prod_cases3)
    have "s = s1" "span_edges as_string vn cfg now x (st_store st) = es"
      using side(2) Some kf u UpsertEdge_record [of "aggregateMetricsForEdge (Dimensions cfg) bounds" now k f "st_store st" "st_metrics st"]
      by (auto simp: upsert_span_def span_edges_def Let_def split: prod.splits if_splits)
    moreover have "(\<forall>i. dims_of (Dimensions cfg) (gs_elem s1 i)) \<and> (\<forall>e \<in> set es. dims_of (Dimensions cfg) e)"
      using side_dims [of as_string vn cfg x k f] Some kf side(3)
      by (intro UpsertEdge_pred [OF _ _ _ _ u]) (auto simp: dims_of_def newEdge_def)
    ultimately show ?thesis using side(3) by auto
  qed
next
  case (expire st evs clock s p)
  obtain s1 es where e: "Expire (\<lambda>e es. es @ [e]) clock (st_store st) [] = (s1, es)" by (rule prod.exhaust)
  have "s = s1"
    using expire(2) e Expire_record [of "onExpire vn (case_option [] id (VirtualNodePeerAttributes cfg)) (Dimensions cfg) bounds" clock "st_store st" "st_metrics st"]
    by (simp add: sg_Expire_def)
  moreover have "(\<forall>i. dims_of (Dimensions cfg) (gs_elem s1 i)) \<and> (\<forall>e \<in> set es. dims_of (Dimensions cfg) e)"
    using expire(3) by (intro Expire_pred [OF _ _ e]) auto
  ultimately show ?case
    using expire(3) e by (auto simp: expired_edges_def virtual_dims)
qed auto

text \<open>
  C35: the dimensions of an edge are stored under \<open>client_\<close> and \<open>server_\<close> names and looked up for the metric
  key under the configured names, so, unless a configured name is itself such a name, edges that differ
  only in their dimensions share one series.
\<close>

theorem dimensions_do_not_separate_series:
  assumes "sg_run as_string vn cfg bounds st evs" and "Counted e \<in> set evs"
    and "\<forall>d \<in> set (Dimensions cfg). \<forall>d' \<in> set (Dimensions cfg). d \<noteq> ''client_'' @ d' \<and> d \<noteq> ''server_'' @ d'"
  shows "edge_metric_key (Dimensions cfg) e = edge_metric_key [] e"
proof -
  have "dims_of (Dimensions cfg) e" using run_dims [OF assms(1)] assms(2) by blast
  then have "e_dims e d = None" if "d \<in> set (Dimensions cfg)" for d
    using assms(3) that by (fastforce simp: dims_of_def)
  then show ?thesis by (simp add: edge_metric_key_def buildMetricKey_def)
qed

section \<open>A request\<close>

text \<open>A client span of a service and the failed server span of another, with a configured dimension.\<close>

definition text_of :: "attr_val \<Rightarrow> string" where "text_of v = (case v of AStr t \<Rightarrow> t | _ \<Rightarrow> [])"

definition call_client :: ot_span where
  "call_client = empty_span\<lparr>os_trace_id := replicate 16 1, os_span_id := replicate 8 2, os_kind := KindClient\<rparr>"

definition call_server :: ot_span where
  "call_server = empty_span\<lparr>os_trace_id := replicate 16 1, os_span_id := replicate 8 3, os_parent_id := replicate 8 2,
     os_kind := KindServer, os_status := StatusError, os_attrs := [''zone'' \<mapsto> AStr ''z'']\<rparr>"

definition zone_config :: sg_config where "zone_config = createDefaultConfig\<lparr>Dimensions := [''zone'']\<rparr>"

definition call_edge :: "edge \<Rightarrow> bool" where
  "call_edge e \<longleftrightarrow> e_client e = ''a'' \<and> e_server e = ''b'' \<and> e_type e = Unknown \<and> e_failed e \<and> e_dims e = [''server_zone'' \<mapsto> ''z'']"

definition call_key :: string where "call_key = ''a'' @ metricKeySeparator @ ''b'' @ metricKeySeparator"

lemma call_edge_key: "call_edge e \<Longrightarrow> edge_metric_key [''zone''] e = call_key"
  by (simp add: call_edge_def edge_metric_key_def buildMetricKey_def call_key_def)

lemma call_run:
  "\<exists>st e. sg_run text_of False zone_config [] st [Counted e] \<and> call_edge e \<and> st_clean st = CleanIdle"
proof -
  let ?st0 = "\<lparr>st_store = NewStore (StoreTTL zone_config) (StoreMaxItems zone_config), st_metrics = new_metrics (\<lambda>_. 0), st_clean = CleanIdle\<rparr>"
  let ?x1 = "(''a'', Map.empty, call_client)" and ?x2 = "(''b'', Map.empty, call_server)"
  note defs = upsert_span_def span_edges_def UpsertEdge_def client_side_def server_side_def newEdge_def NewStore_def isComplete_def
    findAttributeValue_def upsertDimensions_def call_client_def call_server_def zone_config_def createDefaultConfig_def text_of_def Let_def
  obtain s1 p1 where u1: "upsert_span text_of False zone_config [] 0 ?x1 (st_store ?st0) (st_metrics ?st0) = (s1, p1)" by (rule prod.exhaust)
  have e1: "span_edges text_of False zone_config 0 ?x1 (st_store ?st0) = []"
    by (simp add: defs empty_span_def)
  obtain s2 p2 where u2: "upsert_span text_of False zone_config [] 1 ?x2 s1 p1 = (s2, p2)" by (rule prod.exhaust)
  have e2: "\<exists>e. span_edges text_of False zone_config 1 ?x2 s1 = [e] \<and> call_edge e"
    using u1 by (auto simp: defs empty_span_def call_edge_def fun_eq_iff)
  have "sg_run text_of False zone_config [] (?st0\<lparr>st_store := s1, st_metrics := p1\<rparr>) []"
    using sg_run.side [OF sg_run.start u1] e1 by simp
  from sg_run.side [OF this, of 1 ?x2 s2 p2] u2 e2 obtain e where
    "sg_run text_of False zone_config [] (?st0\<lparr>st_store := s2, st_metrics := p2\<rparr>) [Counted e]" "call_edge e" by auto
  then show ?thesis by (metis sg_state.select_convs(3) sg_state.update_convs(1) sg_state.update_convs(2))
qed

theorem service_graph_counts_witness:
  "\<exists>st e. sg_run text_of False zone_config [] st [Counted e] \<and> reqTotal (st_metrics st) call_key = Some 1 \<and>
     reqFailedTotal (st_metrics st) call_key = Some 1 \<and> map_option sum_list (reqDurationSecondsBucketCounts (st_metrics st) call_key) = Some 1"
proof -
  from call_run obtain st e where r: "sg_run text_of False zone_config [] st [Counted e]" "call_edge e" by blast
  have d: "Dimensions zone_config = [''zone'']" by (simp add: zone_config_def)
  have l: "live [''zone''] call_key [Counted e] = [e]" "e_failed e"
    using live_Counted [of "[''zone'']" call_key "[]" e] call_edge_key [OF r(2)] r(2) by (simp_all add: call_edge_def)
  from service_graph_counts [OF r(1)] r(1) show ?thesis
    unfolding d counts_of_def by (metis l some_if_def filter.simps length_Cons list.size(3) not_Cons_self2 of_nat_1 One_nat_def)
qed

text \<open>The metrics of the request, with the keys visited in the order of the text.\<close>

definition all_keys :: "nat \<Rightarrow> string set \<Rightarrow> string list" where "all_keys n S = sorted_list_of_set S"

lemma all_keys_set: "\<forall>n S. finite S \<longrightarrow> set (all_keys n S) = S"
  by (simp add: all_keys_def)

theorem service_graph_metrics_witness:
  "\<exists>st e ms. sg_run text_of False zone_config [] st [Counted e] \<and> buildMetrics all_keys [] 0 (\<lambda>_. 0) (st_metrics st) = Inr ms \<and>
     sm_content ` set ms = key_metrics [] [e] \<and> call_edge e"
proof -
  from call_run obtain st e where r: "sg_run text_of False zone_config [] st [Counted e]" "call_edge e" "st_clean st = CleanIdle" by blast
  have d: "Dimensions zone_config = [''zone'']" by (simp add: zone_config_def)
  have l: "live [''zone''] k [Counted e] = (if k = call_key then [e] else [])" for k
    using live_Counted [of "[''zone'']" k "[]" e] call_edge_key [OF r(2)] by simp
  have u: "\<Union> ((\<lambda>k. key_metrics [] (live [''zone''] k [Counted e])) ` {k. live [''zone''] k [Counted e] \<noteq> []}) = key_metrics [] [e]"
    by (auto simp: l)
  from service_graph_metrics [OF r(1) all_keys_set, of 0 "\<lambda>_. 0"] show ?thesis
    using r u by (cases "buildMetrics all_keys [] 0 (\<lambda>_. 0) (st_metrics st)") (auto simp: d)
qed

text \<open>A processor that has not seen an edge keeps the traces it is given.\<close>

theorem traces_forwarded_with_series_witness:
  "\<exists>p'. sg_ConsumeTraces text_of False all_keys (\<lambda>_. 0) (\<lambda>_. 0) (\<lambda>_. None) (\<lambda>_. None) []
      (snd (sg_Start [(''m'', True)] (createTracesProcessor 0 (\<lambda>_. 0) (createDefaultConfig\<lparr>MetricsExporter := ''m''\<rparr>)))) =
    (Ret (None :: unit sg_error option, p', []) :: _ outcome)"
proof -
  let ?p = "snd (sg_Start [(''m'', True)] (createTracesProcessor 0 (\<lambda>_. 0) (createDefaultConfig\<lparr>MetricsExporter := ''m''\<rparr>)))"
  let ?st = "\<lparr>st_store = NewStore (StoreTTL (sg_config ?p)) (StoreMaxItems (sg_config ?p)), st_metrics = new_metrics (\<lambda>_. 0), st_clean = CleanIdle\<rparr>"
  have p: "sg_store ?p = Some (st_store ?st)" "sg_metrics ?p = st_metrics ?st" "sg_metrics_to ?p \<noteq> None" "sg_has_traces ?p"
    by (simp_all add: sg_Start_def createTracesProcessor_def newProcessor_def createDefaultConfig_def Let_def)
  have idle: "being_deleted (st_clean ?st) = []" by simp
  from traces_forwarded_with_series [OF sg_run.start [of text_of False "sg_config ?p" "sg_bounds ?p"] p idle all_keys_set,
    of "\<lambda>_. 0" "\<lambda>_. 0" "\<lambda>_. None :: unit option" "\<lambda>_. None" "[]"]
  obtain p' res sent where c: "sg_ConsumeTraces text_of False all_keys (\<lambda>_. 0) (\<lambda>_. 0) (\<lambda>_. None :: unit option) (\<lambda>_. None) [] ?p = Ret (res, p', sent)"
    by blast
  have "buildMetrics all_keys (sg_bounds ?p) (sg_start ?p) (\<lambda>_. 0) (new_metrics (\<lambda>_. 0)) = Inr []"
    by (simp add: buildMetrics_def collectCountMetrics_def collectLatencyMetrics_def new_metrics_def all_keys_def)
  with c have "res = None \<and> sent = []"
    by (simp add: sg_ConsumeTraces_def aggregateMetrics_def edge_spans_def p)
  with c show ?thesis by blast
qed

theorem dimensions_do_not_separate_series_witness:
  "\<exists>st e. sg_run text_of False zone_config [] st [Counted e] \<and> e_dims e ''server_zone'' = Some ''z'' \<and>
     edge_metric_key (Dimensions zone_config) e = edge_metric_key [] e"
proof -
  from call_run obtain st e where r: "sg_run text_of False zone_config [] st [Counted e]" "call_edge e" by blast
  have "\<forall>d \<in> set (Dimensions zone_config). \<forall>d' \<in> set (Dimensions zone_config). d \<noteq> ''client_'' @ d' \<and> d \<noteq> ''server_'' @ d'"
    by (simp add: zone_config_def)
  from dimensions_do_not_separate_series [OF r(1) _ this, of e] r show ?thesis
    by (intro exI [of _ st] exI [of _ e]) (simp add: call_edge_def)
qed

end
