(* ===== verification/SpanMetrics.thy ===== *)
theory SpanMetrics
  imports Pdata Histograms PdataHash
begin

text \<open>
  \<open>processor/spanmetricsprocessor\<close> of the bundled contrib module: call counts and latency histograms of
  the spans by service, operation, kind, status and configured dimensions.  The least-recently-used
  list of \<open>golang-lru\<close> is the parameter \<open>lru\<close> on states \<open>'c\<close>, \<open>AsString\<close> of a value the parameter
  \<open>as_string\<close>.  A call and a flush hold the lock of the processor: each is one step.
\<close>

section \<open>The cache of dimensions\<close>

text \<open>\<open>Add\<close> and \<open>Purge\<close> also return what they evict, which they give to the callback of \<open>NewLRU\<close>.\<close>

record 'c lru_ops =
  lru_new :: "int \<Rightarrow> 'c option" \<comment> \<open>an error on a size that is not positive\<close>
  lru_get :: "'c \<Rightarrow> string \<Rightarrow> attrs option \<times> 'c"
  lru_add :: "'c \<Rightarrow> string \<Rightarrow> attrs \<Rightarrow> 'c \<times> (string \<times> attrs) list"
  lru_purge :: "'c \<Rightarrow> 'c \<times> (string \<times> attrs) list"
  lru_len :: "'c \<Rightarrow> nat"

record 'c dim_cache =
  dc_lru :: 'c
  dc_evicted :: "string \<rightharpoonup> attrs" \<comment> \<open>\<open>evictedItems\<close>\<close>

definition NewCache :: "'c lru_ops \<Rightarrow> int \<Rightarrow> 'c dim_cache option" where
  "NewCache lru n = map_option (\<lambda>c. \<lparr>dc_lru = c, dc_evicted = Map.empty\<rparr>) (lru_new lru n)"

definition RemoveEvictedItems :: "'c dim_cache \<Rightarrow> 'c dim_cache" where
  "RemoveEvictedItems c = c\<lparr>dc_evicted := Map.empty\<rparr>"

definition evict :: "(string \<times> attrs) list \<Rightarrow> (string \<rightharpoonup> attrs) \<Rightarrow> (string \<rightharpoonup> attrs)" where
  "evict es m = fold (\<lambda>(k, v) m. m(k \<mapsto> v)) es m"

definition cache_Add :: "'c lru_ops \<Rightarrow> string \<Rightarrow> attrs \<Rightarrow> 'c dim_cache \<Rightarrow> 'c dim_cache" where
  "cache_Add lru k v c =
     (let (l, es) = lru_add lru (dc_lru c) k v in c\<lparr>dc_lru := l, dc_evicted := evict es (dc_evicted c)\<rparr>)"

definition cache_Get :: "'c lru_ops \<Rightarrow> string \<Rightarrow> 'c dim_cache \<Rightarrow> attrs option \<times> 'c dim_cache" where
  "cache_Get lru k c =
     (let (r, l) = lru_get lru (dc_lru c) k; c = c\<lparr>dc_lru := l\<rparr>
      in case r of
           Some v \<Rightarrow> (Some v, c)
         | None \<Rightarrow>
             (case dc_evicted c k of
                None \<Rightarrow> (None, c)
              | Some v \<Rightarrow> (Some v, cache_Add lru k v (c\<lparr>dc_evicted := (dc_evicted c)(k := None)\<rparr>))))"

definition cache_Len :: "'c lru_ops \<Rightarrow> 'c dim_cache \<Rightarrow> nat" where
  "cache_Len lru c = lru_len lru (dc_lru c)"

definition cache_Purge :: "'c lru_ops \<Rightarrow> 'c dim_cache \<Rightarrow> 'c dim_cache" where
  "cache_Purge lru c =
     (let (l, es) = lru_purge lru (dc_lru c) in RemoveEvictedItems (c\<lparr>dc_lru := l, dc_evicted := evict es (dc_evicted c)\<rparr>))"

section \<open>Configuration and state\<close>

record sm_dimension =
  dim_name :: string
  dim_default :: "string option"

record spm_config =
  spm_exporter :: string \<comment> \<open>\<open>MetricsExporter\<close>\<close>
  spm_buckets :: "int list option" \<comment> \<open>\<open>LatencyHistogramBuckets\<close>, None for nil\<close>
  spm_cfg_dimensions :: "sm_dimension list"
  spm_cache_size :: int
  spm_temporality :: string
  spm_skip_sanitize :: bool
  spm_flush_interval :: int
  spm_namespace :: string

definition spm_default_config :: "bool \<Rightarrow> spm_config" where
  "spm_default_config gate =
     \<lparr>spm_exporter = [], spm_buckets = None, spm_cfg_dimensions = [], spm_cache_size = 1000,
      spm_temporality = ''AGGREGATION_TEMPORALITY_CUMULATIVE'', spm_skip_sanitize = gate, spm_flush_interval = 15000000000,
      spm_namespace = []\<rparr>"

definition GetAggregationTemporality :: "spm_config \<Rightarrow> temporality" where
  "GetAggregationTemporality c = (if spm_temporality c = ''AGGREGATION_TEMPORALITY_DELTA'' then TempDelta else TempCumulative)"

record span_exemplar =
  se_trace_id :: "byte list"
  se_span_id :: "byte list"
  se_value :: float64

record span_histogram =
  sh_attributes :: attrs
  sh_count :: "64 word"
  sh_sum :: float64
  sh_buckets :: "64 word list"
  sh_exemplars :: "span_exemplar list"
  sh_bounds :: "float64 list"

record 'c spm =
  spm_config :: spm_config
  spm_dimensions :: "sm_dimension list"
  spm_start :: timestamp
  spm_histograms :: "string \<rightharpoonup> span_histogram"
  spm_bounds :: "float64 list"
  spm_cache :: "'c dim_cache"
  spm_metrics_to :: "string option"
  spm_started :: bool
  spm_stopped :: bool \<comment> \<open>\<open>shutdownOnce\<close> was used\<close>

definition newDimensions :: "sm_dimension list \<Rightarrow> sm_dimension list" where
  "newDimensions cfgDims = map (\<lambda>d. \<lparr>dim_name = dim_name d, dim_default = dim_default d\<rparr>) cfgDims"

definition spm_newProcessor :: "'c lru_ops \<Rightarrow> int \<Rightarrow> spm_config \<Rightarrow> 'c spm option" where
  "spm_newProcessor lru now cfg =
     (let bounds = (case spm_buckets cfg of None \<Rightarrow> defaultLatencyHistogramBucketsMs | Some ds \<Rightarrow> mapDurationsToMillis ds)
      in case NewCache lru (spm_cache_size cfg) of
           None \<Rightarrow> None
         | Some c \<Rightarrow>
             Some \<lparr>spm_config = cfg, spm_dimensions = newDimensions (spm_cfg_dimensions cfg), spm_start = word_of_int now,
                   spm_histograms = Map.empty, spm_bounds = bounds, spm_cache = c, spm_metrics_to = None,
                   spm_started = False, spm_stopped = False\<rparr>)"

text \<open>The exporters of the metrics pipelines in the order \<open>Start\<close> meets them; it fails on the first that
  is no exporter of metrics.\<close>

fun find_exporter :: "string \<Rightarrow> (string \<times> bool) list \<Rightarrow> string option" where
  "find_exporter name [] = None"
| "find_exporter name ((k, metrics) # exporters) =
     (if \<not> metrics then None else if k = name then Some k else find_exporter name exporters)"

definition spm_Start :: "(string \<times> bool) list \<Rightarrow> 'c spm \<Rightarrow> bool \<times> 'c spm" where
  "spm_Start exporters p =
     (case find_exporter (spm_exporter (spm_config p)) exporters of
        None \<Rightarrow> (False, p)
      | Some k \<Rightarrow> (True, p\<lparr>spm_metrics_to := Some k, spm_started := True\<rparr>))"

definition spm_Shutdown :: "'c spm \<Rightarrow> 'c spm" where
  "spm_Shutdown p = (if spm_stopped p then p else p\<lparr>spm_stopped := True, spm_started := False\<rparr>)"

section \<open>Validation\<close>

text \<open>
  \<open>sanitize\<close> on ASCII names: for others Go consults the tables of \<open>unicode\<close>.  The first character of a
  name that starts with a digit, or after the mapping with an underscore, gets a prefix.
\<close>

definition ascii_letter :: "char \<Rightarrow> bool" where
  "ascii_letter c \<longleftrightarrow> (let n = (of_char c :: nat) in 97 \<le> n \<and> n \<le> 122 \<or> 65 \<le> n \<and> n \<le> 90)"

definition ascii_digit :: "char \<Rightarrow> bool" where
  "ascii_digit c \<longleftrightarrow> (let n = (of_char c :: nat) in 48 \<le> n \<and> n \<le> 57)"

definition sanitizeRune :: "char \<Rightarrow> char" where
  "sanitizeRune r = (if ascii_letter r \<or> ascii_digit r then r else CHR ''_'')"

definition sanitize :: "bool \<Rightarrow> string \<Rightarrow> string" where
  "sanitize skipSanitizeLabel s =
     (if length s = 0 then s
      else
        let s = map sanitizeRune s;
            s = (if ascii_digit (hd s) then ''key_'' @ s else s);
            s = (if \<not> skipSanitizeLabel \<and> has_prefix s ''_'' then ''key'' @ s else s)
        in if has_prefix s ''__'' then ''key'' @ s else s)"

datatype spm_error = DuplicateDimension string | DuplicateSanitized string | InvalidCacheSize int

fun check_dimensions :: "bool \<Rightarrow> sm_dimension list \<Rightarrow> string set \<Rightarrow> spm_error option" where
  "check_dimensions skip [] labelNames = None"
| "check_dimensions skip (key # dims) labelNames =
     (if dim_name key \<in> labelNames then Some (DuplicateDimension (dim_name key))
      else
        let labelNames = insert (dim_name key) labelNames; sanitizedName = sanitize skip (dim_name key)
        in if sanitizedName = dim_name key then check_dimensions skip dims labelNames
           else if sanitizedName \<in> labelNames then Some (DuplicateSanitized sanitizedName)
           else check_dimensions skip dims (insert sanitizedName labelNames))"

definition reserved_labels :: "bool \<Rightarrow> string set" where
  "reserved_labels skip =
     (let keys = [''service.name'', ''span.kind'', ''status.code''] in set keys \<union> sanitize skip ` set keys \<union> {''operation''})"

definition validateDimensions :: "sm_dimension list \<Rightarrow> bool \<Rightarrow> spm_error option" where
  "validateDimensions dimensions skipSanitizeLabel =
     check_dimensions skipSanitizeLabel dimensions (reserved_labels skipSanitizeLabel)"

definition spm_Validate :: "bool \<Rightarrow> spm_config \<Rightarrow> spm_error option" where
  "spm_Validate gate c =
     (case validateDimensions (spm_cfg_dimensions c) gate of
        Some e \<Rightarrow> Some e
      | None \<Rightarrow> if spm_cache_size c \<le> 0 then Some (InvalidCacheSize (spm_cache_size c)) else None)"

section \<open>Keys and attributes of a span\<close>

fun SpanKindStr :: "span_kind \<Rightarrow> string" where
  "SpanKindStr KindUnspecified = ''SPAN_KIND_UNSPECIFIED''"
| "SpanKindStr KindInternal = ''SPAN_KIND_INTERNAL''"
| "SpanKindStr KindServer = ''SPAN_KIND_SERVER''"
| "SpanKindStr KindClient = ''SPAN_KIND_CLIENT''"
| "SpanKindStr KindProducer = ''SPAN_KIND_PRODUCER''"
| "SpanKindStr KindConsumer = ''SPAN_KIND_CONSUMER''"
| "SpanKindStr (KindOther n) = []"

fun StatusCodeStr :: "status_code \<Rightarrow> string" where
  "StatusCodeStr StatusUnset = ''STATUS_CODE_UNSET''"
| "StatusCodeStr StatusOk = ''STATUS_CODE_OK''"
| "StatusCodeStr StatusError = ''STATUS_CODE_ERROR''"
| "StatusCodeStr (StatusOther n) = []"

definition getDimensionValue :: "sm_dimension \<Rightarrow> attrs \<Rightarrow> attrs \<Rightarrow> attr_val option" where
  "getDimensionValue d spanAttr resourceAttr =
     (case spanAttr (dim_name d) of
        Some attr \<Rightarrow> Some attr
      | None \<Rightarrow>
          (case resourceAttr (dim_name d) of
             Some attr \<Rightarrow> Some attr
           | None \<Rightarrow> map_option AStr (dim_default d)))"

definition concatDimensionValue :: "string \<Rightarrow> string \<Rightarrow> bool \<Rightarrow> string" where
  "concatDimensionValue dest value prefixSep = dest @ (if prefixSep then [CHR 0x00] else []) @ value"

definition buildKey :: "(attr_val \<Rightarrow> string) \<Rightarrow> string \<Rightarrow> ot_span \<Rightarrow> sm_dimension list \<Rightarrow> attrs \<Rightarrow> string" where
  "buildKey as_string serviceName sp optionalDims resourceAttrs =
     (let dest = concatDimensionValue [] serviceName False;
          dest = concatDimensionValue dest (os_name sp) True;
          dest = concatDimensionValue dest (SpanKindStr (os_kind sp)) True;
          dest = concatDimensionValue dest (StatusCodeStr (os_status sp)) True
      in fold (\<lambda>d dest. case getDimensionValue d (os_attrs sp) resourceAttrs of
                          None \<Rightarrow> dest
                        | Some v \<Rightarrow> concatDimensionValue dest (as_string v) True) optionalDims dest)"

definition buildAttributes :: "sm_dimension list \<Rightarrow> string \<Rightarrow> ot_span \<Rightarrow> attrs \<Rightarrow> attrs" where
  "buildAttributes dimensions serviceName sp resourceAttrs =
     fold (\<lambda>d attr. case getDimensionValue d (os_attrs sp) resourceAttrs of
                      None \<Rightarrow> attr
                    | Some v \<Rightarrow> attr(dim_name d \<mapsto> v)) dimensions
       [''service.name'' \<mapsto> AStr serviceName, ''operation'' \<mapsto> AStr (os_name sp), ''span.kind'' \<mapsto> AStr (SpanKindStr (os_kind sp)),
        ''status.code'' \<mapsto> AStr (StatusCodeStr (os_status sp))]"

section \<open>Aggregation\<close>

definition observe :: "float64 \<Rightarrow> byte list \<Rightarrow> byte list \<Rightarrow> span_histogram \<Rightarrow> span_histogram" where
  "observe latencyMs traceID spanID h =
     (let h = h\<lparr>sh_sum := f_add (sh_sum h) latencyMs, sh_count := sh_count h + 1\<rparr>;
          index = SearchFloat64s (sh_bounds h) latencyMs
      in h\<lparr>sh_buckets := (sh_buckets h)[index := sh_buckets h ! index + 1],
           sh_exemplars := sh_exemplars h @ [\<lparr>se_trace_id = traceID, se_span_id = spanID, se_value = latencyMs\<rparr>]\<rparr>)"

definition getOrCreateHistogram :: "string \<Rightarrow> attrs \<Rightarrow> 'c spm \<Rightarrow> span_histogram \<times> 'c spm" where
  "getOrCreateHistogram k attr p =
     (case spm_histograms p k of
        Some h \<Rightarrow> (h, p)
      | None \<Rightarrow>
          (let h = \<lparr>sh_attributes = attr, sh_count = 0, sh_sum = 0, sh_buckets = replicate (length (spm_bounds p) + 1) 0,
                    sh_exemplars = [], sh_bounds = spm_bounds p\<rparr>
           in (h, p\<lparr>spm_histograms := (spm_histograms p)(k \<mapsto> h)\<rparr>)))"

definition span_latency :: "ot_span \<Rightarrow> float64" where
  "span_latency sp =
     (if os_start sp < os_end sp then f_div (f_of_int (uint (os_end sp - os_start sp))) (f_of_int 1000000) else 0)"

definition aggregate_span :: "(attr_val \<Rightarrow> string) \<Rightarrow> 'c lru_ops \<Rightarrow> string \<times> attrs \<times> ot_span \<Rightarrow> 'c spm \<Rightarrow> 'c spm" where
  "aggregate_span as_string lru x p =
     (case x of (serviceName, resourceAttr, sp) \<Rightarrow>
        (let key = buildKey as_string serviceName sp (spm_dimensions p) resourceAttr;
             (found, c) = cache_Get lru key (spm_cache p);
             (attributes, c) = (case found of
                 Some a \<Rightarrow> (a, c)
               | None \<Rightarrow> (let a = buildAttributes (spm_dimensions p) serviceName sp resourceAttr in (a, cache_Add lru key a c)));
             (h, p) = getOrCreateHistogram key attributes (p\<lparr>spm_cache := c\<rparr>)
         in p\<lparr>spm_histograms := (spm_histograms p)(key \<mapsto> observe (span_latency sp) (os_trace_id sp) (os_span_id sp) h)\<rparr>))"

text \<open>The spans of the resources that name a service, whatever the type of the value; \<open>Str\<close> of one
  that is no string is empty.\<close>

fun attr_text :: "attr_val \<Rightarrow> string" where
  "attr_text (AStr s) = s"
| "attr_text _ = []"

definition service_spans :: "traces \<Rightarrow> (string \<times> attrs \<times> ot_span) list" where
  "service_spans td =
     concat (map (\<lambda>r. case res_attrs r ''service.name'' of
                        None \<Rightarrow> []
                      | Some v \<Rightarrow> map (\<lambda>sp. (attr_text v, res_attrs r, sp)) (concat (map scope_items (res_scopes r)))) td)"

definition spm_aggregateMetrics :: "(attr_val \<Rightarrow> string) \<Rightarrow> 'c lru_ops \<Rightarrow> traces \<Rightarrow> 'c spm \<Rightarrow> 'c spm" where
  "spm_aggregateMetrics as_string lru td p = fold (aggregate_span as_string lru) (service_spans td) p"

text \<open>The next consumer gets the traces as they came, and its error is returned.\<close>

definition spm_ConsumeTraces ::
    "(attr_val \<Rightarrow> string) \<Rightarrow> 'c lru_ops \<Rightarrow> (traces \<Rightarrow> 'e option) \<Rightarrow> traces \<Rightarrow> 'c spm \<Rightarrow> 'e option \<times> 'c spm \<times> traces list" where
  "spm_ConsumeTraces as_string lru next_consumer td p = (next_consumer td, spm_aggregateMetrics as_string lru td p, [td])"

section \<open>Export\<close>

record call_point =
  cp_start :: timestamp
  cp_time :: timestamp
  cp_value :: i64
  cp_attrs :: attrs

text \<open>An exemplar without a trace id is appended empty.\<close>

datatype out_exemplar = EmptyExemplar | Exemplar timestamp "byte list" "byte list" float64

record latency_point =
  lp_start :: timestamp
  lp_time :: timestamp
  lp_bounds :: "float64 list"
  lp_buckets :: "64 word list"
  lp_count :: "64 word"
  lp_sum :: float64
  lp_exemplars :: "out_exemplar list"
  lp_attrs :: attrs

text \<open>\<open>calls_total\<close> is a monotonic sum, \<open>latency\<close> a histogram in milliseconds.\<close>

record span_metrics =
  sp_calls_name :: string
  sp_latency_name :: string
  sp_temporality :: temporality
  sp_calls :: "call_point list"
  sp_latency :: "latency_point list"

definition buildMetricName :: "string \<Rightarrow> string \<Rightarrow> string" where
  "buildMetricName namespace name = (if namespace \<noteq> [] then namespace @ ''.'' @ name else name)"

definition setExemplars :: "span_exemplar list \<Rightarrow> timestamp \<Rightarrow> out_exemplar list" where
  "setExemplars exemplarsData time =
     map (\<lambda>ed. if se_trace_id ed = replicate 16 0 then EmptyExemplar
               else Exemplar time (se_trace_id ed) (se_span_id ed) (se_value ed)) exemplarsData"

text \<open>\<open>keys\<close> are the keys of the histograms in the order of Go's range.\<close>

definition collectCallMetrics :: "string list \<Rightarrow> int \<Rightarrow> 'c spm \<Rightarrow> call_point list" where
  "collectCallMetrics keys now p =
     List.map_filter (\<lambda>k. map_option (\<lambda>h. \<lparr>cp_start = spm_start p, cp_time = word_of_int now, cp_value = sh_count h, cp_attrs = sh_attributes h\<rparr>)
       (spm_histograms p k)) keys"

definition spm_collectLatencyMetrics :: "string list \<Rightarrow> int \<Rightarrow> 'c spm \<Rightarrow> latency_point list" where
  "spm_collectLatencyMetrics keys now p =
     List.map_filter (\<lambda>k. map_option (\<lambda>h.
         \<lparr>lp_start = spm_start p, lp_time = word_of_int now, lp_bounds = spm_bounds p, lp_buckets = sh_buckets h, lp_count = sh_count h,
          lp_sum = sh_sum h, lp_exemplars = setExemplars (sh_exemplars h) (word_of_int now), lp_attrs = sh_attributes h\<rparr>)
       (spm_histograms p k)) keys"

definition spm_buildMetrics :: "(nat \<Rightarrow> string set \<Rightarrow> string list) \<Rightarrow> int \<Rightarrow> int \<Rightarrow> 'c spm \<Rightarrow> span_metrics" where
  "spm_buildMetrics order now now' p =
     (let keys = dom (spm_histograms p); c = spm_config p
      in \<lparr>sp_calls_name = buildMetricName (spm_namespace c) ''calls_total'',
          sp_latency_name = buildMetricName (spm_namespace c) ''latency'', sp_temporality = GetAggregationTemporality c,
          sp_calls = collectCallMetrics (order 0 keys) now p, sp_latency = spm_collectLatencyMetrics (order 1 keys) now' p\<rparr>)"

definition resetExemplars :: "'c spm \<Rightarrow> 'c spm" where
  "resetExemplars p = p\<lparr>spm_histograms := (\<lambda>k. map_option (\<lambda>histo. histo\<lparr>sh_exemplars := []\<rparr>) (spm_histograms p k))\<rparr>"

text \<open>What the exporter answers is only logged.\<close>

definition exportMetrics :: "'c lru_ops \<Rightarrow> (nat \<Rightarrow> string set \<Rightarrow> string list) \<Rightarrow> int \<Rightarrow> int \<Rightarrow> 'c spm \<Rightarrow> span_metrics \<times> 'c spm" where
  "exportMetrics lru order now now' p =
     (let m = spm_buildMetrics order now now' p;
          p = resetExemplars p;
          p = (if GetAggregationTemporality (spm_config p) = TempDelta
               then p\<lparr>spm_histograms := Map.empty, spm_cache := cache_Purge lru (spm_cache p)\<rparr>
               else p\<lparr>spm_cache := RemoveEvictedItems (spm_cache p)\<rparr>)
      in (m, p))"

end
