(* ===== verification/SpanMetricsRuns.thy ===== *)
theory SpanMetricsRuns
  imports SpanMetrics "HOL-Library.List_Lexorder" "HOL-Library.Char_ord"
begin

text \<open>
  What the span metrics hold and export after any sequence of calls and flushes, what a metric key says of
  its spans, and what the validation of the dimensions gives.
\<close>

section \<open>Runs\<close>

datatype spm_op = SpmBatch traces | SpmFlush int int

fun spm_run ::
    "(attr_val \<Rightarrow> string) \<Rightarrow> 'c lru_ops \<Rightarrow> (nat \<Rightarrow> string set \<Rightarrow> string list) \<Rightarrow> spm_op list \<Rightarrow> 'c spm \<Rightarrow> span_metrics list \<times> 'c spm" where
  "spm_run as_string lru order [] p = ([], p)"
| "spm_run as_string lru order (SpmBatch td # ops) p =
     spm_run as_string lru order ops (spm_aggregateMetrics as_string lru td p)"
| "spm_run as_string lru order (SpmFlush now now' # ops) p =
     (let (m, p) = exportMetrics lru order now now' p; (ms, p) = spm_run as_string lru order ops p in (m # ms, p))"

text \<open>The spans since the counts started again, and those since the last flush.\<close>

fun seen :: "bool \<Rightarrow> spm_op list \<Rightarrow> (string \<times> attrs \<times> ot_span) list \<times> (string \<times> attrs \<times> ot_span) list \<Rightarrow>
    (string \<times> attrs \<times> ot_span) list \<times> (string \<times> attrs \<times> ot_span) list" where
  "seen delta [] xs = xs"
| "seen delta (SpmBatch td # ops) (xs, fresh) = seen delta ops (xs @ service_spans td, fresh @ service_spans td)"
| "seen delta (SpmFlush now now' # ops) (xs, fresh) = seen delta ops (if delta then [] else xs, [])"

definition is_delta :: "spm_config \<Rightarrow> bool" where "is_delta cfg \<longleftrightarrow> GetAggregationTemporality cfg = TempDelta"

fun span_key :: "(attr_val \<Rightarrow> string) \<Rightarrow> sm_dimension list \<Rightarrow> string \<times> attrs \<times> ot_span \<Rightarrow> string" where
  "span_key as_string dims (serviceName, resourceAttr, sp) = buildKey as_string serviceName sp dims resourceAttr"

fun span_attributes :: "sm_dimension list \<Rightarrow> string \<times> attrs \<times> ot_span \<Rightarrow> attrs" where
  "span_attributes dims (serviceName, resourceAttr, sp) = buildAttributes dims serviceName sp resourceAttr"

definition with_key :: "(attr_val \<Rightarrow> string) \<Rightarrow> sm_dimension list \<Rightarrow> string \<Rightarrow> (string \<times> attrs \<times> ot_span) list \<Rightarrow> (string \<times> attrs \<times> ot_span) list" where
  "with_key as_string dims k xs = filter (\<lambda>x. span_key as_string dims x = k) xs"

definition latencies :: "(string \<times> attrs \<times> ot_span) list \<Rightarrow> float64 list" where
  "latencies xs = map (\<lambda>(_, _, sp). span_latency sp) xs"

definition exemplars_of :: "(string \<times> attrs \<times> ot_span) list \<Rightarrow> span_exemplar list" where
  "exemplars_of xs = map (\<lambda>(_, _, sp). \<lparr>se_trace_id = os_trace_id sp, se_span_id = os_span_id sp, se_value = span_latency sp\<rparr>) xs"

text \<open>The histogram of the spans \<open>xs\<close> of a key, \<open>fresh\<close> of which are not exported yet.\<close>

definition histogram_of ::
    "sm_dimension list \<Rightarrow> float64 list \<Rightarrow> (string \<times> attrs \<times> ot_span) list \<Rightarrow> (string \<times> attrs \<times> ot_span) list \<Rightarrow> span_histogram option" where
  "histogram_of dims bounds xs fresh =
     (if xs = [] then None
      else Some \<lparr>sh_attributes = span_attributes dims (hd xs), sh_count = word_of_nat (length xs), sh_sum = value_sum (latencies xs),
                 sh_buckets = histogram_counts bounds (latencies xs), sh_exemplars = exemplars_of fresh, sh_bounds = bounds\<rparr>)"

text \<open>
  The contract of the least-recently-used list: it holds keys that were added, an addition moves keys
  out only by evicting them, a purge empties it.
\<close>

definition lru_keeps :: "'c lru_ops \<Rightarrow> ('c \<Rightarrow> string set) \<Rightarrow> bool" where
  "lru_keeps lru keys \<longleftrightarrow>
     (\<forall>n c. lru_new lru n = Some c \<longrightarrow> keys c = {}) \<and>
     (\<forall>c k. (fst (lru_get lru c k) \<noteq> None \<longrightarrow> k \<in> keys c) \<and> keys (snd (lru_get lru c k)) \<subseteq> keys c) \<and>
     (\<forall>c k v. keys (fst (lru_add lru c k v)) \<union> fst ` set (snd (lru_add lru c k v)) \<subseteq> insert k (keys c)) \<and>
     (\<forall>c. keys (fst (lru_purge lru c)) = {})"

definition cached :: "('c \<Rightarrow> string set) \<Rightarrow> 'c dim_cache \<Rightarrow> string set" where
  "cached keys c = keys (dc_lru c) \<union> dom (dc_evicted c)"

lemma evict_dom: "dom (evict es m) = dom m \<union> fst ` set es"
  unfolding evict_def by (induction es arbitrary: m) (auto split: prod.splits)

lemma lru_keeps_facts:
  assumes "lru_keeps lru keys"
  shows "lru_new lru n = Some c \<Longrightarrow> keys c = {}"
    "lru_get lru c k = (r, l) \<Longrightarrow> (r \<noteq> None \<longrightarrow> k \<in> keys c) \<and> keys l \<subseteq> keys c"
    "lru_add lru c k v = (l, es) \<Longrightarrow> keys l \<union> fst ` set es \<subseteq> insert k (keys c)"
    "lru_purge lru c = (l, es) \<Longrightarrow> keys l = {}"
  using assms unfolding lru_keeps_def by (metis fst_conv snd_conv)+

lemma cached_Add:
  assumes "lru_keeps lru keys"
  shows "cached keys (cache_Add lru k v c) \<subseteq> insert k (cached keys c)"
proof -
  obtain l es where a: "lru_add lru (dc_lru c) k v = (l, es)" by (rule prod.exhaust)
  from lru_keeps_facts(3) [OF assms a] a show ?thesis by (auto simp: cached_def cache_Add_def evict_dom)
qed

lemma cached_Get:
  assumes law: "lru_keeps lru keys" and get: "cache_Get lru k c = (r, c')"
  shows "cached keys c' \<subseteq> cached keys c \<and> (r \<noteq> None \<longrightarrow> k \<in> cached keys c)"
proof -
  obtain r1 l where g: "lru_get lru (dc_lru c) k = (r1, l)" by (rule prod.exhaust)
  from law g have k: "r1 \<noteq> None \<longrightarrow> k \<in> keys (dc_lru c)" "keys l \<subseteq> keys (dc_lru c)"
    using lru_keeps_facts(2) [OF law g] by auto
  show ?thesis
  proof (cases r1)
    case (Some v)
    with g get k show ?thesis by (auto simp: cache_Get_def cached_def)
  next
    case None
    show ?thesis
    proof (cases "dc_evicted c k")
      case None
      with \<open>r1 = None\<close> g get k show ?thesis by (auto simp: cache_Get_def cached_def)
    next
      case (Some v)
      let ?c = "c\<lparr>dc_lru := l, dc_evicted := (dc_evicted c)(k := None)\<rparr>"
      have "r = Some v" "c' = cache_Add lru k v ?c" using \<open>r1 = None\<close> Some g get by (simp_all add: cache_Get_def)
      moreover have "cached keys ?c \<subseteq> cached keys c" using k(2) by (auto simp: cached_def)
      moreover have "k \<in> cached keys c" using Some by (auto simp: cached_def)
      ultimately show ?thesis using cached_Add [OF law, of k v ?c] by blast
    qed
  qed
qed

section \<open>The invariant\<close>

definition spm_holds ::
    "(attr_val \<Rightarrow> string) \<Rightarrow> ('c \<Rightarrow> string set) \<Rightarrow> spm_config \<Rightarrow> float64 list \<Rightarrow> timestamp \<Rightarrow>
     (string \<times> attrs \<times> ot_span) list \<Rightarrow> (string \<times> attrs \<times> ot_span) list \<Rightarrow> 'c spm \<Rightarrow> bool" where
  "spm_holds as_string keys cfg bounds start xs fresh p \<longleftrightarrow>
     spm_config p = cfg \<and> spm_dimensions p = spm_cfg_dimensions cfg \<and> spm_bounds p = bounds \<and> spm_start p = start \<and>
     set fresh \<subseteq> set xs \<and>
     (\<forall>k. spm_histograms p k =
        histogram_of (spm_cfg_dimensions cfg) bounds (with_key as_string (spm_cfg_dimensions cfg) k xs)
          (with_key as_string (spm_cfg_dimensions cfg) k fresh)) \<and>
     cached keys (spm_cache p) \<subseteq> dom (spm_histograms p)"

lemma with_key_snoc [simp]:
  "with_key as_string dims k (xs @ [x]) = with_key as_string dims k xs @ (if span_key as_string dims x = k then [x] else [])"
  by (simp add: with_key_def)

lemma with_key_Nil [simp]: "with_key as_string dims k [] = []"
  by (simp add: with_key_def)

lemma observe_histogram:
  "histogram_of dims bounds xs fresh = Some h \<Longrightarrow>
   Some (observe (span_latency sp) (os_trace_id sp) (os_span_id sp) h) = histogram_of dims bounds (xs @ [(s, ra, sp)]) (fresh @ [(s, ra, sp)])"
  by (auto simp: histogram_of_def observe_def Let_def latencies_def exemplars_of_def histogram_counts_snoc split: if_splits)

lemma observe_new:
  "Some (observe (span_latency sp) (os_trace_id sp) (os_span_id sp)
     \<lparr>sh_attributes = span_attributes dims (s, ra, sp), sh_count = 0, sh_sum = 0, sh_buckets = replicate (length bounds + 1) 0,
      sh_exemplars = [], sh_bounds = bounds\<rparr>) = histogram_of dims bounds [(s, ra, sp)] [(s, ra, sp)]"
  using histogram_counts_snoc [of bounds "[]" "span_latency sp"] value_sum_simps(2) [of "[]" "span_latency sp"]
  by (simp add: histogram_of_def observe_def Let_def latencies_def exemplars_of_def histogram_counts_Nil del: value_sum_simps(2) replicate_Suc)

lemma aggregate_span_holds:
  assumes law: "lru_keeps lru keys" and inv: "spm_holds as_string keys cfg bounds start xs fresh p"
  shows "spm_holds as_string keys cfg bounds start (xs @ [x]) (fresh @ [x]) (aggregate_span as_string lru x p)"
proof -
  obtain s ra sp where x: "x = (s, ra, sp)" by (cases x)
  let ?dims = "spm_cfg_dimensions cfg"
  let ?k = "span_key as_string ?dims x"
  let ?xs = "with_key as_string ?dims ?k xs" and ?fresh = "with_key as_string ?dims ?k fresh"
  from inv have p: "spm_config p = cfg" "spm_dimensions p = ?dims" "spm_bounds p = bounds" "spm_start p = start" "set fresh \<subseteq> set xs"
    and h: "\<And>k. spm_histograms p k = histogram_of ?dims bounds (with_key as_string ?dims k xs) (with_key as_string ?dims k fresh)"
    and c: "cached keys (spm_cache p) \<subseteq> dom (spm_histograms p)" by (simp_all add: spm_holds_def)
  obtain found c1 where g: "cache_Get lru ?k (spm_cache p) = (found, c1)" by (rule prod.exhaust)
  define a where "a = (case found of Some a \<Rightarrow> a | None \<Rightarrow> span_attributes ?dims x)"
  define c2 where "c2 = (case found of Some a \<Rightarrow> c1 | None \<Rightarrow> cache_Add lru ?k a c1)"
  have c2: "cached keys c2 \<subseteq> insert ?k (dom (spm_histograms p))"
    using cached_Get [OF law g] cached_Add [OF law, of ?k a c1] c by (auto simp: c2_def split: option.splits)
  define h0 where "h0 = (case spm_histograms p ?k of Some h \<Rightarrow> h
    | None \<Rightarrow> \<lparr>sh_attributes = a, sh_count = 0, sh_sum = 0, sh_buckets = replicate (length bounds + 1) 0, sh_exemplars = [], sh_bounds = bounds\<rparr>)"
  have step: "aggregate_span as_string lru x p =
      p\<lparr>spm_cache := c2, spm_histograms := (spm_histograms p)(?k \<mapsto> observe (span_latency sp) (os_trace_id sp) (os_span_id sp) h0)\<rparr>"
    using g by (simp add: aggregate_span_def x p getOrCreateHistogram_def a_def c2_def h0_def Let_def split: option.splits)
  have new: "Some (observe (span_latency sp) (os_trace_id sp) (os_span_id sp) h0) = histogram_of ?dims bounds (?xs @ [x]) (?fresh @ [x])"
  proof (cases "spm_histograms p ?k")
    case (Some h1)
    with h [of ?k] observe_histogram [of ?dims bounds ?xs ?fresh h1 sp s ra] show ?thesis by (simp add: h0_def x)
  next
    case None
    then have "?xs = []" using h [of ?k] by (simp add: histogram_of_def split: if_splits)
    moreover have "?fresh = []" using \<open>?xs = []\<close> p(5) by (auto simp: with_key_def filter_empty_conv)
    moreover have "found = None" using cached_Get [OF law g] c None by auto
    ultimately show ?thesis using observe_new [of sp ?dims s ra bounds] None by (simp add: h0_def a_def x)
  qed
  show ?thesis
    unfolding spm_holds_def step using p c2 h new by (auto simp: with_key_snoc)
qed

lemma aggregate_holds:
  "lru_keeps lru keys \<Longrightarrow> spm_holds as_string keys cfg bounds start xs fresh p \<Longrightarrow>
   spm_holds as_string keys cfg bounds start (xs @ ys) (fresh @ ys) (fold (aggregate_span as_string lru) ys p)"
proof (induction ys arbitrary: xs fresh p)
  case (Cons y ys)
  from Cons.IH [OF Cons.prems(1) aggregate_span_holds [OF Cons.prems]] show ?case by simp
qed simp

lemma flush_holds:
  assumes law: "lru_keeps lru keys" and inv: "spm_holds as_string keys cfg bounds start xs fresh p"
    and e: "exportMetrics lru order now now' p = (m, p')"
  shows "spm_holds as_string keys cfg bounds start (if is_delta cfg then [] else xs) [] p'"
proof -
  from inv have p: "spm_config p = cfg" "spm_dimensions p = spm_cfg_dimensions cfg" "spm_bounds p = bounds" "spm_start p = start"
    by (simp_all add: spm_holds_def)
  obtain l es where pu: "lru_purge lru (dc_lru (spm_cache p)) = (l, es)" by (rule prod.exhaust)
  from lru_keeps_facts(4) [OF law pu] have l: "keys l = {}" .
  show ?thesis
  proof (cases "is_delta cfg")
    case True
    with e p pu l show ?thesis
      by (auto simp: spm_holds_def exportMetrics_def is_delta_def resetExemplars_def histogram_of_def cached_def cache_Purge_def
          RemoveEvictedItems_def Let_def)
  next
    case False
    with e p inv show ?thesis
      by (auto simp: spm_holds_def exportMetrics_def is_delta_def resetExemplars_def histogram_of_def cached_def RemoveEvictedItems_def
          exemplars_of_def Let_def dom_def)
  qed
qed

lemma run_holds:
  "lru_keeps lru keys \<Longrightarrow> spm_holds as_string keys cfg bounds start xs fresh p \<Longrightarrow> spm_run as_string lru order ops p = (ms, p') \<Longrightarrow>
   seen (is_delta cfg) ops (xs, fresh) = (ys, fresh') \<Longrightarrow> spm_holds as_string keys cfg bounds start ys fresh' p'"
proof (induction ops arbitrary: xs fresh p ms)
  case (Cons op ops)
  show ?case
  proof (cases op)
    case (SpmBatch td)
    with Cons.prems(3,4) Cons.IH [OF Cons.prems(1) aggregate_holds [OF Cons.prems(1,2), of "service_spans td"]] show ?thesis
      by (simp add: spm_aggregateMetrics_def)
  next
    case (SpmFlush now now')
    obtain m p1 where e: "exportMetrics lru order now now' p = (m, p1)" by (rule prod.exhaust)
    obtain ms1 where "spm_run as_string lru order ops p1 = (ms1, p')"
      using Cons.prems(3) SpmFlush e by (auto split: prod.splits)
    from Cons.IH [OF Cons.prems(1) flush_holds [OF Cons.prems(1,2) e] this] Cons.prems(4) SpmFlush show ?thesis by simp
  qed
qed simp

section \<open>What is exported\<close>

definition call_point_of :: "spm_config \<Rightarrow> timestamp \<Rightarrow> int \<Rightarrow> (string \<times> attrs \<times> ot_span) list \<Rightarrow> call_point" where
  "call_point_of cfg start now xs =
     \<lparr>cp_start = start, cp_time = word_of_int now, cp_value = word_of_nat (length xs), cp_attrs = span_attributes (spm_cfg_dimensions cfg) (hd xs)\<rparr>"

definition latency_point_of ::
    "spm_config \<Rightarrow> float64 list \<Rightarrow> timestamp \<Rightarrow> int \<Rightarrow> (string \<times> attrs \<times> ot_span) list \<Rightarrow> (string \<times> attrs \<times> ot_span) list \<Rightarrow> latency_point" where
  "latency_point_of cfg bounds start now xs fresh =
     \<lparr>lp_start = start, lp_time = word_of_int now, lp_bounds = bounds, lp_buckets = histogram_counts bounds (latencies xs),
      lp_count = word_of_nat (length xs), lp_sum = value_sum (latencies xs),
      lp_exemplars = setExemplars (exemplars_of fresh) (word_of_int now), lp_attrs = span_attributes (spm_cfg_dimensions cfg) (hd xs)\<rparr>"

lemma map_filter_total: "(\<And>k. k \<in> set ks \<Longrightarrow> f k = Some (g k)) \<Longrightarrow> List.map_filter f ks = map g ks"
  by (induction ks) (simp_all add: List.map_filter_simps)

lemma new_holds:
  assumes law: "lru_keeps lru keys" and new: "spm_newProcessor lru now cfg = Some p"
  shows "spm_holds as_string keys cfg (spm_bounds p) (word_of_int now) [] [] p"
proof -
  obtain c where c: "lru_new lru (spm_cache_size cfg) = Some c"
    using new by (auto simp: spm_newProcessor_def NewCache_def split: option.splits)
  have "newDimensions ds = ds" for ds
    unfolding newDimensions_def by (rule map_idI, rule sm_dimension.equality) simp_all
  with new c lru_keeps_facts(1) [OF law c] show ?thesis
    by (auto simp: spm_newProcessor_def NewCache_def spm_holds_def histogram_of_def cached_def)
qed

text \<open>
  C18: after any sequence of calls and flushes, a flush exports, for every key of a span since the
  counts started (at the last flush when they are deltas, at the creation otherwise), one call count and
  one histogram: their number, the sum of their latencies and a bucket for each, with the attributes of
  the first of them and as exemplars those that came since the last flush; what the cache of dimensions
  has forgotten does not show.
\<close>

theorem span_metrics_exported:
  assumes law: "lru_keeps lru keys" and new: "spm_newProcessor lru created cfg = Some p0"
    and run: "spm_run as_string lru order ops p0 = (ms, p)" and "export": "exportMetrics lru order now now' p = (m, p')"
    and seen: "seen (is_delta cfg) ops ([], []) = (xs, fresh)" and order: "\<forall>n S. finite S \<longrightarrow> set (order n S) = S"
  shows "let of_key = with_key as_string (spm_cfg_dimensions cfg); ks = span_key as_string (spm_cfg_dimensions cfg) ` set xs
    in sp_calls m = map (\<lambda>k. call_point_of cfg (word_of_int created) now (of_key k xs)) (order 0 ks) \<and>
       sp_latency m =
         map (\<lambda>k. latency_point_of cfg (spm_bounds p0) (word_of_int created) now' (of_key k xs) (of_key k fresh)) (order 1 ks)"
proof -
  let ?dims = "spm_cfg_dimensions cfg"
  let ?of_key = "with_key as_string ?dims" and ?ks = "span_key as_string ?dims ` set xs"
  note inv = run_holds [OF law new_holds [OF law new] run seen]
  then have h: "\<And>k. spm_histograms p k = histogram_of ?dims (spm_bounds p0) (?of_key k xs) (?of_key k fresh)"
    and p: "spm_start p = word_of_int created" "spm_bounds p = spm_bounds p0" by (simp_all add: spm_holds_def)
  have ne: "?of_key k xs \<noteq> [] \<longleftrightarrow> k \<in> ?ks" for k by (auto simp: with_key_def filter_empty_conv)
  have d: "dom (spm_histograms p) = ?ks"
    using ne by (auto simp: h histogram_of_def dom_def split: if_splits)
  have m: "m = spm_buildMetrics order now now' p" using "export" by (simp add: exportMetrics_def Let_def)
  have mem: "k \<in> set (order n ?ks) \<Longrightarrow> ?of_key k xs \<noteq> []" for k n using order ne by simp
  have "sp_calls m = map (\<lambda>k. call_point_of cfg (word_of_int created) now (?of_key k xs)) (order 0 ?ks)"
    unfolding m spm_buildMetrics_def collectCallMetrics_def Let_def d p by (simp, rule map_filter_total)
      (use mem in \<open>simp add: h histogram_of_def call_point_of_def\<close>)
  moreover have "sp_latency m =
      map (\<lambda>k. latency_point_of cfg (spm_bounds p0) (word_of_int created) now' (?of_key k xs) (?of_key k fresh)) (order 1 ?ks)"
    unfolding m spm_buildMetrics_def spm_collectLatencyMetrics_def Let_def d p by (simp, rule map_filter_total)
      (use mem in \<open>simp add: h histogram_of_def latency_point_of_def\<close>)
  ultimately show ?thesis by (simp add: Let_def)
qed

text \<open>A list of keys that evicts the oldest, and three spans with a flush in between.\<close>

definition toy_lru :: "(int \<times> (string \<times> attrs) list) lru_ops" where
  "toy_lru = \<lparr>lru_new = (\<lambda>n. if n \<le> 0 then None else Some (n, [])), lru_get = (\<lambda>c k. (map_of (snd c) k, c)),
     lru_add = (\<lambda>(n, kvs) k v. let kvs = (k, v) # filter (\<lambda>kv. fst kv \<noteq> k) kvs in ((n, take (nat n) kvs), drop (nat n) kvs)),
     lru_purge = (\<lambda>(n, kvs). ((n, []), kvs)), lru_len = (\<lambda>c. length (snd c))\<rparr>"

lemma toy_lru_keeps: "lru_keeps toy_lru (\<lambda>c. fst ` set (snd c))"
proof -
  have add: "fst ` set (take n ((k, v) # filter (\<lambda>kv. fst kv \<noteq> k) xs)) \<union>
      fst ` set (drop n ((k, v) # filter (\<lambda>kv. fst kv \<noteq> k) xs)) \<subseteq> insert k (fst ` set xs)"
    for n :: nat and k :: string and v :: attrs and xs
  proof -
    have "fst ` set (take n ys) \<union> fst ` set (drop n ys) = fst ` set ys" for ys :: "(string \<times> attrs) list"
      by (metis append_take_drop_id image_Un set_append)
    then show ?thesis by auto
  qed
  moreover have "map_of xs k \<noteq> None \<longrightarrow> k \<in> fst ` set xs" for xs :: "(string \<times> attrs) list" and k
    by (simp add: map_of_eq_None_iff)
  ultimately show ?thesis
    unfolding lru_keeps_def toy_lru_def by (simp add: Let_def case_prod_unfold)
qed

definition attr_string :: "attr_val \<Rightarrow> string" where "attr_string v = (case v of AStr t \<Rightarrow> t | _ \<Rightarrow> [])"

definition key_order :: "nat \<Rightarrow> string set \<Rightarrow> string list" where "key_order n S = sorted_list_of_set S"

definition one_span :: "string \<Rightarrow> traces" where
  "one_span name = [empty_resource\<lparr>res_attrs := [''service.name'' \<mapsto> AStr ''s''],
     res_scopes := [empty_scope\<lparr>scope_items := [empty_span\<lparr>os_name := name, os_trace_id := replicate 16 1\<rparr>]\<rparr>]\<rparr>]"

definition spm_sample :: spm_config where
  "spm_sample = (spm_default_config False)\<lparr>spm_buckets := Some [], spm_cache_size := 1\<rparr>"

lemma one_span_simps [simp]:
  "service_spans (one_span name) = [(''s'', [''service.name'' \<mapsto> AStr ''s''], empty_span\<lparr>os_name := name, os_trace_id := replicate 16 1\<rparr>)]"
  by (simp add: service_spans_def one_span_def)

theorem span_metrics_exported_witness:
  "\<exists>p0 ms p m p'. spm_newProcessor toy_lru 5 spm_sample = Some p0 \<and>
     spm_run attr_string toy_lru key_order [SpmBatch (one_span ''a''), SpmBatch (one_span ''b''), SpmFlush 7 7, SpmBatch (one_span ''a'')] p0 = (ms, p) \<and>
     exportMetrics toy_lru key_order 9 9 p = (m, p') \<and> map cp_value (sp_calls m) = [2, 1] \<and> map cp_start (sp_calls m) = [5, 5] \<and>
     map (length \<circ> lp_exemplars) (sp_latency m) = [1, 0]"
proof -
  let ?ops = "[SpmBatch (one_span ''a''), SpmBatch (one_span ''b''), SpmFlush 7 7, SpmBatch (one_span ''a'')]"
  let ?x = "\<lambda>name. (''s'', [''service.name'' \<mapsto> AStr ''s''], empty_span\<lparr>os_name := name, os_trace_id := replicate 16 1\<rparr>)"
  let ?key = "\<lambda>name. span_key attr_string [] (?x name)"
  obtain p0 where p0: "spm_newProcessor toy_lru 5 spm_sample = Some p0"
    by (simp add: spm_newProcessor_def NewCache_def toy_lru_def spm_sample_def)
  obtain ms p where r: "spm_run attr_string toy_lru key_order ?ops p0 = (ms, p)" by (rule prod.exhaust)
  obtain m p' where e: "exportMetrics toy_lru key_order 9 9 p = (m, p')" by (rule prod.exhaust)
  have d: "is_delta spm_sample = False" "spm_cfg_dimensions spm_sample = []"
    by (simp_all add: is_delta_def GetAggregationTemporality_def spm_sample_def spm_default_config_def)
  have s: "seen (is_delta spm_sample) ?ops ([], []) = ([?x ''a'', ?x ''b'', ?x ''a''], [?x ''a''])" by (simp add: d)
  have k: "?key ''a'' = ''s'' @ [CHR 0x00] @ ''a'' @ [CHR 0x00] @ SpanKindStr KindUnspecified @ [CHR 0x00] @ StatusCodeStr StatusUnset"
    "?key ''b'' = ''s'' @ [CHR 0x00] @ ''b'' @ [CHR 0x00] @ SpanKindStr KindUnspecified @ [CHR 0x00] @ StatusCodeStr StatusUnset"
    by (simp_all add: buildKey_def concatDimensionValue_def empty_span_def)
  have ab: "?key ''a'' \<noteq> ?key ''b''" "?key ''a'' < ?key ''b''" unfolding k by (simp_all add: less_char_def)
  have o: "key_order n {?key ''a'', ?key ''b''} = [?key ''a'', ?key ''b'']" for n
    using ab by (simp add: key_order_def)
  have w: "with_key attr_string [] (?key ''a'') [?x ''a'', ?x ''b'', ?x ''a''] = [?x ''a'', ?x ''a'']"
    "with_key attr_string [] (?key ''b'') [?x ''a'', ?x ''b'', ?x ''a''] = [?x ''b'']"
    "with_key attr_string [] (?key ''a'') [?x ''a''] = [?x ''a'']" "with_key attr_string [] (?key ''b'') [?x ''a''] = []"
    using ab(1) by (simp_all add: with_key_def)
  have ord: "\<forall>n S. finite S \<longrightarrow> set (key_order n S) = S" by (simp add: key_order_def)
  note main = span_metrics_exported [OF toy_lru_keeps p0 r e s ord, unfolded d Let_def]
  have ks: "span_key attr_string [] ` set [?x ''a'', ?x ''b'', ?x ''a''] = {?key ''a'', ?key ''b''}" by auto
  have "map cp_value (sp_calls m) = [2, 1] \<and> map cp_start (sp_calls m) = [5, 5]"
    using main [THEN conjunct1] unfolding ks o list.map w by (simp add: call_point_of_def)
  moreover have "map (length \<circ> lp_exemplars) (sp_latency m) = [1, 0]"
    using main [THEN conjunct2] unfolding ks o list.map w by (simp add: latency_point_of_def setExemplars_def exemplars_of_def)
  ultimately show ?thesis using p0 r e
    by (intro exI [of _ p0] exI [of _ ms] exI [of _ p] exI [of _ m] exI [of _ p'] conjI) simp_all
qed

section \<open>What a key says\<close>

definition nul_free :: "string \<Rightarrow> bool" where "nul_free s \<longleftrightarrow> CHR 0x00 \<notin> set s"

fun dimension_texts :: "(attr_val \<Rightarrow> string) \<Rightarrow> sm_dimension list \<Rightarrow> string \<times> attrs \<times> ot_span \<Rightarrow> string list" where
  "dimension_texts as_string dims (s, ra, sp) =
     List.map_filter (\<lambda>d. map_option as_string (getDimensionValue d (os_attrs sp) ra)) dims"

fun key_parts :: "(attr_val \<Rightarrow> string) \<Rightarrow> sm_dimension list \<Rightarrow> string \<times> attrs \<times> ot_span \<Rightarrow> string list" where
  "key_parts as_string dims (s, ra, sp) =
     os_name sp # SpanKindStr (os_kind sp) # StatusCodeStr (os_status sp) # dimension_texts as_string dims (s, ra, sp)"

lemma key_parts_concat:
  "span_key as_string dims (s, ra, sp) = s @ concat (map (\<lambda>t. CHR 0x00 # t) (key_parts as_string dims (s, ra, sp)))"
proof -
  have "fold (\<lambda>d dest. case getDimensionValue d (os_attrs sp) ra of None \<Rightarrow> dest
        | Some v \<Rightarrow> concatDimensionValue dest (as_string v) True) dims dest =
      dest @ concat (map (\<lambda>t. CHR 0x00 # t) (List.map_filter (\<lambda>d. map_option as_string (getDimensionValue d (os_attrs sp) ra)) dims))" for dest
    by (induction dims arbitrary: dest) (auto simp: concatDimensionValue_def List.map_filter_simps split: option.splits)
  then show ?thesis by (simp add: buildKey_def concatDimensionValue_def)
qed

lemma nul_join_inj:
  "nul_free s \<Longrightarrow> nul_free s' \<Longrightarrow> \<forall>t \<in> set ts. nul_free t \<Longrightarrow> \<forall>t \<in> set ts'. nul_free t \<Longrightarrow>
   s @ concat (map (\<lambda>t. CHR 0x00 # t) ts) = s' @ concat (map (\<lambda>t. CHR 0x00 # t) ts') \<Longrightarrow> s = s' \<and> ts = ts'"
proof (induction ts arbitrary: s s' ts')
  case Nil
  then show ?case by (cases ts') (auto simp: nul_free_def)
next
  case (Cons t ts)
  have "ts' \<noteq> []"
  proof
    assume "ts' = []"
    with Cons.prems(5) have "s' = s @ CHR 0x00 # t @ concat (map (\<lambda>t. CHR 0x00 # t) ts)" by simp
    with Cons.prems(2) show False unfolding nul_free_def by (metis in_set_conv_decomp)
  qed
  then obtain t' ts1 where ts': "ts' = t' # ts1" by (cases ts') auto
  have tw: "takeWhile (\<lambda>c. c \<noteq> CHR 0x00) (a @ CHR 0x00 # r) = a" "dropWhile (\<lambda>c. c \<noteq> CHR 0x00) (a @ CHR 0x00 # r) = CHR 0x00 # r"
    if "nul_free a" for a r
    using that by (induction a) (auto simp: nul_free_def)
  let ?r = "t @ concat (map (\<lambda>t. CHR 0x00 # t) ts)" and ?r' = "t' @ concat (map (\<lambda>t. CHR 0x00 # t) ts1)"
  have eq: "s @ CHR 0x00 # ?r = s' @ CHR 0x00 # ?r'" using Cons.prems(5) by (simp add: ts')
  from arg_cong [OF eq, of "takeWhile (\<lambda>c. c \<noteq> CHR 0x00)"] have "s = s'" unfolding tw(1) [OF Cons.prems(1)] tw(1) [OF Cons.prems(2)] .
  moreover from arg_cong [OF eq, of "dropWhile (\<lambda>c. c \<noteq> CHR 0x00)"] have "?r = ?r'"
    unfolding tw(2) [OF Cons.prems(1)] tw(2) [OF Cons.prems(2)] by simp
  with Cons.IH [of t t' ts1] Cons.prems(3,4) ts' have "t = t' \<and> ts = ts1" by simp
  ultimately show ?case by (simp add: ts')
qed

lemma kind_status_inj:
  "SpanKindStr k = SpanKindStr k' \<Longrightarrow> SpanKindStr k \<noteq> [] \<Longrightarrow> k = k'"
  "StatusCodeStr c = StatusCodeStr c' \<Longrightarrow> StatusCodeStr c \<noteq> [] \<Longrightarrow> c = c'"
  by (cases k; cases k'; simp) (cases c; cases c'; simp)

lemma unnamed_kind_status:
  "SpanKindStr k = [] \<longleftrightarrow> (\<exists>n. k = KindOther n)" "StatusCodeStr c = [] \<longleftrightarrow> (\<exists>n. c = StatusOther n)"
  by (cases k; simp) (cases c; simp)

lemma kind_status_nul_free: "nul_free (SpanKindStr k)" "nul_free (StatusCodeStr c)"
  by (cases k; simp add: nul_free_def) (cases c; simp add: nul_free_def)

text \<open>
  C26: spans with a common key have the same service, name, and texts of kind and status - so the same
  kind and status, unless both are numbers without a name, which all have the empty text - and, in the
  order of the configuration, the same texts of the dimensions that have a value, provided none of the
  services, names and dimension texts contains the separator; which dimensions have them the key does
  not say.
\<close>

theorem span_key_says:
  assumes "span_key as_string dims (s, ra, sp) = span_key as_string dims (s', ra', sp')"
    and "\<forall>t \<in> {s, os_name sp, s', os_name sp'}. nul_free t"
    and "\<forall>t \<in> set (dimension_texts as_string dims (s, ra, sp)) \<union> set (dimension_texts as_string dims (s', ra', sp')). nul_free t"
  shows "s = s' \<and> os_name sp = os_name sp' \<and>
    SpanKindStr (os_kind sp) = SpanKindStr (os_kind sp') \<and> StatusCodeStr (os_status sp) = StatusCodeStr (os_status sp') \<and>
    (os_kind sp = os_kind sp' \<or> (\<exists>n n'. os_kind sp = KindOther n \<and> os_kind sp' = KindOther n')) \<and>
    (os_status sp = os_status sp' \<or> (\<exists>n n'. os_status sp = StatusOther n \<and> os_status sp' = StatusOther n')) \<and>
    dimension_texts as_string dims (s, ra, sp) = dimension_texts as_string dims (s', ra', sp')"
proof -
  have "s = s' \<and> key_parts as_string dims (s, ra, sp) = key_parts as_string dims (s', ra', sp')"
    using assms unfolding key_parts_concat by (intro nul_join_inj) (auto simp: kind_status_nul_free simp del: dimension_texts.simps)
  then have p: "s = s'" "os_name sp = os_name sp'" "SpanKindStr (os_kind sp) = SpanKindStr (os_kind sp')"
    "StatusCodeStr (os_status sp) = StatusCodeStr (os_status sp')"
    "dimension_texts as_string dims (s, ra, sp) = dimension_texts as_string dims (s', ra', sp')"
    by (auto simp del: dimension_texts.simps)
  moreover have "os_kind sp = os_kind sp' \<or> (\<exists>n n'. os_kind sp = KindOther n \<and> os_kind sp' = KindOther n')"
    using kind_status_inj(1) [OF p(3)] unnamed_kind_status(1) p(3) by metis
  moreover have "os_status sp = os_status sp' \<or> (\<exists>n n'. os_status sp = StatusOther n \<and> os_status sp' = StatusOther n')"
    using kind_status_inj(2) [OF p(4)] unnamed_kind_status(2) p(4) by metis
  ultimately show ?thesis by blast
qed

text \<open>Two spans of one key whose attributes differ: the value is of another dimension.\<close>

lemma missing_dimensions_collide:
  "\<exists>dims sp sp'. span_key attr_string dims (''s'', Map.empty, sp) = span_key attr_string dims (''s'', Map.empty, sp') \<and>
     span_attributes dims (''s'', Map.empty, sp) \<noteq> span_attributes dims (''s'', Map.empty, sp')"
proof -
  let ?dims = "[\<lparr>dim_name = ''x'', dim_default = None\<rparr>, \<lparr>dim_name = ''y'', dim_default = None\<rparr>]"
  let ?sp = "\<lambda>d. empty_span\<lparr>os_attrs := [d \<mapsto> AStr ''v'']\<rparr>"
  have "span_key attr_string ?dims (''s'', Map.empty, ?sp ''x'') = span_key attr_string ?dims (''s'', Map.empty, ?sp ''y'')"
    by (simp add: buildKey_def getDimensionValue_def concatDimensionValue_def empty_span_def)
  moreover have "span_attributes ?dims (''s'', Map.empty, ?sp ''x'') ''x'' \<noteq> span_attributes ?dims (''s'', Map.empty, ?sp ''y'') ''x''"
    by (simp add: buildAttributes_def getDimensionValue_def empty_span_def)
  ultimately show ?thesis by metis
qed

theorem span_key_says_witness:
  "\<exists>sp sp'. span_key attr_string [] (''s'', Map.empty, sp) = span_key attr_string [] (''s'', Map.empty, sp') \<and> sp \<noteq> sp' \<and>
     os_name sp = os_name sp' \<and> SpanKindStr (os_kind sp) = SpanKindStr (os_kind sp')"
proof -
  let ?sp = "empty_span" and ?sp' = "empty_span\<lparr>os_start := 1\<rparr>"
  have k: "span_key attr_string [] (''s'', Map.empty, ?sp) = span_key attr_string [] (''s'', Map.empty, ?sp')"
    by (simp add: buildKey_def)
  have n: "\<forall>t \<in> {''s'', os_name ?sp, ''s'', os_name ?sp'}. nul_free t" by (simp add: nul_free_def empty_span_def)
  have "?sp \<noteq> ?sp'" by (simp add: empty_span_def)
  with span_key_says [OF k n] k show ?thesis by (intro exI [of _ ?sp] exI [of _ ?sp']) (simp add: List.map_filter_simps)
qed

section \<open>Validated dimensions\<close>

lemma check_dimensions_ok:
  "check_dimensions skip dims labelNames = None \<Longrightarrow>
   distinct (map dim_name dims) \<and> distinct (map (sanitize skip \<circ> dim_name) dims) \<and>
   dim_name ` set dims \<inter> labelNames = {} \<and> (sanitize skip \<circ> dim_name) ` set dims \<inter> labelNames = {}"
proof (induction dims arbitrary: labelNames)
  case (Cons d dims)
  let ?n = "dim_name d" and ?s = "sanitize skip (dim_name d)"
  from Cons.prems have n: "?n \<notin> labelNames" and s: "?s = ?n \<or> ?s \<notin> insert ?n labelNames"
    and r: "check_dimensions skip dims (insert ?s (insert ?n labelNames)) = None"
    by (auto simp: Let_def insert_absorb split: if_splits)
  from Cons.IH [OF r] n s show ?case by auto
qed simp

lemma put_dimensions:
  "distinct (map dim_name ds) \<Longrightarrow> dim_name ` set ds \<inter> dom m = {} \<Longrightarrow>
   fold (\<lambda>d attr. case val d of None \<Rightarrow> attr | Some v \<Rightarrow> attr(dim_name d \<mapsto> v)) ds m n =
   (case find (\<lambda>d. dim_name d = n) ds of Some d \<Rightarrow> val d | None \<Rightarrow> m n)"
proof (induction ds arbitrary: m)
  case (Cons d ds)
  let ?m = "case val d of None \<Rightarrow> m | Some v \<Rightarrow> m(dim_name d \<mapsto> v)"
  have nf: "find (\<lambda>d. dim_name d = n) ds = None" if "dim_name d = n"
    using Cons.prems(1) that by (simp add: find_None_iff) (metis image_eqI)
  have "m (dim_name d) = None" using Cons.prems(2) by auto
  then have m: "?m n = (if dim_name d = n then val d else m n)" by (auto split: option.splits)
  have "distinct (map dim_name ds)" "dim_name ` set ds \<inter> dom ?m = {}" using Cons.prems by (auto split: option.splits)
  from Cons.IH [OF this] m nf show ?case by (cases "dim_name d = n") (simp_all split: option.splits)
qed simp

text \<open>
  C36: the dimensions of a valid configuration have different names, before and after sanitization, and
  none is, before or after it, the name of an attribute every span metric has; so the attributes of a
  span are its four own with the value found for each dimension.
\<close>

theorem validated_dimensions:
  assumes "spm_Validate gate cfg = None"
  shows "distinct (map (sanitize gate \<circ> dim_name) (spm_cfg_dimensions cfg)) \<and>
    (dim_name ` set (spm_cfg_dimensions cfg) \<union> (sanitize gate \<circ> dim_name) ` set (spm_cfg_dimensions cfg)) \<inter>
      {''service.name'', ''operation'', ''span.kind'', ''status.code''} = {} \<and>
    (\<forall>n. span_attributes (spm_cfg_dimensions cfg) (s, ra, sp) n =
       (case find (\<lambda>d. dim_name d = n) (spm_cfg_dimensions cfg) of
          Some d \<Rightarrow> getDimensionValue d (os_attrs sp) ra
        | None \<Rightarrow> span_attributes [] (s, ra, sp) n))"
proof -
  let ?dims = "spm_cfg_dimensions cfg"
  have v: "check_dimensions gate ?dims (reserved_labels gate) = None"
    using assms by (auto simp: spm_Validate_def validateDimensions_def split: option.splits)
  note ok = check_dimensions_ok [OF v]
  have res: "{''service.name'', ''operation'', ''span.kind'', ''status.code''} \<subseteq> reserved_labels gate"
    by (auto simp: reserved_labels_def Let_def)
  have "span_attributes ?dims (s, ra, sp) n =
       (case find (\<lambda>d. dim_name d = n) ?dims of
          Some d \<Rightarrow> getDimensionValue d (os_attrs sp) ra
        | None \<Rightarrow> span_attributes [] (s, ra, sp) n)" for n
  proof -
    have "dim_name ` set ?dims \<inter> {''service.name'', ''operation'', ''span.kind'', ''status.code''} = {}" using ok res by blast
    then have "dim_name ` set ?dims \<inter> dom (span_attributes [] (s, ra, sp)) = {}" by (simp add: buildAttributes_def insert_commute)
    from put_dimensions [OF _ this, of "\<lambda>d. getDimensionValue d (os_attrs sp) ra" n] ok show ?thesis by (simp add: buildAttributes_def)
  qed
  with ok res show ?thesis by blast
qed

theorem validated_dimensions_witness:
  "spm_Validate False (spm_sample\<lparr>spm_cfg_dimensions := [\<lparr>dim_name = ''zone'', dim_default = None\<rparr>]\<rparr>) = None \<and>
   span_attributes [\<lparr>dim_name = ''zone'', dim_default = None\<rparr>] (''s'', [''zone'' \<mapsto> AStr ''z''], empty_span) ''zone'' = Some (AStr ''z'')"
proof -
  let ?cfg = "spm_sample\<lparr>spm_cfg_dimensions := [\<lparr>dim_name = ''zone'', dim_default = None\<rparr>]\<rparr>"
  have v: "spm_Validate False ?cfg = None"
    by code_simp
  from validated_dimensions [OF v, of "''s''" "[''zone'' \<mapsto> AStr ''z'']" empty_span] v show ?thesis
    by (simp add: getDimensionValue_def empty_span_def)
qed

end
