(* ===== verification/Spec2Isabelle.thy ===== *)
theory Spec2Isabelle
  imports SkywalkingServices SkywalkingReceiver OtlpReceiver DatadogReceiver LogsExtension GroupByTrace
    TailDelivery LoadBalancing CumulativeToDelta ProbabilisticSampler GroupByAttrs ServiceGraphRuns SpanMetricsRuns
begin

text \<open>
  The HoloInsight collector: an OpenTelemetry collector distribution (\<open>cmd/otelcontribcol\<close>) with
  three receivers and two extensions of its own and a bundled copy of the contrib components
  (\<open>opentelemetry-collector-contrib\<close>).  Agents send spans, metrics and logs to the receivers; the
  authenticator extension turns the credential of a request into a tenant; the receivers translate
  what they get to OpenTelemetry data, put the tenant on it and hand it to the next consumer.

  Parts and theories.

  \<^item> \<open>Prelude\<close>: machine types, \<open>outcome\<close> (a call returns or panics), the functions of \<open>strings\<close>,
    \<open>strconv\<close> and \<open>encoding/hex\<close> the sources use, attribute maps, and the simp collections.
  \<^item> \<open>Pdata\<close>: traces, metrics and logs as the sources fill them, \<open>items\<close> (all spans of a batch in
    order), loops that may panic, and grouping by a key, shared by the Datadog translation and by
    the batch splitting.
  \<^item> \<open>SharedComponent\<close>: \<open>sharedcomponent.go\<close> in both copies.  A registry maps configurations to
    wrappers on a heap, a wrapper has its two once flags; \<open>scs_step\<close> is any sequence of requests,
    starts and shutdowns.  The locale \<open>component_registry\<close> states what the factories rely on, with
    an interpretation for each copy.
  \<^item> \<open>Aes\<close>, \<open>HttpUtils\<close>, \<open>AuthExtension\<close>: \<open>aesutil.go\<close>, \<open>http_client_utils.go\<close> and
    \<open>httpforwarderauthextension/extension.go\<close>.  \<open>authenticate\<close> is the whole handler over a cache
    and a gateway that are parameters; \<open>auth_reachable\<close> any sequence of its calls.
  \<^item> \<open>SkywalkingIds\<close>, \<open>SkywalkingComponents\<close>, \<open>SkywalkingTraces\<close>, \<open>SkywalkingMetrics\<close>: the
    translation of segments and JVM metrics (\<open>skywalkingproto_to_traces.go\<close>, \<open>component.go\<close>,
    \<open>skywalkingproto_to_metrics.go\<close>), field by field, with its panics.
  \<^item> \<open>SkywalkingConfig\<close>, \<open>SkywalkingServices\<close>, \<open>SkywalkingReceiver\<close>: configuration, the stream,
    batch and HTTP handlers, and the receiver with its servers and factory (\<open>config.go\<close>,
    \<open>factory.go\<close>, \<open>tracing_report_service.go\<close>, \<open>metrics_report_service.go\<close>, \<open>sw_dummy_*.go\<close>,
    \<open>trace_receiver.go\<close>).
  \<^item> \<open>DatadogTraces\<close>, \<open>DatadogReceiver\<close>: \<open>translator.go\<close>, \<open>receiver.go\<close>, \<open>factory.go\<close>.
  \<^item> \<open>OtlpExport\<close>, \<open>OtlpReceiver\<close>: the OTLP services, their HTTP endpoints and encoders, and the
    receiver (\<open>otlp.go\<close>, \<open>otlphttp.go\<close>, \<open>encoder.go\<close>, \<open>config.go\<close>, \<open>factory.go\<close>, \<open>internal/\<close>).
  \<^item> \<open>LogsExtension\<close>: the log forwarding endpoint with its cache of clients, an explicit heap
    because cached clients are changed in place.
  \<^item> \<open>BatchPerSignal\<close>, \<open>RingBuffer\<close>, \<open>TraceStorage\<close>, \<open>GroupByTrace\<close>: the group-by-trace processor
    of the contrib module and what it uses (\<open>pkg/batchpersignal\<close>,
    \<open>processor/groupbytraceprocessor\<close>).  \<open>gbt_exec\<close> executes one label (an arrival, a worker's next
    event, a timer, a goroutine), \<open>gbt_run\<close> is a run of labels in any order; the locale
    \<open>trace_storage\<close> is the contract of the storage interface, interpreted on the memory storage.
  \<^item> \<open>GoFloat\<close>: Go's \<open>float64\<close> on its bit patterns, with rounding to nearest even; rounding is monotone.
  \<^item> \<open>TailBatcher\<close>, \<open>TailPolicies\<close>, \<open>TailFilters\<close>, \<open>TailLimits\<close>, \<open>TailConfig\<close>, \<open>TailSampling\<close>,
    \<open>TailDelivery\<close>: the tail sampling processor of the contrib module
    (\<open>processor/tailsamplingprocessor\<close>).  \<open>TailBatcher\<close> is the pipe of id batches with the locale
    \<open>id_batcher\<close> of its interface; \<open>TailPolicies\<close> has every policy, \<open>evaluate\<close> being the method
    \<open>Evaluate\<close> of all of them; \<open>TailFilters\<close> and \<open>TailLimits\<close> hold what single policies decide;
    \<open>TailConfig\<close> builds policies from a configuration; \<open>TailSampling\<close> has the processor, whose
    goroutines are the operations of \<open>exec_op\<close> over a store of trace data, \<open>reaches\<close> a run of
    them in any order; \<open>TailDelivery\<close> has what becomes of the spans.
  \<^item> \<open>ConsistentHash\<close>, \<open>LbResolver\<close>, \<open>LoadBalancer\<close>, \<open>LoadBalancing\<close>: the load-balancing exporter of
    the contrib module (\<open>exporter/loadbalancingexporter\<close>).  \<open>ConsistentHash\<close> is the ring with its
    binary search, \<open>LbResolver\<close> the static and the DNS resolver with their callbacks, \<open>LoadBalancer\<close>
    the balancer that follows them (\<open>lb_reach\<close> is any run of resolutions), \<open>LoadBalancing\<close> the
    exporters of traces and logs; its locale \<open>balancing\<close> is what they need of a balancer.
  \<^item> \<open>PdataHash\<close>, \<open>FilterSets\<close>, \<open>MetricTracker\<close>, \<open>CumulativeToDelta\<close>: the cumulative-to-delta
    processor of the contrib module (\<open>processor/cumulativetodeltaprocessor\<close>) and what it uses: the
    hash of attributes (\<open>pkg/pdatautil/hash.go\<close>) as the bytes that are hashed, the sets of names
    (\<open>internal/filter/filterset\<close>), the last point of every series under its key (\<open>Convert\<close>), and the
    conversion of a batch in place.
  \<^item> \<open>RemoveIf\<close>: \<open>RemoveIf\<close> of the slices, and the nest of three of them that drops items and what they
    leave empty.
  \<^item> \<open>GoNumbers\<close>, \<open>ProbabilisticSampler\<close>: \<open>float32\<close>, the conversions to \<open>uint32\<close> and \<open>ParseFloat\<close>;
    the head sampler of spans and logs (\<open>processor/probabilisticsamplerprocessor\<close>).
  \<^item> \<open>GroupByAttrs\<close>: the processor that moves records to resources by their attributes
    (\<open>processor/groupbyattrsprocessor\<close>); its locale \<open>grouping\<close> is the search of a slice for an element
    of a key, interpreted for resources, scopes and metrics.
  \<^item> \<open>Histograms\<close>: bounds, the search for the bucket of a latency, and what buckets count, for the next two.
  \<^item> \<open>GraphStore\<close>, \<open>ServiceGraph\<close>, \<open>ServiceGraphRuns\<close>: the service graph processor
    (\<open>processor/servicegraphprocessor\<close>).  \<open>GraphStore\<close> is its store of half-known edges, a linked list
    with a map, and the list of edges it stands for; \<open>ServiceGraph\<close> has the spans, the counters and
    what is built of them; \<open>ServiceGraphRuns\<close> has the runs \<open>sg_run\<close>, in which the spans of calls,
    expirations and the three critical sections of a cleaning mix in any order.
  \<^item> \<open>SpanMetrics\<close>, \<open>SpanMetricsRuns\<close>: the span metrics processor (\<open>processor/spanmetricsprocessor\<close>)
    with its cache of dimensions, and what it exports after the calls and flushes \<open>spm_run\<close>.

  What the lemmas show.  Identity and tenant: the tenant of a SkyWalking span is the one the
  gateway returned for the credential of its request (the properties of this theory, of
  \<open>AuthExtension\<close> and of \<open>SkywalkingTraces\<close>), the OTLP receiver takes a header of the client
  instead.  Translations: no span is lost or duplicated, fields, identifiers and parent links
  survive, reserved attributes cannot be replaced, and the inputs that panic are exactly known.
  Lifecycles: components are started and stopped at most once, a shutdown stops what a start set
  serving, pipelines of a configuration share a receiver.  Handlers: status codes and what reaches
  the consumer in every case.  Group by trace: delivered batches hold one trace, the ids
  in flight are bounded, the ring buffer refines a window of its last insertions, and batches that no
  other event disturbs are delivered once and together.  Tail sampling: a trace is sent whole or not at all, no
  span twice, a trace is decided after a fixed number of ticks, nested policies
  and their rates decide as specified, and each policy decides what its configuration says - percentages nest, caches do not show,
  rate limits hold within a second.  Load balancing: the search finds the backend that owns the
  checksum of an identifier and never panics, a new backend takes identifiers only for itself, the
  exporters that run are those of the backends, and every trace goes whole to its backend.  Cumulative to
  delta: the processor is a front of the tracker, the tracker follows every series as if it were
  alone, differences add up, keys and hashes tell series apart as far as stated.  Head sampling:
  percentages nest up to the largest that fits and their ends are exact, the batches of logs that panic are known.  Grouping by
  attributes: the loop equals grouping by hash, scope and metric, loses nothing and is idempotent.
  Service graph: the store is a bounded list of edges, every series counts exactly the edges completed
  since it was last deleted, what is exported are these counts, and traces pass only with them.  Span
  metrics: a flush exports exactly what the spans give, whatever the cache forgot.  The
  theorems of kind error exhibit faults: inputs that
  panic, spans that are lost or attributed to another tenant, servers that keep running.

  Parameters.  Code outside the repository is an argument: the block cipher, JSON, YAML and protocol
  decoders, \<open>uuid.Parse\<close> and SHA-256, freecache, the network, listeners and servers, the log
  producer, the next consumer, the hash of the workers; for the policies the expression engine, the
  least-recently-used cache and the trace state parser; the 64-bit hash \<open>xxhash\<close>.  What a theorem needs of one is a named
  hypothesis (\<open>cache_refines\<close>: a cache forgets or returns what was stored; \<open>mset (visit gs) = mset gs\<close>:
  ranging over a map visits every entry once, in some order; \<open>lru_lawful\<close>: the cache of match results
  answers with what was added, if at all; \<open>lru_keeps\<close>: the list of dimensions holds only what was added
  and not evicted), and its witness applies it with a
  concrete function.

  Fuel and termination.  Every function terminates by its recursion or a measure; no fuel is used.
  Loops that may run forever are step relations (\<open>scs_reachable\<close>, \<open>auth_reachable\<close>,
  \<open>logs_reachable\<close>, \<open>gbt_run\<close>, \<open>reaches\<close>, \<open>lb_reach\<close>, \<open>sg_run\<close>).

  Not modelled: logging, metrics about the collector itself, schema URLs, nil elements of the
  repeated protocol fields other than spans, capacities of channels and timeouts of handlers
  (\<open>GroupByTrace\<close> treats a handler as one step and a queue as unbounded; \<open>TailSampling\<close> stores, counts
  and evicts in one step \<open>arrive\<close>, so what other goroutines see in between is left out), pools of buffers, the
  process entry point, the callbacks of the log producer, and the other contrib components.

  Order of work.  The components of the distribution's own come first, from the credential to the
  span; then the contrib processors that keep state, and the exporter that spreads traces over
  collectors.  The other contrib components are third-party copies that filter, rewrite or talk to
  other systems.
\<close>

section \<open>Who the spans belong to\<close>

text \<open>
  C1: from the credential to the span: over any run of the authenticator, the traces the SkyWalking
  receiver makes of a segment received under a successful authentication carry, on every
  resource, the tenant the gateway returned for exactly that credential, whatever the segment's
  service, tags or references say.
\<close>

theorem skywalking_tenant_end_to_end:
  assumes "auth_reachable dec unmarshal ops cfg empty_cache st"
    and "cache_refines ops view" and "view empty_cache = Map.empty"
    and "authenticate dec unmarshal ops net cfg background headers st = Ret ((Some ctx, None), st')"
    and "skywalking_to_traces env ctx segment = Ret t" and "r \<in> set t"
  shows "\<exists>header rest apikey response m.
           headers authentication_key = Some (header # rest) \<and> credential dec cfg header = Ret apikey \<and>
           (gateway_url cfg apikey, Inr response) \<in> set (as_trace st') \<and> unmarshal response = Inr m \<and>
           res_attrs r tenant_key = Some (AStr (gm_get m grpc_metadata_tenant)) \<and> gm_get m grpc_metadata_tenant \<noteq> []"
  using assms(4)
proof (rule authenticate_success)
  fix header rest apikey ctx1 response
  assume h: "headers authentication_key = Some (header # rest)" "credential dec cfg header = Ret apikey"
    and l: "lookup_credential ops net cfg apikey st = (Inr response, st')"
    and c: "check_response unmarshal headers ctx1 response = (Some ctx, None)"
  have "(gateway_url cfg apikey, Inr response) \<in> set (as_trace st')"
    using lookup_credential_inv [OF assms(2) auth_reachable_inv [OF assms(1-3)] l] by simp
  moreover have "res_attrs r tenant_key = map_option AStr (ctx_tenant ctx)"
    using skywalking_resource [OF assms(5,6)] by (simp add: sw_resource_tenant)
  ultimately show ?thesis
    using h c unfolding check_response_success by fastforce
qed

theorem skywalking_tenant_end_to_end_witness:
  "\<exists>t. skywalking_to_traces sample_env \<lparr>ctx_tags = None, ctx_tenant = Some ''acme'',
            ctx_metadata = Some [''authentication'' \<mapsto> [''k1'']]\<rparr> sample_segment = Ret t \<and> t \<noteq> [] \<and>
     list_all (\<lambda>r. res_attrs r tenant_key = Some (AStr ''acme'')) t"
proof -
  let ?ctx = "\<lparr>ctx_tags = None, ctx_tenant = Some ''acme'', ctx_metadata = Some [''authentication'' \<mapsto> [''k1'']]\<rparr>"
  obtain t where t: "skywalking_to_traces sample_env ?ctx sample_segment = Ret t" "t \<noteq> []"
    using sample_segment_translates [of ?ctx] by blast
  have start: "auth_reachable (\<lambda>_ b. b) toy_unmarshal toy_cache (toy_config False) Map.empty
      \<lparr>as_cache = Map.empty, as_trace = []\<rparr>"
    by (rule auth_start)
  have "res_attrs r tenant_key = Some (AStr ''acme'')" if "r \<in> set t" for r
    using skywalking_tenant_end_to_end [OF start toy_cache_refines refl toy_run t(1) that]
    by (auto simp: toy_unmarshal_def gm_get_def grpc_metadata_tenant_def)
  with t show ?thesis by (auto simp: list_all_iff)
qed

text \<open>
  C40: the OTLP receiver does not look at the tenant the authenticator established: an
  authenticated client that sends a \<open>tenant\<close> header of its own has its spans delivered under that
  tenant, and one that sends none under the empty tenant.
\<close>

theorem otlp_tenant_not_authenticated:
  assumes "authenticate dec unmarshal ops net cfg background headers st = Ret ((Some ctx, None), st')"
    and "item_count td \<noteq> 0"
  shows "\<exists>own td'. ctx_tenant ctx = Some own \<and> snd (export_traces consumer ctx td d) = d @ [td'] \<and>
           (\<forall>r \<in> set td'. res_attrs r ''tenant'' =
              Some (AStr (case headers ''tenant'' of Some (claimed # _) \<Rightarrow> claimed | _ \<Rightarrow> [])))"
  using assms(1)
proof (rule authenticate_success)
  fix header rest apikey ctx1 response
  assume "check_response unmarshal headers ctx1 response = (Some ctx, None)"
  then obtain own where "ctx_tenant ctx = Some own" "ctx_metadata ctx = Some headers"
    unfolding check_response_success by auto
  then show ?thesis
    using assms(2) by (auto simp: export_traces_def Let_def incoming_tenant_def tag_resource_fields)
qed

lemma spoofed_run:
  "authenticate (\<lambda>_ b. b) toy_unmarshal toy_cache toy_net (toy_config False) background
     [''authentication'' \<mapsto> [''k1''], ''tenant'' \<mapsto> [''other'']] \<lparr>as_cache = Map.empty, as_trace = []\<rparr> =
   Ret ((Some \<lparr>ctx_tags = None, ctx_tenant = Some ''acme'',
               ctx_metadata = Some [''authentication'' \<mapsto> [''k1''], ''tenant'' \<mapsto> [''other'']]\<rparr>, None),
        \<lparr>as_cache = [''k1'' \<mapsto> ''{t}''], as_trace = [(''gw?apikey=k1'', Inr ''{t}'')]\<rparr>)"
  by (simp add: toy_simps Let_def)

theorem otlp_tenant_not_authenticated_witness:
  "\<exists>ctx st' td'. authenticate (\<lambda>_ b. b) toy_unmarshal toy_cache toy_net (toy_config False) background
        [''authentication'' \<mapsto> [''k1''], ''tenant'' \<mapsto> [''other'']] \<lparr>as_cache = Map.empty, as_trace = []\<rparr> =
        Ret ((Some ctx, None), st') \<and> ctx_tenant ctx = Some ''acme'' \<and>
     snd (export_traces (\<lambda>_ _. None) ctx sample_otlp []) = [td'] \<and>
     (\<forall>r \<in> set td'. res_attrs r ''tenant'' = Some (AStr ''other''))"
proof -
  have "item_count sample_otlp \<noteq> 0" by (simp add: item_count_def sample_otlp_def)
  from otlp_tenant_not_authenticated [OF spoofed_run this, of "\<lambda>_ _. None" "[]"] spoofed_run
  show ?thesis by auto
qed

end
